(* ===== verification/Prelude.thy ===== *)
theory Prelude
  imports Main "HOL-Library.Word"
begin

text \<open>
  The shared vocabulary of the development.

  A C statement is a function from a state to either a fault or the next state
  (\<open>'s stmt\<close>); a C function with a result is an \<open>('s, 'a) op\<close>. The small set of
  statement combinators below (\<open>block\<close>, \<open>cond\<close>, \<open>reads\<close>, \<open>callv\<close>, ...) keeps the handlers
  in the shape of the source: a block is the list of its statements in order.

  A fault is a point where the C program has no next state: a failed \<open>Assert\<close> (which
  compiles to a trap unless \<open>NDEBUG\<close> is defined), an access outside an array, a loop that
  does not end, and, for the bounded nesting of event handlers, the end of the fuel.

  Partial-correctness triples with a set of admitted faults (\<open>hoare\<close>) and their
  rules carry the invariant proofs of all the components.
\<close>

unbundle bit_operations_syntax

named_theorems hoare_intro \<open>introduction rules for triples\<close>
named_theorems c_arith \<open>unsigned arithmetic where nothing wraps\<close>

type_synonym byte = "8 word"

section \<open>Statements\<close>

datatype fault = AssertFailed | OutOfBounds | Diverges | NoFuel

type_synonym 's stmt = "'s \<Rightarrow> fault + 's"
type_synonym ('s, 'a) op = "'s \<Rightarrow> fault + ('a \<times> 's)"

definition skip :: "'s stmt" where
  "skip w = Inr w"

definition fails :: "fault \<Rightarrow> 's stmt" where
  "fails f w = Inl f"

definition upd :: "('s \<Rightarrow> 's) \<Rightarrow> 's stmt" where
  "upd f w = Inr (f w)"

fun block :: "'s stmt list \<Rightarrow> 's stmt" where
  "block [] w = Inr w"
| "block (s # ss) w = (case s w of Inl f \<Rightarrow> Inl f | Inr w' \<Rightarrow> block ss w')"

definition cond :: "('s \<Rightarrow> bool) \<Rightarrow> 's stmt \<Rightarrow> 's stmt \<Rightarrow> 's stmt" where
  "cond c s t w = (if c w then s w else t w)"

definition reads :: "('s \<Rightarrow> 'a) \<Rightarrow> ('a \<Rightarrow> 's stmt) \<Rightarrow> 's stmt" where
  "reads f k w = k (f w) w"

definition callv :: "('s, 'a) op \<Rightarrow> ('a \<Rightarrow> 's stmt) \<Rightarrow> 's stmt" where
  "callv m k w = (case m w of Inl f \<Rightarrow> Inl f | Inr (a, w') \<Rightarrow> k a w')"

definition zoom :: "('s \<Rightarrow> 'c) \<Rightarrow> ('c \<Rightarrow> 's \<Rightarrow> 's) \<Rightarrow> 'c stmt \<Rightarrow> 's stmt" where
  "zoom sel put s w = (case s (sel w) of Inl f \<Rightarrow> Inl f | Inr c \<Rightarrow> Inr (put c w))"

text \<open>A statement that returns a value, and a call whose value is not used.\<close>

definition returns :: "'s stmt \<Rightarrow> 'a \<Rightarrow> ('s, 'a) op" where
  "returns s a w = (case s w of Inl f \<Rightarrow> Inl f | Inr w' \<Rightarrow> Inr (a, w'))"

definition call :: "('s, 'a) op \<Rightarrow> 's stmt" where
  "call m = callv m (\<lambda>_. skip)"

lemmas stmt_defs = skip_def fails_def upd_def cond_def reads_def callv_def zoom_def

lemma block_append:
  "block (ss @ ts) w = (case block ss w of Inl f \<Rightarrow> Inl f | Inr w' \<Rightarrow> block ts w')"
  by (induction ss arbitrary: w) (auto split: sum.splits)

lemma block_one [simp]: "block [s] = s"
  by (rule ext) (simp split: sum.splits)

section \<open>Triples\<close>

text \<open>
  \<open>hoare F P s Q\<close>: from a state with \<open>P\<close> the statement either ends in a state with \<open>Q\<close> or
  stops with a fault of \<open>F\<close>.
\<close>

definition hoare :: "fault set \<Rightarrow> ('s \<Rightarrow> bool) \<Rightarrow> 's stmt \<Rightarrow> ('s \<Rightarrow> bool) \<Rightarrow> bool" where
  "hoare F P s Q \<longleftrightarrow> (\<forall>w. P w \<longrightarrow> (case s w of Inl f \<Rightarrow> f \<in> F | Inr w' \<Rightarrow> Q w'))"

definition vhoare :: "fault set \<Rightarrow> ('s \<Rightarrow> bool) \<Rightarrow> ('s, 'a) op \<Rightarrow> ('a \<Rightarrow> 's \<Rightarrow> bool) \<Rightarrow> bool" where
  "vhoare F P m Q \<longleftrightarrow> (\<forall>w. P w \<longrightarrow> (case m w of Inl f \<Rightarrow> f \<in> F | Inr (a, w') \<Rightarrow> Q a w'))"

abbreviation keeps :: "fault set \<Rightarrow> ('s \<Rightarrow> bool) \<Rightarrow> 's stmt \<Rightarrow> bool" where
  "keeps F I s \<equiv> hoare F I s I"

lemma hoareI:
  assumes "\<And>w f. P w \<Longrightarrow> s w = Inl f \<Longrightarrow> f \<in> F"
    and "\<And>w w'. P w \<Longrightarrow> s w = Inr w' \<Longrightarrow> Q w'"
  shows "hoare F P s Q"
  using assms by (auto simp: hoare_def split: sum.splits)

lemma hoare_Inr: "hoare F P s Q \<Longrightarrow> P w \<Longrightarrow> s w = Inr w' \<Longrightarrow> Q w'"
  unfolding hoare_def by (metis sum.simps(6))

lemma hoare_Inl: "hoare F P s Q \<Longrightarrow> P w \<Longrightarrow> s w = Inl f \<Longrightarrow> f \<in> F"
  unfolding hoare_def by (metis sum.simps(5))

lemma hoare_total: "hoare {} P s Q \<Longrightarrow> P w \<Longrightarrow> \<exists>w'. s w = Inr w' \<and> Q w'"
  by (cases "s w") (auto dest: hoare_Inl hoare_Inr)

lemma hoare_weaken:
  "hoare F' P' s Q' \<Longrightarrow> F' \<subseteq> F \<Longrightarrow> (\<And>w. P w \<Longrightarrow> P' w) \<Longrightarrow> (\<And>w. Q' w \<Longrightarrow> Q w) \<Longrightarrow> hoare F P s Q"
  unfolding hoare_def by (fastforce split: sum.splits)

lemma hoare_pre: "hoare F P' s Q \<Longrightarrow> (\<And>w. P w \<Longrightarrow> P' w) \<Longrightarrow> hoare F P s Q"
  by (erule hoare_weaken) auto

lemma hoare_post: "hoare F P s Q' \<Longrightarrow> (\<And>w. Q' w \<Longrightarrow> Q w) \<Longrightarrow> hoare F P s Q"
  by (erule hoare_weaken) auto

lemma hoare_faults: "hoare {} P s Q \<Longrightarrow> hoare F P s Q"
  by (erule hoare_weaken) auto

lemma hoare_conj: "hoare F P s Q \<Longrightarrow> hoare F P s R \<Longrightarrow> hoare F P s (\<lambda>w. Q w \<and> R w)"
  unfolding hoare_def by (auto split: sum.splits)

lemma hoare_skip [hoare_intro]: "(\<And>w. P w \<Longrightarrow> Q w) \<Longrightarrow> hoare F P skip Q"
  by (simp add: hoare_def skip_def)

lemma hoare_fails [hoare_intro]: "(\<And>w. P w \<Longrightarrow> f \<in> F) \<Longrightarrow> hoare F P (fails f) Q"
  by (simp add: hoare_def fails_def)

lemma hoare_upd [hoare_intro]: "(\<And>w. P w \<Longrightarrow> Q (f w)) \<Longrightarrow> hoare F P (upd f) Q"
  by (simp add: hoare_def upd_def)

lemma hoare_block_Nil [hoare_intro]: "(\<And>w. P w \<Longrightarrow> Q w) \<Longrightarrow> hoare F P (block []) Q"
  by (simp add: hoare_def)

lemma hoare_block_Cons: "hoare F P s R \<Longrightarrow> hoare F R (block ss) Q \<Longrightarrow> hoare F P (block (s # ss)) Q"
  unfolding hoare_def by (fastforce split: sum.splits)

text \<open>The last statement of a block needs no rule for the empty rest.\<close>

lemma hoare_block_single [hoare_intro]: "hoare F P s Q \<Longrightarrow> hoare F P (block [s]) Q"
  unfolding hoare_def by (fastforce split: sum.splits)

lemma keeps_block [hoare_intro]:
  "keeps F I s \<Longrightarrow> hoare F I (block (t # ss)) Q \<Longrightarrow> hoare F I (block (s # t # ss)) Q"
  by (rule hoare_block_Cons)

lemma hoare_if [hoare_intro]:
  "(b \<Longrightarrow> hoare F P s Q) \<Longrightarrow> (\<not> b \<Longrightarrow> hoare F P t Q) \<Longrightarrow> hoare F P (if b then s else t) Q"
  by simp

lemma hoare_cond:
  "hoare F (\<lambda>w. P w \<and> c w) s Q \<Longrightarrow> hoare F (\<lambda>w. P w \<and> \<not> c w) t Q \<Longrightarrow> hoare F P (cond c s t) Q"
  by (auto simp: hoare_def cond_def)

lemma keeps_cond [hoare_intro]: "hoare F P s Q \<Longrightarrow> hoare F P t Q \<Longrightarrow> hoare F P (cond c s t) Q"
  by (auto simp: hoare_def cond_def)

lemma hoare_reads:
  "(\<And>a. hoare F (\<lambda>w. P w \<and> f w = a) (k a) Q) \<Longrightarrow> hoare F P (reads f k) Q"
  by (auto simp: hoare_def reads_def)

lemma keeps_reads [hoare_intro]: "(\<And>a. hoare F P (k a) Q) \<Longrightarrow> hoare F P (reads f k) Q"
  by (auto simp: hoare_def reads_def)

lemma hoare_callv: "vhoare F P m R \<Longrightarrow> (\<And>a. hoare F (R a) (k a) Q) \<Longrightarrow> hoare F P (callv m k) Q"
  unfolding hoare_def vhoare_def callv_def by (fastforce split: sum.splits prod.splits)

lemma keeps_callv [hoare_intro]:
  "vhoare F P m (\<lambda>_. P) \<Longrightarrow> (\<And>a. hoare F P (k a) Q) \<Longrightarrow> hoare F P (callv m k) Q"
  by (rule hoare_callv)

lemma hoare_zoom:
  assumes "\<And>w. P w \<Longrightarrow> p (sel w)" and "hoare F p s q"
    and "\<And>w c. P w \<Longrightarrow> q c \<Longrightarrow> Q (put c w)"
  shows "hoare F P (zoom sel put s) Q"
  using assms unfolding hoare_def zoom_def by (fastforce split: sum.splits)

section \<open>C integers\<close>

text \<open>
  Indices and lengths of type \<open>unsigned\<close> are natural numbers; where the code subtracts or
  adds without a guard the wrap-around is written out. \<open>unsigned long\<close> has the width \<open>L\<close>
  of the build (64 on LP64 hosts, 32 on 32-bit hosts and on Windows).
\<close>

definition uadd :: "nat \<Rightarrow> nat \<Rightarrow> nat \<Rightarrow> nat" where
  "uadd L a b = (a + b) mod 2 ^ L"

definition usub :: "nat \<Rightarrow> nat \<Rightarrow> nat \<Rightarrow> nat" where
  "usub L a b = (a + (2 ^ L - b mod 2 ^ L)) mod 2 ^ L"

abbreviation u32_add :: "nat \<Rightarrow> nat \<Rightarrow> nat" where
  "u32_add \<equiv> uadd 32"

abbreviation u32_sub :: "nat \<Rightarrow> nat \<Rightarrow> nat" where
  "u32_sub \<equiv> usub 32"

lemma uadd_exact [c_arith]: "a + b < 2 ^ L \<Longrightarrow> uadd L a b = a + b"
  by (simp add: uadd_def)

lemma usub_exact [c_arith]:
  assumes "b \<le> a" and "a < 2 ^ L"
  shows "usub L a b = a - b"
proof -
  have "b mod 2 ^ L = b" using assms by simp
  then have "a + (2 ^ L - b mod 2 ^ L) = (a - b) + 2 ^ L" using assms by linarith
  then have "usub L a b = ((a - b) + 2 ^ L) mod 2 ^ L" unfolding usub_def by (rule arg_cong)
  also have "\<dots> = (a - b) mod 2 ^ L" by (rule mod_add_self2)
  also have "\<dots> = a - b" using assms by simp
  finally show ?thesis .
qed

lemma usub_wraps: "a < b \<Longrightarrow> b < 2 ^ L \<Longrightarrow> usub L a b = 2 ^ L - (b - a)"
  by (simp add: usub_def)

lemma usub_bound [simp]: "usub L a b < 2 ^ L"
  by (simp add: usub_def)

text \<open>C division truncates towards zero.\<close>

definition cdiv :: "int \<Rightarrow> int \<Rightarrow> int" where
  "cdiv a b = sgn a * sgn b * (\<bar>a\<bar> div \<bar>b\<bar>)"

definition cmod :: "int \<Rightarrow> int \<Rightarrow> int" where
  "cmod a b = a - b * cdiv a b"

lemma cdiv_nonneg: "0 \<le> a \<Longrightarrow> 0 < b \<Longrightarrow> cdiv a b = a div b"
  by (cases "a = 0") (auto simp: cdiv_def)

lemma cdiv_neg: "a < 0 \<Longrightarrow> 0 < b \<Longrightarrow> cdiv a b = - (- a div b)"
  by (simp add: cdiv_def)

lemma abs_cdiv: "0 < b \<Longrightarrow> \<bar>cdiv a b\<bar> = \<bar>a\<bar> div b"
  by (cases "0 \<le> a") (auto simp: cdiv_nonneg cdiv_neg pos_imp_zdiv_nonneg_iff abs_of_nonneg)

lemma abs_cmod: "0 < b \<Longrightarrow> \<bar>cmod a b\<bar> = \<bar>a\<bar> mod b"
proof (cases "0 \<le> a")
  case True
  assume "0 < b"
  with True show ?thesis by (simp add: cmod_def cdiv_nonneg minus_mult_div_eq_mod)
next
  case False
  assume "0 < b"
  with False have "cmod a b = - (- a mod b)"
    by (simp add: cmod_def cdiv_neg minus_mult_div_eq_mod [symmetric])
  with False \<open>0 < b\<close> show ?thesis by simp
qed

text \<open>The value of an unsigned word of width \<open>L\<close> read as two's complement.\<close>

definition to_long :: "nat \<Rightarrow> nat \<Rightarrow> int" where
  "to_long L r = (if r < 2 ^ (L - 1) then int r else int r - 2 ^ L)"

section \<open>Byte strings\<close>

text \<open>
  A C string is a byte list; \<open>bytes\<close> gives the bytes of a literal (which hold no NUL).
  \<open>c_string\<close> reads the string that starts at the head of an array: the bytes in front of
  the first NUL; without a NUL the C code reads past the end of the array.
\<close>

definition bytes :: "string \<Rightarrow> byte list" where
  "bytes s = map of_char s"

definition c_string :: "byte list \<Rightarrow> fault + byte list" where
  "c_string buf = (if 0 \<in> set buf then Inr (takeWhile (\<lambda>b. b \<noteq> 0) buf) else Inl OutOfBounds)"

lemma length_bytes [simp]: "length (bytes s) = length s"
  by (simp add: bytes_def)

text \<open>Reading and writing one element of an array, with the bounds of the array.\<close>

definition peek :: "'a list \<Rightarrow> nat \<Rightarrow> fault + 'a" where
  "peek xs i = (if i < length xs then Inr (xs ! i) else Inl OutOfBounds)"

definition poke :: "nat \<Rightarrow> 'a \<Rightarrow> 'a list stmt" where
  "poke i v xs = (if i < length xs then Inr (xs[i := v]) else Inl OutOfBounds)"

lemma poke_ok [simp]: "i < length xs \<Longrightarrow> poke i v xs = Inr (xs[i := v])"
  by (simp add: poke_def)

lemma peek_ok [simp]: "i < length xs \<Longrightarrow> peek xs i = Inr (xs ! i)"
  by (simp add: peek_def)

lemma take_update_snoc: "n < length xs \<Longrightarrow> take (Suc n) (xs[n := v]) = take n xs @ [v]"
  by (simp add: take_Suc_conv_app_nth)

text \<open>\<open>overwrite p vs xs\<close> is \<open>xs\<close> with the bytes \<open>vs\<close> written from index \<open>p\<close> on.\<close>

definition overwrite :: "nat \<Rightarrow> 'a list \<Rightarrow> 'a list \<Rightarrow> 'a list" where
  "overwrite p vs xs = take p xs @ vs @ drop (p + length vs) xs"

lemma length_overwrite [simp]: "p + length vs \<le> length xs \<Longrightarrow> length (overwrite p vs xs) = length xs"
  by (simp add: overwrite_def)

lemma overwrite_Nil [simp]: "overwrite p [] xs = xs"
  by (simp add: overwrite_def)

lemma overwrite_Cons:
  "p + length (v # vs) \<le> length xs \<Longrightarrow> overwrite (Suc p) vs (xs[p := v]) = overwrite p (v # vs) xs"
  by (simp add: overwrite_def take_update_snoc)

lemma overwrite_step:
  "p + length (v # vs) \<le> length xs \<Longrightarrow> overwrite p (v # vs) xs = overwrite (Suc p) vs (xs[p := v])"
  by (simp add: overwrite_Cons)

lemma take_overwrite: "p + length vs \<le> length xs \<Longrightarrow> take (p + length vs) (overwrite p vs xs) = take p xs @ vs"
  by (simp add: overwrite_def)

lemma nth_overwrite_below: "i < p \<Longrightarrow> p \<le> length xs \<Longrightarrow> overwrite p vs xs ! i = xs ! i"
  by (simp add: overwrite_def nth_append)

lemma nth_overwrite_above:
  "p + length vs \<le> length xs \<Longrightarrow> p + length vs \<le> i \<Longrightarrow> i < length xs \<Longrightarrow> overwrite p vs xs ! i = xs ! i"
  by (auto simp: overwrite_def nth_append)

lemma nth_overwrite_in:
  "p \<le> i \<Longrightarrow> i < p + length vs \<Longrightarrow> p + length vs \<le> length xs \<Longrightarrow> overwrite p vs xs ! i = vs ! (i - p)"
  by (auto simp: overwrite_def nth_append)

section \<open>Computations that may fault\<close>

text \<open>The next step of a computation that may fault.\<close>

definition andthen :: "fault + 'a \<Rightarrow> ('a \<Rightarrow> fault + 'b) \<Rightarrow> fault + 'b" where
  "andthen m k = (case m of Inl f \<Rightarrow> Inl f | Inr a \<Rightarrow> k a)"

lemma andthen_simps [simp]: "andthen (Inl f) k = Inl f" "andthen (Inr a) k = k a"
  by (simp_all add: andthen_def)

lemma andthen_Inr: "andthen m k = Inr b \<longleftrightarrow> (\<exists>a. m = Inr a \<and> k a = Inr b)"
  by (simp add: andthen_def split: sum.splits)

lemma andthen_Inl: "andthen m k = Inl f \<longleftrightarrow> m = Inl f \<or> (\<exists>a. m = Inr a \<and> k a = Inl f)"
  by (auto simp: andthen_def split: sum.splits)

lemma andthen_cong [fundef_cong]: "m = m' \<Longrightarrow> (\<And>a. m' = Inr a \<Longrightarrow> k a = k' a) \<Longrightarrow> andthen m k = andthen m' k'"
  by (cases m') auto

text \<open>\<open>yields F m P\<close>: the computation ends with a value with \<open>P\<close> or with a fault of \<open>F\<close>.\<close>

definition yields :: "fault set \<Rightarrow> fault + 'a \<Rightarrow> ('a \<Rightarrow> bool) \<Rightarrow> bool" where
  "yields F m P \<longleftrightarrow> (case m of Inl f \<Rightarrow> f \<in> F | Inr a \<Rightarrow> P a)"

lemma yields_simps [simp]: "yields F (Inl f) P \<longleftrightarrow> f \<in> F" "yields F (Inr a) P \<longleftrightarrow> P a"
  by (simp_all add: yields_def)

lemma yields_andthen: "yields F m Q \<Longrightarrow> (\<And>a. Q a \<Longrightarrow> yields F (k a) P) \<Longrightarrow> yields F (andthen m k) P"
  by (cases m) simp_all

lemma yields_pair:
  "yields F m (\<lambda>(a, b). Q a b) \<Longrightarrow> (\<And>a b. Q a b \<Longrightarrow> yields F (k a b) P) \<Longrightarrow> yields F (andthen m (\<lambda>(a, b). k a b)) P"
  by (erule yields_andthen) auto

lemma yields_if: "(b \<Longrightarrow> yields F m P) \<Longrightarrow> (\<not> b \<Longrightarrow> yields F n P) \<Longrightarrow> yields F (if b then m else n) P"
  by simp

lemma yields_mono: "yields F m Q \<Longrightarrow> (\<And>a. Q a \<Longrightarrow> P a) \<Longrightarrow> F \<subseteq> G \<Longrightarrow> yields G m P"
  by (cases m) auto

lemma yields_all: "yields {} m Q \<Longrightarrow> (\<And>a. Q a \<Longrightarrow> P a) \<Longrightarrow> yields F m P"
  by (cases m) auto

lemma yields_hoare: "hoare F P s Q \<Longrightarrow> P w \<Longrightarrow> yields F (s w) Q"
  by (simp add: hoare_def yields_def)

end
