(* ===== verification/C_Memory.thy ===== *)
theory C_Memory
  imports Prelude
begin

text \<open>
  The string and memory helpers of \<open>u_mem.c\<close> and \<open>u_strlen.c\<close>. A pointer into an array
  is the array with an index; a loop runs byte by byte as in the source and faults on the
  first access outside the array. The lemmas give the closed form of each loop.
\<close>

text \<open>\<open>*m = c; m++; n--\<close>\<close>

fun memset_loop :: "nat \<Rightarrow> byte \<Rightarrow> nat \<Rightarrow> byte list stmt" where
  "memset_loop m c 0 = skip"
| "memset_loop m c (Suc n) = block [poke m c, memset_loop (Suc m) c n]"

definition U_memset :: "nat \<Rightarrow> int \<Rightarrow> nat \<Rightarrow> byte list stmt" where
  "U_memset m c n = memset_loop m (word_of_int (c mod 256)) n"

definition U_bzero :: "nat \<Rightarrow> nat \<Rightarrow> byte list stmt" where
  "U_bzero m n = U_memset m 0 n"

fun memcpy_loop :: "nat \<Rightarrow> byte list \<Rightarrow> nat \<Rightarrow> nat \<Rightarrow> byte list stmt" where
  "memcpy_loop d src s 0 = skip"
| "memcpy_loop d src s (Suc n) =
     (\<lambda>dst. case peek src s of Inl f \<Rightarrow> Inl f
       | Inr v \<Rightarrow> block [poke d v, memcpy_loop (Suc d) src (Suc s) n] dst)"

definition U_memcpy :: "nat \<Rightarrow> byte list \<Rightarrow> nat \<Rightarrow> nat \<Rightarrow> byte list stmt" where
  "U_memcpy d src s n = memcpy_loop d src s n"

text \<open>\<open>for (len = 0; p[len]; len++)\<close>\<close>

fun U_strlen :: "byte list \<Rightarrow> fault + nat" where
  "U_strlen [] = Inl OutOfBounds"
| "U_strlen (c # cs) = (if c = 0 then Inr 0 else
     (case U_strlen cs of Inl f \<Rightarrow> Inl f | Inr n \<Rightarrow> Inr (Suc n)))"

section \<open>Closed forms\<close>

lemma memset_loop_eq:
  "m + n \<le> length buf \<Longrightarrow> memset_loop m c n buf = Inr (overwrite m (replicate n c) buf)"
proof (induction n arbitrary: m buf)
  case 0
  then show ?case by (simp add: skip_def)
next
  case (Suc n)
  then show ?case by (simp add: overwrite_Cons)
qed

lemma U_bzero_eq: "m + n \<le> length buf \<Longrightarrow> U_bzero m n buf = Inr (overwrite m (replicate n 0) buf)"
  by (simp add: U_bzero_def U_memset_def memset_loop_eq)

lemma memcpy_loop_eq:
  "d + n \<le> length dst \<Longrightarrow> s + n \<le> length src \<Longrightarrow>
   memcpy_loop d src s n dst = Inr (overwrite d (take n (drop s src)) dst)"
proof (induction n arbitrary: d s dst)
  case 0
  then show ?case by (simp add: skip_def)
next
  case (Suc n)
  then have "take (Suc n) (drop s src) = src ! s # take n (drop (Suc s) src)"
    by (simp add: take_Suc_conv_app_nth Cons_nth_drop_Suc [symmetric])
  with Suc show ?case by (simp add: overwrite_Cons)
qed

lemma U_memcpy_eq:
  "d + n \<le> length dst \<Longrightarrow> s + n \<le> length src \<Longrightarrow>
   U_memcpy d src s n dst = Inr (overwrite d (take n (drop s src)) dst)"
  by (simp add: U_memcpy_def memcpy_loop_eq)

lemma U_memcpy_whole:
  "length src = length dst \<Longrightarrow> U_memcpy 0 src 0 (length dst) dst = Inr src"
  by (simp add: U_memcpy_eq overwrite_def)

lemma U_strlen_eq:
  "U_strlen buf = (if 0 \<in> set buf then Inr (length (takeWhile (\<lambda>b. b \<noteq> 0) buf)) else Inl OutOfBounds)"
  by (induction buf) auto

lemma U_strlen_c_string: "c_string buf = Inr s \<Longrightarrow> U_strlen buf = Inr (length s)"
  by (auto simp: c_string_def U_strlen_eq split: if_splits)

end
