(* ===== verification/SStream.thy ===== *)
theory SStream
  imports C_Memory
begin

text \<open>
  The string stream of \<open>u_sstream.c\<close>: parsing from and printing into a character array.
  \<open>ss_str\<close> is the whole array the pointer \<open>str\<close> points to, \<open>ss_len\<close> the size the stream
  was given; every access goes through \<open>peek\<close> and \<open>poke\<close>, so a read or write outside the
  array is the fault \<open>OutOfBounds\<close>. A string argument is the list of its bytes in front of
  the NUL. The conversions between text and \<open>double\<close>, which nothing in the program calls,
  are in \<open>SStream_Double\<close>.
\<close>

section \<open>The code\<close>

datatype U_sstream_status =
    U_SSTREAM_OK | U_SSTREAM_ERR_RANGE | U_SSTREAM_ERR_INVALID | U_SSTREAM_ERR_NO_SPACE

record U_SStream =
  ss_str :: "byte list"
  ss_pos :: nat
  ss_len :: nat
  ss_status :: U_sstream_status

definition U_sstream_init :: "byte list option \<Rightarrow> nat \<Rightarrow> U_SStream" where
  "U_sstream_init str n =
     \<lparr>ss_str = (case str of None \<Rightarrow> [] | Some s \<Rightarrow> s), ss_pos = 0, ss_len = n,
      ss_status = (if str \<noteq> None \<and> n \<noteq> 0 then U_SSTREAM_OK else U_SSTREAM_ERR_INVALID)\<rparr>"

definition U_sstream_str :: "U_SStream \<Rightarrow> byte list" where
  "U_sstream_str ss = drop (ss_pos ss) (ss_str ss)"

definition U_sstream_pos :: "U_SStream \<Rightarrow> nat" where
  "U_sstream_pos ss = ss_pos ss"

definition U_sstream_remaining :: "U_SStream \<Rightarrow> nat" where
  "U_sstream_remaining ss = (if ss_pos ss \<le> ss_len ss then ss_len ss - ss_pos ss else 0)"

definition U_sstream_at_end :: "U_SStream \<Rightarrow> bool" where
  "U_sstream_at_end ss = (if ss_pos ss \<le> ss_len ss then ss_len ss - ss_pos ss = 0 else True)"

definition U_sstream_seek :: "nat \<Rightarrow> U_SStream \<Rightarrow> U_SStream" where
  "U_sstream_seek pos ss = (if pos \<le> ss_len ss then ss\<lparr>ss_pos := pos\<rparr> else ss)"

subsection \<open>Numbers from text\<close>

text \<open>\<open>while (len && (*s == ' ' || *s == '\t'))\<close>\<close>

fun skip_blanks :: "byte list \<Rightarrow> nat \<Rightarrow> fault + (byte list \<times> nat)" where
  "skip_blanks s 0 = Inr (s, 0)"
| "skip_blanks s (Suc len) = (case s of [] \<Rightarrow> Inl OutOfBounds
     | c # cs \<Rightarrow> if c = 0x20 \<or> c = 0x09 then skip_blanks cs len else Inr (s, Suc len))"

text \<open>
  The digit loop with the bytes from \<open>s[i]\<close> on and the number \<open>len - i\<close> of bytes left;
  \<open>result\<close> is an \<open>unsigned long\<close> of width \<open>L\<close>, and the overflow test is the source's.
\<close>

fun strtol_digits :: "nat \<Rightarrow> byte list \<Rightarrow> nat \<Rightarrow> nat \<Rightarrow> nat \<Rightarrow> nat \<Rightarrow> fault + (nat \<times> nat \<times> nat)" where
  "strtol_digits L s i 0 result e = Inr (i, result, e)"
| "strtol_digits L s i (Suc k) result e = (case s of [] \<Rightarrow> Inl OutOfBounds
     | c # cs \<Rightarrow>
         if unat c < 48 \<or> unat c > 57 then Inr (i, result, e)
         else let ch = unat c - 48;
                  e' = e OR (if (result * 10 + ch) mod 2 ^ L < result then 2 else 0);
                  result' = ((result * 10) mod 2 ^ L + ch) mod 2 ^ L
              in strtol_digits L cs (i + 1) k result' e')"

text \<open>
  The value, the index of \<open>*endp\<close> and the error bits. The negation \<open>-(long)result\<close> wraps around here;
  for the digits of the least \<open>long\<close>, where \<open>result\<close> is \<open>2 ^ (L - 1)\<close>, C leaves it undefined.
\<close>

definition U_strtol :: "nat \<Rightarrow> byte list \<Rightarrow> nat \<Rightarrow> fault + (int \<times> nat \<times> nat)" where
  "U_strtol L s len =
     (if len = 0 then Inr (0, 0, 1)
      else case skip_blanks s len of Inl f \<Rightarrow> Inl f | Inr (s1, len1) \<Rightarrow>
        (case peek s1 0 of Inl f \<Rightarrow> Inl f | Inr c \<Rightarrow>
          (let neg = (c = 0x2D); i0 = (if neg then 1 else 0)
           in case strtol_digits L (drop i0 s1) i0 (len1 - i0) 0 0 of Inl f \<Rightarrow> Inl f
              | Inr (i, result, e) \<Rightarrow>
                 (let max = 2 ^ (L - 1) - 1;
                      e1 = (if i = 1 \<and> neg then e OR 1 else if i = 0 then e OR 1 else e);
                      e2 = (if result > max
                            then (if \<not> neg then e1 OR 2 else if result > max + 1 then e1 OR 4 else e1)
                            else e1)
                  in Inr (if neg then to_long L ((2 ^ L - result) mod 2 ^ L) else to_long L result,
                          (len - len1) + i, e2)))))"

definition U_sstream_get_long :: "nat \<Rightarrow> (U_SStream, int) op" where
  "U_sstream_get_long L ss =
     (if ss_pos ss < ss_len ss
      then case U_strtol L (drop (ss_pos ss) (ss_str ss)) (ss_len ss - ss_pos ss) of Inl f \<Rightarrow> Inl f
        | Inr (r, out_len, err) \<Rightarrow>
           (let ss1 = (if err = 0 then ss
                       else if err AND 1 \<noteq> 0 then ss\<lparr>ss_status := U_SSTREAM_ERR_INVALID\<rparr>
                       else if err AND 6 \<noteq> 0 then ss\<lparr>ss_status := U_SSTREAM_ERR_RANGE\<rparr> else ss);
                ss2 = (if ss_pos ss + out_len \<le> ss_len ss then ss1\<lparr>ss_pos := ss_pos ss + out_len\<rparr> else ss1)
            in Inr (if err = 0 then r else 0, ss2))
      else Inr (0, ss))"

subsection \<open>Matching\<close>

definition U_sstream_peek_char :: "U_SStream \<Rightarrow> fault + byte" where
  "U_sstream_peek_char ss = (if ss_pos ss < ss_len ss then peek (ss_str ss) (ss_pos ss) else Inr 0)"

function U_sstream_skip_whitespace :: "U_SStream stmt" where
  "U_sstream_skip_whitespace ss =
     (if ss_pos ss < ss_len ss
      then case peek (ss_str ss) (ss_pos ss) of Inl f \<Rightarrow> Inl f
        | Inr ch \<Rightarrow> if ch = 0x20 \<or> ch = 0x09 \<or> ch = 0x0A \<or> ch = 0x0D
            then U_sstream_skip_whitespace (ss\<lparr>ss_pos := ss_pos ss + 1\<rparr>) else Inr ss
      else Inr ss)"
  by pat_completeness auto
termination by (relation "measure (\<lambda>ss. ss_len ss - ss_pos ss)") auto

declare U_sstream_skip_whitespace.simps [simp del]

text \<open>The inner comparison loops; they stop at the first byte that differs.\<close>

fun match_at :: "byte list \<Rightarrow> nat \<Rightarrow> byte list \<Rightarrow> fault + bool" where
  "match_at buf p [] = Inr True"
| "match_at buf p (c # cs) = (case peek buf p of Inl f \<Rightarrow> Inl f
     | Inr b \<Rightarrow> if b \<noteq> c then Inr False else match_at buf (p + 1) cs)"

definition U_sstream_starts_with :: "byte list \<Rightarrow> U_SStream \<Rightarrow> fault + bool" where
  "U_sstream_starts_with s ss =
     (if u32_sub (ss_len ss) (ss_pos ss) \<ge> length s then match_at (ss_str ss) (ss_pos ss) s else Inr False)"

function find_loop :: "byte list \<Rightarrow> nat \<Rightarrow> byte list \<Rightarrow> nat \<Rightarrow> fault + nat option" where
  "find_loop buf len s pos =
     (if pos < len \<and> len - pos \<ge> length s
      then case match_at buf pos s of Inl f \<Rightarrow> Inl f
        | Inr m \<Rightarrow> if m then Inr (Some pos) else find_loop buf len s (pos + 1)
      else Inr None)"
  by pat_completeness auto
termination by (relation "measure (\<lambda>(buf, len, s, pos). len - pos)") auto

declare find_loop.simps [simp del]

definition U_sstream_find :: "byte list \<Rightarrow> (U_SStream, bool) op" where
  "U_sstream_find s ss = (case find_loop (ss_str ss) (ss_len ss) s (ss_pos ss) of Inl f \<Rightarrow> Inl f
     | Inr None \<Rightarrow> Inr (False, ss)
     | Inr (Some pos) \<Rightarrow> Inr (True, ss\<lparr>ss_pos := pos\<rparr>))"

subsection \<open>Printing\<close>

definition ss_poke :: "nat \<Rightarrow> byte \<Rightarrow> U_SStream stmt" where
  "ss_poke i v ss = (case poke i v (ss_str ss) of Inl f \<Rightarrow> Inl f | Inr s \<Rightarrow> Inr (ss\<lparr>ss_str := s\<rparr>))"

text \<open>\<open>ss->str[ss->pos++] = c\<close>, for the bytes of a list in turn, and \<open>ss->str[ss->pos] = '\0'\<close>\<close>

definition ss_putc :: "byte \<Rightarrow> U_SStream stmt" where
  "ss_putc c = block [reads ss_pos (\<lambda>p. ss_poke p c), upd (\<lambda>ss. ss\<lparr>ss_pos := ss_pos ss + 1\<rparr>)]"

fun ss_puts :: "byte list \<Rightarrow> U_SStream stmt" where
  "ss_puts [] = skip"
| "ss_puts (c # cs) = block [ss_putc c, ss_puts cs]"

definition ss_close :: "U_SStream stmt" where
  "ss_close = reads ss_pos (\<lambda>p. ss_poke p 0)"

definition U_sstream_put_str :: "byte list \<Rightarrow> U_SStream stmt" where
  "U_sstream_put_str s = cond (\<lambda>ss. ss_status ss \<noteq> U_SSTREAM_OK) skip
     (cond (\<lambda>ss. ss_pos ss + length s + 1 < ss_len ss)
        (block [ss_puts s, ss_close])
        (upd (\<lambda>ss. ss\<lparr>ss_status := U_SSTREAM_ERR_NO_SPACE\<rparr>)))"

text \<open>The digits of a number, least significant first, as the \<open>do\<close> loop stores them.\<close>

function long_digits :: "int \<Rightarrow> byte list" where
  "long_digits n = (let r = \<bar>cmod n 10\<bar>; n' = cdiv n 10
     in (0x30 + word_of_int r) # (if n' = 0 then [] else long_digits n'))"
  by pat_completeness auto
termination
proof (relation "measure (\<lambda>n. nat \<bar>n\<bar>)", simp)
  fix r n' n :: int
  assume "n' = cdiv n 10" and "n' \<noteq> 0"
  then have "\<bar>n'\<bar> = \<bar>n\<bar> div 10" by (simp add: abs_cdiv)
  moreover from this \<open>n' \<noteq> 0\<close> have "0 < \<bar>n\<bar>" by auto
  ultimately have "\<bar>n'\<bar> < \<bar>n\<bar>" by (simp add: int_div_less_self)
  then show "(n', n) \<in> measure (\<lambda>n. nat \<bar>n\<bar>)" by simp
qed

declare long_digits.simps [simp del]

text \<open>The local array \<open>buf\<close> has 24 elements.\<close>

definition put_digits :: "byte list \<Rightarrow> U_SStream stmt" where
  "put_digits ds = (if length ds > 24 then fails OutOfBounds
     else cond (\<lambda>ss. u32_sub (ss_len ss) (ss_pos ss) < length ds + 1)
       (upd (\<lambda>ss. ss\<lparr>ss_status := U_SSTREAM_ERR_NO_SPACE\<rparr>))
       (block [ss_puts (rev ds), ss_close]))"

definition U_sstream_put_long :: "int \<Rightarrow> U_SStream stmt" where
  "U_sstream_put_long num = cond (\<lambda>ss. ss_status ss \<noteq> U_SSTREAM_OK) skip
     (block [if num < 0 then ss_putc 0x2D else skip, put_digits (long_digits num)])"

definition U_sstream_put_longlong :: "int \<Rightarrow> U_SStream stmt" where
  "U_sstream_put_longlong num = cond (\<lambda>ss. ss_status ss \<noteq> U_SSTREAM_OK) skip
     (block [if num < 0 then ss_putc 0x2D else skip, put_digits (long_digits num)])"

definition U_sstream_put_ulonglong :: "nat \<Rightarrow> U_SStream stmt" where
  "U_sstream_put_ulonglong num = cond (\<lambda>ss. ss_status ss \<noteq> U_SSTREAM_OK) skip
     (put_digits (long_digits (int num)))"

definition hex_digit :: "nat \<Rightarrow> byte" where
  "hex_digit d = bytes ''0123456789ABCDEF'' ! d"

text \<open>The high and the low nibble through the table (\<open>ss_hex_table\<close>, \<open>hex_lookup\<close>).\<close>

definition hex_byte :: "byte \<Rightarrow> byte list" where
  "hex_byte b = [hex_digit (unat (drop_bit 4 b AND 0x0F)), hex_digit (unat (b AND 0x0F))]"

definition U_sstream_put_hex :: "byte list \<Rightarrow> U_SStream stmt" where
  "U_sstream_put_hex data =
     cond (\<lambda>ss. u32_sub (ss_len ss) (ss_pos ss) < length data * 2 + 1)
       (upd (\<lambda>ss. ss\<lparr>ss_status := U_SSTREAM_ERR_NO_SPACE\<rparr>))
       (block [ss_puts (concat (map hex_byte data)), ss_close])"

text \<open>
  The padding loop \<open>for (;ss->pos < n;) U_sstream_put_str(ss, " ");\<close> that several
  callers use. When a step does not advance the position the loop runs forever
  (lemma \<open>pad_stuck_forever\<close>); that case is the fault \<open>Diverges\<close>.
\<close>

lemma ss_puts_pos: "ss_puts s ss = Inr ss' \<Longrightarrow> ss_pos ss' = ss_pos ss + length s"
  by (induction s arbitrary: ss) (auto simp: stmt_defs ss_putc_def ss_poke_def split: sum.splits)

lemma put_str_pos: "U_sstream_put_str s ss = Inr ss' \<Longrightarrow> ss_pos ss \<le> ss_pos ss'"
  by (auto simp: U_sstream_put_str_def stmt_defs ss_close_def ss_poke_def dest: ss_puts_pos
      split: if_splits sum.splits)

function pad_to :: "nat \<Rightarrow> U_SStream stmt" where
  "pad_to n ss =
     (if ss_pos ss < n
      then case U_sstream_put_str [0x20] ss of Inl f \<Rightarrow> Inl f
        | Inr ss' \<Rightarrow> if ss_pos ss' = ss_pos ss then Inl Diverges else pad_to n ss'
      else Inr ss)"
  by pat_completeness auto
termination
  by (relation "measure (\<lambda>(n, ss). n - ss_pos ss)") (auto dest: put_str_pos)

declare pad_to.simps [simp del]

section \<open>Printing into a terminated buffer\<close>

text \<open>
  \<open>ss_ok\<close> is the state between two print operations: the size is that of the array, the
  position is inside it and holds the terminating NUL. \<open>ss_text\<close> is what was printed.
\<close>

definition ss_ok :: "U_SStream \<Rightarrow> bool" where
  "ss_ok ss \<longleftrightarrow> ss_len ss \<le> length (ss_str ss) \<and> ss_len ss < 2 ^ 32 \<and> ss_pos ss < ss_len ss
     \<and> ss_str ss ! ss_pos ss = 0"

definition ss_text :: "U_SStream \<Rightarrow> byte list" where
  "ss_text ss = take (ss_pos ss) (ss_str ss)"

definition ss_write :: "byte list \<Rightarrow> U_SStream \<Rightarrow> U_SStream" where
  "ss_write s ss = ss\<lparr>ss_str := overwrite (ss_pos ss) (s @ [0]) (ss_str ss), ss_pos := ss_pos ss + length s\<rparr>"

definition ss_full :: "U_SStream \<Rightarrow> U_SStream" where
  "ss_full ss = ss\<lparr>ss_status := U_SSTREAM_ERR_NO_SPACE\<rparr>"

lemma ss_puts_eq:
  "ss_pos ss + length s \<le> length (ss_str ss) \<Longrightarrow>
   ss_puts s ss = Inr (ss\<lparr>ss_str := overwrite (ss_pos ss) s (ss_str ss), ss_pos := ss_pos ss + length s\<rparr>)"
proof (induction s arbitrary: ss)
  case Nil
  then show ?case by (simp add: skip_def)
next
  case (Cons c s)
  then have "ss_putc c ss = Inr (ss\<lparr>ss_str := (ss_str ss)[ss_pos ss := c], ss_pos := ss_pos ss + 1\<rparr>)"
    by (simp add: ss_putc_def reads_def ss_poke_def upd_def)
  with Cons show ?case by (simp add: overwrite_step)
qed

lemma overwrite_snoc:
  "p + length s < length xs \<Longrightarrow> (overwrite p s xs)[p + length s := c] = overwrite p (s @ [c]) xs"
  by (simp add: overwrite_def list_update_append Cons_nth_drop_Suc [symmetric])

lemma puts_close_eq:
  "ss_pos ss + length s < length (ss_str ss) \<Longrightarrow> block [ss_puts s, ss_close] ss = Inr (ss_write s ss)"
  by (simp add: ss_puts_eq ss_close_def reads_def ss_poke_def ss_write_def overwrite_snoc)

lemma ss_write_ok:
  "ss_ok ss \<Longrightarrow> ss_pos ss + length s < ss_len ss \<Longrightarrow> ss_ok (ss_write s ss)"
  by (auto simp: ss_ok_def ss_write_def nth_overwrite_in nth_append)

lemma ss_write_simps [simp]:
  "ss_len (ss_write s ss) = ss_len ss" "ss_status (ss_write s ss) = ss_status ss"
  "ss_pos (ss_write s ss) = ss_pos ss + length s"
  "ss_len (ss_full ss) = ss_len ss" "ss_pos (ss_full ss) = ss_pos ss"
  "ss_status (ss_full ss) = U_SSTREAM_ERR_NO_SPACE" "ss_ok (ss_full ss) = ss_ok ss"
  "ss_text (ss_full ss) = ss_text ss" "ss_str (ss_full ss) = ss_str ss"
  by (simp_all add: ss_write_def ss_full_def ss_ok_def ss_text_def)

lemma ss_write_text:
  "ss_ok ss \<Longrightarrow> ss_pos ss + length s < ss_len ss \<Longrightarrow> ss_text (ss_write s ss) = ss_text ss @ s"
  by (simp add: ss_text_def ss_write_def ss_ok_def overwrite_def)

lemma ss_ok_c_string: "ss_ok ss \<Longrightarrow> \<exists>s. c_string (ss_str ss) = Inr s"
  by (auto simp: ss_ok_def c_string_def in_set_conv_nth intro!: exI [of _ "ss_pos ss"])

lemma ss_ok_text:
  assumes "ss_ok ss" and "0 \<notin> set (ss_text ss)"
  shows "c_string (ss_str ss) = Inr (ss_text ss)"
proof -
  have split: "ss_str ss = ss_text ss @ 0 # drop (Suc (ss_pos ss)) (ss_str ss)"
    using assms(1) id_take_nth_drop [of "ss_pos ss" "ss_str ss"] by (simp add: ss_ok_def ss_text_def)
  have "takeWhile (\<lambda>b. b \<noteq> 0) (ss_text ss @ 0 # xs) = ss_text ss" for xs
    using assms(2) by (metis (mono_tags, lifting) takeWhile_append2 takeWhile.simps(2) append_Nil2)
  with split show ?thesis by (metis c_string_def in_set_conv_decomp)
qed

text \<open>A stream over a whole array of \<open>n\<close> bytes, at most at position \<open>k\<close>.\<close>

definition lbuf :: "nat \<Rightarrow> nat \<Rightarrow> U_SStream \<Rightarrow> bool" where
  "lbuf n k ss \<longleftrightarrow> ss_ok ss \<and> ss_len ss = n \<and> length (ss_str ss) = n \<and> ss_pos ss \<le> k"

lemma lbuf_write: "lbuf n k ss \<Longrightarrow> ss_pos ss + length s < ss_len ss \<Longrightarrow> lbuf n (ss_pos ss + length s) (ss_write s ss)"
  by (auto simp: lbuf_def ss_write_ok) (simp add: ss_write_def)

lemma lbuf_full: "lbuf n k (ss_full ss) = lbuf n k ss"
  by (simp add: lbuf_def)

lemma lbuf_weaken: "lbuf n k ss \<Longrightarrow> k \<le> k' \<Longrightarrow> lbuf n k' ss"
  by (simp add: lbuf_def)

lemma lbuf_all: "lbuf n k ss \<Longrightarrow> lbuf n n ss"
  by (simp add: lbuf_def ss_ok_def)

lemma lbuf_init: "0 < n \<Longrightarrow> n < 2 ^ 32 \<Longrightarrow> length buf = n \<Longrightarrow> buf ! 0 = 0 \<Longrightarrow> lbuf n 0 (U_sstream_init (Some buf) n)"
  by (simp add: lbuf_def ss_ok_def U_sstream_init_def)

text \<open>The contract of a print operation.\<close>

locale text_printer =
  fixes out :: "'v \<Rightarrow> U_SStream stmt" and render :: "'v \<Rightarrow> byte list"
    and adm :: "'v \<Rightarrow> bool" and slack :: nat
  assumes out_fits: "ss_ok ss \<Longrightarrow> adm v \<Longrightarrow> ss_status ss = U_SSTREAM_OK \<Longrightarrow>
      ss_pos ss + length (render v) + slack < ss_len ss \<Longrightarrow> out v ss = Inr (ss_write (render v) ss)"
    and out_full: "ss_ok ss \<Longrightarrow> adm v \<Longrightarrow> ss_len ss \<le> ss_pos ss + length (render v) + slack \<Longrightarrow>
      out v ss = Inr ss \<or> out v ss = Inr (ss_full ss)"
    and out_failed: "ss_ok ss \<Longrightarrow> adm v \<Longrightarrow> ss_status ss \<noteq> U_SSTREAM_OK \<Longrightarrow>
      ss_pos ss + length (render v) + slack < ss_len ss \<Longrightarrow>
      out v ss = Inr ss \<or> out v ss = Inr (ss_write (render v) ss)"
begin

lemma out_cases:
  assumes "ss_ok ss" and "adm v"
  shows "out v ss = Inr ss \<or> out v ss = Inr (ss_full ss)
    \<or> out v ss = Inr (ss_write (render v) ss) \<and> ss_pos ss + length (render v) < ss_len ss"
  using out_fits [OF assms] out_full [OF assms] out_failed [OF assms]
  by (cases "ss_pos ss + length (render v) + slack < ss_len ss"; cases "ss_status ss = U_SSTREAM_OK") auto

lemma out_lbuf: "adm v \<Longrightarrow> length (render v) \<le> m \<Longrightarrow> hoare F (lbuf n k) (out v) (lbuf n (k + m))"
  unfolding hoare_def using out_cases [of _ v] lbuf_write lbuf_full
  by (fastforce simp: lbuf_def)

lemma out_stays: "adm v \<Longrightarrow> keeps F (lbuf n n) (out v)"
  unfolding hoare_def using out_cases [of _ v] lbuf_write lbuf_full
  by (fastforce simp: lbuf_def)

end

lemma put_str_eq:
  assumes "ss_ok ss"
  shows "U_sstream_put_str s ss = Inr (if ss_status ss \<noteq> U_SSTREAM_OK then ss
    else if ss_pos ss + length s + 1 < ss_len ss then ss_write s ss else ss_full ss)"
proof -
  have "ss_pos ss + length s < length (ss_str ss)" if "ss_pos ss + length s + 1 < ss_len ss"
    using assms that by (simp add: ss_ok_def)
  then show ?thesis
    unfolding U_sstream_put_str_def cond_def skip_def upd_def ss_full_def
    using puts_close_eq [of ss s] by auto
qed

interpretation str_printer: text_printer U_sstream_put_str "\<lambda>s. s" "\<lambda>_. True" 1
  by unfold_locales (auto simp: put_str_eq)

section \<open>Decimal numbers\<close>

lemma long_digits_length: "\<bar>n\<bar> < 10 ^ k \<Longrightarrow> 0 < k \<Longrightarrow> length (long_digits n) \<le> k"
proof (induction k arbitrary: n)
  case 0
  then show ?case by simp
next
  case (Suc k)
  have abs: "\<bar>cdiv n 10\<bar> = \<bar>n\<bar> div 10" by (simp add: abs_cdiv)
  show ?case
  proof (cases "cdiv n 10 = 0")
    case True
    then show ?thesis by (subst long_digits.simps) (simp add: Let_def)
  next
    case False
    have "0 < k"
    proof (rule ccontr)
      assume "\<not> 0 < k"
      with Suc.prems have "\<bar>n\<bar> div 10 = 0" by simp
      with abs False show False by simp
    qed
    moreover have "\<bar>cdiv n 10\<bar> < 10 ^ k" using Suc.prems abs by simp
    ultimately have "length (long_digits (cdiv n 10)) \<le> k" using Suc.IH by blast
    with False show ?thesis by (subst long_digits.simps) (simp add: Let_def)
  qed
qed

lemma long_digits_24: "\<bar>n\<bar> < 2 ^ 64 \<Longrightarrow> length (long_digits n) \<le> 20"
  by (rule long_digits_length) simp_all

lemma put_digits_eq:
  assumes "ss_ok ss" and "length ds \<le> 24"
  shows "put_digits ds ss
    = Inr (if ss_pos ss + length ds < ss_len ss then ss_write (rev ds) ss else ss_full ss)"
proof -
  have "u32_sub (ss_len ss) (ss_pos ss) = ss_len ss - ss_pos ss"
    using assms by (simp add: ss_ok_def c_arith)
  with assms puts_close_eq [of ss "rev ds"] show ?thesis
    by (auto simp: put_digits_def cond_def upd_def ss_full_def ss_ok_def)
qed

text \<open>Unsigned numbers: \<open>U_sstream_put_long\<close> on the values the program prints.\<close>

definition decimal :: "nat \<Rightarrow> byte list" where
  "decimal n = rev (long_digits (int n))"

lemma put_long_nat_eq:
  assumes "ss_ok ss" and "n < 2 ^ 64"
  shows "U_sstream_put_long (int n) ss = Inr (if ss_status ss \<noteq> U_SSTREAM_OK then ss
    else if ss_pos ss + length (decimal n) < ss_len ss then ss_write (decimal n) ss else ss_full ss)"
proof -
  have "length (long_digits (int n)) \<le> 24"
    using assms long_digits_24 [of "int n"] by (simp add: nat_less_iff)
  with assms(1) show ?thesis
    by (simp add: U_sstream_put_long_def cond_def skip_def put_digits_eq decimal_def)
qed

interpretation long_printer: text_printer "\<lambda>n. U_sstream_put_long (int n)" decimal "\<lambda>n. n < 2 ^ 64" 0
  by unfold_locales (auto simp: put_long_nat_eq)

lemma length_hex_byte [simp]: "length (hex_byte b) = 2"
  by (simp add: hex_byte_def)

lemma length_hex_bytes [simp]: "length (concat (map hex_byte bs)) = 2 * length bs"
  by (induction bs) auto

lemma put_hex_eq:
  assumes "ss_ok ss" and "length d < 2 ^ 30"
  shows "U_sstream_put_hex d ss = Inr (if ss_pos ss + 2 * length d < ss_len ss
    then ss_write (concat (map hex_byte d)) ss else ss_full ss)"
proof -
  have "u32_sub (ss_len ss) (ss_pos ss) = ss_len ss - ss_pos ss"
    using assms by (simp add: ss_ok_def c_arith)
  with assms puts_close_eq [of ss "concat (map hex_byte d)"] show ?thesis
    by (auto simp: U_sstream_put_hex_def cond_def upd_def ss_full_def ss_ok_def)
qed

interpretation hex_printer: text_printer U_sstream_put_hex "\<lambda>d. concat (map hex_byte d)" "\<lambda>d. length d < 2 ^ 30" 0
  by unfold_locales (auto simp: put_hex_eq)

text \<open>
  A negative number: the sign is stored before the room for the digits is checked, so the
  terminator survives when at least one byte is left.
\<close>

definition long_text :: "int \<Rightarrow> byte list" where
  "long_text n = (if n < 0 then [0x2D] else []) @ rev (long_digits n)"

lemma long_text_nat: "long_text (int n) = decimal n"
  by (simp add: long_text_def decimal_def)

lemma length_long_text: "\<bar>n\<bar> < 2 ^ 64 \<Longrightarrow> length (long_text n) \<le> 21"
  using long_digits_24 [of n] by (simp add: long_text_def)

lemma put_long_eq:
  assumes "ss_ok ss" and "\<bar>n\<bar> < 2 ^ 64" and "ss_pos ss + 21 < ss_len ss"
  shows "U_sstream_put_long n ss = Inr (if ss_status ss \<noteq> U_SSTREAM_OK then ss else ss_write (long_text n) ss)"
proof (cases "n < 0")
  case False
  then have n: "n = int (nat n)" by simp
  moreover have "nat n < 2 ^ 64" using assms(2) False by (simp add: nat_less_iff)
  moreover have "length (decimal (nat n)) \<le> 21"
    using length_long_text [OF assms(2)] long_text_nat [of "nat n"] n by simp
  ultimately show ?thesis
    using put_long_nat_eq [OF assms(1), of "nat n"] assms(3) long_text_nat [of "nat n"] by simp
next
  case True
  define p s1 where "p = ss_pos ss" and "s1 = ss\<lparr>ss_str := (ss_str ss)[p := 0x2D], ss_pos := p + 1\<rparr>"
  have len: "length (long_digits n) \<le> 20" using long_digits_24 [OF assms(2)] .
  have room: "p + length (0x2D # rev (long_digits n)) < length (ss_str ss)" and lt: "ss_len ss < 2 ^ 32"
    using assms(1,3) len by (auto simp: ss_ok_def p_def)
  have "ss_putc 0x2D ss = Inr s1"
    using room by (simp add: ss_putc_def reads_def ss_poke_def upd_def s1_def p_def)
  moreover have "put_digits (long_digits n) s1 = Inr (ss_write (rev (long_digits n)) s1)"
  proof -
    have "\<not> u32_sub (ss_len s1) (ss_pos s1) < length (long_digits n) + 1"
      using len assms(3) lt by (simp add: s1_def p_def c_arith)
    then show ?thesis
      using len room puts_close_eq [of s1 "rev (long_digits n)"]
      by (simp add: put_digits_def cond_def s1_def p_def)
  qed
  moreover have "ss_write (rev (long_digits n)) s1 = ss_write (long_text n) ss"
    using True room by (simp add: ss_write_def s1_def p_def [symmetric] long_text_def overwrite_step del: overwrite_Nil)
  ultimately show ?thesis using True by (simp add: U_sstream_put_long_def cond_def skip_def)
qed

lemma put_long_lbuf:
  assumes "\<bar>z\<bar> < 2 ^ 64" and "k + 21 < n"
  shows "hoare F (lbuf n k) (U_sstream_put_long z) (lbuf n (k + 21))"
  unfolding hoare_def
proof clarify
  fix ss assume l: "lbuf n k ss"
  then have "ss_ok ss" "ss_pos ss + 21 < ss_len ss" using assms(2) by (auto simp: lbuf_def)
  then have "U_sstream_put_long z ss = Inr (if ss_status ss \<noteq> U_SSTREAM_OK then ss else ss_write (long_text z) ss)"
    using assms(1) by (intro put_long_eq)
  moreover have "lbuf n (k + 21) (ss_write (long_text z) ss)"
    using lbuf_write [OF l, of "long_text z"] length_long_text [OF assms(1)] l assms(2)
    by (auto simp: lbuf_def)
  ultimately show "case U_sstream_put_long z ss of Inl f \<Rightarrow> f \<in> F | Inr ss' \<Rightarrow> lbuf n (k + 21) ss'"
    using l by (auto simp: lbuf_def)
qed

section \<open>The padding loop\<close>

lemma put_str_nonzero_pos:
  "U_sstream_put_str [b] ss = Inr ss' \<Longrightarrow> ss_pos ss' = ss_pos ss \<Longrightarrow> U_sstream_put_str [b] ss' = Inr ss'"
  by (auto simp: U_sstream_put_str_def stmt_defs ss_close_def ss_poke_def ss_putc_def
      split: if_splits sum.splits)

text \<open>Once a step does not advance, no later step does: the source's loop never ends.\<close>

lemma pad_stuck_forever:
  assumes "U_sstream_put_str [0x20] ss = Inr ss'" and "ss_pos ss' = ss_pos ss"
  shows "block (replicate (Suc k) (U_sstream_put_str [0x20])) ss = Inr ss'"
proof -
  have "block (replicate k (U_sstream_put_str [0x20])) ss' = Inr ss'"
    using put_str_nonzero_pos [OF assms] by (induction k) auto
  with assms show ?thesis by simp
qed

lemma pad_diverges:
  assumes "ss_ok ss" and "ss_status ss \<noteq> U_SSTREAM_OK" and "ss_pos ss < n"
  shows "pad_to n ss = Inl Diverges"
  using assms by (subst pad_to.simps) (simp add: put_str_eq)

lemma pad_to_eq:
  assumes "ss_ok ss" and "ss_status ss = U_SSTREAM_OK" and "n + 1 < ss_len ss"
  shows "pad_to n ss = Inr (if ss_pos ss < n then ss_write (replicate (n - ss_pos ss) 0x20) ss else ss)"
  using assms
proof (induction n ss rule: pad_to.induct)
  case (1 n ss)
  show ?case
  proof (cases "ss_pos ss < n")
    case False
    then show ?thesis by (subst pad_to.simps) simp
  next
    case True
    define ss' where "ss' = ss_write [0x20] ss"
    have put: "U_sstream_put_str [0x20] ss = Inr ss'"
      using 1 True by (simp add: put_str_eq ss'_def)
    have ok: "ss_ok ss'" using 1 True by (simp add: ss'_def ss_write_ok)
    have "pad_to n ss' = Inr (if ss_pos ss' < n then ss_write (replicate (n - ss_pos ss') 0x20) ss' else ss')"
      using "1.IH" [OF True put] ok 1 by (simp add: ss'_def)
    moreover have "ss_write (replicate (n - ss_pos ss') 0x20) ss' = ss_write (replicate (n - ss_pos ss) 0x20) ss"
      if "ss_pos ss' < n"
    proof -
      have "n - ss_pos ss = Suc (n - ss_pos ss')" using True by (simp add: ss'_def)
      moreover have "ss_pos ss + Suc (n - ss_pos ss') < length (ss_str ss)"
        using 1 True that by (simp add: ss_ok_def ss'_def)
      ultimately show ?thesis
        by (simp add: ss_write_def ss'_def overwrite_def drop_Cons')
    qed
    moreover have "n - ss_pos ss = 1" if "\<not> ss_pos ss' < n"
      using that True by (simp add: ss'_def)
    ultimately have "pad_to n ss' = Inr (ss_write (replicate (n - ss_pos ss) 0x20) ss)"
      by (auto simp: ss'_def)
    with True put show ?thesis by (subst pad_to.simps) (simp add: ss'_def)
  qed
qed

lemma pad_to_keeps:
  assumes "ss_ok ss" and "ss_status ss = U_SSTREAM_OK" and "n + 1 < ss_len ss"
  shows "\<exists>ss'. pad_to n ss = Inr ss' \<and> ss_ok ss' \<and> ss_len ss' = ss_len ss
    \<and> ss_status ss' = U_SSTREAM_OK \<and> ss_pos ss' = max n (ss_pos ss)"
  using assms by (auto simp: pad_to_eq ss_write_ok)

section \<open>Matching\<close>

lemma match_at_eq:
  "p + length s \<le> length buf \<Longrightarrow> match_at buf p s = Inr (take (length s) (drop p buf) = s)"
proof (induction s arbitrary: p)
  case Nil
  then show ?case by simp
next
  case (Cons c s)
  then have "drop p buf = buf ! p # drop (Suc p) buf" by (simp add: Cons_nth_drop_Suc)
  with Cons show ?case by simp
qed

definition occurs_at :: "byte list \<Rightarrow> nat \<Rightarrow> byte list \<Rightarrow> nat \<Rightarrow> bool" where
  "occurs_at buf len s p \<longleftrightarrow> p < len \<and> p + length s \<le> len \<and> take (length s) (drop p buf) = s"

lemma find_loop_spec:
  assumes "len \<le> length buf"
  shows "(\<exists>q. find_loop buf len s pos = Inr (Some q) \<and> pos \<le> q \<and> occurs_at buf len s q
            \<and> (\<forall>p. pos \<le> p \<and> p < q \<longrightarrow> \<not> occurs_at buf len s p))
       \<or> find_loop buf len s pos = Inr None \<and> (\<forall>p\<ge>pos. \<not> occurs_at buf len s p)"
  using assms
proof (induction buf len s pos rule: find_loop.induct)
  case (1 buf len s pos)
  show ?case
  proof (cases "pos < len \<and> length s \<le> len - pos")
    case False
    then show ?thesis by (subst (1 2) find_loop.simps) (auto simp: occurs_at_def)
  next
    case True
    then have m: "match_at buf pos s = Inr (take (length s) (drop pos buf) = s)"
      using 1(2) by (intro match_at_eq) linarith
    show ?thesis
    proof (cases "take (length s) (drop pos buf) = s")
      case True
      with m \<open>pos < len \<and> _\<close> show ?thesis
        by (subst (1 2) find_loop.simps) (auto simp: occurs_at_def)
    next
      case False
      with m \<open>pos < len \<and> _\<close> have eq: "find_loop buf len s pos = find_loop buf len s (pos + 1)"
        by (subst find_loop.simps) simp
      have no: "\<not> occurs_at buf len s pos" using False by (simp add: occurs_at_def)
      have next_pos: "pos + 1 \<le> p" if "pos \<le> p" "occurs_at buf len s p" for p
        using that no by (metis Suc_eq_plus1 Suc_leI le_neq_implies_less)
      have "\<not> (take (length s) (drop pos buf) = s)" by (rule False)
      from "1.IH" [OF \<open>pos < len \<and> _\<close> m this 1(2)] show ?thesis unfolding eq
        using next_pos by (meson Suc_leD Suc_eq_plus1 add_leD1 le_trans leD leI)
    qed
  qed
qed

text \<open>A search never faults on a stream whose size is that of its array, and only moves the position.\<close>

lemma find_total:
  assumes "ss_len ss \<le> length (ss_str ss)"
  shows "\<exists>b p. U_sstream_find s ss = Inr (b, ss\<lparr>ss_pos := p\<rparr>)"
proof (cases "find_loop (ss_str ss) (ss_len ss) s (ss_pos ss) = Inr None")
  case True
  then have "U_sstream_find s ss = Inr (False, ss\<lparr>ss_pos := ss_pos ss\<rparr>)"
    by (simp add: U_sstream_find_def)
  then show ?thesis by blast
next
  case False
  then show ?thesis
    using find_loop_spec [OF assms, of s "ss_pos ss"] by (auto simp: U_sstream_find_def)
qed

lemma find_iff:
  assumes "ss_len ss \<le> length (ss_str ss)"
  shows "(\<exists>ss'. U_sstream_find s ss = Inr (True, ss')) \<longleftrightarrow> (\<exists>p\<ge>ss_pos ss. occurs_at (ss_str ss) (ss_len ss) s p)"
  using find_loop_spec [OF assms, of s "ss_pos ss"] by (auto simp: U_sstream_find_def)

lemma starts_with_eq:
  assumes "ss_len ss \<le> length (ss_str ss)" and "ss_pos ss \<le> ss_len ss" and "ss_len ss < 2 ^ 32"
  shows "U_sstream_starts_with s ss
    = Inr (ss_pos ss + length s \<le> ss_len ss \<and> take (length s) (drop (ss_pos ss) (ss_str ss)) = s)"
  using assms by (auto simp: U_sstream_starts_with_def c_arith match_at_eq)

lemma skip_whitespace_total:
  "ss_len ss \<le> length (ss_str ss) \<Longrightarrow> ss_pos ss \<le> ss_len ss \<Longrightarrow>
   \<exists>p. U_sstream_skip_whitespace ss = Inr (ss\<lparr>ss_pos := p\<rparr>) \<and> ss_pos ss \<le> p \<and> p \<le> ss_len ss"
proof (induction ss rule: U_sstream_skip_whitespace.induct)
  case (1 ss)
  show ?case
  proof (cases "ss_pos ss < ss_len ss \<and> ss_str ss ! ss_pos ss \<in> {0x20, 0x09, 0x0A, 0x0D}")
    case True
    then have "U_sstream_skip_whitespace ss = U_sstream_skip_whitespace (ss\<lparr>ss_pos := ss_pos ss + 1\<rparr>)"
      using 1 by (subst U_sstream_skip_whitespace.simps) auto
    moreover have "peek (ss_str ss) (ss_pos ss) = Inr (ss_str ss ! ss_pos ss)" using True 1 by simp
    ultimately show ?thesis
      using "1.IH" [of "ss_str ss ! ss_pos ss"] True 1(2,3) by fastforce
  next
    case False
    then have "U_sstream_skip_whitespace ss = Inr (ss\<lparr>ss_pos := ss_pos ss\<rparr>)"
      using 1(2) by (subst U_sstream_skip_whitespace.simps) auto
    with 1(3) show ?thesis by blast
  qed
qed

section \<open>Reading back a printed number\<close>

definition digit_step :: "nat \<Rightarrow> byte \<Rightarrow> nat" where
  "digit_step r c = r * 10 + (unat c - 48)"

definition is_digit :: "byte \<Rightarrow> bool" where
  "is_digit c \<longleftrightarrow> 48 \<le> unat c \<and> unat c \<le> 57"

lemma digit_step_mono: "r \<le> foldl digit_step r ds"
proof (induction ds arbitrary: r)
  case (Cons c ds)
  have "r \<le> digit_step r c" by (simp add: digit_step_def)
  also have "\<dots> \<le> foldl digit_step (digit_step r c) ds" by (rule Cons.IH)
  finally show ?case by simp
qed simp

text \<open>As long as the value fits, no step of the digit loop wraps and no error bit is set.\<close>

lemma strtol_digits_step:
  assumes "is_digit c" and "digit_step r c < 2 ^ L"
  shows "strtol_digits L (c # cs) i (Suc k) r e = strtol_digits L cs (i + 1) k (digit_step r c) e"
proof -
  define ch where "ch = unat c - 48"
  have "r * 10 + ch < 2 ^ L" using assms(2) by (simp add: digit_step_def ch_def)
  then have "(r * 10 + ch) mod 2 ^ L = r * 10 + ch" "((r * 10) mod 2 ^ L + ch) mod 2 ^ L = r * 10 + ch"
    by simp_all
  moreover have "\<not> r * 10 + ch < r" by simp
  ultimately show ?thesis
    using assms(1) by (simp add: Let_def is_digit_def digit_step_def ch_def [symmetric])
qed

lemma strtol_digits_run:
  assumes "\<forall>c\<in>set ds. is_digit c" and "foldl digit_step r ds < 2 ^ L"
  shows "strtol_digits L (ds @ rest) i (length ds + k) r e
    = strtol_digits L rest (i + length ds) k (foldl digit_step r ds) e"
  using assms
proof (induction ds arbitrary: i r)
  case (Cons c ds)
  have "digit_step r c < 2 ^ L"
    using digit_step_mono [of "digit_step r c" ds] Cons.prems(2) by simp
  with Cons show ?case by (simp add: strtol_digits_step del: strtol_digits.simps)
qed simp

lemma unat_digit: "0 \<le> r \<Longrightarrow> r < 10 \<Longrightarrow> unat (0x30 + word_of_int r :: byte) = 48 + nat r"
proof -
  assume r: "0 \<le> r" "r < 10"
  then have "unat (word_of_int r :: byte) = nat r"
    by (simp add: unsigned_of_int take_bit_int_eq_self)
  with r show ?thesis by (simp add: unat_word_ariths)
qed

lemma long_digits_value:
  "(\<forall>c\<in>set (long_digits n). is_digit c) \<and> foldl digit_step 0 (rev (long_digits n)) = nat \<bar>n\<bar>"
proof (induction n rule: long_digits.induct)
  case (1 n)
  define m d where "m = nat \<bar>n\<bar>" and "d = (0x30 + word_of_int \<bar>cmod n 10\<bar> :: byte)"
  have d: "unat d = 48 + m mod 10"
    unfolding d_def m_def by (simp add: abs_cmod unat_digit nat_mod_distrib)
  then have "is_digit d" by (simp add: is_digit_def less_Suc_eq_le [symmetric])
  have q: "nat \<bar>cdiv n 10\<bar> = m div 10"
    by (simp add: abs_cdiv m_def nat_div_distrib)
  have unfold: "long_digits n = d # (if cdiv n 10 = 0 then [] else long_digits (cdiv n 10))"
    by (subst long_digits.simps) (simp add: Let_def d_def)
  define tl where "tl = (if cdiv n 10 = 0 then [] else long_digits (cdiv n 10))"
  have "(\<forall>c\<in>set tl. is_digit c) \<and> foldl digit_step 0 (rev tl) = m div 10"
    using 1 [OF refl refl] q by (auto simp: tl_def)
  then have "(\<forall>c\<in>set (d # tl). is_digit c) \<and> foldl digit_step 0 (rev (d # tl)) = m"
    using \<open>is_digit d\<close> d by (simp add: digit_step_def)
  then show ?case unfolding unfold tl_def [symmetric] m_def .
qed

lemma long_digits_nonempty [simp]: "long_digits n \<noteq> []"
  by (subst long_digits.simps) (simp add: Let_def)

lemma skip_blanks_none:
  "c \<noteq> 0x20 \<Longrightarrow> c \<noteq> 0x09 \<Longrightarrow> skip_blanks (c # cs) len = Inr (c # cs, len)"
  by (cases len) auto

lemma long_text_head:
  obtains c cs where "long_text n = c # cs" "c \<noteq> 0x20" "c \<noteq> 0x09" "c = 0x2D \<longleftrightarrow> n < 0"
proof (cases "n < 0")
  case True
  then show ?thesis by (intro that) (auto simp: long_text_def)
next
  case False
  obtain c cs where c: "rev (long_digits n) = c # cs" by (cases "rev (long_digits n)") auto
  then have "c \<in> set (long_digits n)" by (metis list.set_intros(1) set_rev)
  then have "is_digit c" using long_digits_value by blast
  then have "c \<noteq> 0x20 \<and> c \<noteq> 0x09 \<and> c \<noteq> 0x2D" by (auto simp: is_digit_def)
  with False c show ?thesis by (intro that) (auto simp: long_text_def)
qed

lemma to_long_neg: "0 < L \<Longrightarrow> 0 < r \<Longrightarrow> r \<le> 2 ^ (L - 1) \<Longrightarrow> to_long L (2 ^ L - r) = - int r"
proof -
  assume "0 < L" "0 < r" "r \<le> 2 ^ (L - 1)"
  moreover from \<open>0 < L\<close> have "(2 :: nat) ^ L = 2 * 2 ^ (L - 1)" "(2 :: int) ^ L = 2 * 2 ^ (L - 1)"
    by (cases L; simp)+
  ultimately show ?thesis by (auto simp: to_long_def of_nat_diff)
qed

lemma strtol_number:
  assumes "0 < L" and "- (2 ^ (L - 1)) \<le> n" and "n < 2 ^ (L - 1)"
    and "k = 0 \<or> rest \<noteq> [] \<and> \<not> is_digit (hd rest)"
  shows "U_strtol L (long_text n @ rest) (length (long_text n) + k) = Inr (n, length (long_text n), 0)"
proof -
  define ds where "ds = rev (long_digits n)"
  obtain c cs where head: "long_text n = c # cs" "c \<noteq> 0x20" "c \<noteq> 0x09" "c = 0x2D \<longleftrightarrow> n < 0"
    by (rule long_text_head)
  have dig: "\<forall>c\<in>set ds. is_digit c" "foldl digit_step 0 ds = nat \<bar>n\<bar>"
    using long_digits_value [of n] by (simp_all add: ds_def)
  have two: "(2 :: nat) ^ L = 2 * 2 ^ (L - 1)" using assms(1) by (cases L) auto
  have abs: "nat \<bar>n\<bar> \<le> 2 ^ (L - 1)" "0 \<le> n \<Longrightarrow> nat \<bar>n\<bar> < 2 ^ (L - 1)"
    using assms by (auto simp: nat_le_iff nat_less_iff)
  have fits: "foldl digit_step 0 ds < 2 ^ L"
    unfolding dig(2) two using abs(1) zero_less_power [of "2 :: nat" "L - 1"] by linarith
  have stop: "strtol_digits L rest i k v e = Inr (i, v, e)" for i v e
    using assms(4) by (cases k; cases rest) (auto simp: is_digit_def)
  have run: "strtol_digits L (ds @ rest) i (length ds + k) 0 0 = Inr (i + length ds, nat \<bar>n\<bar>, 0)" for i
    using strtol_digits_run [OF dig(1) fits, of rest i k 0] dig(2) stop by simp
  have ne: "0 < length ds" by (simp add: ds_def)
  have skip: "skip_blanks (long_text n @ rest) (length (long_text n) + k) = Inr (long_text n @ rest, length (long_text n) + k)"
    using head by (simp add: skip_blanks_none)
  have dash: "(long_text n @ rest) ! 0 = 0x2D \<longleftrightarrow> n < 0" using head by simp
  have pk: "peek (long_text n @ rest) 0 = Inr ((long_text n @ rest) ! 0)" using head by simp
  have len: "length (long_text n) \<noteq> 0" using head by simp
  show ?thesis
  proof (cases "n < 0")
    case True
    then have "long_text n = 0x2D # ds" by (simp add: long_text_def ds_def)
    with True run [of 1] skip dash pk ne abs assms(1) show ?thesis
      by (auto simp: U_strtol_def to_long_neg Let_def)
  next
    case False
    then have "long_text n = ds" by (simp add: long_text_def ds_def)
    moreover have "\<not> 2 ^ (L - 1) - 1 < nat \<bar>n\<bar>" using abs(2) False by linarith
    ultimately show ?thesis using False run [of 0] skip dash pk ne abs len
      by (auto simp: U_strtol_def to_long_def Let_def)
  qed
qed

end
