(* ===== verification/Buffer_Helper.thy ===== *)
theory Buffer_Helper
  imports Prelude
begin

text \<open>
  The little-endian field helpers of \<open>buffer_helper.c\<close>. The output pointer is an index
  into the buffer and each writer returns the advanced index; an input pointer is an index
  too. An \<open>unsigned long\<close> is a natural number; the masks and shifts are the source's.

  The locale \<open>le_field\<close> is the contract of one field width; its facts (a field is read
  back, a field does not disturb its neighbours) are proved once and hold for the three
  widths by interpretation.
\<close>

section \<open>The code\<close>

definition put_u8_le :: "nat \<Rightarrow> byte \<Rightarrow> (byte list, nat) op" where
  "put_u8_le out v buf =
     (case block [poke out v] buf of Inl f \<Rightarrow> Inl f | Inr buf' \<Rightarrow> Inr (out + 1, buf'))"

definition put_u16_le :: "nat \<Rightarrow> 16 word \<Rightarrow> (byte list, nat) op" where
  "put_u16_le out v buf =
     (case block [poke out (ucast (v AND 0x00FF)),
                  poke (out + 1) (ucast (drop_bit 8 (v AND 0xFF00)))] buf of
        Inl f \<Rightarrow> Inl f | Inr buf' \<Rightarrow> Inr (out + 2, buf'))"

definition put_u32_le :: "nat \<Rightarrow> nat \<Rightarrow> (byte list, nat) op" where
  "put_u32_le out v buf =
     (case block [poke out (word_of_nat (v AND 0x000000FF)),
                  poke (out + 1) (word_of_nat (drop_bit 8 (v AND 0x0000FF00))),
                  poke (out + 2) (word_of_nat (drop_bit 16 (v AND 0x00FF0000))),
                  poke (out + 3) (word_of_nat (drop_bit 24 (v AND 0xFF000000)))] buf of
        Inl f \<Rightarrow> Inl f | Inr buf' \<Rightarrow> Inr (out + 4, buf'))"

definition get_u8_le :: "byte list \<Rightarrow> nat \<Rightarrow> fault + (byte \<times> nat)" where
  "get_u8_le buf i = (if i < length buf then Inr (buf ! i, i + 1) else Inl OutOfBounds)"

definition get_u16_le :: "byte list \<Rightarrow> nat \<Rightarrow> fault + (16 word \<times> nat)" where
  "get_u16_le buf i =
     (if i + 1 < length buf
      then Inr (ucast (buf ! i) OR push_bit 8 (ucast (buf ! (i + 1))), i + 2)
      else Inl OutOfBounds)"

definition get_u32_le :: "byte list \<Rightarrow> nat \<Rightarrow> fault + (nat \<times> nat)" where
  "get_u32_le buf i =
     (if i + 3 < length buf
      then Inr ((unat (buf ! i) AND 0xFF)
             OR (push_bit 8 (unat (buf ! (i + 1))) AND 0x0000FF00)
             OR (push_bit 16 (unat (buf ! (i + 2))) AND 0x00FF0000)
             OR (push_bit 24 (unat (buf ! (i + 3))) AND 0xFF000000), i + 4)
      else Inl OutOfBounds)"

section \<open>The bytes of a field\<close>

definition le16 :: "16 word \<Rightarrow> byte list" where
  "le16 v = [ucast v, ucast (drop_bit 8 v)]"

definition le32 :: "nat \<Rightarrow> byte list" where
  "le32 v = [word_of_nat v, word_of_nat (drop_bit 8 v), word_of_nat (drop_bit 16 v), word_of_nat (drop_bit 24 v)]"

lemma length_le [simp]: "length (le16 v) = 2" "length (le32 n) = 4"
  by (simp_all add: le16_def le32_def)

lemma byte_masks:
  "(0xFF :: nat) = mask 8" "(0xFF00 :: nat) = push_bit 8 (mask 8)"
  "(0xFF0000 :: nat) = push_bit 16 (mask 8)" "(0xFF000000 :: nat) = push_bit 24 (mask 8)"
  by (simp_all add: mask_eq_exp_minus_1 push_bit_eq_mult)

lemma byte_masks16: "(0x00FF :: 16 word) = mask 8" "(0xFF00 :: 16 word) = push_bit 8 (mask 8)"
  by (simp_all add: mask_eq_exp_minus_1 push_bit_eq_mult)

lemma put_bytes32:
  "word_of_nat (v AND 0xFF) = (word_of_nat v :: byte)"
  "word_of_nat (drop_bit 8 (v AND 0xFF00)) = (word_of_nat (drop_bit 8 v) :: byte)"
  "word_of_nat (drop_bit 16 (v AND 0xFF0000)) = (word_of_nat (drop_bit 16 v) :: byte)"
  "word_of_nat (drop_bit 24 (v AND 0xFF000000)) = (word_of_nat (drop_bit 24 v) :: byte)"
  unfolding byte_masks by (auto intro!: bit_word_eqI simp: bit_simps)

lemma put_bytes16:
  "ucast (v AND 0x00FF :: 16 word) = (ucast v :: byte)"
  "ucast (drop_bit 8 (v AND 0xFF00 :: 16 word)) = (ucast (drop_bit 8 v) :: byte)"
  unfolding byte_masks16 by (auto intro!: bit_word_eqI simp: bit_simps)

definition un_le16 :: "byte list \<Rightarrow> 16 word" where
  "un_le16 bs = ucast (bs ! 0) OR push_bit 8 (ucast (bs ! 1))"

definition un_le32 :: "byte list \<Rightarrow> nat" where
  "un_le32 bs = unat (bs ! 0) OR push_bit 8 (unat (bs ! 1)) OR push_bit 16 (unat (bs ! 2)) OR push_bit 24 (unat (bs ! 3))"

lemma byte_bit_bound: "bit (b :: byte) n \<Longrightarrow> n < 8"
  using bit_imp_le_length [of b n] by simp

lemma get_bytes32:
  "unat (b :: byte) AND 0xFF = unat b"
  "push_bit 8 (unat b) AND 0xFF00 = push_bit 8 (unat b)"
  "push_bit 16 (unat b) AND 0xFF0000 = push_bit 16 (unat b)"
  "push_bit 24 (unat b) AND 0xFF000000 = push_bit 24 (unat b)"
  unfolding byte_masks by (auto intro!: bit_eqI simp: bit_simps dest!: byte_bit_bound)

lemma un_le16_le16: "un_le16 (le16 v) = v"
  by (auto intro!: bit_word_eqI simp: un_le16_def le16_def bit_simps)

lemma un_le32_le32: "un_le32 (le32 v) = v mod 2 ^ 32"
proof -
  have "bit (un_le32 (le32 v)) n = bit (take_bit 32 v) n" for n
  proof -
    consider "n < 8" | "8 \<le> n" "n < 16" | "16 \<le> n" "n < 24" | "24 \<le> n" "n < 32" | "32 \<le> n"
      by linarith
    then show ?thesis by cases (auto simp: un_le32_def le32_def bit_simps)
  qed
  then have "un_le32 (le32 v) = take_bit 32 v" by (simp add: bit_eq_iff)
  then show ?thesis by (simp add: take_bit_eq_mod)
qed

lemma un_le32_bound: "un_le32 bs < 2 ^ 32"
proof -
  have "n < 32" if "bit (un_le32 bs) n" for n
    using that by (auto simp: un_le32_def bit_simps dest!: byte_bit_bound)
  then have "take_bit 32 (un_le32 bs) = un_le32 bs"
    by (auto intro: bit_eqI simp: bit_take_bit_iff)
  then show ?thesis by (metis take_bit_nat_less_exp)
qed

section \<open>The contract of a field\<close>

locale le_field =
  fixes width :: nat
    and put :: "nat \<Rightarrow> 'v \<Rightarrow> (byte list, nat) op"
    and get :: "byte list \<Rightarrow> nat \<Rightarrow> fault + ('v \<times> nat)"
    and enc :: "'v \<Rightarrow> byte list"
    and dec :: "byte list \<Rightarrow> 'v"
    and norm :: "'v \<Rightarrow> 'v"
  assumes enc_width: "length (enc v) = width"
    and dec_enc: "dec (enc v) = norm v"
    and put_spec: "p + width \<le> length buf \<Longrightarrow> put p v buf = Inr (p + width, overwrite p (enc v) buf)"
    and put_fault: "length buf < p + width \<Longrightarrow> put p v buf = Inl OutOfBounds"
    and get_spec: "p + width \<le> length buf \<Longrightarrow> get buf p = Inr (dec (take width (drop p buf)), p + width)"
    and get_fault: "length buf < p + width \<Longrightarrow> get buf p = Inl OutOfBounds"
begin

lemma put_get:
  assumes "put p v buf = Inr (q, buf')"
  shows "get buf' p = Inr (norm v, q) \<and> q = p + width \<and> length buf' = length buf"
proof -
  have le: "p + width \<le> length buf"
    using assms put_fault [of buf p v] by (cases "p + width \<le> length buf") auto
  then have "buf' = overwrite p (enc v) buf" "q = p + width"
    using assms put_spec by auto
  with le show ?thesis
    by (simp add: get_spec enc_width dec_enc) (simp add: overwrite_def enc_width dec_enc)
qed

lemma put_frame:
  assumes "put p v buf = Inr (q, buf')" and "i < p \<or> q \<le> i" and "i < length buf"
  shows "buf' ! i = buf ! i"
proof -
  have le: "p + width \<le> length buf"
    using assms put_fault [of buf p v] by (cases "p + width \<le> length buf") auto
  then have "buf' = overwrite p (enc v) buf" "q = p + width"
    using assms put_spec by auto
  with le assms show ?thesis
    by (auto simp: enc_width nth_overwrite_below nth_overwrite_above)
qed

end

lemma le_block_cases:
  "length buf \<le> p + 1 \<Longrightarrow> block [poke p a, poke (p + 1) b] buf = Inl OutOfBounds"
  "length buf < p + 4 \<Longrightarrow> block [poke p a, poke (p + 1) b, poke (p + 2) c, poke (p + 3) d] buf = Inl OutOfBounds"
  by (auto simp: poke_def)

interpretation le8: le_field 1 put_u8_le get_u8_le "\<lambda>v. [v]" "\<lambda>bs. bs ! 0" "\<lambda>v. v"
  by unfold_locales
    (auto simp: put_u8_le_def get_u8_le_def overwrite_def poke_def upd_conv_take_nth_drop)

interpretation le16: le_field 2 put_u16_le get_u16_le le16 un_le16 "\<lambda>v. v"
proof unfold_locales
  fix p v and buf :: "byte list"
  show "length (le16 v) = 2" "un_le16 (le16 v) = v" by (simp_all add: un_le16_le16)
  show "put_u16_le p v buf = Inr (p + 2, overwrite p (le16 v) buf)" if "p + 2 \<le> length buf"
    using that by (simp add: put_u16_le_def put_bytes16 le16_def overwrite_step)
  show "put_u16_le p v buf = Inl OutOfBounds" if "length buf < p + 2"
    unfolding put_u16_le_def using that by (subst le_block_cases) auto
  show "get_u16_le buf p = Inr (un_le16 (take 2 (drop p buf)), p + 2)" if "p + 2 \<le> length buf"
    using that by (simp add: get_u16_le_def un_le16_def)
  show "get_u16_le buf p = Inl OutOfBounds" if "length buf < p + 2"
    using that by (simp add: get_u16_le_def)
qed

interpretation le32: le_field 4 put_u32_le get_u32_le le32 un_le32 "\<lambda>v. v mod 2 ^ 32"
proof unfold_locales
  fix p v and buf :: "byte list"
  show "length (le32 v) = 4" "un_le32 (le32 v) = v mod 2 ^ 32" by (simp_all add: un_le32_le32)
  show "put_u32_le p v buf = Inr (p + 4, overwrite p (le32 v) buf)" if "p + 4 \<le> length buf"
    using that by (simp add: put_u32_le_def put_bytes32 le32_def overwrite_step numeral_3_eq_3)
  show "put_u32_le p v buf = Inl OutOfBounds" if "length buf < p + 4"
    unfolding put_u32_le_def using that by (subst le_block_cases) auto
  show "get_u32_le buf p = Inr (un_le32 (take 4 (drop p buf)), p + 4)" if "p + 4 \<le> length buf"
    using that by (simp add: get_u32_le_def un_le32_def get_bytes32)
  show "get_u32_le buf p = Inl OutOfBounds" if "length buf < p + 4"
    using that by (simp add: get_u32_le_def)
qed

end
