(* ===== verification/BStream.thy ===== *)
theory BStream
  imports Buffer_Helper
begin

text \<open>
  The bounded byte stream of \<open>u_bstream.c\<close>: a buffer, a position, a size and a sticky
  status. The positions are those of buffers of the program (at most 4 MB), so the sums
  \<open>pos + size\<close> of the bounds checks do not wrap.

  \<open>bs_write\<close> is the specification of a writer (all bytes or none, the first failure
  sticks); the locales \<open>stream_writer\<close> and \<open>stream_reader\<close> state that an
  operation implements it and are interpreted for the operations of the source.
\<close>

section \<open>The code\<close>

datatype U_BStreamStatus =
    U_BSTREAM_OK | U_BSTREAM_READ_PAST_END | U_BSTREAM_WRITE_PAST_END | U_BSTREAM_NOT_INITIALISED

record U_BStream =
  bs_data :: "byte list option"
  bs_pos :: nat
  bs_size :: nat
  bs_status :: U_BStreamStatus

definition U_bstream_init :: "byte list option \<Rightarrow> nat \<Rightarrow> U_BStream" where
  "U_bstream_init d n = \<lparr>bs_data = d, bs_pos = 0, bs_size = n, bs_status = U_BSTREAM_OK\<rparr>"

definition U_bstream_verify_write :: "nat \<Rightarrow> (U_BStream, bool) op" where
  "U_bstream_verify_write n bs =
     (if bs_status bs \<noteq> U_BSTREAM_OK then Inr (False, bs)
      else if bs_data bs = None then Inr (False, bs\<lparr>bs_status := U_BSTREAM_NOT_INITIALISED\<rparr>)
      else if bs_pos bs + n > bs_size bs then Inr (False, bs\<lparr>bs_status := U_BSTREAM_WRITE_PAST_END\<rparr>)
      else Inr (True, bs))"

definition U_bstream_verify_read :: "nat \<Rightarrow> (U_BStream, bool) op" where
  "U_bstream_verify_read n bs =
     (if bs_status bs \<noteq> U_BSTREAM_OK then Inr (False, bs)
      else if bs_data bs = None then Inr (False, bs\<lparr>bs_status := U_BSTREAM_NOT_INITIALISED\<rparr>)
      else if bs_pos bs + n > bs_size bs then Inr (False, bs\<lparr>bs_status := U_BSTREAM_READ_PAST_END\<rparr>)
      else Inr (True, bs))"

text \<open>\<open>bs->data[bs->pos++] = v\<close> and \<open>bs->data[bs->pos + i]\<close>\<close>

definition bs_push :: "byte \<Rightarrow> U_BStream stmt" where
  "bs_push v bs = (case bs_data bs of None \<Rightarrow> Inl OutOfBounds
     | Some d \<Rightarrow> (case poke (bs_pos bs) v d of Inl f \<Rightarrow> Inl f
         | Inr d' \<Rightarrow> Inr (bs\<lparr>bs_data := Some d', bs_pos := bs_pos bs + 1\<rparr>)))"

definition bs_at :: "nat \<Rightarrow> (U_BStream, byte) op" where
  "bs_at i bs = (case bs_data bs of None \<Rightarrow> Inl OutOfBounds
     | Some d \<Rightarrow> (case peek d (bs_pos bs + i) of Inl f \<Rightarrow> Inl f | Inr v \<Rightarrow> Inr (v, bs)))"

definition U_bstream_put_u8 :: "byte \<Rightarrow> U_BStream stmt" where
  "U_bstream_put_u8 v = callv (U_bstream_verify_write 1) (\<lambda>ok. if ok then bs_push v else skip)"

definition U_bstream_put_u16_le :: "16 word \<Rightarrow> U_BStream stmt" where
  "U_bstream_put_u16_le v = callv (U_bstream_verify_write 2) (\<lambda>ok. if ok then block [
       bs_push (ucast (drop_bit 0 v AND 0xFF)),
       bs_push (ucast (drop_bit 8 v AND 0xFF))] else skip)"

definition U_bstream_put_u32_le :: "nat \<Rightarrow> U_BStream stmt" where
  "U_bstream_put_u32_le v = callv (U_bstream_verify_write 4) (\<lambda>ok. if ok then block [
       bs_push (word_of_nat (drop_bit 0 v AND 0xFF)),
       bs_push (word_of_nat (drop_bit 8 v AND 0xFF)),
       bs_push (word_of_nat (drop_bit 16 v AND 0xFF)),
       bs_push (word_of_nat (drop_bit 24 v AND 0xFF))] else skip)"

definition U_bstream_put_u32_be :: "nat \<Rightarrow> U_BStream stmt" where
  "U_bstream_put_u32_be v = callv (U_bstream_verify_write 4) (\<lambda>ok. if ok then block [
       bs_push (word_of_nat (drop_bit 24 v AND 0xFF)),
       bs_push (word_of_nat (drop_bit 16 v AND 0xFF)),
       bs_push (word_of_nat (drop_bit 8 v AND 0xFF)),
       bs_push (word_of_nat (drop_bit 0 v AND 0xFF))] else skip)"

text \<open>
  A reader returns 0 when the check fails; the steps below are \<open>result = data[..]\<close>,
  \<open>result <<= 8\<close>, \<open>result |= data[..]\<close>, and the advance of the position at the end.
\<close>

fun bs_gather :: "nat list \<Rightarrow> nat \<Rightarrow> (U_BStream, nat) op" where
  "bs_gather [] acc bs = Inr (acc, bs)"
| "bs_gather (i # is) acc bs = (case bs_at i bs of Inl f \<Rightarrow> Inl f
     | Inr (b, bs') \<Rightarrow> bs_gather is (push_bit 8 acc OR unat b) bs')"

definition bs_reader :: "nat \<Rightarrow> nat list \<Rightarrow> (U_BStream, nat) op" where
  "bs_reader n order bs = (case U_bstream_verify_read n bs of Inl f \<Rightarrow> Inl f
     | Inr (ok, bs1) \<Rightarrow>
         (if ok then (case bs_gather order 0 bs1 of Inl f \<Rightarrow> Inl f
            | Inr (result, bs2) \<Rightarrow> Inr (result, bs2\<lparr>bs_pos := bs_pos bs2 + n\<rparr>))
          else Inr (0, bs1)))"

definition U_bstream_get_u8 :: "(U_BStream, nat) op" where
  "U_bstream_get_u8 = bs_reader 1 [0]"

definition U_bstream_get_u16_le :: "(U_BStream, nat) op" where
  "U_bstream_get_u16_le = bs_reader 2 [1, 0]"

definition U_bstream_get_u16_be :: "(U_BStream, nat) op" where
  "U_bstream_get_u16_be = bs_reader 2 [0, 1]"

definition U_bstream_get_u32_le :: "(U_BStream, nat) op" where
  "U_bstream_get_u32_le = bs_reader 4 [3, 2, 1, 0]"

definition U_bstream_get_u32_be :: "(U_BStream, nat) op" where
  "U_bstream_get_u32_be = bs_reader 4 [0, 1, 2, 3]"

section \<open>Well-formed streams\<close>

definition bs_ok :: "U_BStream \<Rightarrow> bool" where
  "bs_ok bs \<longleftrightarrow> (case bs_data bs of None \<Rightarrow> False
     | Some d \<Rightarrow> bs_size bs \<le> length d \<and> bs_pos bs \<le> bs_size bs)"

definition bs_buf :: "U_BStream \<Rightarrow> byte list" where
  "bs_buf bs = (case bs_data bs of None \<Rightarrow> [] | Some d \<Rightarrow> d)"

definition bs_written :: "U_BStream \<Rightarrow> byte list" where
  "bs_written bs = take (bs_pos bs) (bs_buf bs)"

definition bs_left :: "U_BStream \<Rightarrow> byte list" where
  "bs_left bs = take (bs_size bs - bs_pos bs) (drop (bs_pos bs) (bs_buf bs))"

lemma bs_ok_init: "n \<le> length d \<Longrightarrow> bs_ok (U_bstream_init (Some d) n)"
  by (simp add: bs_ok_def U_bstream_init_def)

lemma bs_written_init [simp]: "bs_written (U_bstream_init d n) = []"
  by (simp add: bs_written_def U_bstream_init_def)

lemma bs_init_simps [simp]:
  "bs_data (U_bstream_init d n) = d" "bs_pos (U_bstream_init d n) = 0"
  "bs_size (U_bstream_init d n) = n" "bs_status (U_bstream_init d n) = U_BSTREAM_OK"
  by (simp_all add: U_bstream_init_def)

section \<open>Writers\<close>

definition bs_write :: "byte list \<Rightarrow> U_BStream \<Rightarrow> U_BStream" where
  "bs_write vs bs =
     (if bs_status bs \<noteq> U_BSTREAM_OK then bs
      else if bs_pos bs + length vs > bs_size bs then bs\<lparr>bs_status := U_BSTREAM_WRITE_PAST_END\<rparr>
      else bs\<lparr>bs_data := Some (overwrite (bs_pos bs) vs (bs_buf bs)), bs_pos := bs_pos bs + length vs\<rparr>)"

lemma block_bs_push:
  assumes "bs_data bs = Some d" and "bs_pos bs + length vs \<le> length d"
  shows "block (map bs_push vs) bs
    = Inr (bs\<lparr>bs_data := Some (overwrite (bs_pos bs) vs d), bs_pos := bs_pos bs + length vs\<rparr>)"
  using assms
proof (induction vs arbitrary: bs d)
  case Nil
  then show ?case by simp
next
  case (Cons v vs)
  then have "bs_push v bs = Inr (bs\<lparr>bs_data := Some (d[bs_pos bs := v]), bs_pos := bs_pos bs + 1\<rparr>)"
    by (simp add: bs_push_def)
  with Cons show ?case by (simp add: overwrite_step)
qed

lemma writer_eq:
  assumes "bs_ok bs" and "length vs = n" and "0 < n"
  shows "callv (U_bstream_verify_write n) (\<lambda>ok. if ok then block (map bs_push vs) else skip) bs
    = Inr (bs_write vs bs)"
  using assms block_bs_push [of bs "bs_buf bs" vs]
  by (auto simp: callv_def U_bstream_verify_write_def bs_write_def skip_def bs_ok_def bs_buf_def
      split: option.splits)

locale stream_writer =
  fixes put :: "'v \<Rightarrow> U_BStream stmt" and enc :: "'v \<Rightarrow> byte list"
  assumes put_write: "bs_ok bs \<Longrightarrow> put v bs = Inr (bs_write (enc v) bs)"
begin

lemma put_keeps [hoare_intro]: "keeps F bs_ok (put v)"
  by (auto simp: hoare_def put_write bs_write_def bs_ok_def bs_buf_def split: option.splits)

lemma put_appends:
  assumes "bs_ok bs" and "bs_status bs = U_BSTREAM_OK" and "bs_pos bs + length (enc v) \<le> bs_size bs"
  shows "\<exists>bs'. put v bs = Inr bs' \<and> bs_ok bs' \<and> bs_written bs' = bs_written bs @ enc v
    \<and> bs_status bs' = U_BSTREAM_OK \<and> bs_size bs' = bs_size bs"
  using assms by (auto simp: put_write bs_write_def bs_ok_def bs_buf_def bs_written_def take_overwrite
      split: option.splits)

lemma put_sticks:
  assumes "bs_ok bs" and "bs_status bs \<noteq> U_BSTREAM_OK"
  shows "put v bs = Inr bs"
  using assms by (simp add: put_write bs_write_def)

end

lemma push_masks:
  "(word_of_nat (drop_bit 0 v AND 0xFF) :: byte) = word_of_nat v"
  "(word_of_nat (drop_bit 8 v AND 0xFF) :: byte) = word_of_nat (drop_bit 8 v)"
  "(word_of_nat (drop_bit 16 v AND 0xFF) :: byte) = word_of_nat (drop_bit 16 v)"
  "(word_of_nat (drop_bit 24 v AND 0xFF) :: byte) = word_of_nat (drop_bit 24 v)"
  unfolding byte_masks by (auto intro!: bit_word_eqI simp: bit_simps)

lemma push_masks16:
  "ucast (drop_bit 0 v AND (0xFF :: 16 word)) = (ucast v :: byte)"
  "ucast (drop_bit 8 v AND (0xFF :: 16 word)) = (ucast (drop_bit 8 v) :: byte)"
  unfolding byte_masks16 by (auto intro!: bit_word_eqI simp: bit_simps)

interpretation w8: stream_writer U_bstream_put_u8 "\<lambda>v. [v]"
proof
  fix v and bs :: U_BStream assume "bs_ok bs"
  then show "U_bstream_put_u8 v bs = Inr (bs_write [v] bs)"
    using writer_eq [of bs "[v]" 1] unfolding U_bstream_put_u8_def by (simp add: block_one cong: if_cong)
qed

interpretation w16: stream_writer U_bstream_put_u16_le le16
proof
  fix v and bs :: U_BStream assume "bs_ok bs"
  then show "U_bstream_put_u16_le v bs = Inr (bs_write (le16 v) bs)"
    using writer_eq [of bs "le16 v" 2] unfolding U_bstream_put_u16_le_def push_masks16 le16_def by (simp cong: if_cong)
qed

interpretation w32: stream_writer U_bstream_put_u32_le le32
proof
  fix v and bs :: U_BStream assume "bs_ok bs"
  then show "U_bstream_put_u32_le v bs = Inr (bs_write (le32 v) bs)"
    using writer_eq [of bs "le32 v" 4] unfolding U_bstream_put_u32_le_def push_masks le32_def by (simp cong: if_cong)
qed

interpretation w32be: stream_writer U_bstream_put_u32_be "\<lambda>v. rev (le32 v)"
proof
  fix v and bs :: U_BStream assume "bs_ok bs"
  then show "U_bstream_put_u32_be v bs = Inr (bs_write (rev (le32 v)) bs)"
    using writer_eq [of bs "rev (le32 v)" 4] unfolding U_bstream_put_u32_be_def push_masks le32_def by (simp cong: if_cong)
qed

section \<open>Readers\<close>

locale stream_reader =
  fixes width :: nat and get :: "(U_BStream, nat) op" and dec :: "byte list \<Rightarrow> nat"
  assumes get_fits: "bs_ok bs \<Longrightarrow> bs_status bs = U_BSTREAM_OK \<Longrightarrow> bs_pos bs + width \<le> bs_size bs \<Longrightarrow>
      get bs = Inr (dec (take width (drop (bs_pos bs) (bs_buf bs))), bs\<lparr>bs_pos := bs_pos bs + width\<rparr>)"
    and get_past: "bs_ok bs \<Longrightarrow> bs_status bs = U_BSTREAM_OK \<Longrightarrow> bs_size bs < bs_pos bs + width \<Longrightarrow>
      get bs = Inr (0, bs\<lparr>bs_status := U_BSTREAM_READ_PAST_END\<rparr>)"
    and get_sticks: "bs_status bs \<noteq> U_BSTREAM_OK \<Longrightarrow> get bs = Inr (0, bs)"
begin

lemma get_keeps: "vhoare F bs_ok get (\<lambda>_. bs_ok)"
proof -
  have "\<exists>v bs'. get bs = Inr (v, bs') \<and> bs_ok bs'" if "bs_ok bs" for bs
    using that get_fits [of bs] get_past [of bs] get_sticks [of bs]
    by (cases "bs_status bs = U_BSTREAM_OK"; cases "bs_pos bs + width \<le> bs_size bs")
      (auto simp: bs_ok_def split: option.splits)
  then show ?thesis unfolding vhoare_def by fastforce
qed

lemma get_total: "bs_ok bs \<Longrightarrow> \<exists>v bs'. get bs = Inr (v, bs') \<and> bs_ok bs'"
  using get_keeps [of "{}"] unfolding vhoare_def by (fastforce split: sum.splits prod.splits)

text \<open>What the reader sees is a prefix of the unread bytes.\<close>

lemma get_left:
  assumes "bs_ok bs" and "bs_status bs = U_BSTREAM_OK" and "width \<le> length (bs_left bs)"
  shows "\<exists>bs'. get bs = Inr (dec (take width (bs_left bs)), bs') \<and> bs_left bs' = drop width (bs_left bs)
    \<and> bs_ok bs' \<and> bs_status bs' = U_BSTREAM_OK"
proof -
  obtain d where d: "bs_data bs = Some d" "bs_size bs \<le> length d" "bs_pos bs \<le> bs_size bs"
    using assms(1) by (auto simp: bs_ok_def split: option.splits)
  then have fits: "bs_pos bs + width \<le> bs_size bs"
    using assms(3) by (simp add: bs_left_def bs_buf_def)
  then have "take width (bs_left bs) = take width (drop (bs_pos bs) (bs_buf bs))"
    by (simp add: bs_left_def)
  with fits d assms show ?thesis
    by (simp add: get_fits) (simp add: bs_left_def bs_buf_def bs_ok_def drop_take add.commute)
qed

end

lemma gather_ok:
  assumes "bs_data bs = Some d" and "\<forall>i\<in>set order. bs_pos bs + i < length d"
  shows "bs_gather order acc bs = Inr (foldl (\<lambda>a i. push_bit 8 a OR unat (d ! (bs_pos bs + i))) acc order, bs)"
  using assms by (induction order arbitrary: acc) (auto simp: bs_at_def)

definition bs_dec :: "nat list \<Rightarrow> byte list \<Rightarrow> nat" where
  "bs_dec order bs = foldl (\<lambda>a i. push_bit 8 a OR unat (bs ! i)) 0 order"

lemma reader_fits:
  assumes "bs_ok bs" and "bs_status bs = U_BSTREAM_OK" and "bs_pos bs + n \<le> bs_size bs"
    and "\<forall>i\<in>set order. i < n"
  shows "bs_reader n order bs
    = Inr (bs_dec order (take n (drop (bs_pos bs) (bs_buf bs))), bs\<lparr>bs_pos := bs_pos bs + n\<rparr>)"
proof -
  obtain d where d: "bs_data bs = Some d" "bs_size bs \<le> length d"
    using assms(1) by (auto simp: bs_ok_def split: option.splits)
  then have "\<forall>i\<in>set order. bs_pos bs + i < length d" using assms(3,4) by fastforce
  moreover have "foldl (\<lambda>a i. push_bit 8 a OR unat (d ! (bs_pos bs + i))) 0 order
      = bs_dec order (take n (drop (bs_pos bs) d))"
    unfolding bs_dec_def using assms d by (intro foldl_cong) auto
  ultimately show ?thesis using d assms
    by (simp add: bs_reader_def U_bstream_verify_read_def bs_buf_def gather_ok)
qed

lemma reader_past:
  "bs_ok bs \<Longrightarrow> bs_status bs = U_BSTREAM_OK \<Longrightarrow> bs_size bs < bs_pos bs + n \<Longrightarrow>
   bs_reader n order bs = Inr (0, bs\<lparr>bs_status := U_BSTREAM_READ_PAST_END\<rparr>)"
  by (auto simp: bs_reader_def U_bstream_verify_read_def bs_ok_def split: option.splits)

lemma reader_sticks: "bs_status bs \<noteq> U_BSTREAM_OK \<Longrightarrow> bs_reader n order bs = Inr (0, bs)"
  by (simp add: bs_reader_def U_bstream_verify_read_def)

lemma reader_contract: "\<forall>i\<in>set order. i < n \<Longrightarrow> stream_reader n (bs_reader n order) (bs_dec order)"
  by unfold_locales (simp_all add: reader_fits reader_past reader_sticks)

lemmas bs_read_defs = U_bstream_get_u8_def U_bstream_get_u16_le_def U_bstream_get_u16_be_def
  U_bstream_get_u32_le_def U_bstream_get_u32_be_def

interpretation r8: stream_reader 1 U_bstream_get_u8 "bs_dec [0]"
  unfolding bs_read_defs by (rule reader_contract) simp

interpretation r16: stream_reader 2 U_bstream_get_u16_le "bs_dec [1, 0]"
  unfolding bs_read_defs by (rule reader_contract) simp

interpretation r16be: stream_reader 2 U_bstream_get_u16_be "bs_dec [0, 1]"
  unfolding bs_read_defs by (rule reader_contract) simp

interpretation r32: stream_reader 4 U_bstream_get_u32_le "bs_dec [3, 2, 1, 0]"
  unfolding bs_read_defs by (rule reader_contract) simp

interpretation r32be: stream_reader 4 U_bstream_get_u32_be "bs_dec [0, 1, 2, 3]"
  unfolding bs_read_defs by (rule reader_contract) simp

text \<open>The shift-and-or accumulation of the readers is the field decoding of \<open>buffer_helper.c\<close>.\<close>

lemma bs_dec_u8: "bs_dec [0] bs = unat (bs ! 0)"
  by (simp add: bs_dec_def)

lemma bs_dec_le32: "bs_dec [3, 2, 1, 0] bs = un_le32 bs"
  by (rule bit_eqI) (auto simp: bs_dec_def un_le32_def bit_simps)

lemma bs_dec_be32: "length bs = 4 \<Longrightarrow> bs_dec [0, 1, 2, 3] bs = un_le32 (rev bs)"
  by (simp add: bs_dec_le32 [symmetric]) (simp add: bs_dec_def rev_nth)

end
