(* ===== verification/Protocol.thy ===== *)
theory Protocol
  imports Buffer_Helper
begin

text \<open>
  The framed serial protocol of \<open>protocol.c\<close>: SLIP framing with a 16-bit checksum.
  The sender is written over the two functions the platform layer provides, \<open>PROT_Putc\<close>
  and \<open>PROT_Flush\<close>; the receiver over the callback \<open>PROT_Packet\<close>, which acts on a state of
  its own type. \<open>frame\<close> is the sequence of bytes on the wire.

  The lemmas show that the sender emits exactly \<open>frame d\<close> into any sink that keeps the
  contract \<open>byte_sink\<close>, and that the receiver, fed with \<open>frame d\<close> in whatever chunks,
  calls \<open>PROT_Packet\<close> with \<open>d\<close>.
\<close>

section \<open>The code\<close>

abbreviation (input) FR_END :: byte where "FR_END \<equiv> 0xC0"
abbreviation (input) FR_ESC :: byte where "FR_ESC \<equiv> 0xDB"
abbreviation (input) T_FR_END :: byte where "T_FR_END \<equiv> 0xDC"
abbreviation (input) T_FR_ESC :: byte where "T_FR_ESC \<equiv> 0xDD"
abbreviation (input) ASC_FLAG :: byte where "ASC_FLAG \<equiv> 0x01"

record PROT_RxState =
  bufpos :: nat
  escaped :: byte
  rxbuf :: "byte list"

definition protPutc :: "(byte \<Rightarrow> 's stmt) \<Rightarrow> byte \<Rightarrow> 's stmt" where
  "protPutc PROT_Putc c =
     (if c = FR_ESC then block [PROT_Putc FR_ESC, PROT_Putc T_FR_ESC]
      else if c = FR_END then block [PROT_Putc FR_ESC, PROT_Putc T_FR_END]
      else PROT_Putc c)"

text \<open>\<open>while (i < len) { c = data[i++]; crc += c; protPutc(c); }\<close>\<close>

fun send_loop :: "(byte \<Rightarrow> 's stmt) \<Rightarrow> byte list \<Rightarrow> 16 word \<Rightarrow> ('s, 16 word) op" where
  "send_loop PROT_Putc [] crc w = Inr (crc, w)"
| "send_loop PROT_Putc (c # cs) crc w = (case protPutc PROT_Putc c w of Inl f \<Rightarrow> Inl f
     | Inr w' \<Rightarrow> send_loop PROT_Putc cs (crc + ucast c) w')"

definition PROT_SendFlagged :: "(byte \<Rightarrow> 's stmt) \<Rightarrow> 's stmt \<Rightarrow> byte list \<Rightarrow> 's stmt" where
  "PROT_SendFlagged PROT_Putc PROT_Flush data = block [
     PROT_Putc FR_END,
     callv (send_loop PROT_Putc data 0) (\<lambda>sum.
       let crc = NOT sum + 1 in block [
         protPutc PROT_Putc (ucast (crc AND 0xFF)),
         protPutc PROT_Putc (ucast (drop_bit 8 crc AND 0xFF)),
         PROT_Putc FR_END,
         PROT_Flush])]"

fun sum16 :: "16 word \<Rightarrow> byte list \<Rightarrow> 16 word" where
  "sum16 crc [] = crc"
| "sum16 crc (b # bs) = sum16 (crc + ucast b) bs"

text \<open>The end of a frame: the checksum test and the callback.\<close>

definition rx_frame_end :: "(byte list \<Rightarrow> 's stmt) \<Rightarrow> PROT_RxState \<Rightarrow> nat \<Rightarrow> 's \<Rightarrow> fault + (nat \<times> 's)" where
  "rx_frame_end PROT_Packet rx err w =
     (if bufpos rx > 2
      then if bufpos rx > length (rxbuf rx) then Inl OutOfBounds
        else let n = bufpos rx;
                 crc = NOT (sum16 0 (take (n - 2) (rxbuf rx))) + 1;
                 crc1 = push_bit 8 (ucast (rxbuf rx ! (n - 1))) + ucast (rxbuf rx ! (n - 2))
             in if crc1 = crc
                then (case PROT_Packet (take (n - 2) (rxbuf rx)) w of Inl f \<Rightarrow> Inl f | Inr w' \<Rightarrow> Inr (err, w'))
                else Inr (err + 1, w)
      else Inr (err, w))"

text \<open>A byte for the buffer; the array has 256 elements.\<close>

definition rx_store :: "byte \<Rightarrow> PROT_RxState \<Rightarrow> fault + PROT_RxState" where
  "rx_store c rx =
     (if bufpos rx < 256
      then (case poke (bufpos rx) c (rxbuf rx) of Inl f \<Rightarrow> Inl f
              | Inr b \<Rightarrow> Inr (rx\<lparr>rxbuf := b, bufpos := bufpos rx + 1\<rparr>))
      else Inr (rx\<lparr>bufpos := 0\<rparr>))"

text \<open>The second byte of an escape sequence is translated back; an unknown one clears the buffer.\<close>

definition rx_unesc :: "byte \<Rightarrow> PROT_RxState \<Rightarrow> byte \<times> PROT_RxState" where
  "rx_unesc c rx = (if escaped rx AND ASC_FLAG \<noteq> 0
     then let rx1 = rx\<lparr>escaped := escaped rx AND NOT ASC_FLAG\<rparr> in
       if c = T_FR_ESC then (FR_ESC, rx1)
       else if c = T_FR_END then (FR_END, rx1)
       else (c, rx1\<lparr>bufpos := 0\<rparr>)
     else (c, rx))"

definition rx_byte :: "(byte list \<Rightarrow> 's stmt) \<Rightarrow> byte \<Rightarrow> (PROT_RxState \<times> nat \<times> 's) stmt" where
  "rx_byte PROT_Packet c st = (case st of (rx, err, w) \<Rightarrow>
     if c = FR_END
     then if escaped rx \<noteq> 0
       then Inr (rx\<lparr>bufpos := 0, escaped := escaped rx AND NOT ASC_FLAG\<rparr>, err, w)
       else (case rx_frame_end PROT_Packet rx err w of Inl f \<Rightarrow> Inl f
          | Inr (err', w') \<Rightarrow> Inr (rx\<lparr>bufpos := 0, escaped := escaped rx AND NOT ASC_FLAG\<rparr>, err', w'))
     else if c = FR_ESC then Inr (rx\<lparr>escaped := escaped rx OR ASC_FLAG\<rparr>, err, w)
     else let (c', rx') = rx_unesc c rx
       in (case rx_store c' rx' of Inl f \<Rightarrow> Inl f | Inr rx2 \<Rightarrow> Inr (rx2, err, w)))"

fun rx_loop :: "(byte list \<Rightarrow> 's stmt) \<Rightarrow> byte list \<Rightarrow> (PROT_RxState \<times> nat \<times> 's) stmt" where
  "rx_loop PROT_Packet [] = skip"
| "rx_loop PROT_Packet (c # cs) = block [rx_byte PROT_Packet c, rx_loop PROT_Packet cs]"

definition PROT_ReceiveFlagged ::
  "(byte list \<Rightarrow> 's stmt) \<Rightarrow> PROT_RxState \<Rightarrow> byte list \<Rightarrow> 's \<Rightarrow> fault + (PROT_RxState \<times> nat \<times> 's)" where
  "PROT_ReceiveFlagged PROT_Packet rx data w = rx_loop PROT_Packet data (rx, 0, w)"

section \<open>The wire format\<close>

definition esc :: "byte \<Rightarrow> byte list" where
  "esc c = (if c = FR_ESC then [FR_ESC, T_FR_ESC] else if c = FR_END then [FR_ESC, T_FR_END] else [c])"

definition escs :: "byte list \<Rightarrow> byte list" where
  "escs bs = concat (map esc bs)"

definition crc_bytes :: "byte list \<Rightarrow> byte list" where
  "crc_bytes d = (let crc = NOT (sum16 0 d) + 1 in [ucast crc, ucast (drop_bit 8 crc)])"

definition frame :: "byte list \<Rightarrow> byte list" where
  "frame d = FR_END # escs (d @ crc_bytes d) @ [FR_END]"

lemma escs_simps [simp]: "escs [] = []" "escs (c # cs) = esc c @ escs cs" "escs (xs @ ys) = escs xs @ escs ys"
  by (simp_all add: escs_def)

lemma length_escs: "length (escs bs) \<le> 2 * length bs"
  by (induction bs) (auto simp: esc_def)

lemma length_crc_bytes [simp]: "length (crc_bytes d) = 2"
  by (simp add: crc_bytes_def Let_def)

lemma length_frame: "length (frame d) \<le> 2 * length d + 6"
  using length_escs [of "d @ crc_bytes d"] by (simp add: frame_def)

lemma escs_no_end: "FR_END \<notin> set (escs bs)"
  by (induction bs) (auto simp: esc_def)

section \<open>The sender\<close>

text \<open>
  What the sender needs of the platform layer: \<open>PROT_Putc\<close> appends to the pending output as
  long as there is room. The invariant \<open>ok\<close> and the capacity belong to the platform.
\<close>

locale byte_sink =
  fixes putc :: "byte \<Rightarrow> 's stmt" and pend :: "'s \<Rightarrow> byte list" and ok :: "'s \<Rightarrow> bool" and cap :: nat
  assumes putc_appends: "ok s \<Longrightarrow> length (pend s) < cap \<Longrightarrow>
    \<exists>s'. putc c s = Inr s' \<and> ok s' \<and> pend s' = pend s @ [c]"
begin

lemma protPutc_appends:
  assumes "ok s" and "length (pend s) + length (esc c) \<le> cap"
  shows "\<exists>s'. protPutc putc c s = Inr s' \<and> ok s' \<and> pend s' = pend s @ esc c"
proof -
  have one: "\<exists>s'. putc b s = Inr s' \<and> ok s' \<and> pend s' = pend s @ [b]"
    if "ok s" "length (pend s) < cap" for s b
    using that by (rule putc_appends)
  have two: "\<exists>s'. block [putc a, putc b] s = Inr s' \<and> ok s' \<and> pend s' = pend s @ [a, b]"
    if fits: "length (pend s) + 2 \<le> cap" for a b
  proof -
    obtain s1 where s1: "putc a s = Inr s1" "ok s1" "pend s1 = pend s @ [a]"
      using one [of s a] assms(1) fits by auto
    obtain s2 where s2: "putc b s1 = Inr s2" "ok s2" "pend s2 = pend s1 @ [b]"
      using one [of s1 b] s1 fits by auto
    show ?thesis using s1 s2 by auto
  qed
  show ?thesis using assms one [of s c] two by (auto simp: protPutc_def esc_def)
qed

lemma send_loop_appends:
  "ok s \<Longrightarrow> length (pend s) + length (escs d) \<le> cap \<Longrightarrow>
   \<exists>s'. send_loop putc d crc s = Inr (sum16 crc d, s') \<and> ok s' \<and> pend s' = pend s @ escs d"
proof (induction d arbitrary: s crc)
  case Nil
  then show ?case by simp
next
  case (Cons c d)
  then obtain s1 where s1: "protPutc putc c s = Inr s1" "ok s1" "pend s1 = pend s @ esc c"
    using protPutc_appends [of s c] by auto
  with Cons.prems Cons.IH [of s1 "crc + ucast c"] show ?case by auto
qed

text \<open>Sending puts one frame into the sink and flushes it.\<close>

lemma send_frame:
  assumes "ok s" and "length (pend s) + length (frame d) \<le> cap"
  shows "\<exists>s'. PROT_SendFlagged putc flush d s = flush s' \<and> ok s' \<and> pend s' = pend s @ frame d"
proof -
  define crc where "crc = NOT (sum16 0 d) + 1"
  have low: "ucast (crc AND 0xFF) = (ucast crc :: byte)"
    and high: "ucast (drop_bit 8 crc AND 0xFF) = (ucast (drop_bit 8 crc) :: byte)"
    by (auto intro!: bit_word_eqI simp: byte_masks16 bit_simps)
  have len: "length (frame d) = length (escs d) + length (esc (ucast crc)) + length (esc (ucast (drop_bit 8 crc))) + 2"
    by (simp add: frame_def crc_bytes_def Let_def crc_def)
  obtain s1 where s1: "putc FR_END s = Inr s1" "ok s1" "pend s1 = pend s @ [FR_END]"
    using putc_appends [of s FR_END] assms len by auto
  obtain s2 where s2: "send_loop putc d 0 s1 = Inr (sum16 0 d, s2)" "ok s2" "pend s2 = pend s1 @ escs d"
    using send_loop_appends [of s1 d 0] s1 assms len by auto
  obtain s3 where s3: "protPutc putc (ucast crc) s2 = Inr s3" "ok s3" "pend s3 = pend s2 @ esc (ucast crc)"
    using protPutc_appends [of s2 "ucast crc"] s1 s2 assms len by auto
  obtain s4 where s4: "protPutc putc (ucast (drop_bit 8 crc)) s3 = Inr s4" "ok s4"
      "pend s4 = pend s3 @ esc (ucast (drop_bit 8 crc))"
    using protPutc_appends [of s3 "ucast (drop_bit 8 crc)"] s1 s2 s3 assms len by auto
  obtain s5 where s5: "putc FR_END s4 = Inr s5" "ok s5" "pend s5 = pend s4 @ [FR_END]"
    using putc_appends [of s4 FR_END] s1 s2 s3 s4 assms len by auto
  have "PROT_SendFlagged putc flush d s = flush s5"
    using s1 s2 s3 s4 s5
    by (simp add: PROT_SendFlagged_def callv_def Let_def crc_def [symmetric] low high split: sum.splits)
  moreover have "pend s5 = pend s @ frame d"
    using s1 s2 s3 s4 s5 by (simp add: frame_def crc_bytes_def Let_def crc_def)
  ultimately show ?thesis using s5 by blast
qed

end

text \<open>Whatever the platform keeps, sending keeps: the flush alone decides what holds afterwards.\<close>

lemma protPutc_keeps: "(\<And>c. keeps F I (putc c)) \<Longrightarrow> keeps F I (protPutc putc c)"
  unfolding protPutc_def by (intro hoare_intro)

lemma send_loop_keeps:
  assumes "\<And>c. keeps F I (putc c)"
  shows "vhoare F I (send_loop putc d crc) (\<lambda>_. I)"
proof (induction d arbitrary: crc)
  case Nil
  then show ?case by (simp add: vhoare_def)
next
  case (Cons c d)
  have "case send_loop putc (c # d) crc w of Inl f \<Rightarrow> f \<in> F | Inr (a, w') \<Rightarrow> I w'" if "I w" for w
    using assms protPutc_keeps [of F I putc c] Cons [of "crc + ucast c"] that
    by (cases "protPutc putc c w") (auto simp: vhoare_def dest: hoare_Inl hoare_Inr)
  then show ?case by (simp add: vhoare_def)
qed

lemma send_keeps:
  assumes "\<And>c. keeps F I (putc c)" and "hoare F I flush Q"
  shows "hoare F I (PROT_SendFlagged putc flush d) Q"
  unfolding PROT_SendFlagged_def Let_def
  by (intro keeps_block assms hoare_block_single keeps_callv send_loop_keeps protPutc_keeps)

section \<open>The receiver\<close>

definition rx_ok :: "PROT_RxState \<Rightarrow> bool" where
  "rx_ok rx \<longleftrightarrow> length (rxbuf rx) = 256 \<and> bufpos rx \<le> 256 \<and> (escaped rx = 0 \<or> escaped rx = 1)"

definition rx_init :: PROT_RxState where
  "rx_init = \<lparr>bufpos = 0, escaped = 0, rxbuf = replicate 256 0\<rparr>"

lemma rx_ok_init: "rx_ok rx_init"
  by (simp add: rx_ok_def rx_init_def)

lemma rx_loop_append:
  "rx_loop pkt (xs @ ys) st = (case rx_loop pkt xs st of Inl f \<Rightarrow> Inl f | Inr st' \<Rightarrow> rx_loop pkt ys st')"
  by (induction xs arbitrary: st) (auto simp: skip_def split: sum.splits)

text \<open>Nothing the other side sends makes the receiver leave its buffer.\<close>

lemma rx_store_ok: "rx_ok rx \<Longrightarrow> \<exists>rx'. rx_store c rx = Inr rx' \<and> rx_ok rx' \<and> escaped rx' = escaped rx"
  by (auto simp: rx_store_def rx_ok_def)

lemma rx_frame_end_hoare:
  assumes "rx_ok rx" and "\<And>d. 0 < length d \<Longrightarrow> length d \<le> 254 \<Longrightarrow> keeps F P (pkt d)" and "P w"
  shows "case rx_frame_end pkt rx err w of Inl f \<Rightarrow> f \<in> F | Inr (e, w') \<Rightarrow> P w'"
proof -
  define d where "d = take (bufpos rx - 2) (rxbuf rx)"
  have "0 < length d \<and> length d \<le> 254" if "2 < bufpos rx"
    using that assms(1) by (auto simp: d_def rx_ok_def)
  then have "case pkt d w of Inl f \<Rightarrow> f \<in> F | Inr w' \<Rightarrow> P w'" if "2 < bufpos rx"
    using that assms(2) [of d] assms(3) by (simp add: hoare_def)
  with assms(1,3) show ?thesis
    by (auto simp: rx_frame_end_def Let_def rx_ok_def d_def split: sum.splits)
qed

lemma rx_byte_end:
  "rx_byte pkt FR_END (rx, err, w) = (if escaped rx \<noteq> 0
     then Inr (rx\<lparr>bufpos := 0, escaped := escaped rx AND NOT ASC_FLAG\<rparr>, err, w)
     else case rx_frame_end pkt rx err w of Inl f \<Rightarrow> Inl f
        | Inr (err', w') \<Rightarrow> Inr (rx\<lparr>bufpos := 0, escaped := escaped rx AND NOT ASC_FLAG\<rparr>, err', w'))"
  by (simp add: rx_byte_def)

lemma rx_byte_esc: "rx_byte pkt FR_ESC (rx, err, w) = Inr (rx\<lparr>escaped := escaped rx OR ASC_FLAG\<rparr>, err, w)"
  by (simp add: rx_byte_def)

lemma rx_byte_data:
  "c \<noteq> FR_END \<Longrightarrow> c \<noteq> FR_ESC \<Longrightarrow> rx_byte pkt c (rx, err, w) =
     (case rx_store (fst (rx_unesc c rx)) (snd (rx_unesc c rx)) of Inl f \<Rightarrow> Inl f | Inr rx2 \<Rightarrow> Inr (rx2, err, w))"
  by (simp add: rx_byte_def case_prod_beta split: sum.splits)

lemma rx_unesc_ok: "rx_ok rx \<Longrightarrow> rx_ok (snd (rx_unesc c rx))"
  by (auto simp: rx_unesc_def rx_ok_def Let_def)

lemma rx_byte_keeps:
  assumes "\<And>d. 0 < length d \<Longrightarrow> length d \<le> 254 \<Longrightarrow> keeps F P (pkt d)"
  shows "keeps F (\<lambda>(rx, err, w). rx_ok rx \<and> P w) (rx_byte pkt c)"
  unfolding hoare_def
proof (clarify)
  fix rx err w assume ok: "rx_ok rx" and P: "P w"
  consider "c = FR_END" | "c = FR_ESC" | "c \<noteq> FR_END" "c \<noteq> FR_ESC" by blast
  then show "case rx_byte pkt c (rx, err, w) of Inl f \<Rightarrow> f \<in> F | Inr w' \<Rightarrow> (case w' of (rx, err, w) \<Rightarrow> rx_ok rx \<and> P w)"
  proof cases
    case 1
    have "rx_ok (rx\<lparr>bufpos := 0, escaped := escaped rx AND NOT 1\<rparr>)" using ok by (auto simp: rx_ok_def)
    moreover have "case rx_frame_end pkt rx err w of Inl f \<Rightarrow> f \<in> F | Inr (e, w') \<Rightarrow> P w'"
      by (rule rx_frame_end_hoare [where P = P and pkt = pkt, OF ok assms P])
    ultimately show ?thesis
      using P unfolding 1 rx_byte_end by (auto split: sum.splits)
  next
    case 2
    with ok P show ?thesis by (auto simp: rx_byte_esc rx_ok_def)
  next
    case 3
    obtain rx' where "rx_store (fst (rx_unesc c rx)) (snd (rx_unesc c rx)) = Inr rx'" "rx_ok rx'"
      using rx_store_ok [OF rx_unesc_ok [OF ok, of c], of "fst (rx_unesc c rx)"] by auto
    with 3 P show ?thesis by (simp add: rx_byte_data)
  qed
qed

lemma rx_loop_keeps:
  assumes "\<And>d. 0 < length d \<Longrightarrow> length d \<le> 254 \<Longrightarrow> keeps F P (pkt d)"
  shows "keeps F (\<lambda>(rx, err, w). rx_ok rx \<and> P w) (rx_loop pkt cs)"
proof (induction cs)
  case Nil
  show ?case by (simp add: hoare_skip)
next
  case (Cons c cs)
  show ?case unfolding rx_loop.simps
    by (rule keeps_block [OF rx_byte_keeps [OF assms] hoare_block_single [OF Cons.IH]])
qed

section \<open>Delivery\<close>

text \<open>The receiver is outside an escape sequence and its buffer holds \<open>bs\<close>.\<close>

definition rx_holds :: "PROT_RxState \<Rightarrow> byte list \<Rightarrow> bool" where
  "rx_holds rx bs \<longleftrightarrow> rx_ok rx \<and> escaped rx = 0 \<and> bufpos rx = length bs \<and> take (length bs) (rxbuf rx) = bs"

lemma rx_holds_init: "rx_holds rx_init []"
  by (simp add: rx_holds_def rx_init_def rx_ok_def)

lemma rx_store_holds:
  assumes "rx_holds rx bs" and "length bs < 256"
  shows "\<exists>rx'. rx_store c rx = Inr rx' \<and> rx_holds rx' (bs @ [c])"
  using assms by (auto simp: rx_store_def rx_holds_def rx_ok_def take_update_snoc)

lemma rx_esc:
  assumes holds: "rx_holds rx bs" and room: "length bs < 256"
  shows "\<exists>rx'. rx_loop pkt (esc c) (rx, err, w) = Inr (rx', err, w) \<and> rx_holds rx' (bs @ [c])"
proof -
  obtain rx' where rx': "rx_store c rx = Inr rx'" "rx_holds rx' (bs @ [c])"
    using rx_store_holds [OF assms] by blast
  have pair: "rx_loop pkt [FR_ESC, t] (rx, err, w) = Inr (rx', err, w)"
    if "(t, c) = (T_FR_ESC, FR_ESC) \<or> (t, c) = (T_FR_END, FR_END)" for t
    using that rx'(1) holds
    by (auto simp: rx_byte_esc rx_byte_data rx_unesc_def Let_def rx_holds_def skip_def rx_store_def poke_def)
  have "escaped rx = 0" using holds by (simp add: rx_holds_def)
  then have "rx_loop pkt [c] (rx, err, w) = Inr (rx', err, w)" if "c \<noteq> FR_END" "c \<noteq> FR_ESC"
    using that rx'(1) by (simp add: rx_byte_data rx_unesc_def skip_def)
  with pair rx'(2) show ?thesis by (auto simp: esc_def)
qed

lemma rx_escs:
  "rx_holds rx bs \<Longrightarrow> length bs + length cs \<le> 256 \<Longrightarrow>
   \<exists>rx'. rx_loop pkt (escs cs) (rx, err, w) = Inr (rx', err, w) \<and> rx_holds rx' (bs @ cs)"
proof (induction cs arbitrary: rx bs)
  case Nil
  then show ?case by (simp add: skip_def)
next
  case (Cons c cs)
  obtain rx1 where rx1: "rx_loop pkt (esc c) (rx, err, w) = Inr (rx1, err, w)" "rx_holds rx1 (bs @ [c])"
    using rx_esc [OF Cons.prems(1), where pkt = pkt and c = c and err = err and w = w] Cons.prems(2) by auto
  obtain rx2 where "rx_loop pkt (escs cs) (rx1, err, w) = Inr (rx2, err, w)" "rx_holds rx2 ((bs @ [c]) @ cs)"
    using Cons.IH [OF rx1(2)] Cons.prems(2) by auto
  with rx1(1) show ?case by (auto simp add: rx_loop_append)
qed

lemma crc_bytes_value:
  "push_bit 8 (ucast (crc_bytes d ! 1)) + ucast (crc_bytes d ! 0) = (NOT (sum16 0 d) + 1 :: 16 word)"
proof -
  define x where "x = NOT (sum16 0 d) + 1"
  have "push_bit 8 (ucast (ucast (drop_bit 8 x) :: byte)) + ucast (ucast x :: byte) = x"
  proof -
    have "push_bit 8 (ucast (ucast (drop_bit 8 x) :: byte)) AND ucast (ucast x :: byte) = (0 :: 16 word)"
      by (rule bit_word_eqI) (auto simp: bit_simps)
    then have "push_bit 8 (ucast (ucast (drop_bit 8 x) :: byte)) + ucast (ucast x :: byte)
        = (push_bit 8 (ucast (ucast (drop_bit 8 x) :: byte)) OR ucast (ucast x :: byte) :: 16 word)"
      by (simp add: disjunctive_add_eq_or)
    also have "\<dots> = x" by (rule bit_word_eqI) (auto simp: bit_simps)
    finally show ?thesis .
  qed
  then show ?thesis by (simp add: crc_bytes_def Let_def x_def)
qed

text \<open>The byte that ends a frame: the checksum decides between the callback and the error count.\<close>

lemma rx_end:
  assumes "rx_holds rx (p @ crc_bytes d)" and "p \<noteq> []" and "sum16 0 p = sum16 0 d \<longleftrightarrow> ok"
  shows "\<exists>rx'. rx_holds rx' [] \<and> rx_loop pkt [FR_END] (rx, err, w) =
    (if ok then (case pkt p w of Inl f \<Rightarrow> Inl f | Inr w' \<Rightarrow> Inr (rx', err, w')) else Inr (rx', err + 1, w))"
proof -
  define rx' where "rx' = rx\<lparr>bufpos := 0, escaped := escaped rx AND NOT 1\<rparr>"
  obtain c0 c1 where c: "crc_bytes d = [c0, c1]" by (auto simp: crc_bytes_def Let_def)
  have pos: "bufpos rx = length p + 2" and len: "length p + 2 \<le> length (rxbuf rx)"
    and buf: "take (length p + 2) (rxbuf rx) = p @ [c0, c1]" and "escaped rx = 0"
    using assms(1) by (auto simp: rx_holds_def rx_ok_def c)
  have "rxbuf rx ! i = (p @ [c0, c1]) ! i" if "i < length p + 2" for i
    using arg_cong [OF buf, of "\<lambda>xs. xs ! i"] that by simp
  then have n0: "rxbuf rx ! length p = c0" and n1: "rxbuf rx ! Suc (length p) = c1"
    by (simp_all add: nth_append)
  have "take (length p) (rxbuf rx) = p"
    using arg_cong [OF buf, of "take (length p)"] by (simp add: min_def)
  moreover have "push_bit 8 (ucast c1) + ucast c0 = (NOT (sum16 0 d) + 1 :: 16 word)"
    using crc_bytes_value [of d] by (simp add: c)
  ultimately have "rx_frame_end pkt rx err w = (if ok
      then (case pkt p w of Inl f \<Rightarrow> Inl f | Inr w' \<Rightarrow> Inr (err, w')) else Inr (err + 1, w))"
    using assms(2,3) pos len n0 n1 by (auto simp: rx_frame_end_def Let_def)
  then have "rx_loop pkt [FR_END] (rx, err, w) = (if ok
      then (case pkt p w of Inl f \<Rightarrow> Inl f | Inr w' \<Rightarrow> Inr (rx', err, w')) else Inr (rx', err + 1, w))"
    using \<open>escaped rx = 0\<close> by (auto simp: rx_byte_end skip_def rx'_def split: sum.splits)
  moreover have "rx_holds rx' []"
    using assms(1) by (simp add: rx_holds_def rx_ok_def rx'_def)
  ultimately show ?thesis by blast
qed

lemma rx_frame_body:
  assumes "rx_holds rx []" and "p \<noteq> []" and "length p \<le> 254" and "sum16 0 p = sum16 0 d \<longleftrightarrow> ok"
  shows "\<exists>rx'. rx_holds rx' [] \<and> rx_loop pkt (escs (p @ crc_bytes d) @ [FR_END]) (rx, err, w) =
    (if ok then (case pkt p w of Inl f \<Rightarrow> Inl f | Inr w' \<Rightarrow> Inr (rx', err, w')) else Inr (rx', err + 1, w))"
proof -
  obtain rx1 where rx1: "rx_loop pkt (escs (p @ crc_bytes d)) (rx, err, w) = Inr (rx1, err, w)"
      "rx_holds rx1 (p @ crc_bytes d)"
    using rx_escs [OF assms(1), where cs = "p @ crc_bytes d" and pkt = pkt and err = err and w = w] assms(3)
    by auto
  show ?thesis
    unfolding rx_loop_append rx1(1) sum.case by (rule rx_end [OF rx1(2) assms(2,4)])
qed

text \<open>A delimiter that finds at most two bytes in the buffer only clears it.\<close>

lemma rx_idle_end:
  assumes "rx_holds rx bs" and "length bs \<le> 2"
  shows "\<exists>rx'. rx_byte pkt FR_END (rx, err, w) = Inr (rx', err, w) \<and> rx_holds rx' []"
  using assms by (auto simp: rx_byte_end rx_frame_end_def rx_holds_def rx_ok_def)

lemma rx_frame:
  assumes "rx_holds rx bs" and "length bs \<le> 2" and "d \<noteq> []" and "length d \<le> 254"
  shows "\<exists>rx'. rx_holds rx' [] \<and> rx_loop pkt (frame d) (rx, err, w) =
    (case pkt d w of Inl f \<Rightarrow> Inl f | Inr w' \<Rightarrow> Inr (rx', err, w'))"
proof -
  obtain rx1 where rx1: "rx_byte pkt FR_END (rx, err, w) = Inr (rx1, err, w)" "rx_holds rx1 []"
    using rx_idle_end [OF assms(1,2), where pkt = pkt and err = err and w = w] by blast
  then show ?thesis
    using rx_frame_body [OF rx1(2) assms(3,4), where d = d and ok = True and pkt = pkt and err = err and w = w]
    by (simp add: frame_def)
qed

lemma rx_frames:
  "rx_holds rx [] \<Longrightarrow> \<forall>d\<in>set ds. d \<noteq> [] \<and> length d \<le> 254 \<Longrightarrow>
   \<exists>rx'. rx_holds rx' [] \<and> rx_loop pkt (concat (map frame ds)) (rx, err, w) =
     (case block (map pkt ds) w of Inl f \<Rightarrow> Inl f | Inr w' \<Rightarrow> Inr (rx', err, w'))"
proof (induction ds arbitrary: rx w)
  case Nil
  then show ?case by (auto simp: skip_def)
next
  case (Cons d ds)
  obtain rx1 where rx1: "rx_holds rx1 []" "rx_loop pkt (frame d) (rx, err, w) =
      (case pkt d w of Inl f \<Rightarrow> Inl f | Inr w' \<Rightarrow> Inr (rx1, err, w'))"
    using rx_frame [OF Cons.prems(1), where d = d and pkt = pkt and err = err and w = w] Cons.prems(2) by auto
  show ?case
  proof (cases "pkt d w")
    case (Inl f)
    with rx1 show ?thesis by (auto simp: rx_loop_append)
  next
    case (Inr w1)
    with Cons.IH [OF rx1(1), where w = w1] Cons.prems(2) rx1(2) show ?thesis by (auto simp: rx_loop_append)
  qed
qed

text \<open>The error count only adds up, so a run can be cut into chunks.\<close>

lemma rx_byte_err:
  "rx_byte pkt c (rx, err, w) = (case rx_byte pkt c (rx, 0, w) of Inl f \<Rightarrow> Inl f
     | Inr (rx', e, w') \<Rightarrow> Inr (rx', err + e, w'))"
proof -
  consider "c = FR_END" | "c = FR_ESC" | "c \<noteq> FR_END" "c \<noteq> FR_ESC" by blast
  then show ?thesis
  proof cases
    case 1
    show ?thesis unfolding 1 rx_byte_end
      by (auto simp: rx_frame_end_def Let_def split: sum.splits)
  qed (auto simp: rx_byte_esc rx_byte_data split: sum.splits)
qed

lemma rx_loop_err:
  "rx_loop pkt cs (rx, err, w) = (case rx_loop pkt cs (rx, 0, w) of Inl f \<Rightarrow> Inl f
     | Inr (rx', e, w') \<Rightarrow> Inr (rx', err + e, w'))"
proof (induction cs arbitrary: rx err w)
  case Nil
  show ?case by (simp add: skip_def)
next
  case (Cons c cs)
  show ?case
  proof (cases "rx_byte pkt c (rx, 0, w)")
    case (Inl f)
    then show ?thesis by (simp add: rx_byte_err [of pkt c rx err])
  next
    case (Inr st)
    obtain rx' e w' where st: "st = (rx', e, w')" by (cases st)
    show ?thesis
      using Inr st Cons.IH [of rx' "err + e" w'] Cons.IH [of rx' e w']
      by (simp add: rx_byte_err [of pkt c rx err] add.assoc split: sum.splits prod.splits)
  qed
qed

section \<open>The properties of the protocol\<close>

text \<open>A callback that records the packets it gets.\<close>

definition rx_log :: "byte list \<Rightarrow> byte list list stmt" where
  "rx_log d ds = Inr (ds @ [d])"

lemma block_rx_log: "block (map rx_log ds) log = Inr (log @ ds)"
  by (induction ds arbitrary: log) (simp_all add: rx_log_def)

text \<open>
  A serial line without limit keeps every byte put on it. It fulfils the sender's contract for
  every capacity, so what \<open>PROT_SendFlagged\<close> leaves on it are frames.
\<close>

definition line_putc :: "byte \<Rightarrow> byte list stmt" where
  "line_putc c line = Inr (line @ [c])"

interpretation wire: byte_sink line_putc "\<lambda>line. line" "\<lambda>_. True" n for n
  by unfold_locales (simp add: line_putc_def)

lemma send_line: "PROT_SendFlagged line_putc skip d line = Inr (line @ frame d)"
  using wire.send_frame [of line d "length line + length (frame d)" skip] by (simp add: skip_def)

lemma send_lines: "block (map (PROT_SendFlagged line_putc skip) ds) line = Inr (line @ concat (map frame ds))"
  by (induction ds arbitrary: line) (simp_all add: send_line)

text \<open>C12: What \<open>PROT_SendFlagged\<close> sends, \<open>PROT_ReceiveFlagged\<close> delivers: any messages of 1 to 254 bytes, sent
  one after the other over a line that loses nothing, reach \<open>PROT_Packet\<close> of a receiver whose buffer is
  empty in order, once each and unchanged, without a checksum error; afterwards the buffer is empty
  again.\<close>

theorem receive_frames:
  assumes "rx_holds rx []" and "\<forall>d\<in>set ds. d \<noteq> [] \<and> length d \<le> 254"
  shows "\<exists>line rx'. block (map (PROT_SendFlagged line_putc skip) ds) [] = Inr line \<and> rx_holds rx' []
    \<and> PROT_ReceiveFlagged rx_log rx line log = Inr (rx', 0, log @ ds)"
  using rx_frames [OF assms, where pkt = rx_log and err = 0 and w = log]
  by (simp add: send_lines PROT_ReceiveFlagged_def block_rx_log)

theorem receive_frames_witness:
  "\<exists>line rx'. block (map (PROT_SendFlagged line_putc skip) [[0xC0, 7], [0xDB]]) [] = Inr line
    \<and> PROT_ReceiveFlagged rx_log rx_init line [] = Inr (rx', 0, [[0xC0, 7], [0xDB]])"
  using receive_frames [OF rx_holds_init, of "[[0xC0, 7], [0xDB]]" "[]"] by auto

text \<open>C13: Whatever bytes came before, in whatever state they left the receiver, the next
  whole frame is delivered, as the last packet.\<close>

theorem receive_resync:
  assumes "rx_ok rx" and "d \<noteq> []" and "length d \<le> 254"
  shows "\<exists>rx' err ds. rx_holds rx' [] \<and>
    PROT_ReceiveFlagged rx_log rx (garbage @ frame d) log = Inr (rx', err, ds @ [d])"
proof -
  have logs: "keeps {} (\<lambda>_. True) (rx_log p)" for p by (simp add: hoare_def rx_log_def)
  have "keeps {} (\<lambda>(rx, err, w :: byte list list). rx_ok rx \<and> True) (rx_loop rx_log garbage)"
    by (rule rx_loop_keeps) (rule logs)
  from hoare_total [OF this, of "(rx, 0, log)"] assms(1)
  obtain rx1 err1 log1 where g: "rx_loop rx_log garbage (rx, 0, log) = Inr (rx1, err1, log1)" "rx_ok rx1"
    by auto
  have "keeps {} (\<lambda>(rx, err, w :: byte list list). rx_ok rx \<and> True) (rx_byte rx_log FR_END)"
    by (rule rx_byte_keeps) (rule logs)
  from hoare_total [OF this, of "(rx1, err1, log1)"] g(2)
  obtain rx2 err2 log2 where e: "rx_byte rx_log FR_END (rx1, err1, log1) = Inr (rx2, err2, log2)" "rx_ok rx2"
    by auto
  have "bufpos rx2 = 0 \<and> escaped rx2 = escaped rx1 AND NOT 1"
    using e(1) by (auto simp: rx_byte_end split: if_splits sum.splits)
  then have "rx_holds rx2 []" using e(2) g(2) by (auto simp: rx_holds_def rx_ok_def)
  from rx_frame_body [OF this assms(2,3), where d = d and ok = True and pkt = rx_log and err = err2 and w = log2]
  obtain rx3 where "rx_holds rx3 []"
      "rx_loop rx_log (escs (d @ crc_bytes d) @ [FR_END]) (rx2, err2, log2) = Inr (rx3, err2, log2 @ [d])"
    by (auto simp: rx_log_def)
  with g(1) e(1) show ?thesis
    by (auto simp: PROT_ReceiveFlagged_def rx_loop_append frame_def)
qed

theorem receive_resync_witness:
  "\<exists>rx' err ds. PROT_ReceiveFlagged rx_log rx_init ([0xDB, 0xC0, 1, 2, 3] @ frame [5]) [] = Inr (rx', err, ds @ [[5]])"
  using receive_resync [OF rx_ok_init, of "[5]" "[0xDB, 0xC0, 1, 2, 3]" "[]"] by auto

lemma sum16_shift: "sum16 a bs = a + sum16 0 bs"
proof (induction bs arbitrary: a)
  case (Cons b bs)
  show ?case using Cons.IH [of "a + ucast b"] Cons.IH [of "ucast b"] by (simp add: add.assoc)
qed simp

lemma sum16_append: "sum16 a (xs @ ys) = sum16 (sum16 a xs) ys"
  by (induction xs arbitrary: a) simp_all

lemma sum16_update:
  assumes "i < length d" and "sum16 0 (d[i := b]) = sum16 0 d"
  shows "b = d ! i"
proof -
  have sum: "sum16 0 (take i d @ c # drop (Suc i) d) = sum16 0 (take i d) + ucast c + sum16 0 (drop (Suc i) d)" for c
    by (simp add: sum16_append sum16_shift [of "sum16 0 (take i d) + ucast c"])
  have "d = take i d @ (d ! i) # drop (Suc i) d" using assms(1) by (rule id_take_nth_drop)
  then have "sum16 0 d = sum16 0 (take i d) + ucast (d ! i) + sum16 0 (drop (Suc i) d)"
    using sum [of "d ! i"] by simp
  moreover have "sum16 0 (d[i := b]) = sum16 0 (take i d) + ucast b + sum16 0 (drop (Suc i) d)"
    using sum [of b] assms(1) by (simp add: upd_conv_take_nth_drop)
  ultimately have "(ucast b :: 16 word) = ucast (d ! i)" using assms(2) by simp
  then have same: "bit (ucast b :: 16 word) n = bit (ucast (d ! i) :: 16 word) n" for n by simp
  have "bit b n = bit (d ! i) n" if "n < 8" for n
  proof -
    have "n < 16" using that by simp
    moreover have "(n < 16 \<and> bit b n) = (n < 16 \<and> bit (d ! i) n)"
      using same [of n] by (simp add: bit_simps)
    ultimately show ?thesis by blast
  qed
  then show ?thesis by (intro bit_word_eqI) auto
qed

text \<open>C14: A frame in which one payload byte was changed on the way is not delivered: the
  checksum error is counted and \<open>PROT_Packet\<close> is not called.\<close>

theorem receive_corrupted:
  assumes "rx_holds rx []" and "length d \<le> 254" and "i < length d" and "b \<noteq> d ! i"
  shows "\<exists>rx'. rx_holds rx' [] \<and>
    PROT_ReceiveFlagged rx_log rx (FR_END # escs (d[i := b] @ crc_bytes d) @ [FR_END]) log = Inr (rx', 1, log)"
proof -
  obtain rx1 where rx1: "rx_byte rx_log FR_END (rx, 0, log) = Inr (rx1, 0, log)" "rx_holds rx1 []"
    using rx_idle_end [OF assms(1), where pkt = rx_log and err = 0 and w = log] by auto
  have "\<not> sum16 0 (d[i := b]) = sum16 0 d" using sum16_update assms(3,4) by blast
  moreover have "d[i := b] \<noteq> []" using assms(3) by auto
  ultimately show ?thesis
    using rx_frame_body [OF rx1(2), where p = "d[i := b]" and d = d and ok = False and pkt = rx_log and err = 0 and w = log]
      assms(2) rx1(1)
    by (simp add: PROT_ReceiveFlagged_def)
qed

theorem receive_corrupted_witness:
  "\<exists>rx'. PROT_ReceiveFlagged rx_log rx_init (FR_END # escs ([9, 2, 3] @ crc_bytes [1, 2, 3]) @ [FR_END]) [] = Inr (rx', 1, [])"
  using receive_corrupted [OF rx_holds_init, of "[1, 2, 3]" 0 9 "[]"] by auto

text \<open>C15: It makes no difference how the serial port cuts the input into chunks: receiving two
  chunks one after the other acts on \<open>PROT_Packet\<close>'s state and on the receiver like receiving
  their concatenation, and the checksum errors add up.\<close>

theorem receive_chunks:
  "PROT_ReceiveFlagged pkt rx (xs @ ys) w =
    (case PROT_ReceiveFlagged pkt rx xs w of Inl f \<Rightarrow> Inl f
     | Inr (rx1, e1, w1) \<Rightarrow> (case PROT_ReceiveFlagged pkt rx1 ys w1 of Inl f \<Rightarrow> Inl f
        | Inr (rx2, e2, w2) \<Rightarrow> Inr (rx2, e1 + e2, w2)))"
proof (cases "rx_loop pkt xs (rx, 0, w)")
  case (Inl f)
  then show ?thesis by (simp add: PROT_ReceiveFlagged_def rx_loop_append)
next
  case (Inr st)
  obtain rx1 e1 w1 where st: "st = (rx1, e1, w1)" by (cases st)
  show ?thesis
    unfolding PROT_ReceiveFlagged_def rx_loop_append Inr st sum.case prod.case
    by (rule rx_loop_err)
qed

text \<open>C16: Nothing that arrives on the line makes the receiver read or write outside its
  256-byte buffer, and the callback only gets payloads of 1 to 254 bytes: if the callback
  keeps an invariant on those, receiving keeps it, with the callback's faults only.\<close>

theorem receive_safe:
  assumes "rx_ok rx" and "P w" and "\<And>d. 0 < length d \<Longrightarrow> length d \<le> 254 \<Longrightarrow> keeps F P (pkt d)"
  shows "case PROT_ReceiveFlagged pkt rx data w of Inl f \<Rightarrow> f \<in> F | Inr (rx', err, w') \<Rightarrow> rx_ok rx' \<and> P w'"
proof -
  have "keeps F (\<lambda>(rx, err, w). rx_ok rx \<and> P w) (rx_loop pkt data)"
    by (rule rx_loop_keeps) (rule assms(3))
  with assms(1,2) have "case rx_loop pkt data (rx, 0, w) of Inl f \<Rightarrow> f \<in> F | Inr st \<Rightarrow> (case st of (rx', err, w') \<Rightarrow> rx_ok rx' \<and> P w')"
    unfolding hoare_def by (metis (mono_tags, lifting) case_prod_conv)
  then show ?thesis by (auto simp: PROT_ReceiveFlagged_def split: sum.splits)
qed

theorem receive_safe_witness:
  "case PROT_ReceiveFlagged (\<lambda>d n. Inr (n + length d)) rx_init [1, 2, 0xC0] (0 :: nat) of
     Inl f \<Rightarrow> f \<in> {} | Inr (rx', err, n) \<Rightarrow> rx_ok rx' \<and> 0 \<le> n"
  by (rule receive_safe [OF rx_ok_init]) (simp_all add: hoare_def)

end
