(* ===== verification/Gcf_State.thy ===== *)
theory Gcf_State
  imports SStream BStream Protocol
begin

text \<open>
  The data of \<open>gcf.c\<close> and \<open>main_posix.c\<close>: enumerations, the \<open>GCF\<close> and \<open>GCF_File\<close>
  structs, the platform's \<open>PL_Internal\<close>, and the world the statements of the program act on.

  Of the operating system the program sees return values only. They come from the record
  \<open>env\<close>, one function per kind of call, indexed by a counter that every call advances, so
  every behaviour of the system is covered by some \<open>env\<close>. What the program does to the
  outside is appended to \<open>outs\<close>, in order.
\<close>

section \<open>Enumerations\<close>

datatype event =
    EV_ACTION | EV_RESET_SUCCESS | EV_RESET_FAILED | EV_UART_RESET_SUCCESS | EV_UART_RESET_FAILED
  | EV_FTDI_RESET_SUCCESS | EV_FTDI_RESET_FAILED | EV_RASPBEE_RESET_SUCCESS | EV_RASPBEE_RESET_FAILED
  | EV_PKG_UART_RESET | EV_PL_STARTED | EV_PL_LOOP | EV_RX_ASCII | EV_RX_BTL_PKG_DATA | EV_RX_PKG_DATA
  | EV_CONNECTED | EV_DISCONNECTED | EV_TIMEOUT

datatype gcf_status = GCF_SUCCESS | GCF_FAILED

datatype baudrate = PL_BAUDRATE_UNKNOWN | PL_BAUDRATE_38400 | PL_BAUDRATE_115200

datatype task = T_NONE | T_RESET | T_PROGRAM | T_LIST | T_CONNECT | T_DUMP_FLASH | T_SNIFF | T_HELP

datatype device_type = DEV_UNKNOWN | DEV_RASPBEE_1 | DEV_RASPBEE_2 | DEV_CONBEE_1 | DEV_CONBEE_2 | DEV_HIVE

datatype debug_level = DBG_INFO | DBG_DEBUG | DBG_RAW

text \<open>The function pointers \<open>state\<close> and \<open>substate\<close> hold one of these handlers.\<close>

datatype handler =
    ST_Void | ST_Init | ST_Program
  | ST_V1ProgramSync | ST_V1ProgramWriteHeader | ST_V1ProgramUpload | ST_V1ProgramValidate
  | ST_V3ProgramSync | ST_V3ProgramUpload | ST_V3ProgramWaitID
  | ST_BootloaderConnect | ST_BootloaderQuery
  | ST_Connect | ST_Connected
  | ST_SniffConnect | ST_SniffConfig | ST_SniffConfigConfirm | ST_SniffSyncData | ST_SniffRecvData
  | ST_SniffTeardown
  | ST_DumpFlashConnect | ST_DumpFlashQueryFirmwareVersion | ST_DumpFlashSend | ST_DumpFlashWait
  | ST_Reset | ST_ResetUart | ST_ResetFtdi | ST_ResetRaspBee
  | ST_ListDevices

abbreviation (input) MAX_GCF_FILE_SIZE :: nat where "MAX_GCF_FILE_SIZE \<equiv> 4194304"
abbreviation (input) MAX_DEV_PATH_LENGTH :: nat where "MAX_DEV_PATH_LENGTH \<equiv> 255"
abbreviation (input) MAX_DEV_SERIALNR_LENGTH :: nat where "MAX_DEV_SERIALNR_LENGTH \<equiv> 18"
abbreviation (input) MAX_DEVICES :: nat where "MAX_DEVICES \<equiv> 4"
abbreviation (input) UI_MAX_INPUT_LENGTH :: nat where "UI_MAX_INPUT_LENGTH \<equiv> 1024"
abbreviation (input) UI_MAX_LINE_LENGTH :: nat where "UI_MAX_LINE_LENGTH \<equiv> 384"
abbreviation (input) UI_MAX_LINES :: nat where "UI_MAX_LINES \<equiv> 32"

section \<open>Structs\<close>

record Device =
  dev_baudrate :: baudrate
  dev_name :: "byte list"
  dev_path :: "byte list"
  dev_serial :: "byte list"
  dev_stablepath :: "byte list"

text \<open>
  \<open>fcontent\<close> is an array of \<open>MAX_GCF_FILE_SIZE\<close> bytes; it is kept as a function, and every
  access checks the bound.
\<close>

record GCF_File =
  fname :: "byte list"
  fsize :: nat
  fwVersion :: nat
  gcfFileType :: byte
  gcfTargetAddress :: nat
  gcfFileSize :: nat
  gcfCrc :: byte
  gcfCrc32 :: nat
  fcontent :: "nat \<Rightarrow> byte"
  dataOffset :: nat

record UI =
  uiCurrentLine :: nat
  uiLines :: "byte list list"
  uiStringStream :: U_SStream
  uiDebugLevel :: int
  uiInteractive :: bool
  uiInputPos :: int
  uiInputSize :: int
  uiInputLine :: "byte list"

record Sniff =
  sniffChannel :: int
  sniffHost :: "byte list"
  sniffWp :: nat
  sniffLength :: nat
  sniffPacket :: "byte list"
  sniffSeqNum :: nat

text \<open>
  The arguments of \<open>argv\<close> are given by their bytes in front of the NUL. The static
  \<open>gcfSeq\<close> is the last field. \<open>retry\<close>, an \<open>int\<close> in C, is set to 0 before a round of
  queries, the third of which ends the round; it is a natural number here.
\<close>

record GCF =
  argv :: "byte list list"
  rp :: nat
  wp :: nat
  ascii :: "byte list"
  rxPacket :: "byte list"
  rxPacketLength :: nat
  state :: handler
  substate :: handler
  evAction :: bool
  ui :: UI
  retry :: nat
  flashAddress :: nat
  flashSize :: nat
  flashStep :: nat
  remaining :: nat
  task :: task
  rxstate :: PROT_RxState
  sniff :: Sniff
  startTime :: nat
  maxTime :: nat
  devCount :: nat
  devices :: "Device list"
  devType :: device_type
  devBaudrate :: baudrate
  devpath :: "byte list"
  devSerialNum :: "byte list"
  gcf_file :: GCF_File
  gcfSeq :: byte

record PL_Internal =
  timer :: nat
  fd :: int
  running :: bool
  txbuf :: "nat \<Rightarrow> byte"
  tx_rp :: nat
  tx_wp :: nat

section \<open>The world\<close>

text \<open>One \<open>write()\<close> call: an error, an interruption, or the number of bytes taken.\<close>

datatype write_result = WError | WInterrupted | WTaken nat

datatype printf_arg = AStr "byte list" | ANum int

datatype out_event =
    Print "byte list"
  | Printf debug_level string "printf_arg list"
  | SetupPort int
  | Written int "byte list"
  | Closed int
  | USleep nat
  | UdpInit "byte list"
  | UdpSetPeer "byte list" nat
  | UdpSend "byte list"
  | UdpFree

text \<open>
  \<open>ndebug\<close> and \<open>long64\<close> are the build: whether \<open>NDEBUG\<close> is defined and whether
  \<open>unsigned long\<close> has 64 bits (or 32). The list \<open>os_write k\<close> gives the results of the consecutive \<open>write()\<close>
  calls of one \<open>PROT_Flush\<close>; where it ends, the calls are interrupted for ever.
\<close>

record env =
  ndebug :: bool
  long64 :: bool
  os_clock :: "nat \<Rightarrow> (nat \<times> nat) option"
  os_open :: "nat \<Rightarrow> byte list \<Rightarrow> int"
  os_write :: "nat \<Rightarrow> write_result list"
  os_file :: "nat \<Rightarrow> byte list \<Rightarrow> byte list option option"
  os_winsize :: "nat \<Rightarrow> 16 word \<times> 16 word"
  os_devices :: "nat \<Rightarrow> int \<times> Device list"
  os_reset_ftdi :: "nat \<Rightarrow> int"
  os_reset_raspbee :: "nat \<Rightarrow> int"

definition long_bits :: "env \<Rightarrow> nat" where
  "long_bits e = (if long64 e then 64 else 32)"

record world =
  gcf :: GCF
  platform :: PL_Internal
  tick :: nat
  outs :: "out_event list"
  env :: env

type_synonym action = "world stmt"

definition set_gcf :: "(GCF \<Rightarrow> GCF) \<Rightarrow> action" where
  "set_gcf f = upd (\<lambda>w. w\<lparr>gcf := f (gcf w)\<rparr>)"

definition set_ui :: "(UI \<Rightarrow> UI) \<Rightarrow> action" where
  "set_ui f = set_gcf (\<lambda>g. g\<lparr>ui := f (ui g)\<rparr>)"

definition set_sniff :: "(Sniff \<Rightarrow> Sniff) \<Rightarrow> action" where
  "set_sniff f = set_gcf (\<lambda>g. g\<lparr>sniff := f (sniff g)\<rparr>)"

definition set_pl :: "(PL_Internal \<Rightarrow> PL_Internal) \<Rightarrow> action" where
  "set_pl f = upd (\<lambda>w. w\<lparr>platform := f (platform w)\<rparr>)"

definition emit :: "out_event \<Rightarrow> action" where
  "emit x = upd (\<lambda>w. w\<lparr>outs := outs w @ [x]\<rparr>)"

text \<open>The answer of one system call.\<close>

definition os :: "(env \<Rightarrow> nat \<Rightarrow> 'a) \<Rightarrow> (world, 'a) op" where
  "os f w = Inr (f (env w) (tick w), w\<lparr>tick := tick w + 1\<rparr>)"

text \<open>\<open>Assert\<close> traps unless \<open>NDEBUG\<close> is defined.\<close>

definition Assert :: "(GCF \<Rightarrow> bool) \<Rightarrow> action" where
  "Assert c = cond (\<lambda>w. ndebug (env w) \<or> c (gcf w)) skip (fails AssertFailed)"

definition set_state :: "handler \<Rightarrow> action" where
  "set_state h = set_gcf (\<lambda>g. g\<lparr>state := h\<rparr>)"

definition set_substate :: "handler \<Rightarrow> action" where
  "set_substate h = set_gcf (\<lambda>g. g\<lparr>substate := h\<rparr>)"

text \<open>\<open>if\<close> on the fields of \<open>gcf\<close>, and a local variable read from them.\<close>

definition gif :: "(GCF \<Rightarrow> bool) \<Rightarrow> action list \<Rightarrow> action list \<Rightarrow> action" where
  "gif c ss ts = cond (\<lambda>w. c (gcf w)) (block ss) (block ts)"

definition gget :: "(GCF \<Rightarrow> 'a) \<Rightarrow> ('a \<Rightarrow> action) \<Rightarrow> action" where
  "gget f k = reads (\<lambda>w. f (gcf w)) k"

lemmas action_defs = set_gcf_def set_ui_def set_sniff_def set_pl_def emit_def os_def Assert_def
  set_state_def set_substate_def gif_def gget_def

end
