(* ===== verification/Gcf_Ui.thy ===== *)
theory Gcf_Ui
  imports Gcf_State
begin

text \<open>
  Output to the terminal: the small platform functions that print, tell the time and read
  the window size, the ring of UI lines with its shared string stream, the hexadecimal
  printers, the debug dump and the progress bar.

  \<open>print_line\<close> names the sequence the program writes every message with: take the next
  line as a string stream, print into it, put it out. The lemmas show that whatever is
  printed stays inside the line, and that every one of these actions keeps an invariant of
  the world that only the invariant's own fields decide.
\<close>

section \<open>Printing, time and the window\<close>

definition PL_Print :: "byte list \<Rightarrow> action" where
  "PL_Print line = emit (Print line)"

text \<open>A message is recorded by its format, without the line breaks at its ends, and its arguments.\<close>

definition PL_Printf :: "debug_level \<Rightarrow> string \<Rightarrow> printf_arg list \<Rightarrow> action" where
  "PL_Printf level fmt args =
     cond (\<lambda>w. ndebug (env w) \<and> level = DBG_DEBUG) skip (emit (Printf level fmt args))"

definition PL_Time :: "(world, nat) op" where
  "PL_Time w = (case os os_clock w of Inl f \<Rightarrow> Inl f
     | Inr (None, w') \<Rightarrow> Inr (0, w')
     | Inr (Some (sec, nsec), w') \<Rightarrow> Inr ((sec * 1000 + nsec div 1000000) mod 2 ^ 64, w'))"

primrec PL_MSleep :: "nat \<Rightarrow> action" where
  "PL_MSleep 0 = skip"
| "PL_MSleep (Suc ms) = block [emit (USleep 1000), PL_MSleep ms]"

definition PL_SetTimeout :: "nat \<Rightarrow> action" where
  "PL_SetTimeout ms = callv PL_Time (\<lambda>now. set_pl (\<lambda>p. p\<lparr>timer := uadd 64 now ms\<rparr>))"

definition PL_ClearTimeout :: action where
  "PL_ClearTimeout = set_pl (\<lambda>p. p\<lparr>timer := 0\<rparr>)"

definition PL_ShutDown :: action where
  "PL_ShutDown = block [PL_Printf DBG_DEBUG ''PL_Shutdown'' [], set_pl (\<lambda>p. p\<lparr>running := False\<rparr>)]"

definition UI_GetWinSize :: "(world, nat \<times> nat) op" where
  "UI_GetWinSize = os (\<lambda>e k. (unat (fst (os_winsize e k)), unat (snd (os_winsize e k))))"

text \<open>Print into a local array of \<open>n\<close> bytes and hand its string over.\<close>

definition local_string :: "nat \<Rightarrow> U_SStream stmt \<Rightarrow> fault + byte list" where
  "local_string n s = (case s (U_sstream_init (Some (replicate n 0)) n) of Inl f \<Rightarrow> Inl f
     | Inr ss \<Rightarrow> c_string (ss_str ss))"

definition put_lit :: "string \<Rightarrow> U_SStream stmt" where
  "put_lit s = U_sstream_put_str (bytes s)"

abbreviation (input) FMT_ESC :: "byte list" where "FMT_ESC \<equiv> [0x1B]"

definition cursor_text :: "nat \<Rightarrow> nat \<Rightarrow> nat \<Rightarrow> U_SStream stmt" where
  "cursor_text L x y = block [
     U_sstream_put_str (FMT_ESC @ bytes ''[''),
     U_sstream_put_long (to_long L y),
     put_lit '';'',
     U_sstream_put_long (to_long L x),
     put_lit ''H'']"

definition UI_SetCursor :: "nat \<Rightarrow> nat \<Rightarrow> action" where
  "UI_SetCursor x y = reads (\<lambda>w. local_string 24 (cursor_text (long_bits (env w)) x y))
     (\<lambda>r. case r of Inl f \<Rightarrow> fails f | Inr s \<Rightarrow> PL_Print s)"

section \<open>Lines\<close>

definition UI_NextLine :: action where
  "UI_NextLine = set_ui (\<lambda>u. let n = (uiCurrentLine u + 1) mod UI_MAX_LINES
     in u\<lparr>uiCurrentLine := n, uiLines := (uiLines u)[n := (uiLines u ! n)[0 := 0]]\<rparr>)"

definition UI_StringStream :: action where
  "UI_StringStream = block [UI_NextLine, set_ui (\<lambda>u. u\<lparr>uiStringStream :=
     U_sstream_init (Some (uiLines u ! uiCurrentLine u)) UI_MAX_LINE_LENGTH\<rparr>)]"

text \<open>An operation on the string stream; its \<open>str\<close> points to the buffer of the current line.\<close>

definition on_ss :: "U_SStream stmt \<Rightarrow> action" where
  "on_ss = zoom (\<lambda>w. uiStringStream (ui (gcf w)))
     (\<lambda>ss w. w\<lparr>gcf := (gcf w)\<lparr>ui := (ui (gcf w))\<lparr>uiStringStream := ss,
        uiLines := (uiLines (ui (gcf w)))[uiCurrentLine (ui (gcf w)) := ss_str ss]\<rparr>\<rparr>\<rparr>)"

definition UI_Puts :: "byte list \<Rightarrow> action" where
  "UI_Puts str = (if str \<noteq> [] then PL_Print str else skip)"

text \<open>\<open>UI_Puts(gcf, ss->str)\<close>\<close>

definition UI_Puts_ss :: action where
  "UI_Puts_ss = gget (\<lambda>g. c_string (ss_str (uiStringStream (ui g))))
     (\<lambda>r. case r of Inl f \<Rightarrow> fails f | Inr s \<Rightarrow> UI_Puts s)"

definition print_line :: "U_SStream stmt list \<Rightarrow> action" where
  "print_line ops = block [UI_StringStream, on_ss (block ops), UI_Puts_ss]"

definition puts_lit :: "string \<Rightarrow> action" where
  "puts_lit s = UI_Puts (bytes s)"

section \<open>Hexadecimal\<close>

definition put_hex :: "byte \<Rightarrow> nat \<Rightarrow> byte list stmt" where
  "put_hex ch p = block [poke p (hex_digit (unat (drop_bit 4 ch AND 0xF))),
     poke (p + 1) (hex_digit (unat (ch AND 0x0F)))]"

text \<open>\<open>for (i = 0; i < size; i++, p += 2) put_hex(data[i], p); *p = '\0';\<close>\<close>

fun hex_dump :: "byte list \<Rightarrow> nat \<Rightarrow> byte list stmt" where
  "hex_dump [] p = poke p 0"
| "hex_dump (d # ds) p = block [put_hex d p, hex_dump ds (p + 2)]"

definition put_hex_ss :: "byte \<Rightarrow> U_SStream stmt" where
  "put_hex_ss ch = block [
     reads ss_pos (\<lambda>p. zoom ss_str (\<lambda>s ss. ss\<lparr>ss_str := s\<rparr>) (put_hex ch p)),
     upd (\<lambda>ss. ss\<lparr>ss_pos := ss_pos ss + 2\<rparr>)]"

definition U_sstream_put_u8hex :: "byte \<Rightarrow> U_SStream stmt" where
  "U_sstream_put_u8hex val = cond (\<lambda>ss. u32_sub (ss_len ss) (ss_pos ss) < 2 + 1)
     (upd (\<lambda>ss. ss\<lparr>ss_status := U_SSTREAM_ERR_NO_SPACE\<rparr>))
     (block [put_hex_ss val, ss_close])"

text \<open>Four times: the top byte of the low 32 bits, then \<open>val <<= 8\<close>.\<close>

primrec put_u32hex_loop :: "nat \<Rightarrow> nat \<Rightarrow> U_SStream stmt" where
  "put_u32hex_loop 0 val = skip"
| "put_u32hex_loop (Suc n) val = block [put_hex_ss (of_nat (val div 2 ^ 24)), put_u32hex_loop n (val * 2 ^ 8)]"

definition U_sstream_put_u32hex :: "nat \<Rightarrow> U_SStream stmt" where
  "U_sstream_put_u32hex val = cond (\<lambda>ss. u32_sub (ss_len ss) (ss_pos ss) < 8 + 1)
     (upd (\<lambda>ss. ss\<lparr>ss_status := U_SSTREAM_ERR_NO_SPACE\<rparr>))
     (block [put_u32hex_loop 4 val, ss_close])"

text \<open>The value of a hexadecimal digit.\<close>

definition hex_value :: "byte \<Rightarrow> nat option" where
  "hex_value c = (let tmp = unat c in
     if 48 \<le> tmp \<and> tmp \<le> 57 then Some (tmp - 48)
     else if 97 \<le> tmp \<and> tmp \<le> 102 then Some (tmp - 97 + 10)
     else if 65 \<le> tmp \<and> tmp \<le> 70 then Some (tmp - 65 + 10)
     else None)"

definition GCF_sstream_get_hexbyte :: "(U_SStream, byte option) op" where
  "GCF_sstream_get_hexbyte ss =
     (if ss_status ss \<noteq> U_SSTREAM_OK then Inr (None, ss)
      else if ss_len ss < ss_pos ss + 2 then Inr (None, ss)
      else case peek (ss_str ss) (ss_pos ss) of Inl f \<Rightarrow> Inl f
        | Inr c0 \<Rightarrow> (case hex_value c0 of None \<Rightarrow> Inr (None, ss)
        | Some h \<Rightarrow> (case peek (ss_str ss) (ss_pos ss + 1) of Inl f \<Rightarrow> Inl f
        | Inr c1 \<Rightarrow> (case hex_value c1 of None \<Rightarrow> Inr (None, ss)
        | Some l \<Rightarrow> Inr (Some (push_bit 4 (of_nat h) + of_nat l), ss\<lparr>ss_pos := ss_pos ss + 2\<rparr>)))))"

abbreviation (input) FMT_GREEN :: "byte list" where "FMT_GREEN \<equiv> 0x1B # bytes ''[32m''"
abbreviation (input) FMT_RESET :: "byte list" where "FMT_RESET \<equiv> 0x1B # bytes ''[0m''"

text \<open>The dump goes through a local array of 1024 bytes.\<close>

definition hex_line :: "string \<Rightarrow> byte list \<Rightarrow> action" where
  "hex_line msg data = (case hex_dump data 0 (replicate 1024 0) of Inl f \<Rightarrow> fails f | Inr buf \<Rightarrow>
     (case c_string buf of Inl f \<Rightarrow> fails f | Inr s \<Rightarrow>
       print_line [
         U_sstream_put_str FMT_GREEN,
         put_lit msg,
         U_sstream_put_str (bytes '':'' @ FMT_RESET @ bytes '' ''),
         U_sstream_put_str s,
         put_lit '' ('',
         U_sstream_put_long (int (length data)),
         U_sstream_put_str (bytes '')'' @ [0x0A])]))"

definition gcfDebugHex :: "string \<Rightarrow> byte list \<Rightarrow> action" where
  "gcfDebugHex msg data = gif (\<lambda>g. uiDebugLevel (ui g) = 0) []
     [Assert (\<lambda>_. length data < 1024 div 2 - 1), hex_line msg data]"

section \<open>The progress bar\<close>

abbreviation (input) FMT_BLOCK_OPEN :: "byte list" where "FMT_BLOCK_OPEN \<equiv> [0xE2, 0x96, 0x91]"
abbreviation (input) FMT_BLOCK_DONE :: "byte list" where "FMT_BLOCK_DONE \<equiv> [0xE2, 0x96, 0x93]"

primrec progress_blocks :: "int \<Rightarrow> nat \<Rightarrow> nat \<Rightarrow> U_SStream stmt" where
  "progress_blocks ndone i 0 = skip"
| "progress_blocks ndone i (Suc k) = block [
     U_sstream_put_str (if to_long 32 i \<le> ndone then FMT_BLOCK_DONE else FMT_BLOCK_OPEN),
     progress_blocks ndone (i + 1) k]"

definition progress_text :: "nat \<Rightarrow> nat \<Rightarrow> nat \<Rightarrow> nat \<Rightarrow> U_SStream stmt" where
  "progress_text L fsz rest w = (
     let wmax = (if u32_sub w 2 \<le> 80 then w else 80);
         sent = usub L fsz rest;
         p0 = to_long L ((sent * 100) mod 2 ^ L div fsz);
         percent = (if p0 > 95 then 100 else p0)
     in block [
       U_sstream_put_str (0x0D # bytes '' ''),
       if percent < 10 then put_lit ''  '' else if percent < 100 then put_lit '' '' else skip,
       U_sstream_put_long percent,
       put_lit ''% uploading '',
       reads ss_pos (\<lambda>pos.
         let w' = u32_sub (u32_sub wmax pos) 2;
             ndone = to_long 32 (((sent * w') mod 2 ^ L div fsz) mod 2 ^ 32)
         in progress_blocks ndone 0 w'),
       pad_to wmax])"

definition UI_UpdateProgress :: action where
  "UI_UpdateProgress = gget (\<lambda>g. (gcfFileSize (gcf_file g), remaining g)) (\<lambda>(fsz, rest).
     if fsz = 0 then skip
     else callv UI_GetWinSize (\<lambda>(w, h).
       reads (\<lambda>ww. local_string 256 (progress_text (long_bits (env ww)) fsz rest w))
         (\<lambda>r. case r of Inl f \<Rightarrow> fails f
          | Inr s \<Rightarrow> block [UI_SetCursor 0 (u32_sub h 1), PL_Print s])))"

section \<open>Quiet actions\<close>

text \<open>
  A quiet action only prints: it may take the next UI line, advance the system call counter
  and append terminal output; everything else of the world stays.
\<close>

definition ui_ok :: "UI \<Rightarrow> bool" where
  "ui_ok u \<longleftrightarrow> length (uiLines u) = 32 \<and> (\<forall>l\<in>set (uiLines u). length l = 384) \<and> uiCurrentLine u < 32"

definition ui_same :: "UI \<Rightarrow> UI \<Rightarrow> bool" where
  "ui_same u v \<longleftrightarrow> uiDebugLevel u = uiDebugLevel v \<and> uiInteractive u = uiInteractive v
     \<and> uiInputPos u = uiInputPos v \<and> uiInputSize u = uiInputSize v \<and> uiInputLine u = uiInputLine v"

fun terminal :: "out_event \<Rightarrow> bool" where
  "terminal (Print s) = True"
| "terminal (Printf l f a) = True"
| "terminal (USleep n) = True"
| "terminal _ = False"

definition quiet_to :: "world \<Rightarrow> world \<Rightarrow> bool" where
  "quiet_to w w' \<longleftrightarrow> (\<exists>u t es. w' = w\<lparr>gcf := (gcf w)\<lparr>ui := u\<rparr>, tick := t, outs := outs w @ es\<rparr>
     \<and> tick w \<le> t \<and> ui_ok u \<and> ui_same u (ui (gcf w)) \<and> (\<forall>e\<in>set es. terminal e))"

definition quiet :: "fault set \<Rightarrow> action \<Rightarrow> bool" where
  "quiet F a \<longleftrightarrow> (\<forall>w. ui_ok (ui (gcf w)) \<longrightarrow> (case a w of Inl f \<Rightarrow> f \<in> F | Inr w' \<Rightarrow> quiet_to w w'))"

named_theorems quiet_intro \<open>quiet actions\<close>

lemma quiet_to_refl: "ui_ok (ui (gcf w)) \<Longrightarrow> quiet_to w w"
  unfolding quiet_to_def
  by (intro exI [of _ "ui (gcf w)"] exI [of _ "tick w"] exI [of _ "[]"]) (simp add: ui_same_def)

lemma quiet_to_trans: "quiet_to w w1 \<Longrightarrow> quiet_to w1 w2 \<Longrightarrow> quiet_to w w2"
  unfolding quiet_to_def
proof (elim exE conjE)
  fix u t es u' t' es'
  assume "w1 = w\<lparr>gcf := gcf w\<lparr>ui := u\<rparr>, tick := t, outs := outs w @ es\<rparr>"
    and "w2 = w1\<lparr>gcf := gcf w1\<lparr>ui := u'\<rparr>, tick := t', outs := outs w1 @ es'\<rparr>"
    and "tick w \<le> t" "tick w1 \<le> t'" "ui_ok u'" "ui_same u (ui (gcf w))" "ui_same u' (ui (gcf w1))"
    and "\<forall>e\<in>set es. terminal e" "\<forall>e\<in>set es'. terminal e"
  then show "\<exists>u t es. w2 = w\<lparr>gcf := gcf w\<lparr>ui := u\<rparr>, tick := t, outs := outs w @ es\<rparr>
      \<and> tick w \<le> t \<and> ui_ok u \<and> ui_same u (ui (gcf w)) \<and> (\<forall>e\<in>set es. terminal e)"
    by (intro exI [of _ u'] exI [of _ t'] exI [of _ "es @ es'"]) (auto simp: ui_same_def)
qed

lemma quiet_to_ui: "quiet_to w w' \<Longrightarrow> ui_ok (ui (gcf w')) \<and> ui_same (ui (gcf w')) (ui (gcf w))"
  by (auto simp: quiet_to_def)

lemma quiet_to_frame:
  assumes "quiet_to w w'"
  shows "platform w' = platform w" and "env w' = env w"
    and "(gcf w')\<lparr>ui := v\<rparr> = (gcf w)\<lparr>ui := v\<rparr>"
  using assms by (auto simp: quiet_to_def)

lemma quiet_keeps:
  assumes "quiet F a" and "\<And>w. I w \<Longrightarrow> ui_ok (ui (gcf w))" and "\<And>w w'. quiet_to w w' \<Longrightarrow> I w \<Longrightarrow> I w'"
  shows "keeps F I a"
  using assms unfolding quiet_def hoare_def by (metis (mono_tags, lifting) sum.case_eq_if)

lemma quietI:
  assumes "\<And>w. ui_ok (ui (gcf w)) \<Longrightarrow> \<exists>w'. a w = Inr w' \<and> quiet_to w w'"
  shows "quiet F a"
  using assms unfolding quiet_def by (metis sum.case(2))

lemma quiet_skip [quiet_intro]: "quiet F skip"
  by (rule quietI) (simp add: skip_def quiet_to_refl)

lemma quiet_Nil [quiet_intro]: "quiet F (block [])"
  by (rule quietI) (simp add: quiet_to_refl)

lemma quietD: "quiet F a \<Longrightarrow> ui_ok (ui (gcf w)) \<Longrightarrow> a w = Inr w' \<Longrightarrow> quiet_to w w'"
  unfolding quiet_def by (metis (mono_tags, lifting) sum.case(2))

lemma quietF: "quiet F a \<Longrightarrow> ui_ok (ui (gcf w)) \<Longrightarrow> a w = Inl f \<Longrightarrow> f \<in> F"
  unfolding quiet_def by (metis (mono_tags, lifting) sum.case(1))

lemma quiet_case:
  assumes "\<And>w f. ui_ok (ui (gcf w)) \<Longrightarrow> a w = Inl f \<Longrightarrow> f \<in> F"
    and "\<And>w w'. ui_ok (ui (gcf w)) \<Longrightarrow> a w = Inr w' \<Longrightarrow> quiet_to w w'"
  shows "quiet F a"
  using assms by (simp add: quiet_def split: sum.splits)

text \<open>A quiet step followed by a quiet action.\<close>

lemma quiet_then:
  assumes "quiet_to w w1" and "quiet F a"
  shows "a w1 = Inl f \<Longrightarrow> f \<in> F" and "a w1 = Inr w' \<Longrightarrow> quiet_to w w'"
  using quietF [OF assms(2)] quietD [OF assms(2)] quiet_to_ui [OF assms(1)] quiet_to_trans [OF assms(1)]
  by blast+

lemma quiet_Cons [quiet_intro]:
  assumes "quiet F s" and "quiet F (block ss)"
  shows "quiet F (block (s # ss))"
  by (rule quiet_case)
    (auto split: sum.splits dest: quietF [OF assms(1)] quietD [OF assms(1)] quiet_then [OF _ assms(2)])

lemma quiet_cond [quiet_intro]: "quiet F s \<Longrightarrow> quiet F t \<Longrightarrow> quiet F (cond c s t)"
  by (simp add: quiet_def cond_def)

lemma quiet_if [quiet_intro]: "(b \<Longrightarrow> quiet F s) \<Longrightarrow> (\<not> b \<Longrightarrow> quiet F t) \<Longrightarrow> quiet F (if b then s else t)"
  by simp

lemma quiet_reads [quiet_intro]: "(\<And>a. quiet F (k a)) \<Longrightarrow> quiet F (reads f k)"
  by (simp add: quiet_def reads_def)

lemma quiet_gget [quiet_intro]: "(\<And>a. quiet F (k a)) \<Longrightarrow> quiet F (gget f k)"
  by (simp add: gget_def quiet_reads)

lemma quiet_gif [quiet_intro]: "quiet F (block ss) \<Longrightarrow> quiet F (block ts) \<Longrightarrow> quiet F (gif c ss ts)"
  by (simp add: gif_def quiet_cond)

lemma quiet_Assert [quiet_intro]: "AssertFailed \<in> F \<Longrightarrow> quiet F (Assert c)"
  by (auto simp: quiet_def Assert_def cond_def skip_def fails_def quiet_to_refl)

lemma quiet_faults: "quiet {} a \<Longrightarrow> quiet F a"
  unfolding quiet_def by (metis (mono_tags, lifting) empty_iff sum.case_eq_if)

lemma quiet_to_step:
  "ui_ok (ui (gcf w)) \<Longrightarrow> \<forall>e\<in>set es. terminal e \<Longrightarrow> tick w \<le> t \<Longrightarrow> quiet_to w (w\<lparr>tick := t, outs := outs w @ es\<rparr>)"
  unfolding quiet_to_def
  by (intro exI [of _ "ui (gcf w)"] exI [of _ t] exI [of _ es]) (simp add: ui_same_def)

lemma quiet_emit [quiet_intro]: "terminal e \<Longrightarrow> quiet F (emit e)"
proof (rule quietI)
  fix w :: world assume "terminal e" "ui_ok (ui (gcf w))"
  then have "quiet_to w (w\<lparr>tick := tick w, outs := outs w @ [e]\<rparr>)" by (intro quiet_to_step) simp_all
  then show "\<exists>w'. emit e w = Inr w' \<and> quiet_to w w'" by (cases w) (simp add: emit_def upd_def)
qed

lemma quiet_callv_os:
  assumes "\<And>e t. quiet F (k (f e t))"
  shows "quiet F (callv (os f) k)"
proof -
  have "quiet_to w (w\<lparr>tick := tick w + 1\<rparr>)" if "ui_ok (ui (gcf w))" for w
    using quiet_to_step [OF that, of "[]" "tick w + 1"] by simp
  then show ?thesis
    by (intro quiet_case) (auto simp: callv_def os_def dest: quiet_then [OF _ assms])
qed

lemma quiet_PL_Print [quiet_intro]: "quiet F (PL_Print s)"
  by (simp add: PL_Print_def quiet_emit)

lemma quiet_PL_Printf [quiet_intro]: "quiet F (PL_Printf l f a)"
  by (simp add: PL_Printf_def quiet_cond quiet_skip quiet_emit)

lemma quiet_UI_Puts [quiet_intro]: "quiet F (UI_Puts s)"
  by (simp add: UI_Puts_def quiet_intro)

lemma quiet_puts_lit [quiet_intro]: "quiet F (puts_lit s)"
  by (simp add: puts_lit_def quiet_intro)

lemma quiet_PL_MSleep [quiet_intro]: "quiet F (PL_MSleep n)"
proof (induction n)
  case (Suc n)
  show ?case unfolding PL_MSleep.simps by (intro quiet_intro Suc) simp
qed (simp add: quiet_skip)

text \<open>Printing a line.\<close>

lemma lines_update: "\<forall>l\<in>set xs. length l = k \<Longrightarrow> length v = k \<Longrightarrow> \<forall>l\<in>set (xs[i := v]). length l = k"
  by (auto dest!: subsetD [OF set_update_subset_insert])

lemma ui_ok_line: "ui_ok u \<Longrightarrow> n < 32 \<Longrightarrow> length l = 384 \<Longrightarrow>
    ui_ok (u\<lparr>uiCurrentLine := n, uiLines := (uiLines u)[n := l], uiStringStream := ss\<rparr>)"
  "ui_ok u \<Longrightarrow> length l = 384 \<Longrightarrow> ui_ok (u\<lparr>uiStringStream := ss, uiLines := (uiLines u)[uiCurrentLine u := l]\<rparr>)"
  unfolding ui_ok_def by (elim conjE, intro conjI, simp, simp, rule lines_update, assumption, assumption, simp)
    (elim conjE, intro conjI, simp, simp, rule lines_update, assumption, assumption, simp)

lemma StringStream_eq:
  assumes "ui_ok (ui (gcf w))"
  shows "\<exists>u. UI_StringStream w = Inr (w\<lparr>gcf := (gcf w)\<lparr>ui := u\<rparr>\<rparr>) \<and> ui_ok u \<and> ui_same u (ui (gcf w))
    \<and> lbuf 384 0 (uiStringStream u) \<and> ss_status (uiStringStream u) = U_SSTREAM_OK"
proof -
  define v where "v = ui (gcf w)"
  define n where "n = (uiCurrentLine v + 1) mod 32"
  define l where "l = (uiLines v ! n)[0 := 0]"
  define u where "u = v\<lparr>uiCurrentLine := n, uiLines := (uiLines v)[n := l], uiStringStream := U_sstream_init (Some l) 384\<rparr>"
  have n: "n < 32" by (simp add: n_def)
  then have len: "length l = 384" using assms by (simp add: l_def ui_ok_def v_def)
  have "UI_StringStream w = Inr (w\<lparr>gcf := (gcf w)\<lparr>ui := u\<rparr>\<rparr>)"
    using assms n
    by (simp add: UI_StringStream_def UI_NextLine_def action_defs upd_def Let_def u_def v_def n_def l_def ui_ok_def)
  moreover have "ui_ok u"
    unfolding u_def using assms n len by (intro ui_ok_line) (simp_all add: v_def)
  moreover have "ui_same u v" by (simp add: ui_same_def u_def)
  moreover have "lbuf 384 0 (U_sstream_init (Some l) 384)"
    using len by (intro lbuf_init) (simp_all add: l_def)
  ultimately show ?thesis unfolding v_def by (intro exI [of _ u]) (simp add: u_def U_sstream_init_def)
qed

lemma on_ss_eq:
  assumes "f (uiStringStream (ui (gcf w))) = Inr ss" and "length (ss_str ss) = 384" and "ui_ok (ui (gcf w))"
  shows "\<exists>u. on_ss f w = Inr (w\<lparr>gcf := (gcf w)\<lparr>ui := u\<rparr>\<rparr>) \<and> ui_ok u \<and> ui_same u (ui (gcf w)) \<and> uiStringStream u = ss"
  using assms ui_ok_line(2) [OF assms(3,2)]
  by (auto simp: on_ss_def zoom_def ui_same_def
      intro!: exI [of _ "(ui (gcf w))\<lparr>uiStringStream := ss, uiLines := (uiLines (ui (gcf w)))[uiCurrentLine (ui (gcf w)) := ss_str ss]\<rparr>"])

text \<open>Where the text is known to fit, the stream has no error.\<close>

definition fits :: "nat \<Rightarrow> nat \<Rightarrow> U_SStream \<Rightarrow> bool" where
  "fits n k ss \<longleftrightarrow> lbuf n k ss \<and> ss_status ss = U_SSTREAM_OK"

text \<open>
  Whatever operations print into the line, it is put out as one string: the text of the
  final stream.
\<close>

lemma print_line_eq:
  assumes "ui_ok (ui (gcf w))" and "hoare {} (fits 384 0) (block ops) (lbuf 384 384)"
  shows "\<exists>u ss ss' s. fits 384 0 ss
    \<and> block ops ss = Inr ss' \<and> lbuf 384 384 ss' \<and> c_string (ss_str ss') = Inr s
    \<and> ui_ok u \<and> ui_same u (ui (gcf w))
    \<and> print_line ops w = Inr (w\<lparr>gcf := (gcf w)\<lparr>ui := u\<rparr>, outs := outs w @ (if s = [] then [] else [Print s])\<rparr>)"
proof -
  obtain u1 where u1: "UI_StringStream w = Inr (w\<lparr>gcf := (gcf w)\<lparr>ui := u1\<rparr>\<rparr>)" "ui_ok u1" "ui_same u1 (ui (gcf w))"
      "fits 384 0 (uiStringStream u1)"
    using StringStream_eq [OF assms(1)] by (auto simp: fits_def)
  obtain ss' where ss': "block ops (uiStringStream u1) = Inr ss'" "lbuf 384 384 ss'"
    using hoare_total [OF assms(2) u1(4)] by blast
  define w1 where "w1 = w\<lparr>gcf := (gcf w)\<lparr>ui := u1\<rparr>\<rparr>"
  obtain u2 where u2: "on_ss (block ops) w1 = Inr (w1\<lparr>gcf := (gcf w1)\<lparr>ui := u2\<rparr>\<rparr>)" "ui_ok u2" "ui_same u2 u1"
      "uiStringStream u2 = ss'"
    using on_ss_eq [of "block ops" w1 ss'] ss' u1(2) by (auto simp: w1_def lbuf_def)
  obtain s where s: "c_string (ss_str ss') = Inr s"
    using ss' ss_ok_c_string by (auto simp: lbuf_def)
  have "print_line ops w = Inr (w\<lparr>gcf := (gcf w)\<lparr>ui := u2\<rparr>, outs := outs w @ (if s = [] then [] else [Print s])\<rparr>)"
    using u1(1) u2(1,4) s
    by (simp add: print_line_def w1_def UI_Puts_ss_def gget_def reads_def UI_Puts_def PL_Print_def emit_def upd_def skip_def)
  moreover have "ui_same u2 (ui (gcf w))" using u2(3) u1(3) by (simp add: ui_same_def)
  ultimately show ?thesis using u1 u2 ss' s by blast
qed

lemma quiet_print_line:
  assumes "hoare {} (fits 384 0) (block ops) (lbuf 384 384)"
  shows "quiet F (print_line ops)"
proof (rule quietI)
  fix w :: world assume "ui_ok (ui (gcf w))"
  then obtain u s where "ui_ok u" "ui_same u (ui (gcf w))"
    "print_line ops w = Inr (w\<lparr>gcf := (gcf w)\<lparr>ui := u\<rparr>, outs := outs w @ (if s = [] then [] else [Print s])\<rparr>)"
    using print_line_eq [OF _ assms] by blast
  then show "\<exists>w'. print_line ops w = Inr w' \<and> quiet_to w w'"
    unfolding quiet_to_def
    by (cases w) (auto intro!: exI [of _ u] exI [of _ "tick w"] exI [of _ "if s = [] then [] else [Print s]"])
qed

lemma keeps_print_line [quiet_intro]: "keeps {} (lbuf 384 384) (block ops) \<Longrightarrow> quiet F (print_line ops)"
  by (rule quiet_print_line) (erule hoare_pre, auto simp: fits_def intro: lbuf_all)

text \<open>The hexadecimal printers keep the contract of a print operation.\<close>

lemma chars_hex_eq: "p + 1 < length buf \<Longrightarrow> put_hex ch p buf = Inr (overwrite p (hex_byte ch) buf)"
  by (simp add: put_hex_def hex_byte_def overwrite_step)

lemma put_hex_ss_eq:
  "ss_pos ss + 1 < length (ss_str ss) \<Longrightarrow>
   put_hex_ss ch ss = Inr (ss\<lparr>ss_str := overwrite (ss_pos ss) (hex_byte ch) (ss_str ss), ss_pos := ss_pos ss + 2\<rparr>)"
  by (simp add: put_hex_ss_def reads_def zoom_def chars_hex_eq upd_def)

lemma put_hex_ss_puts:
  "ss_pos ss + 1 < length (ss_str ss) \<Longrightarrow> put_hex_ss ch ss = ss_puts (hex_byte ch) ss"
  by (simp add: put_hex_ss_eq ss_puts_eq)

text \<open>The bytes \<open>put_u32hex_loop\<close> prints, most significant first.\<close>

fun be_bytes :: "nat \<Rightarrow> nat \<Rightarrow> byte list" where
  "be_bytes 0 val = []"
| "be_bytes (Suc n) val = of_nat (val div 2 ^ 24) # be_bytes n (val * 2 ^ 8)"

lemma length_be_bytes [simp]: "length (be_bytes n val) = n"
  by (induction n arbitrary: val) simp_all

lemma overwrite_append:
  "p + length (xs @ ys) \<le> length zs \<Longrightarrow> overwrite (p + length xs) ys (overwrite p xs zs) = overwrite p (xs @ ys) zs"
  by (simp add: overwrite_def ac_simps)

lemma put_u32hex_loop_eq:
  "ss_pos ss + 2 * n \<le> length (ss_str ss) \<Longrightarrow> put_u32hex_loop n val ss =
   Inr (ss\<lparr>ss_str := overwrite (ss_pos ss) (concat (map hex_byte (be_bytes n val))) (ss_str ss), ss_pos := ss_pos ss + 2 * n\<rparr>)"
proof (induction n arbitrary: val ss)
  case 0
  then show ?case by (simp add: skip_def)
next
  case (Suc n)
  then show ?case
    using overwrite_append [of "ss_pos ss" "hex_byte (of_nat (val div 2 ^ 24))"
        "concat (map hex_byte (be_bytes n (val * 2 ^ 8)))" "ss_str ss"]
    by (simp add: put_hex_ss_eq)
qed

lemma put_u8hex_eq:
  assumes "ss_ok ss"
  shows "U_sstream_put_u8hex v ss = Inr (if ss_pos ss + 2 < ss_len ss then ss_write (hex_byte v) ss else ss_full ss)"
proof -
  have "u32_sub (ss_len ss) (ss_pos ss) = ss_len ss - ss_pos ss"
    using assms by (simp add: ss_ok_def c_arith)
  with assms puts_close_eq [of ss "hex_byte v"] show ?thesis
    by (auto simp: U_sstream_put_u8hex_def cond_def upd_def ss_full_def ss_ok_def put_hex_ss_puts)
qed

definition hex32 :: "nat \<Rightarrow> byte list" where
  "hex32 v = concat (map hex_byte (be_bytes 4 v))"

lemma length_hex32 [simp]: "length (hex32 v) = 8"
  by (simp add: hex32_def)

lemma put_u32hex_eq:
  assumes "ss_ok ss"
  shows "U_sstream_put_u32hex v ss = Inr (if ss_pos ss + 8 < ss_len ss then ss_write (hex32 v) ss else ss_full ss)"
proof -
  have "u32_sub (ss_len ss) (ss_pos ss) = ss_len ss - ss_pos ss"
    using assms by (simp add: ss_ok_def c_arith)
  moreover have "block [put_u32hex_loop 4 v, ss_close] ss = Inr (ss_write (hex32 v) ss)" if "ss_pos ss + 8 < ss_len ss"
    using puts_close_eq [of ss "hex32 v"] assms that
    by (simp add: put_u32hex_loop_eq ss_puts_eq ss_ok_def hex32_def [symmetric])
  ultimately show ?thesis
    using assms by (auto simp: U_sstream_put_u32hex_def cond_def upd_def ss_full_def ss_ok_def simp del: block.simps)
qed

interpretation u8hex_printer: text_printer U_sstream_put_u8hex hex_byte "\<lambda>_. True" 0
  by unfold_locales (auto simp: put_u8hex_eq)

interpretation u32hex_printer: text_printer U_sstream_put_u32hex hex32 "\<lambda>_. True" 0
  by unfold_locales (auto simp: put_u32hex_eq)

named_theorems line_intro \<open>operations that stay inside their line\<close>

lemma put_lit_stays [line_intro]: "keeps F (lbuf n n) (put_lit s)"
  unfolding put_lit_def by (rule str_printer.out_stays) simp

lemma put_long_len_stays [line_intro]: "k < 2 ^ 64 \<Longrightarrow> keeps F (lbuf n n) (U_sstream_put_long (int k))"
  by (rule long_printer.out_stays)

lemmas printer_stays [line_intro] = str_printer.out_stays [OF TrueI] u8hex_printer.out_stays [OF TrueI]
  u32hex_printer.out_stays [OF TrueI]

lemma skip_stays [line_intro]: "keeps F P skip"
  by (simp add: hoare_skip)

text \<open>The hex dump of a packet.\<close>

lemma hex_dump_eq:
  "p + 2 * length d < length buf \<Longrightarrow>
   hex_dump d p buf = Inr (overwrite p (concat (map hex_byte d) @ [0]) buf)"
proof (induction d arbitrary: p buf)
  case Nil
  then show ?case by (simp add: overwrite_step)
next
  case (Cons c d)
  then show ?case
    using overwrite_append [of p "hex_byte c" "concat (map hex_byte d) @ [0]" buf]
    by (simp add: chars_hex_eq)
qed

lemma hex_digit_nonzero: "n < 16 \<Longrightarrow> hex_digit n \<noteq> 0"
proof -
  have "\<forall>n\<in>set [0..<16]. hex_digit n \<noteq> 0" by (simp add: upt_rec hex_digit_def bytes_def)
  then show "n < 16 \<Longrightarrow> hex_digit n \<noteq> 0" by simp
qed

lemma nibble_bound: "unat (b AND 0x0F :: byte) < 16"
  using word_and_le1 [of b "0x0F"] by (simp add: word_le_nat_alt)

lemma hex_byte_nonzero: "0 \<notin> set (hex_byte b)"
  using hex_digit_nonzero [OF nibble_bound] by (auto simp: hex_byte_def dest: sym)

lemma hex_bytes_nonzero: "0 \<notin> set (concat (map hex_byte bs))"
  using hex_byte_nonzero by simp

lemma c_string_eq: "0 \<notin> set s \<Longrightarrow> c_string (s @ 0 # rest) = Inr s"
  by (induction s) (auto simp: c_string_def split: if_splits)

lemma hex_dump_string:
  "2 * length d < n \<Longrightarrow> \<exists>buf. hex_dump d 0 (replicate n 0) = Inr buf \<and> c_string buf = Inr (concat (map hex_byte d))"
  using c_string_eq [OF hex_bytes_nonzero, of d] by (simp add: hex_dump_eq overwrite_def)

lemma quiet_hex_line:
  assumes "length data \<le> 511"
  shows "quiet F (hex_line msg data)"
proof -
  obtain buf where buf: "hex_dump data 0 (replicate 1024 0) = Inr buf" "c_string buf = Inr (concat (map hex_byte data))"
    using hex_dump_string [of data 1024] assms by auto
  have "length data < 2 ^ 64" using assms by simp
  then show ?thesis unfolding hex_line_def buf sum.case by (intro quiet_intro line_intro hoare_intro)
qed

lemma quiet_gcfDebugHex:
  assumes "length data \<le> 511" and "AssertFailed \<in> F \<or> length data < 511"
  shows "quiet F (gcfDebugHex msg data)"
proof -
  have "quiet F (Assert (\<lambda>_. length data < 1024 div 2 - 1))"
    using assms(2) quiet_skip by (auto simp: quiet_def Assert_def cond_def skip_def fails_def quiet_to_refl)
  then show ?thesis
    unfolding gcfDebugHex_def
    by (intro quiet_gif quiet_Nil quiet_Cons quiet_hex_line assms(1))
qed

lemma hex_dump_overflow:
  "p \<le> length buf \<Longrightarrow> length buf \<le> p + 2 * length d \<Longrightarrow> hex_dump d p buf = Inl OutOfBounds"
proof (induction d arbitrary: p buf)
  case Nil
  then show ?case by (simp add: poke_def)
next
  case (Cons c d)
  show ?case
  proof (cases "p + 1 < length buf")
    case True
    with Cons show ?thesis by (simp add: chars_hex_eq)
  next
    case False
    then show ?thesis by (auto simp: put_hex_def poke_def)
  qed
qed

text \<open>
  The dump of at most 512 bytes, the most \<open>PROT_Flush\<close> passes: from 511 bytes on it traps,
  and without assertions 512 bytes overrun its local buffer by the terminator.
\<close>

lemma gcfDebugHex_cases:
  assumes ui: "ui_ok (ui (gcf w))" and len: "length data \<le> 512"
  shows "(\<exists>w'. gcfDebugHex msg data w = Inr w' \<and> quiet_to w w')
    \<or> 511 \<le> length data \<and> uiDebugLevel (ui (gcf w)) \<noteq> 0 \<and> gcfDebugHex msg data w = Inl AssertFailed \<and> \<not> ndebug (env w)
    \<or> length data = 512 \<and> uiDebugLevel (ui (gcf w)) \<noteq> 0 \<and> gcfDebugHex msg data w = Inl OutOfBounds \<and> ndebug (env w)"
proof (cases "uiDebugLevel (ui (gcf w)) = 0 \<or> length data < 511 \<or> \<not> ndebug (env w)")
  case True
  then consider "uiDebugLevel (ui (gcf w)) = 0" | "length data < 511"
    | "uiDebugLevel (ui (gcf w)) \<noteq> 0" "511 \<le> length data" "\<not> ndebug (env w)" by linarith
  then show ?thesis
  proof cases
    case 1
    then show ?thesis using ui by (simp add: gcfDebugHex_def gif_def cond_def quiet_to_refl)
  next
    case 2
    then have "quiet {} (gcfDebugHex msg data)" by (intro quiet_gcfDebugHex) auto
    then show ?thesis using ui by (cases "gcfDebugHex msg data w") (auto dest: quietF quietD)
  next
    case 3
    then show ?thesis by (simp add: gcfDebugHex_def gif_def cond_def Assert_def fails_def)
  qed
next
  case False
  then have dump: "gcfDebugHex msg data w = hex_line msg data w"
    by (simp add: gcfDebugHex_def gif_def cond_def Assert_def skip_def split: sum.splits)
  show ?thesis
  proof (cases "length data = 512")
    case True
    with False dump hex_dump_overflow [of 0 "replicate 1024 0" data] show ?thesis
      by (simp add: hex_line_def fails_def)
  next
    case False
    with len have "quiet {} (hex_line msg data)" by (intro quiet_hex_line) simp
    then show ?thesis using ui dump by (cases "hex_line msg data w") (auto dest: quietF quietD)
  qed
qed

section \<open>Cursor and progress bar\<close>

lemma to_long_bound: "L \<in> {32, 64} \<Longrightarrow> v < 2 ^ L \<Longrightarrow> \<bar>to_long L v\<bar> < 2 ^ 64"
  by (auto simp: to_long_def)

lemma long_bits_cases: "long_bits e \<in> {32, 64}"
  by (simp add: long_bits_def)

lemma local_string_ok:
  assumes "0 < n" and "n < 2 ^ 32" and "hoare {} (lbuf n 0) s (lbuf n n)"
  shows "\<exists>t. local_string n s = Inr t"
proof -
  have "lbuf n 0 (U_sstream_init (Some (replicate n 0)) n)"
    using assms(1,2) by (intro lbuf_init) simp_all
  from hoare_total [OF assms(3) this] obtain ss where
    "s (U_sstream_init (Some (replicate n 0)) n) = Inr ss" "ss_ok ss" by (auto simp: lbuf_def)
  then show ?thesis using ss_ok_c_string [of ss] by (simp add: local_string_def)
qed

lemma put_str_lbuf: "hoare F (lbuf n k) (U_sstream_put_str s) (lbuf n (k + length s))"
  by (rule str_printer.out_lbuf) simp_all

lemma to_long_small: "L \<in> {32, 64} \<Longrightarrow> v < 2 ^ 31 \<Longrightarrow> to_long L v = int v"
  by (auto simp: to_long_def)

lemma quiet_local_string:
  assumes "\<And>w :: world. \<exists>t. local_string n (s (env w)) = Inr t" and "\<And>t. quiet F (k t)"
  shows "quiet F (reads (\<lambda>w. local_string n (s (env w))) (\<lambda>r. case r of Inl f \<Rightarrow> fails f | Inr t \<Rightarrow> k t))"
  unfolding quiet_def reads_def
proof (intro allI impI)
  fix w :: world assume "ui_ok (ui (gcf w))"
  moreover obtain t where "local_string n (s (env w)) = Inr t" using assms(1) by blast
  ultimately show "case (case local_string n (s (env w)) of Inl f \<Rightarrow> fails f | Inr t \<Rightarrow> k t) w of
      Inl f \<Rightarrow> f \<in> F | Inr w' \<Rightarrow> quiet_to w w'"
    using assms(2) [of t] by (simp add: quiet_def)
qed

lemma cursor_text_ok:
  assumes L: "L \<in> {32, 64}" and "x < 2 ^ 31" and "y < 2 ^ 32"
  shows "hoare {} (lbuf 24 0) (cursor_text L x y) (lbuf 24 24)"
proof -
  have "\<bar>to_long L y\<bar> < 2 ^ 64" using L assms(3) by (intro to_long_bound) auto
  then have y: "hoare {} (lbuf 24 2) (U_sstream_put_long (to_long L y)) (lbuf 24 23)"
    using put_long_lbuf [of "to_long L y" 2 24] by simp
  have x: "keeps {} (lbuf 24 24) (U_sstream_put_long (to_long L x))"
    using L assms(2) by (simp add: to_long_small long_printer.out_stays)
  have rest: "keeps {} (lbuf 24 24) (block [put_lit '';'', U_sstream_put_long (to_long L x), put_lit ''H''])"
    by (intro hoare_intro line_intro x)
  show ?thesis
    unfolding cursor_text_def
    using put_str_lbuf [of "{}" 24 0 "FMT_ESC @ bytes ''[''"]
    by (intro hoare_block_Cons [OF _ hoare_block_Cons [OF y]])
      (simp_all add: hoare_pre [OF rest] lbuf_all numeral_2_eq_2)
qed

lemma quiet_SetCursor [quiet_intro]: "x < 2 ^ 31 \<Longrightarrow> y < 2 ^ 32 \<Longrightarrow> quiet F (UI_SetCursor x y)"
  unfolding UI_SetCursor_def
  by (intro quiet_local_string quiet_intro local_string_ok cursor_text_ok long_bits_cases) simp_all

text \<open>
  The printer for the progress bar fails only where its buffer is nearly full, so the
  padding loop never gets stuck.
\<close>

definition bar_ok :: "U_SStream \<Rightarrow> bool" where
  "bar_ok ss \<longleftrightarrow> lbuf 256 256 ss \<and> (ss_status ss = U_SSTREAM_OK \<or> 200 \<le> ss_pos ss)"

lemma bar_put: "length s \<le> 20 \<Longrightarrow> keeps F bar_ok (U_sstream_put_str s)"
  unfolding hoare_def bar_ok_def
proof clarify
  fix ss assume s: "length s \<le> 20" and l: "lbuf 256 256 ss" and st: "ss_status ss = U_SSTREAM_OK \<or> 200 \<le> ss_pos ss"
  have "lbuf 256 256 (ss_write s ss)" if "ss_pos ss + length s + 1 < ss_len ss"
    using lbuf_all [OF lbuf_write [OF l, of s]] that by simp
  with l st s show "case U_sstream_put_str s ss of Inl f \<Rightarrow> f \<in> F
      | Inr ss \<Rightarrow> lbuf 256 256 ss \<and> (ss_status ss = U_SSTREAM_OK \<or> 200 \<le> ss_pos ss)"
    using put_str_eq [of ss s] by (auto simp: lbuf_def lbuf_full)
qed

lemma bar_blocks: "keeps F bar_ok (progress_blocks ndone i k)"
proof (induction k arbitrary: i)
  case 0
  show ?case by (simp add: hoare_skip)
next
  case (Suc k)
  show ?case unfolding progress_blocks.simps
    by (intro hoare_intro Suc bar_put) simp
qed

lemma bar_pad: "n \<le> 82 \<Longrightarrow> keeps F bar_ok (pad_to n)"
  unfolding hoare_def
proof clarify
  fix ss assume n: "n \<le> 82" and ok: "bar_ok ss"
  show "case pad_to n ss of Inl f \<Rightarrow> f \<in> F | Inr ss \<Rightarrow> bar_ok ss"
  proof (cases "ss_status ss = U_SSTREAM_OK")
    case True
    with ok n have e: "pad_to n ss = Inr (if ss_pos ss < n then ss_write (replicate (n - ss_pos ss) 0x20) ss else ss)"
      by (intro pad_to_eq) (auto simp: bar_ok_def lbuf_def)
    have "lbuf 256 256 (ss_write (replicate (n - ss_pos ss) 0x20) ss)" if "ss_pos ss < n"
      using ok n that by (intro lbuf_all [OF lbuf_write, of _ 256]) (auto simp: bar_ok_def lbuf_def)
    with ok True show ?thesis by (simp add: e bar_ok_def)
  next
    case False
    with ok n have "\<not> ss_pos ss < n" by (auto simp: bar_ok_def)
    with ok show ?thesis by (simp add: pad_to.simps)
  qed
qed

lemma put_str_fits: "k + length s + 1 < n \<Longrightarrow> hoare F (fits n k) (U_sstream_put_str s) (fits n (k + length s))"
  unfolding hoare_def fits_def
proof clarify
  fix ss assume k: "k + length s + 1 < n" and l: "lbuf n k ss" and st: "ss_status ss = U_SSTREAM_OK"
  then have "U_sstream_put_str s ss = Inr (ss_write s ss)" "lbuf n (ss_pos ss + length s) (ss_write s ss)"
    using lbuf_write [OF l, of s] by (auto simp: put_str_eq lbuf_def)
  with l st show "case U_sstream_put_str s ss of Inl f \<Rightarrow> f \<in> F
      | Inr ss' \<Rightarrow> lbuf n (k + length s) ss' \<and> ss_status ss' = U_SSTREAM_OK"
    by (auto simp: lbuf_def)
qed

lemma put_long_fits:
  assumes "\<bar>z\<bar> < 2 ^ 64" and "k + 21 < n"
  shows "hoare F (fits n k) (U_sstream_put_long z) (fits n (k + 21))"
  unfolding hoare_def fits_def
proof clarify
  fix ss assume l: "lbuf n k ss" and st: "ss_status ss = U_SSTREAM_OK"
  then have "U_sstream_put_long z ss = Inr (ss_write (long_text z) ss)"
    using assms by (subst put_long_eq) (auto simp: lbuf_def)
  moreover have "lbuf n (k + 21) (ss_write (long_text z) ss)"
    using lbuf_write [OF l, of "long_text z"] length_long_text [OF assms(1)] l assms(2)
    by (auto simp: lbuf_def)
  ultimately show "case U_sstream_put_long z ss of Inl f \<Rightarrow> f \<in> F
      | Inr ss' \<Rightarrow> lbuf n (k + 21) ss' \<and> ss_status ss' = U_SSTREAM_OK"
    using st by simp
qed

lemma fits_weaken: "fits n k ss \<Longrightarrow> k \<le> k' \<Longrightarrow> fits n k' ss"
  by (auto simp: fits_def lbuf_def)

lemma put_str_fits': "k + length s \<le> k' \<Longrightarrow> k' + 1 < n \<Longrightarrow> hoare F (fits n k) (U_sstream_put_str s) (fits n k')"
  by (rule hoare_post [OF put_str_fits]) (auto intro: fits_weaken)

lemma progress_width: "w < 2 ^ 32 \<Longrightarrow> (if u32_sub w 2 \<le> 80 then w else 80) \<le> 82"
proof (cases "w < 2")
  case True
  then have "w = 0 \<or> w = 1" by auto
  then show ?thesis by (auto simp: usub_def)
next
  case False
  moreover assume "w < 2 ^ 32"
  ultimately show ?thesis using usub_exact [of 2 w 32] by auto
qed

lemma progress_ok:
  assumes L: "L \<in> {32, 64}" and "w < 2 ^ 32"
  shows "hoare F (fits 256 0) (progress_text L fsz rest w) bar_ok"
proof -
  define wmax where "wmax = (if u32_sub w 2 \<le> 80 then w else 80)"
  define p0 where "p0 = to_long L ((usub L fsz rest * 100) mod 2 ^ L div fsz)"
  define percent where "percent = (if p0 > 95 then 100 else p0)"
  have "(usub L fsz rest * 100) mod 2 ^ L div fsz \<le> (usub L fsz rest * 100) mod 2 ^ L"
    by (rule div_le_dividend)
  also have "\<dots> < 2 ^ L" by simp
  finally have percent: "\<bar>percent\<bar> < 2 ^ 64"
    using to_long_bound [OF L] by (auto simp: percent_def p0_def)
  have wmax: "wmax \<le> 82" using progress_width [OF assms(2)] by (simp add: wmax_def)
  have bar: "fits 256 k ss \<Longrightarrow> bar_ok ss" for k ss
    by (auto simp: fits_def bar_ok_def intro: lbuf_all)
  have rest': "hoare F (fits 256 37) (block [reads ss_pos k, pad_to wmax]) bar_ok"
    if "\<And>pos. keeps F bar_ok (k pos)" for k
    by (rule hoare_pre [where P' = bar_ok]) (intro hoare_intro that bar_pad wmax, erule bar)
  have pad: "hoare F (fits 256 2) (if percent < 10 then put_lit ''  '' else if percent < 100 then put_lit '' '' else skip) (fits 256 4)"
    by (auto simp: put_lit_def intro!: put_str_fits' hoare_skip intro: fits_weaken)
  show ?thesis
    unfolding progress_text_def Let_def wmax_def [symmetric] p0_def [symmetric] percent_def [symmetric]
    apply (rule hoare_block_Cons [OF put_str_fits' [where k' = 2]]; (simp; fail)?)
    apply (rule hoare_block_Cons [OF pad])
    apply (rule hoare_block_Cons [OF put_long_fits [OF percent]], simp)
    apply (unfold put_lit_def)
    apply (rule hoare_block_Cons [OF put_str_fits' [where k' = 37]]; (simp; fail)?)
    by (rule rest') (intro bar_blocks)
qed

lemma quiet_UpdateProgress [quiet_intro]: "quiet F UI_UpdateProgress"
proof -
  have "\<exists>t. local_string 256 (progress_text (long_bits e) fsz rest w) = Inr t" if "w < 2 ^ 32" for e fsz rest w
  proof -
    have "lbuf 256 0 (U_sstream_init (Some (replicate 256 0)) 256)" by (intro lbuf_init) simp_all
    then have "fits 256 0 (U_sstream_init (Some (replicate 256 0)) 256)" by (simp add: fits_def U_sstream_init_def)
    from hoare_total [OF progress_ok [OF long_bits_cases that] this] obtain ss where
      "progress_text (long_bits e) fsz rest w (U_sstream_init (Some (replicate 256 0)) 256) = Inr ss" "bar_ok ss" by blast
    then show ?thesis using ss_ok_c_string [of ss] by (auto simp: local_string_def bar_ok_def lbuf_def)
  qed
  moreover have "unat (x :: 16 word) < 2 ^ 32" for x
    using unsigned_less [of x] by (rule order.strict_trans) simp
  moreover have "u32_sub h 1 < 2 ^ 32" for h by (rule usub_bound)
  ultimately show ?thesis
    unfolding UI_UpdateProgress_def UI_GetWinSize_def case_prod_beta
    by (intro quiet_gget quiet_if quiet_skip quiet_callv_os)
      (unfold fst_conv snd_conv, rule quiet_local_string, simp, intro quiet_intro, simp_all)
qed

end
