(* ===== verification/Platform.thy ===== *)
theory Platform
  imports Gcf_Ui
begin

text \<open>
  The platform layer of \<open>main_posix.c\<close> under the event loop: opening and closing the serial
  port, reading the firmware file, the two resets, and the transmit ring
  (\<open>PROT_Putc\<close>, \<open>PROT_Flush\<close>, \<open>PROT_Write\<close>). \<open>PL_Disconnect\<close> and \<open>PROT_Flush\<close> post
  \<open>EV_DISCONNECTED\<close> themselves; the parameter \<open>he\<close> stands for \<open>GCF_HandleEvent\<close>.

  The ring is an interpretation of the sender's contract \<open>byte_sink\<close>, so \<open>PROT_SendFlagged\<close>
  puts one frame into it; \<open>wire\<close>, what was written plus what is pending, grows by exactly
  that frame whatever the \<open>write()\<close> calls return.
\<close>

section \<open>The code\<close>

definition baud_number :: "baudrate \<Rightarrow> int" where
  "baud_number b = (case b of PL_BAUDRATE_UNKNOWN \<Rightarrow> 0 | PL_BAUDRATE_38400 \<Rightarrow> 38400 | PL_BAUDRATE_115200 \<Rightarrow> 115200)"

definition plSetupPort :: "int \<Rightarrow> action" where
  "plSetupPort baud = emit (SetupPort baud)"

definition PL_Connect :: "byte list \<Rightarrow> baudrate \<Rightarrow> (world, gcf_status) op" where
  "PL_Connect path baud w0 = (case PL_Printf DBG_DEBUG ''PL_Connect'' [] w0 of Inl f \<Rightarrow> Inl f | Inr w \<Rightarrow>
     if fd (platform w) \<noteq> 0
     then returns (PL_Printf DBG_DEBUG ''device already connected %s'' [AStr path]) GCF_SUCCESS w
     else case os (\<lambda>e k. os_open e k path) w of Inl f \<Rightarrow> Inl f | Inr (r, w1) \<Rightarrow>
       (case set_pl (\<lambda>p. p\<lparr>fd := r, tx_rp := 0, tx_wp := 0\<rparr>) w1 of Inl f \<Rightarrow> Inl f | Inr w2 \<Rightarrow>
         if r < 0
         then returns (block [PL_Printf DBG_DEBUG ''failed to open device %s'' [AStr path],
                set_pl (\<lambda>p. p\<lparr>fd := 0\<rparr>)]) GCF_FAILED w2
         else returns (block [
                plSetupPort (if baud = PL_BAUDRATE_115200 then 115200 else 38400),
                PL_Printf DBG_DEBUG ''connected to %s, baudrate: %d'' [AStr path, ANum (baud_number baud)]])
                GCF_SUCCESS w2))"

definition PL_Disconnect :: "(event \<Rightarrow> action) \<Rightarrow> action" where
  "PL_Disconnect he = block [
     PL_Printf DBG_DEBUG ''PL_Disconnect'' [],
     cond (\<lambda>w. fd (platform w) \<noteq> 0)
       (block [reads (\<lambda>w. fd (platform w)) (\<lambda>d. emit (Closed d)), set_pl (\<lambda>p. p\<lparr>fd := 0\<rparr>)]) skip,
     set_pl (\<lambda>p. p\<lparr>tx_rp := 0, tx_wp := 0\<rparr>),
     he EV_DISCONNECTED]"

text \<open>
  \<open>os_file\<close> tells whether \<open>open\<close> and \<open>read\<close> succeed and what the file holds; \<open>read\<close> fills at
  most \<open>buflen\<close> bytes of the buffer, which is \<open>fcontent\<close>.
\<close>

definition PL_ReadFile :: "byte list \<Rightarrow> nat \<Rightarrow> (world, int) op" where
  "PL_ReadFile path buflen w0 = (case Assert (\<lambda>_. buflen \<ge> MAX_GCF_FILE_SIZE) w0 of Inl f \<Rightarrow> Inl f | Inr w1 \<Rightarrow>
     (case os (\<lambda>e k. os_file e k path) w1 of Inl f \<Rightarrow> Inl f
      | Inr (None, w) \<Rightarrow> returns (PL_Printf DBG_DEBUG ''failed to open %s, err: %s'' [AStr path]) (- 1) w
      | Inr (Some None, w) \<Rightarrow> returns (PL_Printf DBG_DEBUG ''failed to read %s, err: %s'' [AStr path]) (- 1) w
      | Inr (Some (Some content), w) \<Rightarrow>
          (let n = min (length content) buflen in
           returns (set_gcf (\<lambda>g. g\<lparr>gcf_file := (gcf_file g)\<lparr>fcontent :=
             (\<lambda>i. if i < n then content ! i else fcontent (gcf_file g) i)\<rparr>\<rparr>)) (int n) w)))"

definition PL_ResetFTDI :: "(world, int) op" where
  "PL_ResetFTDI = os os_reset_ftdi"

definition PL_ResetRaspBee :: "(world, int) op" where
  "PL_ResetRaspBee = os os_reset_raspbee"

section \<open>The transmit ring\<close>

abbreviation (input) TX_BUF_SIZE :: nat where "TX_BUF_SIZE \<equiv> 2048"

definition ring_put :: "byte \<Rightarrow> PL_Internal \<Rightarrow> PL_Internal" where
  "ring_put ch p = (let p1 = p\<lparr>txbuf := (txbuf p)(tx_wp p mod TX_BUF_SIZE := ch), tx_wp := u32_add (tx_wp p) 1\<rparr>
     in if tx_wp p1 mod TX_BUF_SIZE = tx_rp p1 mod TX_BUF_SIZE
        then p1\<lparr>tx_rp := u32_add (tx_rp p1) 1\<rparr> else p1)"

definition PROT_Putc :: "byte \<Rightarrow> (world, int) op" where
  "PROT_Putc ch w = (if fd (platform w) = 0 then Inr (0, w) else returns (set_pl (ring_put ch)) 1 w)"

text \<open>The copy loop of \<open>PROT_Flush\<close>, for the remaining room \<open>n\<close> of \<open>buf\<close>.\<close>

fun ring_copy :: "PL_Internal \<Rightarrow> nat \<Rightarrow> nat \<Rightarrow> byte list" where
  "ring_copy p 0 len = []"
| "ring_copy p (Suc n) len =
     (if tx_wp p mod TX_BUF_SIZE = u32_add (tx_rp p) len mod TX_BUF_SIZE then []
      else txbuf p (u32_add (tx_rp p) len mod TX_BUF_SIZE) # ring_copy p n (len + 1))"

fun write_loop :: "int \<Rightarrow> write_result list \<Rightarrow> byte list \<Rightarrow> nat \<Rightarrow> (world, nat) op" where
  "write_loop d rs [] pos w = Inr (pos, w)"
| "write_loop d [] (b # bs) pos w = Inl Diverges"
| "write_loop d (WInterrupted # rs) (b # bs) pos w = write_loop d rs (b # bs) pos w"
| "write_loop d (WError # rs) (b # bs) pos w = returns (PL_Printf DBG_DEBUG ''write() failed: %s'' []) pos w"
| "write_loop d (WTaken n # rs) (b # bs) pos w =
     (if 0 < n \<and> n \<le> length (b # bs)
      then case emit (Written d (take n (b # bs))) w of Inl f \<Rightarrow> Inl f
        | Inr w' \<Rightarrow> write_loop d rs (drop n (b # bs)) (pos + n) w'
      else Inr (pos, w))"

definition PROT_Flush :: "(event \<Rightarrow> action) \<Rightarrow> (world, int) op" where
  "PROT_Flush he w0 =
     (if fd (platform w0) = 0
      then returns (block [set_pl (\<lambda>p. p\<lparr>tx_wp := 0, tx_rp := 0\<rparr>), he EV_DISCONNECTED]) (- 1) w0
      else let buf = ring_copy (platform w0) 512 0 in
        case gcfDebugHex ''send'' buf w0 of Inl f \<Rightarrow> Inl f | Inr w1 \<Rightarrow>
        (case os os_write w1 of Inl f \<Rightarrow> Inl f | Inr (rs, w2) \<Rightarrow>
        (case write_loop (fd (platform w2)) rs buf 0 w2 of Inl f \<Rightarrow> Inl f | Inr (pos, w3) \<Rightarrow>
          returns (set_pl (\<lambda>p. p\<lparr>tx_rp := u32_add (tx_rp p) pos\<rparr>)) (int pos) w3)))"

fun putc_all :: "byte list \<Rightarrow> int \<Rightarrow> (world, int) op" where
  "putc_all [] r w = Inr (r, w)"
| "putc_all (b # bs) r w = (case PROT_Putc b w of Inl f \<Rightarrow> Inl f | Inr (k, w') \<Rightarrow> putc_all bs (r + k) w')"

definition PROT_Write :: "(event \<Rightarrow> action) \<Rightarrow> byte list \<Rightarrow> (world, int) op" where
  "PROT_Write he data w = (case putc_all data 0 w of Inl f \<Rightarrow> Inl f
     | Inr (r, w') \<Rightarrow> returns (call (PROT_Flush he)) r w')"

text \<open>\<open>PROT_SendFlagged\<close> on this platform.\<close>

definition PROT_Send :: "(event \<Rightarrow> action) \<Rightarrow> byte list \<Rightarrow> action" where
  "PROT_Send he data = PROT_SendFlagged (\<lambda>c. call (PROT_Putc c)) (call (PROT_Flush he)) data"

section \<open>The ring holds the pending bytes\<close>

definition ring_len :: "PL_Internal \<Rightarrow> nat" where
  "ring_len p = u32_sub (tx_wp p) (tx_rp p)"

definition ring_ok :: "PL_Internal \<Rightarrow> bool" where
  "ring_ok p \<longleftrightarrow> tx_wp p < 2 ^ 32 \<and> tx_rp p < 2 ^ 32 \<and> ring_len p < TX_BUF_SIZE"

definition pending :: "PL_Internal \<Rightarrow> byte list" where
  "pending p = map (\<lambda>i. txbuf p ((tx_rp p + i) mod TX_BUF_SIZE)) [0..<ring_len p]"

lemma length_pending [simp]: "length (pending p) = ring_len p"
  by (simp add: pending_def)

lemma mod_32_2048 [simp]: "(n :: nat) mod 4294967296 mod 2048 = n mod 2048"
  by (rule mod_mod_cancel) (simp add: dvd_eq_mod_eq_0)

lemma mod_32_2048_add [simp]: "((a :: nat) mod 4294967296 + x) mod 2048 = (a + x) mod 2048"
  by (metis mod_32_2048 mod_add_left_eq)

lemma u32_sub_add: "a < 2 ^ 32 \<Longrightarrow> b < 2 ^ 32 \<Longrightarrow> u32_add b (u32_sub a b) = a"
  by (cases "b \<le> a") (auto simp: usub_def uadd_def mod_simps)

lemma u32_sub_of_add: "b < 2 ^ 32 \<Longrightarrow> n < 2 ^ 32 \<Longrightarrow> u32_sub (u32_add b n) b = n"
proof -
  assume "b < 2 ^ 32" "n < 2 ^ 32"
  then have "u32_sub (u32_add b n) b = ((b + n) mod 2 ^ 32 + (2 ^ 32 - b)) mod 2 ^ 32"
    by (simp add: usub_def uadd_def)
  also have "\<dots> = (b + n + (2 ^ 32 - b)) mod 2 ^ 32" by (simp add: mod_simps)
  also have "\<dots> = (n + 2 ^ 32) mod 2 ^ 32" using \<open>b < 2 ^ 32\<close> by simp
  also have "\<dots> = n" using \<open>n < 2 ^ 32\<close> by simp
  finally show ?thesis .
qed

text \<open>The write index in terms of the read index and the number of pending bytes.\<close>

lemma ring_wp:
  assumes "ring_ok p"
  shows "tx_wp p = u32_add (tx_rp p) (ring_len p)"
  using u32_sub_add [of "tx_wp p" "tx_rp p"] assms by (simp add: ring_ok_def ring_len_def)

lemma ring_index: "ring_ok p \<Longrightarrow> tx_wp p mod 2048 = (tx_rp p + ring_len p) mod 2048"
  by (subst ring_wp) (simp_all add: uadd_def)

lemma mod_add_inj: "(a + i) mod m = (a + j) mod m \<Longrightarrow> i < m \<Longrightarrow> j < m \<Longrightarrow> i = (j :: nat)"
proof (induction i j rule: linorder_wlog)
  case (le i j)
  then have "m dvd (a + j) - (a + i)" by (intro mod_eq_dvd_iff_nat [THEN iffD1]) auto
  then have "m dvd j - i" by simp
  with le show ?case by (auto dest!: dvd_imp_le)
qed auto

lemma ring_eq_iff:
  assumes "ring_ok p" and "i < TX_BUF_SIZE"
  shows "tx_wp p mod 2048 = (tx_rp p + i) mod 2048 \<longleftrightarrow> i = ring_len p"
  using ring_index [OF assms(1)] mod_add_inj [of "tx_rp p" "ring_len p" 2048 i] assms
  by (auto simp: ring_ok_def)

lemma u32_add_assoc: "u32_add (u32_add a b) c = u32_add a (b + c)"
  by (simp add: uadd_def mod_simps add.assoc)

lemma u32_add_bound [simp]: "u32_add a b < 2 ^ 32" "u32_add a b < 4294967296"
  by (simp_all add: uadd_def)

text \<open>A byte goes to the end; a full ring gives up its oldest byte.\<close>

lemma ring_put_pending:
  assumes ok: "ring_ok p"
  shows "ring_ok (ring_put c p) \<and>
    pending (ring_put c p) = (if ring_len p = 2047 then tl (pending p) else pending p) @ [c]"
proof -
  define n where "n = ring_len p"
  define p1 where "p1 = p\<lparr>txbuf := (txbuf p)(tx_wp p mod 2048 := c), tx_wp := u32_add (tx_wp p) 1\<rparr>"
  have n: "n < 2048" and rp: "tx_rp p < 2 ^ 32" using ok by (auto simp: ring_ok_def n_def)
  have wp1: "tx_wp p1 = u32_add (tx_rp p) (n + 1)"
    using ring_wp [OF ok] by (simp add: p1_def n_def u32_add_assoc)
  have len1: "ring_len p1 = n + 1"
    using u32_sub_of_add [of "tx_rp p" "n + 1"] wp1 rp n by (simp add: ring_len_def p1_def)
  have at: "txbuf p1 ((tx_rp p + i) mod 2048) = (if i = n then c else txbuf p ((tx_rp p + i) mod 2048))"
    if "i < 2048" for i
    using ring_eq_iff [OF ok that] by (auto simp: p1_def n_def)
  have pend1: "map (\<lambda>i. txbuf p1 ((tx_rp p + i) mod 2048)) [0..<n + 1] = pending p @ [c]"
    using at n by (simp add: pending_def n_def)
  have full: "tx_wp p1 mod 2048 = tx_rp p1 mod 2048 \<longleftrightarrow> n = 2047"
  proof -
    have "tx_wp p1 mod 2048 = (tx_rp p + (n + 1)) mod 2048" by (simp add: wp1 uadd_def)
    moreover have "(tx_rp p + (n + 1)) mod 2048 = (tx_rp p + 0) mod 2048 \<longleftrightarrow> n + 1 = 2048"
      using mod_add_inj [of "tx_rp p" "n + 1" 2048 0] n by (cases "n + 1 = 2048") auto
    ultimately show ?thesis by (auto simp: p1_def)
  qed
  show ?thesis
  proof (cases "n = 2047")
    case False
    then have "ring_put c p = p1" using full by (simp add: ring_put_def Let_def p1_def)
    moreover have "ring_ok p1" using len1 n False rp by (simp add: ring_ok_def) (simp add: p1_def)
    moreover have "pending p1 = pending p @ [c]"
      using pend1 by (simp add: pending_def len1) (simp add: p1_def)
    ultimately show ?thesis using False by (simp add: n_def)
  next
    case True
    define p2 where "p2 = p1\<lparr>tx_rp := u32_add (tx_rp p) 1\<rparr>"
    have put: "ring_put c p = p2" using full True by (simp add: ring_put_def Let_def p1_def p2_def)
    have "tx_wp p2 = u32_add (tx_rp p2) 2047" using wp1 True by (simp add: p2_def u32_add_assoc)
    then have len2: "ring_len p2 = 2047" using u32_sub_of_add [of "tx_rp p2" 2047] by (simp add: ring_len_def p2_def)
    then have "ring_ok p2" by (simp add: ring_ok_def) (simp add: p2_def p1_def)
    moreover have "pending p2 = tl (pending p @ [c])"
    proof -
      have "pending p2 = map (\<lambda>i. txbuf p1 ((tx_rp p + i) mod 2048)) (map Suc [0..<2047])"
        unfolding pending_def len2 by (simp add: p2_def uadd_def)
      also have "map Suc [0..<2047] = tl [0..<n + 1]" by (simp only: map_Suc_upt tl_upt True) simp
      finally show ?thesis using pend1 by (simp add: map_tl)
    qed
    moreover have "pending p \<noteq> []" using True by (auto simp: n_def simp flip: length_greater_0_conv)
    ultimately show ?thesis using True put by (simp add: n_def)
  qed
qed

text \<open>\<open>PROT_Flush\<close> copies the oldest bytes, at most 512.\<close>

lemma ring_copy_eq:
  assumes "ring_ok p" and "k \<le> ring_len p"
  shows "ring_copy p n k = take n (drop k (pending p))"
  using assms(2)
proof (induction n arbitrary: k)
  case (Suc n)
  have k: "k < TX_BUF_SIZE" using assms(1) Suc.prems by (simp add: ring_ok_def)
  have stop: "tx_wp p mod 2048 = u32_add (tx_rp p) k mod 2048 \<longleftrightarrow> k = ring_len p"
    using ring_eq_iff [OF assms(1) k] by (simp add: uadd_def)
  show ?case
  proof (cases "k = ring_len p")
    case True
    with stop show ?thesis by simp
  next
    case False
    with Suc.prems have "drop k (pending p) = pending p ! k # drop (Suc k) (pending p)"
      by (intro Cons_nth_drop_Suc [symmetric]) simp
    moreover have "pending p ! k = txbuf p ((tx_rp p + k) mod 2048)"
      using False Suc.prems by (simp add: pending_def)
    ultimately show ?thesis using False stop Suc by (simp add: uadd_def)
  qed
qed simp

lemma ring_take:
  assumes "ring_ok p" and "k \<le> ring_len p"
  shows "ring_ok (p\<lparr>tx_rp := u32_add (tx_rp p) k\<rparr>)
    \<and> pending (p\<lparr>tx_rp := u32_add (tx_rp p) k\<rparr>) = drop k (pending p)"
proof -
  define q where "q = p\<lparr>tx_rp := u32_add (tx_rp p) k\<rparr>"
  have "tx_wp q = u32_add (tx_rp q) (ring_len p - k)"
    using ring_wp [OF assms(1)] assms(2) by (simp add: q_def u32_add_assoc)
  moreover have "ring_len p - k < 2 ^ 32" using assms(1)
    by (auto simp: ring_ok_def intro: order.strict_trans1 [OF diff_le_self])
  moreover have "tx_rp q < 2 ^ 32" by (simp add: q_def)
  ultimately have len: "ring_len q = ring_len p - k"
    using u32_sub_of_add [of "tx_rp q" "ring_len p - k"] by (simp add: ring_len_def)
  have "pending q = drop k (pending p)"
    unfolding pending_def len drop_map drop_upt
    by (rule nth_equalityI) (simp_all add: q_def uadd_def add.assoc)
  moreover have "ring_len p - k < 2048"
    using assms(1) by (auto simp: ring_ok_def intro: order.strict_trans1 [OF diff_le_self])
  then have "ring_ok q" unfolding ring_ok_def len using assms(1) by (simp add: q_def ring_ok_def)
  ultimately show ?thesis by (simp add: q_def)
qed

lemma ring_empty: "tx_rp p = 0 \<Longrightarrow> tx_wp p = 0 \<Longrightarrow> ring_ok p \<and> pending p = []"
  by (simp add: ring_ok_def ring_len_def pending_def usub_def)

section \<open>The sender on the ring\<close>

definition port_open :: "world \<Rightarrow> bool" where
  "port_open w \<longleftrightarrow> fd (platform w) \<noteq> 0 \<and> ring_ok (platform w)"

definition same_but_ring :: "world \<Rightarrow> world \<Rightarrow> bool" where
  "same_but_ring w w' \<longleftrightarrow> (\<exists>p. w' = w\<lparr>platform := p\<rparr> \<and> fd p = fd (platform w) \<and> timer p = timer (platform w)
     \<and> running p = running (platform w))"

lemma putc_open:
  assumes "port_open w" and "ring_len (platform w) < 2047"
  shows "PROT_Putc c w = Inr (1, w\<lparr>platform := ring_put c (platform w)\<rparr>)
    \<and> port_open (w\<lparr>platform := ring_put c (platform w)\<rparr>)
    \<and> pending (ring_put c (platform w)) = pending (platform w) @ [c]"
  using assms ring_put_pending [of "platform w" c]
  by (auto simp: port_open_def PROT_Putc_def returns_def set_pl_def upd_def ring_put_def Let_def)

lemma same_but_ring_put: "same_but_ring w (w\<lparr>platform := ring_put c (platform w)\<rparr>)"
  unfolding same_but_ring_def
  by (rule exI [of _ "ring_put c (platform w)"]) (simp add: ring_put_def Let_def)

lemma same_but_ring_trans: "same_but_ring w w1 \<Longrightarrow> same_but_ring w1 w2 \<Longrightarrow> same_but_ring w w2"
  by (auto simp: same_but_ring_def)

lemma same_but_ring_refl: "same_but_ring w w"
  unfolding same_but_ring_def by (rule exI [of _ "platform w"]) simp

text \<open>
  The contract of the sender, for the worlds that differ from \<open>w0\<close> in the ring only; the
  ring takes 2047 bytes.
\<close>

interpretation ring: byte_sink "\<lambda>c. call (PROT_Putc c)" "\<lambda>w. pending (platform w)"
    "\<lambda>w. port_open w \<and> same_but_ring w0 w" 2047 for w0
proof unfold_locales
  fix s c assume "port_open s \<and> same_but_ring w0 s" "length (pending (platform s)) < 2047"
  with putc_open [of s c] same_but_ring_trans [OF _ same_but_ring_put]
  show "\<exists>s'. call (PROT_Putc c) s = Inr s' \<and> (port_open s' \<and> same_but_ring w0 s')
      \<and> pending (platform s') = pending (platform s) @ [c]"
    by (auto simp: call_def callv_def skip_def)
qed

lemma putc_all_open:
  "port_open w \<Longrightarrow> ring_len (platform w) + length bs \<le> 2047 \<Longrightarrow>
   \<exists>w'. putc_all bs r w = Inr (r + int (length bs), w') \<and> port_open w' \<and> same_but_ring w w'
     \<and> pending (platform w') = pending (platform w) @ bs"
proof (induction bs arbitrary: r w)
  case Nil
  then show ?case by (simp add: same_but_ring_refl)
next
  case (Cons b bs)
  define w1 where "w1 = w\<lparr>platform := ring_put b (platform w)\<rparr>"
  have w1: "PROT_Putc b w = Inr (1, w1)" "port_open w1" "pending (platform w1) = pending (platform w) @ [b]"
    using putc_open [of w b] Cons.prems by (simp_all add: w1_def)
  have "ring_len (platform w1) = ring_len (platform w) + 1"
    using w1(3) length_pending [of "platform w1"] by simp
  then obtain w2 where "putc_all bs (r + 1) w1 = Inr (r + 1 + int (length bs), w2)" "port_open w2"
      "same_but_ring w1 w2" "pending (platform w2) = pending (platform w1) @ bs"
    using Cons.IH [OF w1(2), of "r + 1"] Cons.prems by auto
  moreover have "same_but_ring w w1" unfolding w1_def by (rule same_but_ring_put)
  ultimately have "putc_all (b # bs) r w = Inr (r + int (length (b # bs)), w2) \<and> port_open w2
      \<and> same_but_ring w w2 \<and> pending (platform w2) = pending (platform w) @ b # bs"
    using w1 same_but_ring_trans [of w w1 w2] by (simp add: ac_simps)
  then show ?case by blast
qed

section \<open>What goes out\<close>

fun sent :: "out_event list \<Rightarrow> byte list" where
  "sent [] = []"
| "sent (Written d bs # es) = bs @ sent es"
| "sent (e # es) = sent es"

lemma sent_append [simp]: "sent (xs @ ys) = sent xs @ sent ys"
  by (induction xs rule: sent.induct) simp_all

lemma sent_terminal: "\<forall>e\<in>set es. terminal e \<Longrightarrow> sent es = []"
  by (induction es rule: sent.induct) auto

text \<open>
  \<open>talk d w w'\<close>: from \<open>w\<close> to \<open>w'\<close> the program only printed and used the open port, and the
  bytes written together with the bytes still pending grew by \<open>d\<close>.
\<close>

definition talk :: "byte list \<Rightarrow> world \<Rightarrow> world \<Rightarrow> bool" where
  "talk d w w' \<longleftrightarrow> (\<exists>u t es p. w' = w\<lparr>gcf := (gcf w)\<lparr>ui := u\<rparr>, platform := p, tick := t, outs := outs w @ es\<rparr>
     \<and> tick w \<le> t \<and> ui_ok u \<and> ui_same u (ui (gcf w))
     \<and> fd p = fd (platform w) \<and> timer p = timer (platform w) \<and> running p = running (platform w)
     \<and> ring_ok p \<and> sent es @ pending p = pending (platform w) @ d
     \<and> (\<forall>e\<in>set es. terminal e \<or> (\<exists>b. e = Written (fd p) b)))"

lemma talk_trans: "talk d w w1 \<Longrightarrow> talk d' w1 w2 \<Longrightarrow> talk (d @ d') w w2"
  unfolding talk_def
proof (elim exE conjE)
  fix u t es p u' t' es' p'
  assume 1: "w1 = w\<lparr>gcf := (gcf w)\<lparr>ui := u\<rparr>, platform := p, tick := t, outs := outs w @ es\<rparr>"
    and 2: "w2 = w1\<lparr>gcf := (gcf w1)\<lparr>ui := u'\<rparr>, platform := p', tick := t', outs := outs w1 @ es'\<rparr>"
    and eq1: "sent es @ pending p = pending (platform w) @ d"
    and eq2: "sent es' @ pending p' = pending (platform w1) @ d'"
    and rest: "tick w \<le> t" "tick w1 \<le> t'" "ui_ok u'" "ui_same u (ui (gcf w))" "ui_same u' (ui (gcf w1))" "ring_ok p'"
      "fd p = fd (platform w)" "fd p' = fd (platform w1)" "timer p = timer (platform w)" "timer p' = timer (platform w1)"
      "running p = running (platform w)" "running p' = running (platform w1)"
      "\<forall>e\<in>set es. terminal e \<or> (\<exists>b. e = Written (fd p) b)" "\<forall>e\<in>set es'. terminal e \<or> (\<exists>b. e = Written (fd p') b)"
  have "sent (es @ es') @ pending p' = pending (platform w) @ d @ d'"
  proof -
    have "sent es @ (sent es' @ pending p') = (sent es @ pending p) @ d'" using eq2 1 by simp
    then show ?thesis using eq1 by simp
  qed
  with 1 2 rest show "\<exists>u t es p. w2 = w\<lparr>gcf := (gcf w)\<lparr>ui := u\<rparr>, platform := p, tick := t, outs := outs w @ es\<rparr>
     \<and> tick w \<le> t \<and> ui_ok u \<and> ui_same u (ui (gcf w))
     \<and> fd p = fd (platform w) \<and> timer p = timer (platform w) \<and> running p = running (platform w)
     \<and> ring_ok p \<and> sent es @ pending p = pending (platform w) @ d @ d'
     \<and> (\<forall>e\<in>set es. terminal e \<or> (\<exists>b. e = Written (fd p) b))"
    by (intro exI [of _ u'] exI [of _ t'] exI [of _ "es @ es'"] exI [of _ p']) (auto simp: ui_same_def)
qed

lemma talk_quiet: "quiet_to w w' \<Longrightarrow> ring_ok (platform w) \<Longrightarrow> talk [] w w'"
  unfolding quiet_to_def talk_def
  by (elim exE conjE, rule exI, rule exI, rule exI, rule exI [of _ "platform w"], cases w)
    (auto simp: sent_terminal)

lemma talk_ring:
  assumes "same_but_ring w w'" and "ring_ok (platform w')" and "ui_ok (ui (gcf w))"
    and "pending (platform w') = pending (platform w) @ d"
  shows "talk d w w'"
proof -
  obtain p where p: "w' = w\<lparr>platform := p\<rparr>" "fd p = fd (platform w)" "timer p = timer (platform w)"
      "running p = running (platform w)" using assms(1) by (auto simp: same_but_ring_def)
  then show ?thesis
    unfolding talk_def using assms
    by (intro exI [of _ "ui (gcf w)"] exI [of _ "tick w"] exI [of _ "[]"] exI [of _ p]) (cases w, simp add: ui_same_def)
qed

lemma talk_port: "talk d w w' \<Longrightarrow> port_open w \<Longrightarrow> port_open w'"
  by (auto simp: talk_def port_open_def)

lemma talk_ui: "talk d w w' \<Longrightarrow> ui_ok (ui (gcf w'))"
  by (auto simp: talk_def)

text \<open>The \<open>write()\<close> calls of one flush end: they take everything, or one of them fails.\<close>

fun writes_end :: "write_result list \<Rightarrow> nat \<Rightarrow> bool" where
  "writes_end rs 0 = True"
| "writes_end [] (Suc n) = False"
| "writes_end (WInterrupted # rs) (Suc n) = writes_end rs (Suc n)"
| "writes_end (WError # rs) (Suc n) = True"
| "writes_end (WTaken k # rs) (Suc n) = (if 0 < k \<and> k \<le> Suc n then writes_end rs (Suc n - k) else True)"

definition writes_ok :: "env \<Rightarrow> bool" where
  "writes_ok e \<longleftrightarrow> (\<forall>t. \<forall>n\<le>512. writes_end (os_write e t) n)"

lemma write_loop_spec:
  "case write_loop d rs buf pos w of
     Inl f \<Rightarrow> f = Diverges \<and> \<not> writes_end rs (length buf)
   | Inr (pos', w') \<Rightarrow> \<exists>k es. k \<le> length buf \<and> pos' = pos + k \<and> w' = w\<lparr>outs := outs w @ es\<rparr>
       \<and> sent es = take k buf \<and> (\<forall>e\<in>set es. terminal e \<or> (\<exists>b. e = Written d b))"
proof (induction d rs buf pos w rule: write_loop.induct)
  case (1 d rs pos w)
  show ?case by (auto intro!: exI [of _ "[]"])
next
  case (4 d rs b bs pos w)
  have e: "write_loop d (WError # rs) (b # bs) pos w
      = Inr (pos, w\<lparr>outs := outs w @ (if ndebug (env w) then [] else [Printf DBG_DEBUG ''write() failed: %s'' []])\<rparr>)"
    by (simp add: returns_def PL_Printf_def cond_def skip_def emit_def upd_def)
  show ?case unfolding e
    by (auto intro!: exI [of _ 0] exI [of _ "if ndebug (env w) then [] else [Printf DBG_DEBUG ''write() failed: %s'' []]"])
next
  case (5 d n rs b bs pos w)
  show ?case
  proof (cases "0 < n \<and> n \<le> length (b # bs)")
    case False
    then show ?thesis by (auto intro!: exI [of _ 0] exI [of _ "[]"])
  next
    case True
    define w1 where "w1 = w\<lparr>outs := outs w @ [Written d (take n (b # bs))]\<rparr>"
    have step: "write_loop d (WTaken n # rs) (b # bs) pos w = write_loop d rs (drop n (b # bs)) (pos + n) w1"
      using True by (simp add: emit_def upd_def w1_def)
    note IH = 5 [OF True, of w1]
    show ?thesis
    proof (cases "write_loop d rs (drop n (b # bs)) (pos + n) w1")
      case (Inl f)
      with IH True show ?thesis unfolding step by (simp add: emit_def upd_def w1_def)
    next
      case (Inr r)
      obtain pos' w' where r: "r = (pos', w')" by (cases r)
      with Inr IH obtain k es where k: "k \<le> length (drop n (b # bs))" "pos' = pos + n + k"
          "w' = w1\<lparr>outs := outs w1 @ es\<rparr>" "sent es = take k (drop n (b # bs))"
          "\<forall>e\<in>set es. terminal e \<or> (\<exists>b. e = Written d b)"
        by (auto simp: emit_def upd_def w1_def)
      have "take (n + k) (b # bs) = take n (b # bs) @ take k (drop n (b # bs))" by (rule take_add)
      with k True show ?thesis
        unfolding step Inr r
        by (auto simp: w1_def intro!: exI [of _ "n + k"] exI [of _ "Written d (take n (b # bs)) # es"])
    qed
  qed
next
  case (3 d rs b bs pos w)
  then show ?case by (simp split: sum.splits prod.splits)
qed simp

text \<open>
  A flush of the open port moves bytes from the ring to the line and loses none. Only the
  debug dump can stop it, when 511 or more bytes are pending and the debug level is not 0.
\<close>

definition dump_fault :: "world \<Rightarrow> fault \<Rightarrow> bool" where
  "dump_fault w f \<longleftrightarrow> uiDebugLevel (ui (gcf w)) \<noteq> 0 \<and> (if ndebug (env w) then f = OutOfBounds else f = AssertFailed)"

definition flush_fault :: "world \<Rightarrow> fault \<Rightarrow> bool" where
  "flush_fault w f \<longleftrightarrow> dump_fault w f \<and> 511 \<le> ring_len (platform w) \<or> f = Diverges \<and> \<not> writes_ok (env w)"

lemma flush_talks:
  assumes open_: "port_open w" and ui: "ui_ok (ui (gcf w))"
  shows "case PROT_Flush he w of Inl f \<Rightarrow> flush_fault w f | Inr (r, w') \<Rightarrow> talk [] w w'"
proof -
  define buf where "buf = take 512 (pending (platform w))"
  have fd: "fd (platform w) \<noteq> 0" and ring: "ring_ok (platform w)" using open_ by (auto simp: port_open_def)
  have copy: "ring_copy (platform w) 512 0 = buf" using ring_copy_eq [OF ring, of 0 512] by (simp add: buf_def)
  have len: "length buf \<le> 512" and ring_len: "length buf \<le> ring_len (platform w)" by (simp_all add: buf_def)
  show ?thesis
  proof (cases "gcfDebugHex ''send'' buf w")
    case (Inl f)
    then have "dump_fault w f \<and> 511 \<le> length buf"
      using gcfDebugHex_cases [OF ui len, of "''send''"] by (auto simp: dump_fault_def)
    with Inl fd copy ring_len show ?thesis
      by (simp add: PROT_Flush_def Let_def flush_fault_def)
  next
    case (Inr w1)
    then have q: "quiet_to w w1" using gcfDebugHex_cases [OF ui len, of "''send''"] by auto
    define w2 where "w2 = w1\<lparr>tick := tick w1 + 1\<rparr>"
    define rs where "rs = os_write (env w1) (tick w1)"
    have p2: "platform w2 = platform w" and e2: "env w1 = env w" using quiet_to_frame [OF q] by (simp_all add: w2_def)
    have q2: "quiet_to w w2"
      using quiet_to_trans [OF q quiet_to_step [of w1 "[]" "tick w1 + 1"]] quiet_to_ui [OF q] by (simp add: w2_def)
    have os: "os os_write w1 = Inr (rs, w2)" by (simp add: os_def rs_def w2_def)
    note spec = write_loop_spec [where d = "fd (platform w2)" and rs = rs and buf = buf and pos = 0 and w = w2]
    show ?thesis
    proof (cases "write_loop (fd (platform w2)) rs buf 0 w2")
      case (Inl f)
      with spec have "f = Diverges \<and> \<not> writes_ok (env w)" using len e2 by (auto simp: writes_ok_def rs_def)
      with Inl \<open>gcfDebugHex ''send'' buf w = Inr w1\<close> fd copy show ?thesis
        by (simp add: PROT_Flush_def Let_def os flush_fault_def)
    next
      case (Inr r)
      with spec obtain k es where k: "k \<le> length buf" "r = (k, w2\<lparr>outs := outs w2 @ es\<rparr>)" "sent es = take k buf"
          "\<forall>e\<in>set es. terminal e \<or> (\<exists>b. e = Written (fd (platform w)) b)"
        using p2 by (cases r) auto
      define p where "p = (platform w)\<lparr>tx_rp := u32_add (tx_rp (platform w)) k\<rparr>"
      define w3 where "w3 = w2\<lparr>outs := outs w2 @ es, platform := p\<rparr>"
      have "PROT_Flush he w = Inr (int k, w3)"
        using Inr k(2) \<open>gcfDebugHex ''send'' buf w = Inr w1\<close> fd copy p2
        by (simp add: PROT_Flush_def Let_def os returns_def set_pl_def upd_def w3_def p_def)
      moreover have "talk [] w2 w3"
      proof -
        have "take k buf = take k (pending (platform w))" using k(1) len by (simp add: buf_def min_absorb1)
        then have "sent es @ drop k (pending (platform w)) = pending (platform w)" using k(3) by simp
        with ring_take [OF ring, of k] k(1,4) ring_len q2 show ?thesis
          unfolding talk_def w3_def
          by (intro exI [of _ "ui (gcf w2)"] exI [of _ "tick w2"] exI [of _ es] exI [of _ p])
            (auto simp: p2 ui_same_def p_def dest: quiet_to_ui)
      qed
      ultimately show ?thesis using talk_trans [OF talk_quiet [OF q2 ring], of "[]" w3] by simp
    qed
  qed
qed

text \<open>Sending one frame, and writing raw bytes.\<close>

lemma send_talks:
  assumes open_: "port_open w" and ui: "ui_ok (ui (gcf w))" and room: "ring_len (platform w) + length (frame d) \<le> 2047"
  shows "case PROT_Send he d w of
      Inl f \<Rightarrow> dump_fault w f \<and> 511 \<le> ring_len (platform w) + length (frame d) \<or> f = Diverges \<and> \<not> writes_ok (env w)
    | Inr w' \<Rightarrow> talk (frame d) w w'"
proof -
  obtain w1 where w1: "PROT_Send he d w = call (PROT_Flush he) w1" "port_open w1" "same_but_ring w w1"
      "pending (platform w1) = pending (platform w) @ frame d"
    using ring.send_frame [of w w d "call (PROT_Flush he)"] open_ room same_but_ring_refl
    by (auto simp: PROT_Send_def)
  have ui1: "ui_ok (ui (gcf w1))" and same: "env w1 = env w" "gcf w1 = gcf w"
    using w1(3) ui by (auto simp: same_but_ring_def)
  have len: "ring_len (platform w1) = ring_len (platform w) + length (frame d)"
    using arg_cong [OF w1(4), of length] by simp
  have talk1: "talk (frame d) w w1" using w1 ui by (intro talk_ring) (auto simp: port_open_def)
  show ?thesis
    using flush_talks [OF w1(2) ui1, of he] len same talk_trans [OF talk1, of "[]"]
    by (auto simp: w1(1) call_def callv_def skip_def flush_fault_def dump_fault_def split: sum.splits)
qed

lemma write_talks:
  assumes open_: "port_open w" and ui: "ui_ok (ui (gcf w))" and room: "ring_len (platform w) + length d \<le> 2047"
  shows "case PROT_Write he d w of
      Inl f \<Rightarrow> dump_fault w f \<and> 511 \<le> ring_len (platform w) + length d \<or> f = Diverges \<and> \<not> writes_ok (env w)
    | Inr (r, w') \<Rightarrow> talk d w w' \<and> r = int (length d)"
proof -
  obtain w1 where w1: "putc_all d 0 w = Inr (int (length d), w1)" "port_open w1" "same_but_ring w w1"
      "pending (platform w1) = pending (platform w) @ d"
    using putc_all_open [OF open_ room, of 0] by auto
  have ui1: "ui_ok (ui (gcf w1))" and same: "env w1 = env w" "gcf w1 = gcf w"
    using w1(3) ui by (auto simp: same_but_ring_def)
  have len: "ring_len (platform w1) = ring_len (platform w) + length d"
    using arg_cong [OF w1(4), of length] by simp
  have talk1: "talk d w w1" using w1 ui by (intro talk_ring) (auto simp: port_open_def)
  show ?thesis
    using flush_talks [OF w1(2) ui1, of he] len same talk_trans [OF talk1, of "[]"]
    by (auto simp: PROT_Write_def w1(1) call_def callv_def skip_def returns_def flush_fault_def dump_fault_def split: sum.splits)
qed

end
