(* ===== verification/Gcf_File.thy ===== *)
theory Gcf_File
  imports Platform
begin

text \<open>
  The firmware file: \<open>CRC8_Dallas\<close> and \<open>GCF_ParseFile\<close> of \<open>gcf.c\<close>. The parser is an
  operation on the \<open>GCF_File\<close> struct that returns its status and the debug messages it prints.

  The lemmas show that an accepted file is covered by its header (\<open>file_ok\<close>), which is what
  keeps the upload handlers inside \<open>fcontent\<close>, and that the parser reads back every header
  that \<open>gcf_image\<close> and \<open>gcf_image2\<close> write.
\<close>

section \<open>The code\<close>

primrec crc8_bits :: "nat \<Rightarrow> byte \<Rightarrow> byte" where
  "crc8_bits 0 crc = crc"
| "crc8_bits (Suc n) crc = crc8_bits n (if crc AND 0x80 \<noteq> 0 then push_bit 1 crc XOR 0x31 else push_bit 1 crc)"

fun CRC8_Dallas :: "byte \<Rightarrow> byte list \<Rightarrow> byte" where
  "CRC8_Dallas crc [] = crc"
| "CRC8_Dallas crc (d # ds) = CRC8_Dallas (crc8_bits 8 (crc XOR d)) ds"

text \<open>The bytes of \<open>fcontent\<close> up to \<open>n\<close>; beyond the array there is nothing.\<close>

definition file_bytes :: "GCF_File \<Rightarrow> nat \<Rightarrow> byte list" where
  "file_bytes f n = map (fcontent f) [0..<min n MAX_GCF_FILE_SIZE]"

text \<open>The firmware version is the first hexadecimal number \<open>0x...\<close> in the file name.\<close>

fun version_digits :: "byte list \<Rightarrow> nat \<Rightarrow> fault + nat" where
  "version_digits [] v = Inl OutOfBounds"
| "version_digits (c # cs) v = (if c = 0 then Inr v
     else case hex_value c of None \<Rightarrow> Inr v | Some h \<Rightarrow> version_digits cs ((v * 16 + h) mod 2 ^ 32))"

fun version_scan :: "byte list \<Rightarrow> fault + nat" where
  "version_scan [] = Inl OutOfBounds"
| "version_scan (c # cs) = (if c = 0 then Inr 0
     else if c = 0x30 then (case cs of [] \<Rightarrow> Inl OutOfBounds
       | d # ds \<Rightarrow> if d = 0x78 then version_digits ds 0 else version_scan cs)
     else version_scan cs)"

text \<open>A sequence of reads from a stream.\<close>

fun bs_reads :: "(U_BStream, nat) op list \<Rightarrow> (U_BStream, nat list) op" where
  "bs_reads [] bs = Inr ([], bs)"
| "bs_reads (r # rs) bs = (case r bs of Inl f \<Rightarrow> Inl f | Inr (v, bs1) \<Rightarrow>
     (case bs_reads rs bs1 of Inl f \<Rightarrow> Inl f | Inr (vs, bs2) \<Rightarrow> Inr (v # vs, bs2)))"

abbreviation (input) GCF_HEADER_SIZE :: nat where "GCF_HEADER_SIZE \<equiv> 14"
abbreviation (input) GCF_MAGIC :: nat where "GCF_MAGIC \<equiv> 0xCAFEFEED"
abbreviation (input) FLASH_TYPE_APP_ENCRYPTED :: byte where "FLASH_TYPE_APP_ENCRYPTED \<equiv> 60"
abbreviation (input) FLASH_TYPE_APP_ENCRYPTED_2 :: byte where "FLASH_TYPE_APP_ENCRYPTED_2 \<equiv> 90"

definition parse_msg0 :: "nat \<Rightarrow> GCF_File \<Rightarrow> out_event" where
  "parse_msg0 magic f = Printf DBG_DEBUG ''GCF header0: magic: 0x%08X, type: %u, address: 0x%08X, data.size: %lu''
     [ANum (int magic), ANum (uint (gcfFileType f)), ANum (int (gcfTargetAddress f)), ANum (int (gcfFileSize f))]"

text \<open>The part of the header after the fixed fields, by file type.\<close>

definition parse_extension :: "bool \<Rightarrow> U_BStream \<Rightarrow> GCF_File \<Rightarrow> fault + (out_event list \<times> GCF_File)" where
  "parse_extension nd bs f =
     (if gcfFileType f = FLASH_TYPE_APP_ENCRYPTED
      then case bs_reads [U_bstream_get_u32_le, U_bstream_get_u32_le] bs of Inl e \<Rightarrow> Inl e
        | Inr (vs, bs1) \<Rightarrow>
          if \<not> nd \<and> vs ! 1 \<noteq> gcfFileSize f then Inl AssertFailed
          else (case bs_reads [U_bstream_get_u32_le, U_bstream_get_u32_le, U_bstream_get_u32_le,
                  U_bstream_get_u32_le, U_bstream_get_u32_le] bs1 of Inl e \<Rightarrow> Inl e
            | Inr (us, bs2) \<Rightarrow>
              Inr ([Printf DBG_DEBUG ''GCF header1: product: 0x%08X, img.type: %u, img.address: 0x%08X, img.data.size: %lu, crc32: 0x%08X''
                     (map (\<lambda>v. ANum (int v)) [vs ! 0, us ! 1, us ! 2, us ! 3, us ! 4])],
                   f\<lparr>gcfCrc32 := us ! 4\<rparr>))
      else if gcfFileType f = FLASH_TYPE_APP_ENCRYPTED_2
      then case U_bstream_get_u32_le bs of Inl e \<Rightarrow> Inl e
        | Inr (v, bs1) \<Rightarrow> Inr ([], f\<lparr>gcfCrc32 := v, dataOffset := GCF_HEADER_SIZE + 4\<rparr>)
      else Inr ([], f))"

definition reset_header :: "GCF_File \<Rightarrow> GCF_File" where
  "reset_header f = f\<lparr>gcfFileType := 0, gcfTargetAddress := 0, gcfFileSize := 0, gcfCrc := 0, gcfCrc32 := 0\<rparr>"

definition set_header :: "nat list \<Rightarrow> GCF_File \<Rightarrow> GCF_File" where
  "set_header vs f = f\<lparr>dataOffset := GCF_HEADER_SIZE, gcfFileType := of_nat (vs ! 0), gcfTargetAddress := vs ! 1,
     gcfFileSize := vs ! 2, gcfCrc := of_nat (vs ! 3)\<rparr>"

definition parse_header :: "bool \<Rightarrow> GCF_File \<Rightarrow> fault + (out_event list \<times> GCF_File)" where
  "parse_header nd f =
     (case U_bstream_get_u32_le (U_bstream_init (Some (file_bytes f (fsize f))) (fsize f)) of Inl e \<Rightarrow> Inl e
      | Inr (magic, bs) \<Rightarrow>
        (if magic = GCF_MAGIC
         then case bs_reads [U_bstream_get_u8, U_bstream_get_u32_le, U_bstream_get_u32_le, U_bstream_get_u8] bs of
             Inl e \<Rightarrow> Inl e
           | Inr (vs, bs1) \<Rightarrow>
             (case parse_extension nd bs1 (set_header vs (reset_header f)) of Inl e \<Rightarrow> Inl e
              | Inr (msgs, f2) \<Rightarrow> Inr (parse_msg0 magic (set_header vs (reset_header f)) # msgs, f2))
         else if fsize f > MAX_GCF_FILE_SIZE then Inl OutOfBounds
         else Inr ([], (reset_header f)\<lparr>dataOffset := 0, gcfFileType := 0, gcfTargetAddress := 0,
                gcfFileSize := fsize f, gcfCrc := CRC8_Dallas 0 (file_bytes f (fsize f))\<rparr>)))"

definition GCF_ParseFile :: "bool \<Rightarrow> nat \<Rightarrow> GCF_File \<Rightarrow> fault + ((int \<times> out_event list) \<times> GCF_File)" where
  "GCF_ParseFile nd L f =
     (if fsize f < 14 then Inr ((- 1, []), f)
      else case peek (fname f) 0 of Inl e \<Rightarrow> Inl e
      | Inr c \<Rightarrow> if \<not> nd \<and> c = 0 then Inl AssertFailed
        else case version_scan (fname f) of Inl e \<Rightarrow> Inl e
        | Inr v \<Rightarrow> (case parse_header nd (f\<lparr>fwVersion := v\<rparr>) of Inl e \<Rightarrow> Inl e
          | Inr (msgs, f') \<Rightarrow>
              Inr ((if gcfFileSize f' \<noteq> usub L (fsize f') (dataOffset f') then - 3 else 0, msgs), f')))"

section \<open>Reading fields\<close>

text \<open>The stream can still deliver the bytes \<open>xs\<close>.\<close>

definition bs_has :: "U_BStream \<Rightarrow> byte list \<Rightarrow> bool" where
  "bs_has bs xs \<longleftrightarrow> bs_ok bs \<and> bs_status bs = U_BSTREAM_OK \<and> bs_left bs = xs"

lemma bs_has_init: "n \<le> length d \<Longrightarrow> bs_has (U_bstream_init (Some d) n) (take n d)"
  by (simp add: bs_has_def bs_ok_init) (simp add: bs_left_def bs_buf_def)

declare bs_reads.simps [simp del]

lemmas u32_left = r32.get_left [unfolded bs_dec_le32]
lemmas u32_fits = r32.get_fits [unfolded bs_dec_le32]

lemma read_u32:
  assumes "bs_has bs (le32 v @ xs)"
  shows "\<exists>bs'. U_bstream_get_u32_le bs = Inr (v mod 2 ^ 32, bs') \<and> bs_has bs' xs"
  using u32_left [of bs] assms un_le32_le32 [of v] by (auto simp: bs_has_def)

lemma read_u8:
  assumes "bs_has bs (b # xs)"
  shows "\<exists>bs'. U_bstream_get_u8 bs = Inr (unat b, bs') \<and> bs_has bs' xs"
  using r8.get_left [of bs] assms by (auto simp: bs_has_def bs_dec_u8)

lemma byte_bound: "unat (b :: byte) < 256"
  using unsigned_less [of b] by simp

lemma read_bounds:
  assumes "bs_ok bs"
  shows "\<exists>v bs'. U_bstream_get_u32_le bs = Inr (v, bs') \<and> v < 2 ^ 32 \<and> bs_ok bs'"
    and "\<exists>v bs'. U_bstream_get_u8 bs = Inr (v, bs') \<and> v < 2 ^ 8 \<and> bs_ok bs'"
proof -
  show "\<exists>v bs'. U_bstream_get_u32_le bs = Inr (v, bs') \<and> v < 2 ^ 32 \<and> bs_ok bs'"
  proof (cases "bs_status bs = U_BSTREAM_OK")
    case True
    then show ?thesis
      using assms u32_fits [OF assms True] r32.get_past [OF assms True] r32.get_total [OF assms] un_le32_bound
      by (cases "bs_pos bs + 4 \<le> bs_size bs") auto
  next
    case False
    then show ?thesis using assms by (simp add: r32.get_sticks)
  qed
  show "\<exists>v bs'. U_bstream_get_u8 bs = Inr (v, bs') \<and> v < 2 ^ 8 \<and> bs_ok bs'"
  proof (cases "bs_status bs = U_BSTREAM_OK")
    case True
    then show ?thesis
      using assms r8.get_fits [OF assms True] r8.get_past [OF assms True] r8.get_total [OF assms]
        byte_bound
      by (cases "bs_pos bs + 1 \<le> bs_size bs") (auto simp: bs_dec_u8)
  next
    case False
    then show ?thesis using assms by (simp add: r8.get_sticks)
  qed
qed

text \<open>A sequence of reads from a well-formed stream always returns as many numbers.\<close>

lemma bs_reads_total:
  assumes "set rs \<subseteq> {U_bstream_get_u32_le, U_bstream_get_u8}" and "bs_ok bs"
  shows "\<exists>vs bs'. bs_reads rs bs = Inr (vs, bs') \<and> length vs = length rs \<and> (\<forall>v\<in>set vs. v < 2 ^ 32) \<and> bs_ok bs'"
  using assms
proof (induction rs arbitrary: bs)
  case Nil
  then show ?case by (simp add: bs_reads.simps)
next
  case (Cons r rs)
  obtain v bs1 where v: "r bs = Inr (v, bs1)" "v < 2 ^ 32" "bs_ok bs1"
    using Cons.prems(1) read_bounds [OF Cons.prems(2)] by (auto intro: order.strict_trans)
  have "set rs \<subseteq> {U_bstream_get_u32_le, U_bstream_get_u8}" using Cons.prems(1) by simp
  from Cons.IH [OF this v(3)] obtain vs bs2 where "bs_reads rs bs1 = Inr (vs, bs2)" "length vs = length rs" "\<forall>v\<in>set vs. v < 2 ^ 32" "bs_ok bs2"
    by auto
  with v show ?case by (simp add: bs_reads.simps)
qed

section \<open>Accepted files\<close>

text \<open>The header of the file accounts for all its bytes, and the bytes are in the array.\<close>

definition file_ok :: "GCF_File \<Rightarrow> bool" where
  "file_ok f \<longleftrightarrow> dataOffset f + gcfFileSize f = fsize f \<and> fsize f \<le> MAX_GCF_FILE_SIZE"

definition fname_ok :: "GCF_File \<Rightarrow> bool" where
  "fname_ok f \<longleftrightarrow> length (fname f) = MAX_DEV_PATH_LENGTH \<and> 0 \<in> set (fname f)"

lemma version_digits_total: "0 \<in> set cs \<Longrightarrow> v < 2 ^ 32 \<Longrightarrow> \<exists>r. version_digits cs v = Inr r \<and> r < 2 ^ 32"
proof (induction cs arbitrary: v)
  case (Cons c cs)
  then show ?case by (cases "c = 0"; cases "hex_value c") simp_all
qed simp

lemma version_scan_total: "0 \<in> set cs \<Longrightarrow> \<exists>r. version_scan cs = Inr r \<and> r < 2 ^ 32"
proof (induction cs)
  case (Cons c cs)
  show ?case
  proof (cases "c = 0")
    case True
    then show ?thesis by simp
  next
    case False
    with Cons.prems have nul: "0 \<in> set cs" by simp
    then obtain d ds where cs: "cs = d # ds" by (cases cs) auto
    have "\<exists>r. version_digits ds 0 = Inr r \<and> r < 2 ^ 32" if "d = 0x78"
      using version_digits_total [of ds 0] nul that by (simp add: cs)
    with False Cons.IH [OF nul] show ?thesis by (simp add: cs)
  qed
qed simp

lemma length_file_bytes: "n \<le> MAX_GCF_FILE_SIZE \<Longrightarrow> length (file_bytes f n) = n"
  by (simp add: file_bytes_def)

text \<open>What the parser leaves unchanged.\<close>

definition same_file :: "GCF_File \<Rightarrow> GCF_File \<Rightarrow> bool" where
  "same_file f f' \<longleftrightarrow> fname f' = fname f \<and> fsize f' = fsize f \<and> fcontent f' = fcontent f"

lemma parse_extension_spec:
  assumes "bs_ok bs" and "gcfFileSize f < 2 ^ 32" and "dataOffset f = 14"
  shows "case parse_extension nd bs f of Inl e \<Rightarrow> e = AssertFailed \<and> \<not> nd
    | Inr (msgs, f') \<Rightarrow> same_file f f' \<and> gcfFileSize f' = gcfFileSize f \<and> dataOffset f' \<in> {14, 18}"
proof -
  obtain vs bs1 where vs: "bs_reads [U_bstream_get_u32_le, U_bstream_get_u32_le] bs = Inr (vs, bs1)" "bs_ok bs1"
    using bs_reads_total [OF _ assms(1), of "[U_bstream_get_u32_le, U_bstream_get_u32_le]"] by auto
  obtain us bs2 where us: "bs_reads [U_bstream_get_u32_le, U_bstream_get_u32_le, U_bstream_get_u32_le,
      U_bstream_get_u32_le, U_bstream_get_u32_le] bs1 = Inr (us, bs2)"
    using bs_reads_total [OF _ vs(2), of "[U_bstream_get_u32_le, U_bstream_get_u32_le, U_bstream_get_u32_le,
      U_bstream_get_u32_le, U_bstream_get_u32_le]"] by auto
  obtain v bs3 where v: "U_bstream_get_u32_le bs = Inr (v, bs3)" using read_bounds(1) [OF assms(1)] by auto
  show ?thesis
    using assms(3) by (auto simp: parse_extension_def vs us v same_file_def)
qed

lemma parse_header_spec:
  assumes "14 \<le> fsize f" and "fsize f \<le> MAX_GCF_FILE_SIZE"
  shows "case parse_header nd f of Inl e \<Rightarrow> e = AssertFailed \<and> \<not> nd
    | Inr (msgs, f') \<Rightarrow> same_file f f' \<and> gcfFileSize f' < 2 ^ 32 \<and> dataOffset f' \<in> {0, 14, 18}
        \<and> (dataOffset f' = 0 \<longrightarrow> gcfFileSize f' = fsize f)"
proof -
  define bs0 where "bs0 = U_bstream_init (Some (file_bytes f (fsize f))) (fsize f)"
  have "bs_ok bs0" using assms(2) by (simp add: bs0_def bs_ok_init length_file_bytes)
  then obtain magic bs where m: "U_bstream_get_u32_le bs0 = Inr (magic, bs)" "bs_ok bs"
    using read_bounds(1) by blast
  obtain vs bs1 where vs: "bs_reads [U_bstream_get_u8, U_bstream_get_u32_le, U_bstream_get_u32_le, U_bstream_get_u8] bs
      = Inr (vs, bs1)" "length vs = 4" "\<forall>v\<in>set vs. v < 2 ^ 32" "bs_ok bs1"
    using bs_reads_total [OF _ m(2), of "[U_bstream_get_u8, U_bstream_get_u32_le, U_bstream_get_u32_le, U_bstream_get_u8]"]
    by auto
  define f1 where "f1 = set_header vs (reset_header f)"
  have "gcfFileSize f1 < 2 ^ 32" using vs(2,3) by (simp add: f1_def set_header_def)
  from parse_extension_spec [OF vs(4) this, of nd]
  have ext: "case parse_extension nd bs1 f1 of Inl e \<Rightarrow> e = AssertFailed \<and> \<not> nd
    | Inr (msgs, f') \<Rightarrow> same_file f1 f' \<and> gcfFileSize f' = gcfFileSize f1 \<and> dataOffset f' \<in> {14, 18}"
    by (simp add: f1_def set_header_def)
  have same: "same_file f1 f' \<Longrightarrow> same_file f f'" for f' by (simp add: same_file_def f1_def set_header_def reset_header_def)
  show ?thesis
  proof (cases "magic = GCF_MAGIC")
    case True
    have "parse_header nd f = (case parse_extension nd bs1 f1 of Inl e \<Rightarrow> Inl e
        | Inr (msgs, f2) \<Rightarrow> Inr (parse_msg0 GCF_MAGIC f1 # msgs, f2))"
      using True m vs(1) unfolding f1_def by (simp add: parse_header_def bs0_def)
    with ext same \<open>gcfFileSize f1 < 2 ^ 32\<close> show ?thesis by (auto split: sum.splits)
  next
    case False
    with m assms show ?thesis by (auto simp: parse_header_def bs0_def [symmetric] same_file_def reset_header_def)
  qed
qed

lemma parse_file_spec:
  assumes "fname_ok f" and "fsize f \<le> MAX_GCF_FILE_SIZE"
  shows "case GCF_ParseFile nd L f of Inl e \<Rightarrow> e = AssertFailed \<and> \<not> nd
    | Inr ((r, msgs), f') \<Rightarrow> same_file f f' \<and> (r = 0 \<longrightarrow> gcfFileSize f' < 2 ^ 32 \<and> dataOffset f' \<in> {0, 14, 18}
        \<and> (dataOffset f' = 0 \<longrightarrow> gcfFileSize f' = fsize f) \<and> gcfFileSize f' = usub L (fsize f') (dataOffset f') \<and> 14 \<le> fsize f)"
proof (cases "fsize f < 14")
  case True
  then show ?thesis by (simp add: GCF_ParseFile_def same_file_def)
next
  case False
  obtain v where v: "version_scan (fname f) = Inr v" using version_scan_total assms(1) by (auto simp: fname_ok_def)
  have p: "peek (fname f) 0 = Inr (fname f ! 0)" using assms(1) by (simp add: fname_ok_def)
  have same: "same_file (f\<lparr>fwVersion := v\<rparr>) f' = same_file f f'" for f' by (simp add: same_file_def)
  show ?thesis
    using parse_header_spec [of "f\<lparr>fwVersion := v\<rparr>" nd] False assms(2)
    by (cases "parse_header nd (f\<lparr>fwVersion := v\<rparr>)") (auto simp: GCF_ParseFile_def p v same)
qed

lemma accepted_file_ok:
  assumes "fname_ok f" and "fsize f \<le> MAX_GCF_FILE_SIZE" and "GCF_ParseFile nd 64 f = Inr ((0, msgs), f')"
  shows "file_ok f'"
proof -
  have f': "fsize f' = fsize f" "gcfFileSize f' < 2 ^ 32" "dataOffset f' \<in> {0, 14, 18}"
      "gcfFileSize f' = usub 64 (fsize f') (dataOffset f')" "14 \<le> fsize f"
    using parse_file_spec [OF assms(1,2), of nd 64] assms(3) by (auto simp: same_file_def)
  have "dataOffset f' \<le> fsize f'"
  proof (rule ccontr)
    assume "\<not> dataOffset f' \<le> fsize f'"
    then have "fsize f' < dataOffset f'" "dataOffset f' - fsize f' \<le> 4" using f'(1,3,5) by auto
    then have "usub 64 (fsize f') (dataOffset f') \<ge> 2 ^ 64 - 4"
      using usub_wraps [of "fsize f'" "dataOffset f'" 64] f'(3) by auto
    with f'(2,4) show False by simp
  qed
  moreover have "fsize f' < 2 ^ 64" using f'(1) assms(2) by simp
  ultimately have "usub 64 (fsize f') (dataOffset f') = fsize f' - dataOffset f'" by (intro usub_exact)
  with f' \<open>dataOffset f' \<le> fsize f'\<close> assms(2) show ?thesis by (simp add: file_ok_def)
qed

section \<open>Images\<close>

text \<open>A GCF file as the vendor's tools write it: the header and the payload.\<close>

definition gcf_header :: "byte \<Rightarrow> nat \<Rightarrow> nat \<Rightarrow> byte \<Rightarrow> byte list" where
  "gcf_header ftype addr len crc = le32 GCF_MAGIC @ [ftype] @ le32 addr @ le32 len @ [crc]"

definition gcf_image :: "byte \<Rightarrow> nat \<Rightarrow> byte \<Rightarrow> byte list \<Rightarrow> byte list" where
  "gcf_image ftype addr crc payload = gcf_header ftype addr (length payload) crc @ payload"

text \<open>The second encrypted format has a CRC32 in front of the payload, not counted by the size.\<close>

definition gcf_image2 :: "nat \<Rightarrow> byte \<Rightarrow> nat \<Rightarrow> byte list \<Rightarrow> byte list" where
  "gcf_image2 addr crc crc32 payload =
     gcf_header FLASH_TYPE_APP_ENCRYPTED_2 addr (length payload) crc @ le32 crc32 @ payload"

definition load_file :: "byte list \<Rightarrow> GCF_File \<Rightarrow> GCF_File" where
  "load_file content f = f\<lparr>fcontent := (\<lambda>i. if i < length content then content ! i else fcontent f i), fsize := length content\<rparr>"

lemma length_gcf_header [simp]: "length (gcf_header ftype addr len crc) = 14"
  by (simp add: gcf_header_def)

lemma load_file_bytes: "length c \<le> MAX_GCF_FILE_SIZE \<Longrightarrow> file_bytes (load_file c f) (length c) = c"
  by (auto simp: file_bytes_def load_file_def intro!: nth_equalityI)

lemma read_header:
  assumes "length c \<le> MAX_GCF_FILE_SIZE" and "c = gcf_header ftype addr len crc @ rest"
  shows "\<exists>bs0 bs1. U_bstream_get_u32_le (U_bstream_init (Some c) (length c)) = Inr (GCF_MAGIC, bs0) \<and>
    bs_reads [U_bstream_get_u8, U_bstream_get_u32_le, U_bstream_get_u32_le, U_bstream_get_u8] bs0
      = Inr ([unat ftype, addr mod 2 ^ 32, len mod 2 ^ 32, unat crc], bs1) \<and> bs_has bs1 rest"
proof -
  have "bs_has (U_bstream_init (Some c) (length c)) (le32 GCF_MAGIC @ ftype # le32 addr @ le32 len @ crc # rest)"
    using bs_has_init [of "length c" c] assms(2) by (simp add: gcf_header_def)
  then obtain bs0 where b0: "U_bstream_get_u32_le (U_bstream_init (Some c) (length c)) = Inr (GCF_MAGIC, bs0)"
      "bs_has bs0 (ftype # le32 addr @ le32 len @ crc # rest)" using read_u32 by fastforce
  obtain bs1 where b1: "U_bstream_get_u8 bs0 = Inr (unat ftype, bs1)" "bs_has bs1 (le32 addr @ le32 len @ crc # rest)"
    using read_u8 [OF b0(2)] by auto
  obtain bs2 where b2: "U_bstream_get_u32_le bs1 = Inr (addr mod 2 ^ 32, bs2)" "bs_has bs2 (le32 len @ crc # rest)"
    using read_u32 [OF b1(2)] by auto
  obtain bs3 where b3: "U_bstream_get_u32_le bs2 = Inr (len mod 2 ^ 32, bs3)" "bs_has bs3 (crc # rest)"
    using read_u32 [OF b2(2)] by auto
  obtain bs4 where b4: "U_bstream_get_u8 bs3 = Inr (unat crc, bs4)" "bs_has bs4 rest"
    using read_u8 [OF b3(2)] by auto
  show ?thesis using b0 b1 b2 b3 b4 by (simp add: bs_reads.simps)
qed

lemma load_file_simps [simp]: "fname (load_file c f) = fname f" "fsize (load_file c f) = length c"
  by (simp_all add: load_file_def)

lemma parse_start:
  assumes "fname_ok f" and "fname f ! 0 \<noteq> 0" and "14 \<le> fsize f"
  shows "\<exists>v. version_scan (fname f) = Inr v \<and> GCF_ParseFile nd L f = (case parse_header nd (f\<lparr>fwVersion := v\<rparr>) of Inl e \<Rightarrow> Inl e
    | Inr (msgs, f') \<Rightarrow> Inr ((if gcfFileSize f' \<noteq> usub L (fsize f') (dataOffset f') then - 3 else 0, msgs), f'))"
proof -
  obtain v where v: "version_scan (fname f) = Inr v" using version_scan_total assms(1) by (auto simp: fname_ok_def)
  have "0 < length (fname f)" using assms(1) by (simp add: fname_ok_def)
  with v assms show ?thesis by (auto simp: GCF_ParseFile_def)
qed

section \<open>The properties of the parser\<close>

text \<open>C39: With a 64-bit \<open>unsigned long\<close>, whatever a file of at most 4 MB holds: when the parser
  accepts it, header length and firmware size add up to the size of the file, and the file
  name, size and content are untouched. So every byte the upload reads is one that was
  loaded. Parsing reads nothing outside the buffer, and stops only at a failed assertion.\<close>

theorem parse_accepts_ok:
  assumes "fname_ok f" and "fsize f \<le> MAX_GCF_FILE_SIZE"
  shows "case GCF_ParseFile nd 64 f of Inl e \<Rightarrow> e = AssertFailed \<and> \<not> nd
    | Inr ((r, msgs), f') \<Rightarrow> same_file f f' \<and> (r = 0 \<longrightarrow> file_ok f')"
proof (cases "GCF_ParseFile nd 64 f")
  case (Inr x)
  obtain r msgs f' where "x = ((r, msgs), f')" by (metis surj_pair)
  then show ?thesis
    using Inr parse_file_spec [OF assms, of nd 64] accepted_file_ok [OF assms, of nd msgs f'] by auto
qed (use parse_file_spec [OF assms, of nd 64] in auto)

definition sample_file :: GCF_File where
  "sample_file = \<lparr>fname = overwrite 0 (bytes ''deCONZ_0x26780700.GCF'') (replicate 255 0), fsize = 0, fwVersion = 0,
     gcfFileType = 0, gcfTargetAddress = 0, gcfFileSize = 0, gcfCrc = 0, gcfCrc32 = 0, fcontent = (\<lambda>_. 0), dataOffset = 0\<rparr>"

lemma sample_fname: "fname_ok sample_file" "fname sample_file ! 0 \<noteq> 0"
  by (simp_all add: fname_ok_def sample_file_def overwrite_def bytes_def)

theorem parse_accepts_ok_witness:
  "case GCF_ParseFile False 64 (load_file [1, 2, 3] sample_file) of Inl e \<Rightarrow> e = AssertFailed \<and> \<not> False
    | Inr ((r, msgs), f') \<Rightarrow> same_file (load_file [1, 2, 3] sample_file) f' \<and> (r = 0 \<longrightarrow> file_ok f')"
  by (rule parse_accepts_ok) (simp_all add: fname_ok_def sample_fname [unfolded fname_ok_def])

text \<open>C40: The parser reads back what a GCF file was made of: file type, target address, size of
  the payload and CRC, and the payload starts right behind the 14 bytes of the header. (The
  encrypted types have their own formats.)\<close>

theorem parse_image:
  assumes "fname_ok f" and "fname f ! 0 \<noteq> 0" and "ftype \<noteq> 60" and "ftype \<noteq> 90" and "addr < 2 ^ 32"
    and "14 + length payload \<le> MAX_GCF_FILE_SIZE"
  shows "\<exists>msgs f'. GCF_ParseFile nd 64 (load_file (gcf_image ftype addr crc payload) f) = Inr ((0, msgs), f') \<and>
    gcfFileType f' = ftype \<and> gcfTargetAddress f' = addr \<and> gcfFileSize f' = length payload \<and> gcfCrc f' = crc \<and>
    gcfCrc32 f' = 0 \<and> map (\<lambda>i. fcontent f' (dataOffset f' + i)) [0..<length payload] = payload"
proof -
  define c where "c = gcf_image ftype addr crc payload"
  have len: "length c = 14 + length payload" by (simp add: c_def gcf_image_def)
  obtain v where v: "GCF_ParseFile nd 64 (load_file c f) = (case parse_header nd ((load_file c f)\<lparr>fwVersion := v\<rparr>) of Inl e \<Rightarrow> Inl e
      | Inr (msgs, f') \<Rightarrow> Inr ((if gcfFileSize f' \<noteq> usub 64 (fsize f') (dataOffset f') then - 3 else 0, msgs), f'))"
    using parse_start [of "load_file c f" nd 64] assms(1,2) len by (auto simp: fname_ok_def)
  define g where "g = (load_file c f)\<lparr>fwVersion := v\<rparr>"
  have fb: "file_bytes g (length c) = c" "fsize g = length c"
    using load_file_bytes [of c f] assms(6) len by (simp_all add: g_def file_bytes_def load_file_def)
  obtain bs0 bs1 where rd: "U_bstream_get_u32_le (U_bstream_init (Some c) (length c)) = Inr (GCF_MAGIC, bs0)"
    "bs_reads [U_bstream_get_u8, U_bstream_get_u32_le, U_bstream_get_u32_le, U_bstream_get_u8] bs0
      = Inr ([unat ftype, addr mod 2 ^ 32, length payload mod 2 ^ 32, unat crc], bs1)"
    using read_header [of c ftype addr "length payload" crc payload] assms(6) len by (auto simp: c_def gcf_image_def)
  define f' where "f' = set_header [unat ftype, addr, length payload, unat crc] (reset_header g)"
  have f': "gcfFileType f' = ftype" "gcfTargetAddress f' = addr" "gcfFileSize f' = length payload" "gcfCrc f' = crc"
      "gcfCrc32 f' = 0" "dataOffset f' = 14" "fcontent f' = fcontent g" "fsize f' = length c"
    by (simp_all add: f'_def set_header_def reset_header_def fb)
  have "parse_header nd g = Inr ([parse_msg0 GCF_MAGIC f'], f')"
    using rd assms(3,4,5,6) f'(1) by (simp add: parse_header_def fb f'_def [symmetric] parse_extension_def)
  moreover have "usub 64 (length c) 14 = length payload" using len assms(6) by (simp add: c_arith)
  moreover have "map (\<lambda>i. fcontent f' (dataOffset f' + i)) [0..<length payload] = payload"
    unfolding f'(6,7) using len by (auto simp: g_def load_file_def c_def gcf_image_def nth_append intro!: nth_equalityI)
  ultimately show ?thesis using v f' by (auto simp: g_def [symmetric] c_def [symmetric])
qed

theorem parse_image_witness:
  "\<exists>msgs f'. GCF_ParseFile True 64 (load_file (gcf_image 1 0x5000 7 [10, 20, 30]) sample_file) = Inr ((0, msgs), f') \<and>
    gcfFileType f' = 1 \<and> gcfTargetAddress f' = 0x5000 \<and> gcfFileSize f' = length [10, 20, 30 :: byte] \<and> gcfCrc f' = 7 \<and>
    gcfCrc32 f' = 0 \<and> map (\<lambda>i. fcontent f' (dataOffset f' + i)) [0..<length [10, 20, 30 :: byte]] = [10, 20, 30]"
  by (rule parse_image) (simp_all add: sample_fname)

text \<open>A file that does not start with the GCF magic number is taken as a raw binary: the
  whole file is the firmware, for target address 0, with its Dallas CRC.\<close>

lemma parse_raw:
  assumes "fname_ok f" and "fname f ! 0 \<noteq> 0" and "14 \<le> length c" and "length c \<le> MAX_GCF_FILE_SIZE"
    and "un_le32 (take 4 c) \<noteq> GCF_MAGIC" and "L \<in> {32, 64}"
  shows "\<exists>f'. GCF_ParseFile nd L (load_file c f) = Inr ((0, []), f') \<and> gcfFileType f' = 0 \<and>
    gcfTargetAddress f' = 0 \<and> dataOffset f' = 0 \<and> gcfFileSize f' = length c \<and> gcfCrc f' = CRC8_Dallas 0 c"
proof -
  obtain v where v: "GCF_ParseFile nd L (load_file c f) = (case parse_header nd ((load_file c f)\<lparr>fwVersion := v\<rparr>) of Inl e \<Rightarrow> Inl e
      | Inr (msgs, f') \<Rightarrow> Inr ((if gcfFileSize f' \<noteq> usub L (fsize f') (dataOffset f') then - 3 else 0, msgs), f'))"
    using parse_start [of "load_file c f" nd L] assms(1,2,3) by (auto simp: fname_ok_def)
  define g where "g = (load_file c f)\<lparr>fwVersion := v\<rparr>"
  have fb: "file_bytes g (length c) = c" "fsize g = length c"
    using load_file_bytes [OF assms(4), of f] by (simp_all add: g_def file_bytes_def load_file_def)
  have "bs_has (U_bstream_init (Some c) (length c)) c" using bs_has_init [of "length c" c] by simp
  then obtain bs' where "U_bstream_get_u32_le (U_bstream_init (Some c) (length c)) = Inr (un_le32 (take 4 c), bs')"
    using u32_left [of "U_bstream_init (Some c) (length c)"] assms(3) by (auto simp: bs_has_def)
  then have "parse_header nd g = Inr ([], (reset_header g)\<lparr>dataOffset := 0, gcfFileType := 0, gcfTargetAddress := 0,
      gcfFileSize := length c, gcfCrc := CRC8_Dallas 0 c\<rparr>)"
    using assms(4,5) by (simp add: parse_header_def fb)
  moreover have "usub L (length c) 0 = length c" using assms(4,6) by (auto simp: c_arith)
  ultimately show ?thesis using v by (auto simp: g_def [symmetric] reset_header_def fb)
qed

theorem parse_raw_witness:
  "\<exists>f'. GCF_ParseFile True 32 (load_file (replicate 14 1) sample_file) = Inr ((0, []), f') \<and> gcfFileType f' = 0 \<and>
    gcfTargetAddress f' = 0 \<and> dataOffset f' = 0 \<and> gcfFileSize f' = length (replicate 14 (1 :: byte)) \<and>
    gcfCrc f' = CRC8_Dallas 0 (replicate 14 1)"
proof (rule parse_raw)
  have "take 4 (replicate 14 (1 :: byte)) = [1, 1, 1, 1]" by (simp add: numeral_eq_Suc)
  then show "un_le32 (take 4 (replicate 14 1)) \<noteq> GCF_MAGIC" by (simp add: un_le32_def push_bit_eq_mult)
qed (simp_all add: sample_fname)

text \<open>On a build with a 32-bit \<open>unsigned long\<close> the size check can be passed by a file that is
  shorter than its header: 14 bytes of type 90 whose size field is \<open>0xFFFFFFFC\<close> are accepted,
  with 4294967292 bytes of firmware said to start behind the end of the file.\<close>

lemma parse_accepts_short_file_32:
  "\<exists>msgs f'. GCF_ParseFile True 32 (load_file (gcf_header 90 0 0xFFFFFFFC 0) sample_file) = Inr ((0, msgs), f')
    \<and> dataOffset f' = 18 \<and> fsize f' = 14 \<and> gcfFileSize f' = 0xFFFFFFFC \<and> \<not> file_ok f'"
proof -
  define c where "c = gcf_header 90 0 0xFFFFFFFC 0"
  have len: "length c = 14" by (simp add: c_def)
  obtain v where v: "GCF_ParseFile True 32 (load_file c sample_file) = (case parse_header True ((load_file c sample_file)\<lparr>fwVersion := v\<rparr>) of Inl e \<Rightarrow> Inl e
      | Inr (msgs, f') \<Rightarrow> Inr ((if gcfFileSize f' \<noteq> usub 32 (fsize f') (dataOffset f') then - 3 else 0, msgs), f'))"
    using parse_start [of "load_file c sample_file" True 32] sample_fname len by (auto simp: fname_ok_def)
  define g where "g = (load_file c sample_file)\<lparr>fwVersion := v\<rparr>"
  have fb: "file_bytes g (length c) = c" "fsize g = length c"
    using load_file_bytes [of c sample_file] len by (simp_all add: g_def file_bytes_def load_file_def)
  obtain bs0 bs1 where rd: "U_bstream_get_u32_le (U_bstream_init (Some c) (length c)) = Inr (GCF_MAGIC, bs0)"
    "bs_reads [U_bstream_get_u8, U_bstream_get_u32_le, U_bstream_get_u32_le, U_bstream_get_u8] bs0
      = Inr ([90, 0, 0xFFFFFFFC, 0], bs1)" "bs_has bs1 []"
    using read_header [of c 90 0 "0xFFFFFFFC" 0 "[]"] len by (auto simp: c_def)
  obtain w bs2 where w: "U_bstream_get_u32_le bs1 = Inr (w, bs2)"
    using read_bounds(1) [of bs1] rd(3) by (auto simp: bs_has_def)
  define f' where "f' = (set_header [90, 0, 0xFFFFFFFC, 0] (reset_header g))\<lparr>gcfCrc32 := w, dataOffset := 18\<rparr>"
  have f': "gcfFileSize f' = 0xFFFFFFFC" "dataOffset f' = 18" "fsize f' = 14"
    by (simp_all add: f'_def set_header_def reset_header_def fb len)
  have "\<exists>msgs. parse_header True g = Inr (msgs, f')"
    using rd w by (simp add: parse_header_def fb parse_extension_def f'_def) (simp add: set_header_def)
  moreover have "usub 32 14 18 = 0xFFFFFFFC" by (simp add: usub_def)
  ultimately have "\<exists>msgs. GCF_ParseFile True 32 (load_file c sample_file) = Inr ((0, msgs), f')"
    using v f' by (auto simp: g_def [symmetric])
  with f' show ?thesis unfolding c_def [symmetric] by (auto simp: file_ok_def)
qed

end
