(* ===== verification/Gcf_Command.thy ===== *)
theory Gcf_Command
  imports Gcf_File
begin

text \<open>
  The serial commands of \<open>gcf.c\<close> (\<open>gcfCommand...\<close>): each builds a packet and sends it as one
  frame. \<open>he\<close> is \<open>GCF_HandleEvent\<close>, which sending may call when the port is closed.
\<close>

definition gcfCommandResetUart :: "(event \<Rightarrow> action) \<Rightarrow> action" where
  "gcfCommandResetUart he = block [
     PL_Printf DBG_INFO ''send uart reset'' [],
     PROT_Send he [0x0B, 0x03, 0x00, 0x0C, 0x00, 0x05, 0x00, 0x26, 0x02, 0x00, 0x00, 0x00]]"

text \<open>Building a command in a local array of \<open>n\<close> bytes; the result is what was put in.\<close>

definition built :: "nat \<Rightarrow> U_BStream stmt list \<Rightarrow> fault + byte list" where
  "built n puts = (case block puts (U_bstream_init (Some (replicate n 0)) n) of Inl f \<Rightarrow> Inl f
     | Inr bs \<Rightarrow> Inr (bs_written bs))"

definition send_built :: "(event \<Rightarrow> action) \<Rightarrow> fault + byte list \<Rightarrow> action" where
  "send_built he r = (case r of Inl f \<Rightarrow> fails f | Inr d \<Rightarrow> PROT_Send he d)"

definition gcfCommandQueryParameter :: "(event \<Rightarrow> action) \<Rightarrow> byte \<Rightarrow> byte \<Rightarrow> byte list \<Rightarrow> action" where
  "gcfCommandQueryParameter he seq paramId data = send_built he (built 127 ([
     U_bstream_put_u8 0x0A,
     U_bstream_put_u8 seq,
     U_bstream_put_u8 0x00,
     U_bstream_put_u16_le (of_nat (3 + 2 + 2 + 1 + length data)),
     U_bstream_put_u16_le (of_nat (length data + 1)),
     U_bstream_put_u8 paramId] @ map U_bstream_put_u8 data))"

text \<open>\<open>gcfSeq++\<close>\<close>

definition next_seq :: "(byte \<Rightarrow> action) \<Rightarrow> action" where
  "next_seq k = gget gcfSeq (\<lambda>seq. block [set_gcf (\<lambda>g. g\<lparr>gcfSeq := gcfSeq g + 1\<rparr>), k seq])"

definition gcfCommandQueryStatus :: "(event \<Rightarrow> action) \<Rightarrow> action" where
  "gcfCommandQueryStatus he = next_seq (\<lambda>seq. PROT_Send he [0x07, seq, 0x00, 0x08, 0x00, 0x00, 0x00, 0x00])"

definition gcfCommandQueryFirmwareVersion :: "(event \<Rightarrow> action) \<Rightarrow> action" where
  "gcfCommandQueryFirmwareVersion he = PROT_Send he [0x0D, 0x05, 0x00, 0x09, 0x00, 0x00, 0x00, 0x00, 0x00]"

definition gcfCommandReadFlash :: "(event \<Rightarrow> action) \<Rightarrow> nat \<Rightarrow> nat \<Rightarrow> action" where
  "gcfCommandReadFlash he addr len = next_seq (\<lambda>seq. send_built he (built 32 [
     U_bstream_put_u8 0x18,
     U_bstream_put_u8 seq,
     U_bstream_put_u8 0,
     U_bstream_put_u16_le 13,
     U_bstream_put_u16_le 6,
     U_bstream_put_u8 2,
     U_bstream_put_u32_le addr,
     U_bstream_put_u8 (of_nat len)]))"

section \<open>The packets\<close>

lemma built_Nil: "built n [] = Inr []"
  by (simp add: built_def)

text \<open>Puts that all fit append their bytes.\<close>

inductive puts_ok :: "U_BStream stmt \<Rightarrow> byte list \<Rightarrow> bool" where
  "puts_ok (U_bstream_put_u8 b) [b]"
| "puts_ok (U_bstream_put_u16_le v) (le16 v)"
| "puts_ok (U_bstream_put_u32_le n) (le32 n)"

lemma written_pos: "bs_ok bs \<Longrightarrow> length (bs_written bs) = bs_pos bs"
  by (auto simp: bs_ok_def bs_written_def bs_buf_def split: option.splits)

lemma put_step:
  assumes "puts_ok s d" and "bs_ok bs" and "bs_status bs = U_BSTREAM_OK" and "bs_pos bs + length d \<le> bs_size bs"
  shows "\<exists>bs'. s bs = Inr bs' \<and> bs_ok bs' \<and> bs_status bs' = U_BSTREAM_OK \<and> bs_written bs' = bs_written bs @ d
    \<and> bs_size bs' = bs_size bs \<and> bs_pos bs' = bs_pos bs + length d"
proof -
  have "\<exists>bs'. s bs = Inr bs' \<and> bs_ok bs' \<and> bs_written bs' = bs_written bs @ d \<and> bs_status bs' = U_BSTREAM_OK
      \<and> bs_size bs' = bs_size bs"
    using assms(1)
  proof cases
    case (1 b)
    with assms(2-4) w8.put_appends [of bs b] show ?thesis by auto
  next
    case (2 v)
    with assms(2-4) w16.put_appends [of bs v] show ?thesis by auto
  next
    case (3 n)
    with assms(2-4) w32.put_appends [of bs n] show ?thesis by auto
  qed
  then show ?thesis using written_pos assms(2) by (metis length_append)
qed

lemma puts_eq:
  "list_all2 puts_ok ss ds \<Longrightarrow> bs_ok bs \<Longrightarrow> bs_status bs = U_BSTREAM_OK \<Longrightarrow> bs_pos bs + length (concat ds) \<le> bs_size bs \<Longrightarrow>
   \<exists>bs'. block ss bs = Inr bs' \<and> bs_written bs' = bs_written bs @ concat ds"
proof (induction ss ds arbitrary: bs rule: list_all2_induct)
  case Nil
  then show ?case by simp
next
  case (Cons s ss d ds)
  obtain bs1 where b: "s bs = Inr bs1" "bs_ok bs1" "bs_status bs1 = U_BSTREAM_OK" "bs_written bs1 = bs_written bs @ d"
      "bs_size bs1 = bs_size bs" "bs_pos bs1 = bs_pos bs + length d"
    using put_step [OF Cons.hyps(1) Cons.prems(1,2)] Cons.prems(3) by auto
  obtain bs2 where "block ss bs1 = Inr bs2" "bs_written bs2 = bs_written bs1 @ concat ds"
    using Cons.IH [OF b(2,3)] Cons.prems(3) b(5,6) by auto
  with b show ?case by simp
qed

lemma built_eq:
  assumes "list_all2 puts_ok ss ds" and "length (concat ds) \<le> n"
  shows "built n ss = Inr (concat ds)"
proof -
  obtain bs' where "block ss (U_bstream_init (Some (replicate n 0)) n) = Inr bs'" "bs_written bs' = concat ds"
    using puts_eq [OF assms(1), of "U_bstream_init (Some (replicate n 0)) n"] assms(2) bs_ok_init [of n "replicate n 0"]
    by auto
  then show ?thesis by (simp add: built_def)
qed

lemmas puts_ok_intros [simp] = puts_ok.intros

definition query_parameter :: "byte \<Rightarrow> byte \<Rightarrow> byte list \<Rightarrow> byte list" where
  "query_parameter seq p arg = [0x0A, seq, 0] @ le16 (of_nat (8 + length arg)) @ le16 (of_nat (length arg + 1)) @ [p] @ arg"

definition read_flash :: "byte \<Rightarrow> nat \<Rightarrow> nat \<Rightarrow> byte list" where
  "read_flash seq addr len = [0x18, seq, 0] @ le16 13 @ le16 6 @ [2] @ le32 addr @ [of_nat len]"

lemma list_all2_put_bytes: "list_all2 puts_ok (map U_bstream_put_u8 bs) (map (\<lambda>b. [b]) bs)"
  by (induction bs) simp_all

lemma concat_singletons [simp]: "concat (map (\<lambda>b. [b]) bs) = bs"
  by (induction bs) simp_all

lemma QueryParameter_eq:
  assumes "length arg \<le> 119"
  shows "gcfCommandQueryParameter he seq p arg = PROT_Send he (query_parameter seq p arg)"
proof -
  have "built 127 ([U_bstream_put_u8 0x0A, U_bstream_put_u8 seq, U_bstream_put_u8 0x00,
      U_bstream_put_u16_le (of_nat (3 + 2 + 2 + 1 + length arg)), U_bstream_put_u16_le (of_nat (length arg + 1)),
      U_bstream_put_u8 p] @ map U_bstream_put_u8 arg) = Inr (concat ([[0x0A], [seq], [0],
      le16 (of_nat (3 + 2 + 2 + 1 + length arg)), le16 (of_nat (length arg + 1)), [p]] @ map (\<lambda>b. [b]) arg))"
    using assms list_all2_put_bytes by (intro built_eq list_all2_appendI) simp_all
  then show ?thesis unfolding gcfCommandQueryParameter_def send_built_def by (simp add: query_parameter_def)
qed

lemma ReadFlash_eq: "gcfCommandReadFlash he addr len = next_seq (\<lambda>seq. PROT_Send he (read_flash seq addr len))"
proof -
  have "built 32 [U_bstream_put_u8 0x18, U_bstream_put_u8 seq, U_bstream_put_u8 0, U_bstream_put_u16_le 13,
      U_bstream_put_u16_le 6, U_bstream_put_u8 2, U_bstream_put_u32_le addr, U_bstream_put_u8 (of_nat len)]
      = Inr (concat [[0x18], [seq], [0], le16 13, le16 6, [2], le32 addr, [of_nat len]])" for seq
    by (rule built_eq) simp_all
  then show ?thesis unfolding gcfCommandReadFlash_def send_built_def by (simp add: read_flash_def)
qed

lemma length_commands [simp]:
  "length (query_parameter seq p arg) = 8 + length arg" "length (read_flash seq addr len) = 13"
  by (simp_all add: query_parameter_def read_flash_def)

end
