(* ===== verification/Gcf_Program.thy ===== *)
theory Gcf_Program
  imports Gcf_Command
begin

text \<open>
  The handlers of \<open>gcf.c\<close> that reset a device, find its bootloader and upload the firmware,
  and those that only keep a connection. Each handler is one definition, its branches in the
  order of the source. \<open>he\<close> is \<open>GCF_HandleEvent\<close> for the events a handler posts, \<open>sub\<close> the
  call through the function pointer \<open>substate\<close>.
\<close>

section \<open>Shared pieces\<close>

text \<open>\<open>UI_Puts\<close> of a literal that ends a line.\<close>

definition puts_line :: "string \<Rightarrow> action" where
  "puts_line s = UI_Puts (bytes s @ [0x0A])"

definition put_line :: "string \<Rightarrow> U_SStream stmt" where
  "put_line s = U_sstream_put_str (bytes s @ [0x0A])"

text \<open>A computation on the fields of \<open>gcf\<close> that may fault.\<close>

definition attempt :: "(GCF \<Rightarrow> fault + 'a) \<Rightarrow> ('a \<Rightarrow> action) \<Rightarrow> action" where
  "attempt f k = gget f (\<lambda>r. case r of Inl e \<Rightarrow> fails e | Inr a \<Rightarrow> k a)"

text \<open>\<open>gcf->wp = 0; gcf->ascii[0] = '\0';\<close>\<close>

definition on_ascii :: "(byte list, 'a) op \<Rightarrow> ('a \<Rightarrow> action) \<Rightarrow> action" where
  "on_ascii m k w = (case m (ascii (gcf w)) of Inl f \<Rightarrow> Inl f
     | Inr (a, buf) \<Rightarrow> k a (w\<lparr>gcf := (gcf w)\<lparr>ascii := buf\<rparr>\<rparr>))"

definition set_ascii :: "nat \<Rightarrow> byte \<Rightarrow> action" where
  "set_ascii i v = zoom (\<lambda>w. ascii (gcf w)) (\<lambda>s w. w\<lparr>gcf := (gcf w)\<lparr>ascii := s\<rparr>\<rparr>) (poke i v)"

definition set_wp :: "nat \<Rightarrow> action" where
  "set_wp n = set_gcf (\<lambda>g. g\<lparr>wp := n\<rparr>)"

definition clear_rx :: action where
  "clear_rx = block [set_wp 0, set_ascii 0 0]"

text \<open>\<open>U_sstream_init(&ss, &gcf->ascii[0], gcf->wp)\<close> and \<open>U_sstream_find(&ss, s)\<close>\<close>

definition ascii_find :: "string \<Rightarrow> (bool \<Rightarrow> action) \<Rightarrow> action" where
  "ascii_find s k = attempt (\<lambda>g. U_sstream_find (bytes s) (U_sstream_init (Some (ascii g)) (wp g))) (\<lambda>(b, _). k b)"

definition devpath_string :: "(byte list \<Rightarrow> action) \<Rightarrow> action" where
  "devpath_string k = attempt (\<lambda>g. c_string (devpath g)) k"

text \<open>\<open>PL_Connect(gcf->devpath, gcf->devBaudrate) == GCF_SUCCESS\<close>\<close>

definition connected :: "(bool \<Rightarrow> action) \<Rightarrow> action" where
  "connected k = devpath_string (\<lambda>path. gget devBaudrate (\<lambda>b.
     callv (PL_Connect path b) (\<lambda>r. k (r = GCF_SUCCESS))))"

definition write_port :: "(event \<Rightarrow> action) \<Rightarrow> byte list \<Rightarrow> action" where
  "write_port he d = call (PROT_Write he d)"

text \<open>\<open>p = put...(p, ...)\<close> several times, in a local array.\<close>

fun put_chain :: "(nat \<Rightarrow> (byte list, nat) op) list \<Rightarrow> nat \<Rightarrow> (byte list, nat) op" where
  "put_chain [] p buf = Inr (p, buf)"
| "put_chain (f # fs) p buf = (case f p buf of Inl e \<Rightarrow> Inl e | Inr (p', buf') \<Rightarrow> put_chain fs p' buf')"

text \<open>The bytes of \<open>fcontent\<close> from \<open>off\<close> on.\<close>

definition file_slice :: "GCF \<Rightarrow> nat \<Rightarrow> nat \<Rightarrow> fault + byte list" where
  "file_slice g off n = (if off + n \<le> MAX_GCF_FILE_SIZE
     then Inr (map (fcontent (gcf_file g)) [off..<off + n]) else Inl OutOfBounds)"

section \<open>Retry\<close>

definition gcfRetry :: action where
  "gcfRetry = callv PL_Time (\<lambda>now. gif (\<lambda>g. maxTime g > now) [
     reads (\<lambda>w. (long_bits (env w), maxTime (gcf w))) (\<lambda>(L, m). print_line [
       put_lit ''retry: '',
       U_sstream_put_long (cdiv (to_long L ((m - now) mod 2 ^ L)) 1000),
       put_line '' seconds left'']),
     set_state ST_Init,
     set_substate ST_Void,
     PL_SetTimeout 250]
   [PL_ShutDown])"

section \<open>Reset\<close>

definition ST_Reset_handler :: "(event \<Rightarrow> action) \<Rightarrow> (event \<Rightarrow> action) \<Rightarrow> event \<Rightarrow> action" where
  "ST_Reset_handler he sub ev =
    (if ev = EV_ACTION then block [set_wp 0, set_substate ST_ResetUart, sub EV_ACTION]
     else if ev = EV_UART_RESET_SUCCESS \<or> ev = EV_FTDI_RESET_SUCCESS \<or> ev = EV_RASPBEE_RESET_SUCCESS
     then block [
       set_substate ST_Void,
       gif (\<lambda>g. task g = T_RESET) [PL_ShutDown]
         [gif (\<lambda>g. task g = T_PROGRAM) [set_state ST_Program, he EV_RESET_SUCCESS] []]]
     else if ev = EV_UART_RESET_FAILED
     then gget devType (\<lambda>d.
       let pretend = block [PL_SetTimeout 500, he EV_UART_RESET_SUCCESS]
       in if d = DEV_CONBEE_1
          then connected (\<lambda>ok. if ok then block [set_substate ST_ResetFtdi, sub EV_ACTION] else pretend)
          else if d = DEV_RASPBEE_1 \<or> d = DEV_RASPBEE_2
          then connected (\<lambda>ok. if ok then block [set_substate ST_ResetRaspBee, sub EV_ACTION] else pretend)
          else pretend)
     else if ev = EV_FTDI_RESET_FAILED then block [PL_SetTimeout 1, he EV_FTDI_RESET_SUCCESS]
     else if ev = EV_RASPBEE_RESET_FAILED then block [PL_SetTimeout 1, he EV_RASPBEE_RESET_SUCCESS]
     else sub ev)"

definition ST_ResetUart_handler :: "(event \<Rightarrow> action) \<Rightarrow> event \<Rightarrow> action" where
  "ST_ResetUart_handler he ev =
    (if ev = EV_ACTION then block [
       PL_SetTimeout 3000,
       connected (\<lambda>ok. if ok
         then block [
           gif (\<lambda>g. task g = T_RESET) [puts_line ''query firmware version'', gcfCommandQueryFirmwareVersion he] [],
           gcfCommandResetUart he]
         else puts_line ''failed to connect serial com'')]
     else if ev = EV_RX_BTL_PKG_DATA
     then attempt (\<lambda>g. peek (ascii g) 1) (\<lambda>c. if c = 0x82
       then block [PL_ClearTimeout, PL_SetTimeout 100, he EV_UART_RESET_SUCCESS] else skip)
     else if ev = EV_DISCONNECTED then block [PL_ClearTimeout, PL_SetTimeout 500, he EV_UART_RESET_SUCCESS]
     else if ev = EV_PKG_UART_RESET then block [
       puts_line ''command UART reset done'',
       gif (\<lambda>g. devType g = DEV_RASPBEE_1 \<or> devType g = DEV_CONBEE_1)
         [PL_ClearTimeout, he EV_UART_RESET_SUCCESS] []]
     else if ev = EV_TIMEOUT then block [
       puts_line ''command reset timeout'',
       set_substate ST_Void,
       PL_Disconnect he,
       he EV_UART_RESET_FAILED]
     else skip)"

definition ST_ResetFtdi_handler :: "(event \<Rightarrow> action) \<Rightarrow> event \<Rightarrow> action" where
  "ST_ResetFtdi_handler he ev = (if ev = EV_ACTION
     then callv PL_ResetFTDI (\<lambda>r. if r = 0
       then block [puts_line ''FTDI reset done'', he EV_FTDI_RESET_SUCCESS]
       else block [puts_line ''FTDI reset failed'', he EV_FTDI_RESET_FAILED])
     else skip)"

definition ST_ResetRaspBee_handler :: "(event \<Rightarrow> action) \<Rightarrow> event \<Rightarrow> action" where
  "ST_ResetRaspBee_handler he ev = (if ev = EV_ACTION
     then callv PL_ResetRaspBee (\<lambda>r. if r = 0
       then block [puts_line ''RaspBee reset done'', he EV_RASPBEE_RESET_SUCCESS]
       else block [puts_line ''RaspBee reset failed'', he EV_RASPBEE_RESET_FAILED])
     else skip)"

section \<open>Finding the bootloader\<close>

definition ST_BootloaderConnect_handler :: "(event \<Rightarrow> action) \<Rightarrow> event \<Rightarrow> action" where
  "ST_BootloaderConnect_handler he ev =
    (if ev = EV_TIMEOUT
     then connected (\<lambda>ok. if ok
       then block [set_state ST_BootloaderQuery, he EV_ACTION]
       else block [
         PL_SetTimeout 500,
         devpath_string (\<lambda>path. print_line [
           put_lit ''retry connect bootloader '', U_sstream_put_str path, put_line ''''])])
     else if ev = EV_RX_ASCII then block [
       PL_ClearTimeout,
       PL_SetTimeout 100,
       set_state ST_BootloaderQuery,
       set_substate ST_Void,
       he EV_RX_ASCII]
     else skip)"

definition ST_BootloaderQuery_handler :: "(event \<Rightarrow> action) \<Rightarrow> event \<Rightarrow> action" where
  "ST_BootloaderQuery_handler he ev =
    (if ev = EV_ACTION then block [
       set_gcf (\<lambda>g. g\<lparr>retry := 0\<rparr>),
       clear_rx,
       zoom (\<lambda>w. ascii (gcf w)) (\<lambda>s w. w\<lparr>gcf := (gcf w)\<lparr>ascii := s\<rparr>\<rparr>) (U_bzero 0 512),
       PL_SetTimeout 200]
     else if ev = EV_TIMEOUT then block [
       set_gcf (\<lambda>g. g\<lparr>retry := retry g + 1\<rparr>),
       gif (\<lambda>g. retry g = 3)
         [puts_line ''query bootloader failed'', gcfRetry]
         [gif (\<lambda>g. gcfFileType (gcf_file g) < 30)
           [puts_line ''query bootloader id V1'', write_port he (bytes ''ID''), PL_SetTimeout 200]
           [puts_line ''query bootloader id V3'', PROT_Send he [0x81, 0x02], PL_SetTimeout 200]]]
     else if ev = EV_RX_ASCII
     then gget wp (\<lambda>n. if n > 32
       then attempt (\<lambda>g. peek (ascii g) (n - 1)) (\<lambda>c. if c = 0x0A
         then ascii_find ''Bootloader'' (\<lambda>found. if found
           then block [PL_ClearTimeout, puts_line ''bootloader detected'', set_state ST_V1ProgramSync, he EV_ACTION]
           else skip)
         else skip)
       else skip)
     else if ev = EV_RX_BTL_PKG_DATA
     then attempt (\<lambda>g. peek (ascii g) 1) (\<lambda>c. if c = 0x82
       then attempt (\<lambda>g. get_u32_le (ascii g) 2) (\<lambda>(btlVersion, _).
         attempt (\<lambda>g. get_u32_le (ascii g) 6) (\<lambda>(appCrc, _). block [
           print_line [put_lit ''bootloader version 0x'', U_sstream_put_u32hex btlVersion,
             put_lit '', app crc 0x'', U_sstream_put_u32hex appCrc, U_sstream_put_str [0x0A, 0x0A]],
           set_state ST_V3ProgramSync,
           he EV_ACTION]))
       else skip)
     else if ev = EV_DISCONNECTED then gcfRetry
     else skip)"

definition ST_Program_handler :: "action \<Rightarrow> (event \<Rightarrow> action) \<Rightarrow> event \<Rightarrow> action" where
  "ST_Program_handler get_devices he ev =
    (if ev = EV_ACTION then block [
       get_devices,
       puts_line ''flash firmware'',
       set_state ST_Reset,
       he ev]
     else if ev = EV_RESET_SUCCESS
     then gif (\<lambda>g. devType g = DEV_RASPBEE_1 \<or> devType g = DEV_CONBEE_1)
       [PL_SetTimeout 5000, set_state ST_BootloaderQuery]
       [PL_SetTimeout 500, set_state ST_BootloaderConnect]
     else if ev = EV_RESET_FAILED then PL_ShutDown
     else skip)"

end
