(* ===== verification/Gcf_Upload.thy ===== *)
theory Gcf_Upload
  imports Gcf_Program
begin

text \<open>
  The upload handlers of \<open>gcf.c\<close>: the V1 bootloader asks for pages of 256 bytes by number,
  the V3 bootloader for a byte range by offset and length; \<open>gcf.c\<close> only answers. Also the
  handlers of the plain connection (\<open>-c\<close>).
\<close>

section \<open>V1\<close>

definition ST_V1ProgramSync_handler :: "(event \<Rightarrow> action) \<Rightarrow> event \<Rightarrow> action" where
  "ST_V1ProgramSync_handler he ev =
    (if ev = EV_ACTION then block [clear_rx, write_port he [0x1A, 0x1C, 0xA9, 0xAE], PL_SetTimeout 500]
     else if ev = EV_RX_ASCII
     then gget wp (\<lambda>n.
       let resync = PL_SetTimeout 500 in
       if n > 4
       then ascii_find ''READY'' (\<lambda>found. if found
         then block [
           PL_ClearTimeout,
           attempt (\<lambda>g. c_string (ascii g)) (\<lambda>text. print_line [
             put_lit ''bootloader synced: '', U_sstream_put_str text, put_line '''']),
           set_state ST_V1ProgramWriteHeader,
           he EV_ACTION]
         else resync)
       else resync)
     else if ev = EV_TIMEOUT then block [puts_line ''failed to sync bootloader'', gcfRetry]
     else skip)"

definition v1_header :: "GCF_File \<Rightarrow> fault + byte list" where
  "v1_header f = (case put_chain [
       \<lambda>p. put_u32_le p (gcfFileSize f),
       \<lambda>p. put_u32_le p (gcfTargetAddress f),
       \<lambda>p. put_u8_le p (gcfFileType f),
       \<lambda>p. put_u8_le p (gcfCrc f)] 0 (replicate 10 0) of Inl e \<Rightarrow> Inl e | Inr (p, buf) \<Rightarrow> Inr buf)"

definition ST_V1ProgramWriteHeader_handler :: "(event \<Rightarrow> action) \<Rightarrow> event \<Rightarrow> action" where
  "ST_V1ProgramWriteHeader_handler he ev =
    (if ev = EV_ACTION
     then block [
       clear_rx,
       attempt (\<lambda>g. v1_header (gcf_file g)) (\<lambda>buf. block [
         set_state ST_V1ProgramUpload,
         write_port he buf,
         PL_SetTimeout 1000])]
     else skip)"

text \<open>
  \<open>page\<close> and \<open>end\<close> are indices of \<open>fcontent\<close>. The test after the assertion does not
  return: without assertions the handler goes on with a page behind the end.
\<close>

definition v1_serve :: "(event \<Rightarrow> action) \<Rightarrow> nat \<Rightarrow> action" where
  "v1_serve he pageNumber = gget (\<lambda>g. (dataOffset (gcf_file g) + pageNumber * 256,
                                       dataOffset (gcf_file g) + gcfFileSize (gcf_file g))) (\<lambda>(page, pend). block [
     Assert (\<lambda>_. page < pend),
     if page \<ge> pend then gcfRetry else skip,
     set_gcf (\<lambda>g. g\<lparr>remaining := u32_sub pend page\<rparr>),
     gget remaining (\<lambda>rest. let len = (if rest > 256 then 256 else rest) in block [
       if pageNumber mod 20 = 0 \<or> rest < 256 then UI_UpdateProgress else skip,
       clear_rx,
       attempt (\<lambda>g. file_slice g page len) (\<lambda>d. write_port he d),
       gif (\<lambda>g. u32_sub (remaining g) len = 0)
         [set_state ST_V1ProgramValidate,
          UI_Puts (0x0A # bytes ''done, wait validation...'' @ [0x0A]),
          PL_SetTimeout 25600]
         [PL_SetTimeout 2000]])])"

definition ST_V1ProgramUpload_handler :: "(event \<Rightarrow> action) \<Rightarrow> event \<Rightarrow> action" where
  "ST_V1ProgramUpload_handler he ev =
    (if ev = EV_RX_ASCII
     then gget wp (\<lambda>n. if n < 6 then skip
       else attempt (\<lambda>g. peek (ascii g) 0) (\<lambda>c0. if c0 \<noteq> 0x47 then skip
       else attempt (\<lambda>g. peek (ascii g) 5) (\<lambda>c5. if c5 \<noteq> 0x3B then skip
       else attempt (\<lambda>g. peek (ascii g) 4) (\<lambda>hi. attempt (\<lambda>g. peek (ascii g) 3) (\<lambda>lo.
         v1_serve he (unat hi * 256 + unat lo))))))
     else if ev = EV_TIMEOUT then gcfRetry
     else skip)"

definition ST_V1ProgramValidate_handler :: "event \<Rightarrow> action" where
  "ST_V1ProgramValidate_handler ev =
    (if ev = EV_RX_ASCII
     then gget wp (\<lambda>n. if n > 6
       then ascii_find ''#VALID CRC'' (\<lambda>found. if found
         then block [UI_Puts (FMT_GREEN @ bytes ''firmware successful written'' @ [0x0A] @ FMT_RESET), PL_ShutDown]
         else PL_SetTimeout 1000)
       else PL_SetTimeout 1000)
     else if ev = EV_TIMEOUT then gcfRetry
     else skip)"

section \<open>V3\<close>

definition v3_request :: "GCF_File \<Rightarrow> fault + byte list" where
  "v3_request f = (case put_chain [
       \<lambda>p. put_u32_le p (gcfFileSize f),
       \<lambda>p. put_u32_le p (gcfTargetAddress f),
       \<lambda>p. put_u8_le p (gcfFileType f),
       \<lambda>p. put_u32_le p (gcfCrc32 f)] 2
       [0x81, 0x03, 0x00, 0x0C, 0x00, 0x00, 0x00, 0x00, 0x00, 0x00, 0x00, 0xAA, 0xAA, 0xAA, 0xAA] of
     Inl e \<Rightarrow> Inl e | Inr (p, buf) \<Rightarrow> Inr buf)"

definition ST_V3ProgramSync_handler :: "(event \<Rightarrow> action) \<Rightarrow> event \<Rightarrow> action" where
  "ST_V3ProgramSync_handler he ev =
    (if ev = EV_ACTION then block [
       PL_MSleep 50,
       PL_SetTimeout 1000,
       attempt (\<lambda>g. v3_request (gcf_file g)) (\<lambda>cmd. PROT_Send he cmd)]
     else if ev = EV_RX_BTL_PKG_DATA
     then attempt (\<lambda>g. peek (ascii g) 1) (\<lambda>c1. if c1 = 0x83
       then attempt (\<lambda>g. peek (ascii g) 2) (\<lambda>c2. if c2 = 0x00
         then block [PL_SetTimeout 3000, set_state ST_V3ProgramUpload] else skip)
       else skip)
     else if ev = EV_TIMEOUT then gcfRetry
     else skip)"

text \<open>The status of a data request and the length that is served; both fields 0 before.\<close>

definition v3_check :: "nat \<Rightarrow> nat \<Rightarrow> nat \<Rightarrow> (byte \<Rightarrow> nat \<Rightarrow> action) \<Rightarrow> action" where
  "v3_check L offset len k = block [
     set_gcf (\<lambda>g. g\<lparr>remaining := 0\<rparr>),
     gget (\<lambda>g. gcfFileSize (gcf_file g)) (\<lambda>fs.
       if uadd L offset len > fs then k 1 len
       else if len > 512 - 32 then k 2 len
       else if len = 0 then k 3 len
       else block [
         Assert (\<lambda>_. fs > offset),
         set_gcf (\<lambda>g. g\<lparr>remaining := u32_sub fs offset\<rparr>),
         Assert (\<lambda>g. remaining g < MAX_GCF_FILE_SIZE),
         gget remaining (\<lambda>rest. let len' = (if len < rest then len else rest mod 2 ^ 16) in block [
           Assert (\<lambda>_. len' > 0),
           k 0 len'])])]"

definition v3_respond :: "(event \<Rightarrow> action) \<Rightarrow> nat \<Rightarrow> byte \<Rightarrow> nat \<Rightarrow> action" where
  "v3_respond he offset status len =
     on_ascii (put_chain [
         \<lambda>p. put_u8_le p 0x81,
         \<lambda>p. put_u8_le p 0x84,
         \<lambda>p. put_u8_le p status,
         \<lambda>p. put_u32_le p offset,
         \<lambda>p. put_u16_le p (of_nat len)] 0) (\<lambda>p.
     let finish = (\<lambda>p. block [
           Assert (\<lambda>_. p > 0),
           Assert (\<lambda>_. p < 512),
           attempt (\<lambda>g. if p \<le> length (ascii g) then Inr (take p (ascii g)) else Inl OutOfBounds) (\<lambda>d. PROT_Send he d),
           UI_UpdateProgress,
           gif (\<lambda>g. remaining g = len)
             [UI_Puts (0x0A # bytes ''done, wait (up to 20 seconds) for verification'' @ [0x0A]),
              PL_SetTimeout 20000,
              set_state ST_V3ProgramWaitID] []])
     in if status = 0
        then block [
          Assert (\<lambda>_. len > 0),
          attempt (\<lambda>g. file_slice g (dataOffset (gcf_file g) + offset) len) (\<lambda>d. block [
            zoom (\<lambda>w. ascii (gcf w)) (\<lambda>s w. w\<lparr>gcf := (gcf w)\<lparr>ascii := s\<rparr>\<rparr>) (U_memcpy p d 0 len),
            finish (p + len)])]
        else block [
          print_line [
            put_lit ''failed to handle data request, status: '',
            U_sstream_put_long (uint status),
            put_line ''''],
          finish p])"

definition ST_V3ProgramUpload_handler :: "(event \<Rightarrow> action) \<Rightarrow> event \<Rightarrow> action" where
  "ST_V3ProgramUpload_handler he ev =
    (if ev = EV_RX_BTL_PKG_DATA
     then attempt (\<lambda>g. peek (ascii g) 1) (\<lambda>c1. gget wp (\<lambda>n. if c1 = 0x04 \<and> n = 8
       then block [
         PL_SetTimeout 5000,
         attempt (\<lambda>g. get_u32_le (ascii g) 2) (\<lambda>(offset, _).
         attempt (\<lambda>g. get_u16_le (ascii g) 6) (\<lambda>(len, _).
         reads (\<lambda>w. (ndebug (env w), long_bits (env w))) (\<lambda>(nd, L). block [
           if nd then skip else print_line [
             put_lit ''BTL data request, offset: '',
             U_sstream_put_long (to_long L offset),
             put_lit '', length: '',
             U_sstream_put_long (int (unat len)),
             put_line ''''],
           v3_check L offset (unat len) (v3_respond he offset)])))]
       else PL_Printf DBG_DEBUG ''unexpected command %02X'' [ANum (uint c1)]))
     else if ev = EV_TIMEOUT then gcfRetry
     else skip)"

definition ST_V3ProgramWaitID_handler :: "event \<Rightarrow> action" where
  "ST_V3ProgramWaitID_handler ev =
    (if ev = EV_RX_BTL_PKG_DATA
     then attempt (\<lambda>g. peek (ascii g) 1) (\<lambda>c1. if c1 = 0x82
       then attempt (\<lambda>g. get_u32_le (ascii g) 2) (\<lambda>(btlVersion, _).
         attempt (\<lambda>g. get_u32_le (ascii g) 6) (\<lambda>(appCrc, _). block [
           gget (\<lambda>g. gcfCrc32 (gcf_file g)) (\<lambda>crc32. if crc32 \<noteq> 0
             then print_line ([put_lit ''app checksum 0x'', U_sstream_put_u32hex appCrc]
               @ (if appCrc = crc32 then [put_lit '' (OK)'']
                  else [put_lit '' (expected 0x'', U_sstream_put_u32hex crc32, put_lit '')''])
               @ [put_line ''''])
             else skip),
           puts_line ''finished'',
           PL_ShutDown]))
       else skip)
     else if ev = EV_TIMEOUT then gcfRetry
     else skip)"

section \<open>Plain connection\<close>

definition ST_Connect_handler :: "event \<Rightarrow> action" where
  "ST_Connect_handler ev = (if ev = EV_ACTION
     then connected (\<lambda>ok. if ok
       then block [set_state ST_Connected, PL_SetTimeout 1000]
       else block [set_state ST_Init, puts_line ''failed to connect'', PL_SetTimeout 10000])
     else skip)"

definition ST_Connected_handler :: "(event \<Rightarrow> action) \<Rightarrow> event \<Rightarrow> action" where
  "ST_Connected_handler he ev =
    (if ev = EV_TIMEOUT then block [
       gif (\<lambda>g. \<not> uiInteractive (ui g)) [gcfCommandQueryStatus he] [],
       PL_SetTimeout 10000]
     else if ev = EV_DISCONNECTED then block [
       PL_ClearTimeout,
       set_state ST_Init,
       puts_line ''disconnected'',
       PL_SetTimeout 1000]
     else skip)"

section \<open>The messages\<close>

text \<open>A chain of fields writes their bytes one after the other.\<close>

inductive field_of :: "(nat \<Rightarrow> (byte list, nat) op) \<Rightarrow> byte list \<Rightarrow> bool" where
  "field_of (\<lambda>p. put_u8_le p b) [b]"
| "field_of (\<lambda>p. put_u16_le p v) (le16 v)"
| "field_of (\<lambda>p. put_u32_le p n) (le32 n)"

lemmas field_of_intros [simp] = field_of.intros

lemma field_writes: "field_of f d \<Longrightarrow> p + length d \<le> length buf \<Longrightarrow> f p buf = Inr (p + length d, overwrite p d buf)"
  by (induction rule: field_of.induct) (simp_all add: le8.put_spec le16.put_spec le32.put_spec)

lemma put_chain_eq:
  "list_all2 field_of fs ds \<Longrightarrow> p + length (concat ds) \<le> length buf \<Longrightarrow>
   put_chain fs p buf = Inr (p + length (concat ds), overwrite p (concat ds) buf)"
proof (induction fs ds arbitrary: p buf rule: list_all2_induct)
  case (Cons f fs d ds)
  then have "put_chain fs (p + length d) (overwrite p d buf)
      = Inr (p + length d + length (concat ds), overwrite (p + length d) (concat ds) (overwrite p d buf))"
    by simp
  moreover have "overwrite (p + length d) (concat ds) (overwrite p d buf) = overwrite p (d @ concat ds) buf"
    using Cons.prems by (intro overwrite_append) simp
  ultimately show ?case using field_writes [OF Cons.hyps(1)] Cons.prems by (simp add: add.assoc)
qed simp

definition v1_header_bytes :: "GCF_File \<Rightarrow> byte list" where
  "v1_header_bytes f = le32 (gcfFileSize f) @ le32 (gcfTargetAddress f) @ [gcfFileType f, gcfCrc f]"

lemma v1_header_eq: "v1_header f = Inr (v1_header_bytes f)"
proof -
  let ?ds = "[le32 (gcfFileSize f), le32 (gcfTargetAddress f), [gcfFileType f], [gcfCrc f]]"
  have "put_chain [\<lambda>p. put_u32_le p (gcfFileSize f), \<lambda>p. put_u32_le p (gcfTargetAddress f),
      \<lambda>p. put_u8_le p (gcfFileType f), \<lambda>p. put_u8_le p (gcfCrc f)] 0 (replicate 10 0)
    = Inr (0 + length (concat ?ds), overwrite 0 (concat ?ds) (replicate 10 0))"
    by (rule put_chain_eq) simp_all
  then show ?thesis by (simp add: v1_header_def v1_header_bytes_def overwrite_def)
qed

definition v3_request_bytes :: "GCF_File \<Rightarrow> byte list" where
  "v3_request_bytes f = [0x81, 0x03] @ le32 (gcfFileSize f) @ le32 (gcfTargetAddress f) @ [gcfFileType f] @ le32 (gcfCrc32 f)"

lemma v3_request_eq: "v3_request f = Inr (v3_request_bytes f)"
proof -
  let ?ds = "[le32 (gcfFileSize f), le32 (gcfTargetAddress f), [gcfFileType f], le32 (gcfCrc32 f)]"
  let ?buf = "[0x81, 0x03, 0x00, 0x0C, 0x00, 0x00, 0x00, 0x00, 0x00, 0x00, 0x00, 0xAA, 0xAA, 0xAA, 0xAA] :: byte list"
  have "put_chain [\<lambda>p. put_u32_le p (gcfFileSize f), \<lambda>p. put_u32_le p (gcfTargetAddress f),
      \<lambda>p. put_u8_le p (gcfFileType f), \<lambda>p. put_u32_le p (gcfCrc32 f)] 2 ?buf
    = Inr (2 + length (concat ?ds), overwrite 2 (concat ?ds) ?buf)"
    by (rule put_chain_eq) simp_all
  then show ?thesis by (simp add: v3_request_def v3_request_bytes_def overwrite_def)
qed

text \<open>The head of a V3 data response.\<close>

definition v3_head :: "nat \<Rightarrow> byte \<Rightarrow> nat \<Rightarrow> byte list" where
  "v3_head offset status len = [0x81, 0x84, status] @ le32 offset @ le16 (of_nat len)"

lemma length_v3_head [simp]: "length (v3_head offset status len) = 9"
  by (simp add: v3_head_def)

lemma v3_head_eq:
  assumes "9 \<le> length buf"
  shows "put_chain [\<lambda>p. put_u8_le p 0x81, \<lambda>p. put_u8_le p 0x84, \<lambda>p. put_u8_le p status, \<lambda>p. put_u32_le p offset,
      \<lambda>p. put_u16_le p (of_nat len)] 0 buf = Inr (9, overwrite 0 (v3_head offset status len) buf)"
proof -
  let ?ds = "[[0x81], [0x84], [status], le32 offset, le16 (of_nat len)] :: byte list list"
  have "put_chain [\<lambda>p. put_u8_le p 0x81, \<lambda>p. put_u8_le p 0x84, \<lambda>p. put_u8_le p status, \<lambda>p. put_u32_le p offset,
      \<lambda>p. put_u16_le p (of_nat len)] 0 buf = Inr (0 + length (concat ?ds), overwrite 0 (concat ?ds) buf)"
    using assms by (intro put_chain_eq) simp_all
  then show ?thesis by (simp add: v3_head_def)
qed

lemma file_slice_ok: "off + n \<le> MAX_GCF_FILE_SIZE \<Longrightarrow> \<exists>d. file_slice g off n = Inr d \<and> length d = n"
  by (simp add: file_slice_def)

text \<open>\<open>remaining\<close> is read back right after it is set.\<close>

lemma remaining_read: "block (set_gcf (\<lambda>g. g\<lparr>remaining := v\<rparr>) # gget remaining k # ss) = block (set_gcf (\<lambda>g. g\<lparr>remaining := v\<rparr>) # k v # ss)"
  by (rule ext) (simp add: set_gcf_def upd_def gget_def reads_def)

end
