(* ===== verification/Gcf_Sniff.thy ===== *)
theory Gcf_Sniff
  imports Gcf_Upload
begin

text \<open>
  The sniffer and the flash dump of \<open>gcf.c\<close>. The sniffer firmware sends frames
  \<open>0x01, length, data, 0x04\<close>; a frame is cut out of \<open>ascii\<close>, wrapped in a ZEP packet and sent
  by UDP. The flash dump reads the flash in steps and prints S-records. The UDP socket is
  outside: its calls are recorded as outputs.
\<close>

section \<open>Sniffer\<close>

text \<open>\<open>gcf->state = h; PL_SetTimeout(1000)\<close>, with \<open>PL_ClearTimeout\<close> when the port is gone.\<close>

definition sniff_stop :: "event \<Rightarrow> action" where
  "sniff_stop ev =
    (if ev = EV_TIMEOUT then block [set_state ST_SniffTeardown, PL_SetTimeout 1000]
     else if ev = EV_DISCONNECTED then block [PL_ClearTimeout, set_state ST_SniffTeardown, PL_SetTimeout 1000]
     else skip)"

definition ST_SniffConnect_handler :: "event \<Rightarrow> action" where
  "ST_SniffConnect_handler ev = (if ev = EV_ACTION
     then block [
       set_sniff (\<lambda>s. s\<lparr>sniffSeqNum := 0\<rparr>),
       gget (\<lambda>g. sniffHost (sniff g)) (\<lambda>host. block [emit (UdpInit host), emit (UdpSetPeer host 17754)]),
       connected (\<lambda>ok. if ok
         then block [set_state ST_SniffConfig, PL_SetTimeout 250]
         else block [set_state ST_SniffTeardown, puts_line ''failed to connect'', PL_SetTimeout 10000])]
     else skip)"

definition sniff_config :: "int \<Rightarrow> U_SStream stmt" where
  "sniff_config channel = block [
     U_sstream_put_str ([0x0A] @ bytes ''idle'' @ [0x0A]),
     U_sstream_put_str ([0x0A] @ bytes ''chan ''),
     U_sstream_put_long channel,
     U_sstream_put_str [0x0A],
     U_sstream_put_str ([0x0A] @ bytes ''sniff'' @ [0x0A])]"

definition ST_SniffConfig_handler :: "(event \<Rightarrow> action) \<Rightarrow> event \<Rightarrow> action" where
  "ST_SniffConfig_handler he ev =
    (if ev = EV_TIMEOUT then block [
       attempt (\<lambda>g. sniff_config (sniffChannel (sniff g)) (U_sstream_init (Some (replicate 128 0)) 128)) (\<lambda>ss.
         write_port he (take (ss_pos ss) (ss_str ss))),
       set_wp 0,
       set_state ST_SniffConfigConfirm,
       PL_SetTimeout 1000]
     else if ev = EV_DISCONNECTED then sniff_stop ev
     else skip)"

definition ST_SniffConfigConfirm_handler :: "event \<Rightarrow> action" where
  "ST_SniffConfigConfirm_handler ev =
    (if ev = EV_RX_ASCII
     then ascii_find ''OK'' (\<lambda>found. if found
       then block [
         PL_ClearTimeout,
         set_state ST_SniffSyncData,
         set_sniff (\<lambda>s. s\<lparr>sniffWp := 0, sniffLength := 0\<rparr>),
         puts_lit ''sniffing started, send traffic to host '',
         gget (\<lambda>g. sniffHost (sniff g)) UI_Puts,
         puts_line '' port 17754'',
         PL_SetTimeout 3600000,
         set_gcf (\<lambda>g. g\<lparr>wp := 0, rp := 0\<rparr>)]
       else skip)
     else sniff_stop ev)"

text \<open>Forward to the start marker: \<open>for (; ascii[rp] != 0x01 && rp < wp;) rp += 1;\<close>\<close>

function sync_loop :: "byte list \<Rightarrow> nat \<Rightarrow> nat \<Rightarrow> fault + nat" where
  "sync_loop buf r w = (case peek buf r of Inl f \<Rightarrow> Inl f
     | Inr c \<Rightarrow> if c \<noteq> 0x01 \<and> r < w then sync_loop buf (r + 1) w else Inr r)"
  by pat_completeness auto
termination by (relation "measure (\<lambda>(buf, r, w). w - r)") auto

declare sync_loop.simps [simp del]

definition set_rp :: "nat \<Rightarrow> action" where
  "set_rp n = set_gcf (\<lambda>g. g\<lparr>rp := n\<rparr>)"

definition sniff_sync :: "(event \<Rightarrow> action) \<Rightarrow> action" where
  "sniff_sync he =
    (let none = block [set_rp 0, set_wp 0] in
     gget (\<lambda>g. (rp g, wp g)) (\<lambda>(r0, w). if r0 < w
       then attempt (\<lambda>g. sync_loop (ascii g) r0 w) (\<lambda>i. block [
         set_rp i,
         attempt (\<lambda>g. peek (ascii g) i) (\<lambda>c. if c = 0x01 \<and> i + 1 < w
           then attempt (\<lambda>g. peek (ascii g) (i + 1)) (\<lambda>c1. let len = unat c1 in block [
             set_sniff (\<lambda>s. s\<lparr>sniffWp := 0, sniffLength := len\<rparr>),
             if len < 8 then set_rp (i + 1)
             else if 2 + len < u32_sub w i
             then attempt (\<lambda>g. peek (ascii g) (i + 2 + len)) (\<lambda>e. if e = 0x04
               then block [set_rp (i + 2), set_state ST_SniffRecvData, he EV_RX_ASCII]
               else set_rp (i + 1))
             else skip])
           else none)])
       else none))"

definition ST_SniffSyncData_handler :: "(event \<Rightarrow> action) \<Rightarrow> event \<Rightarrow> action" where
  "ST_SniffSyncData_handler he ev =
    (if ev = EV_RX_ASCII \<or> ev = EV_PL_LOOP
     then block [set_sniff (\<lambda>s. s\<lparr>sniffLength := 0\<rparr>), sniff_sync he]
     else sniff_stop ev)"

text \<open>Copy the frame to \<open>sniffPacket\<close>: the loop runs \<open>wp - rp\<close> times at most.\<close>

primrec sniff_copy :: "nat \<Rightarrow> action" where
  "sniff_copy 0 = skip"
| "sniff_copy (Suc n) = block [
     Assert (\<lambda>g. sniffWp (sniff g) < 256),
     Assert (\<lambda>g. rp g < 512),
     attempt (\<lambda>g. peek (ascii g) (rp g)) (\<lambda>c.
       gget (\<lambda>g. sniffWp (sniff g)) (\<lambda>i.
         zoom (\<lambda>w. sniffPacket (sniff (gcf w)))
           (\<lambda>p w. w\<lparr>gcf := (gcf w)\<lparr>sniff := (sniff (gcf w))\<lparr>sniffPacket := p\<rparr>\<rparr>\<rparr>) (poke i c))),
     set_sniff (\<lambda>s. s\<lparr>sniffWp := sniffWp s + 1\<rparr>),
     set_gcf (\<lambda>g. g\<lparr>rp := rp g + 1\<rparr>),
     gif (\<lambda>g. sniffWp (sniff g) = sniffLength (sniff g) + 1) [] [sniff_copy n]]"

text \<open>Move the unprocessed bytes to the start of \<open>ascii\<close>.\<close>

fun move_down :: "nat \<Rightarrow> nat \<Rightarrow> nat \<Rightarrow> byte list stmt" where
  "move_down 0 i r buf = Inr buf"
| "move_down (Suc n) i r buf = (case peek buf r of Inl f \<Rightarrow> Inl f
     | Inr c \<Rightarrow> (case poke i c buf of Inl f \<Rightarrow> Inl f | Inr buf' \<Rightarrow> move_down n (i + 1) (r + 1) buf'))"

definition zep_packet :: "int \<Rightarrow> nat \<Rightarrow> nat \<Rightarrow> byte list \<Rightarrow> fault + byte list" where
  "zep_packet channel seq len packet =
    (if len > length packet then Inl OutOfBounds else
     let ptype = (if len \<ge> 8 + 5 then 1 else 2 :: byte)
     in built 256 (
       [U_bstream_put_u8 0x45, U_bstream_put_u8 0x58, U_bstream_put_u8 2, U_bstream_put_u8 ptype]
       @ (if ptype = 1 then map U_bstream_put_u8 (of_int channel # replicate 12 0) else [])
       @ [U_bstream_put_u32_be seq]
       @ (if ptype = 1 then map U_bstream_put_u8 (replicate 10 0)
            @ [U_bstream_put_u8 (of_nat (u32_sub len 8))]
            @ map (\<lambda>i. U_bstream_put_u8 (packet ! i)) [8..<len] else [])))"

text \<open>The debug line prints \<open>sniffLength\<close> bytes of \<open>ascii\<close>.\<close>

definition sniff_debug :: "nat \<Rightarrow> GCF \<Rightarrow> fault + U_SStream stmt list" where
  "sniff_debug L g = (if sniffLength (sniff g) \<le> length (ascii g)
     then Inr ([put_lit ''pkg('', U_sstream_put_long (to_long L (sniffLength (sniff g))), put_lit ''/'',
       U_sstream_put_long (to_long L (sniffSeqNum (sniff g))), put_lit '') '']
       @ concat (map (\<lambda>c. [U_sstream_put_u8hex c, put_lit '' '']) (take (sniffLength (sniff g)) (ascii g)))
       @ [put_line ''''])
     else Inl OutOfBounds)"

definition sniff_deliver :: action where
  "sniff_deliver = block [
     gif (\<lambda>g. uiDebugLevel (ui g) \<noteq> 0) [reads (\<lambda>w. long_bits (env w)) (\<lambda>L. attempt (sniff_debug L) print_line)] [],
     attempt (\<lambda>g. zep_packet (sniffChannel (sniff g)) (sniffSeqNum (sniff g)) (sniffLength (sniff g)) (sniffPacket (sniff g)))
       (\<lambda>d. block [
         set_sniff (\<lambda>s. s\<lparr>sniffSeqNum := u32_add (sniffSeqNum s) 1\<rparr>),
         emit (UdpSend d)])]"

definition ST_SniffRecvData_handler :: "event \<Rightarrow> action" where
  "ST_SniffRecvData_handler ev =
    (if ev = EV_RX_ASCII then block [
       gget (\<lambda>g. wp g - rp g) sniff_copy,
       gget (\<lambda>g. (rp g, wp g)) (\<lambda>(r, w). block [
         zoom (\<lambda>w. ascii (gcf w)) (\<lambda>s w. w\<lparr>gcf := (gcf w)\<lparr>ascii := s\<rparr>\<rparr>) (move_down (w - r) 0 r),
         set_gcf (\<lambda>g. g\<lparr>rp := 0, wp := w - r\<rparr>)]),
       gif (\<lambda>g. sniffWp (sniff g) = sniffLength (sniff g) + 1) [
         attempt (\<lambda>g. peek (sniffPacket (sniff g)) (sniffLength (sniff g))) (\<lambda>e.
           if e = 0x04 then sniff_deliver else skip),
         set_sniff (\<lambda>s. s\<lparr>sniffWp := 0, sniffLength := 0\<rparr>),
         set_state ST_SniffSyncData] []]
     else sniff_stop ev)"

definition ST_SniffTeardown_handler :: "event \<Rightarrow> action" where
  "ST_SniffTeardown_handler ev = block [
     emit UdpFree,
     PL_ClearTimeout,
     set_state ST_Init,
     puts_line ''sniffer stop'',
     PL_SetTimeout 1000]"

section \<open>Flash dump\<close>

definition gcfScheduleEventAction :: action where
  "gcfScheduleEventAction = set_gcf (\<lambda>g. g\<lparr>evAction := True\<rparr>)"

definition ST_DumpFlashConnect_handler :: "event \<Rightarrow> action" where
  "ST_DumpFlashConnect_handler ev = (if ev = EV_ACTION
     then block [
       set_gcf (\<lambda>g. g\<lparr>rxPacketLength := 0\<rparr>),
       connected (\<lambda>ok. if ok
         then block [set_state ST_DumpFlashQueryFirmwareVersion, gcfScheduleEventAction]
         else block [puts_line ''failed to connect'', PL_ShutDown])]
     else skip)"

text \<open>A stream over the received packet.\<close>

definition packet_reads :: "(U_BStream, nat) op list \<Rightarrow> (nat list \<times> U_BStream \<Rightarrow> action) \<Rightarrow> action" where
  "packet_reads rs k = attempt (\<lambda>g. bs_reads rs (U_bstream_init (Some (rxPacket g)) (rxPacketLength g))) k"

definition ST_DumpFlashQueryFirmwareVersion_handler :: "(event \<Rightarrow> action) \<Rightarrow> event \<Rightarrow> action" where
  "ST_DumpFlashQueryFirmwareVersion_handler he ev =
    (if ev = EV_ACTION then block [gcfCommandQueryFirmwareVersion he, PL_SetTimeout 200]
     else if ev = EV_RX_PKG_DATA
     then packet_reads [U_bstream_get_u8] (\<lambda>(c, _). if c ! 0 = 0x0D
       then block [
         PL_ClearTimeout,
         packet_reads [U_bstream_get_u8, U_bstream_get_u8, U_bstream_get_u8, U_bstream_get_u16_le, U_bstream_get_u32_le]
           (\<lambda>(vs, _). if (vs ! 4) AND 0x0000FF00 = 0x00000700
            then block [
              set_gcf (\<lambda>g. g\<lparr>flashSize := 0x40000, flashAddress := 0x5100, flashStep := 32\<rparr>),
              set_state ST_DumpFlashSend,
              gcfScheduleEventAction]
            else block [
              puts_line ''dump flash currently only supported on ConBee II and RaspBee II'',
              PL_ShutDown])]
       else skip)
     else if ev = EV_TIMEOUT then block [puts_line ''failed to query firmware version'', PL_ShutDown]
     else skip)"

definition ST_DumpFlashSend_handler :: "(event \<Rightarrow> action) \<Rightarrow> event \<Rightarrow> action" where
  "ST_DumpFlashSend_handler he ev = (if ev = EV_ACTION
     then gif (\<lambda>g. flashAddress g = flashSize g)
       [PL_ShutDown]
       [PL_SetTimeout 200,
        gget flashAddress (\<lambda>a. gcfCommandReadFlash he a 32),
        set_state ST_DumpFlashWait]
     else skip)"

text \<open>The S-record: the data bytes are read one by one while the record is printed.\<close>

primrec put_bytes_from :: "nat \<Rightarrow> U_BStream \<Rightarrow> fault + U_SStream stmt list" where
  "put_bytes_from 0 bs = Inr []"
| "put_bytes_from (Suc n) bs = (case U_bstream_get_u8 bs of Inl f \<Rightarrow> Inl f
     | Inr (v, bs') \<Rightarrow> (case put_bytes_from n bs' of Inl f \<Rightarrow> Inl f
        | Inr ops \<Rightarrow> Inr (U_sstream_put_u8hex (of_nat v) # ops)))"

definition srec_ops :: "nat \<Rightarrow> nat \<Rightarrow> U_BStream \<Rightarrow> fault + U_SStream stmt list" where
  "srec_ops addr len bs = (case put_bytes_from len bs of Inl f \<Rightarrow> Inl f
     | Inr ops \<Rightarrow> Inr ([
         put_lit ''S2'',
         U_sstream_put_u8hex (of_nat (len + 4)),
         U_sstream_put_u8hex (of_nat (drop_bit 16 addr AND 0xFF)),
         U_sstream_put_u8hex (of_nat (drop_bit 8 addr AND 0xFF)),
         U_sstream_put_u8hex (of_nat (addr AND 0xFF))] @ ops @ [put_lit ''FF'', put_line '''']))"

definition dump_next :: action where
  "dump_next = block [
     set_gcf (\<lambda>g. g\<lparr>flashAddress := u32_add (flashAddress g) (flashStep g)\<rparr>),
     set_state ST_DumpFlashSend,
     gcfScheduleEventAction]"

definition ST_DumpFlashWait_handler :: "event \<Rightarrow> action" where
  "ST_DumpFlashWait_handler ev =
    (if ev = EV_RX_PKG_DATA
     then packet_reads [U_bstream_get_u8, U_bstream_get_u8, U_bstream_get_u8, U_bstream_get_u16_le] (\<lambda>(vs, bs).
       if vs ! 0 = 0x18
       then block [
         PL_ClearTimeout,
         if vs ! 2 = 0x00
         then attempt (\<lambda>_. bs_reads [U_bstream_get_u16_le, U_bstream_get_u8, U_bstream_get_u32_le, U_bstream_get_u8] bs)
           (\<lambda>(us, bs1). block [attempt (\<lambda>_. srec_ops (us ! 2) (us ! 3) bs1) print_line, dump_next])
         else if vs ! 2 = 0x09 then dump_next
         else block [
           print_line [put_lit ''failed with status: 0x'', U_sstream_put_u8hex (of_nat (vs ! 2)), put_line ''''],
           PL_ShutDown]]
       else skip)
     else if ev = EV_TIMEOUT then block [puts_lit ''timeout reading flash'', PL_ShutDown]
     else skip)"

end
