(* ===== verification/Gcf_Cmdline.thy ===== *)
theory Gcf_Cmdline
  imports Gcf_Sniff
begin

text \<open>
  The devices and the command line of \<open>gcf.c\<close>: \<open>gcfGetDevices\<close>, \<open>gcfGetDeviceType\<close>,
  \<open>ST_ListDevices\<close>, \<open>gcfProcessCommandline\<close> and \<open>GCF_Init\<close>. What \<open>PL_GetDevices\<close> finds comes
  from the environment; the network option \<open>-p\<close> is compiled out, as in the default build.
\<close>

section \<open>Devices\<close>

text \<open>
  The loop of \<open>gcfGetDevices\<close> over the first \<open>n\<close> devices: the first with a serial number
  whose path or stable path occurs in the path of the command line.
\<close>

definition finds :: "U_SStream \<Rightarrow> byte list \<Rightarrow> fault + bool" where
  "finds ss buf = (case c_string buf of Inl f \<Rightarrow> Inl f | Inr s \<Rightarrow>
     (case U_sstream_find s ss of Inl f \<Rightarrow> Inl f | Inr (b, _) \<Rightarrow> Inr b))"

fun match_device :: "nat \<Rightarrow> Device list \<Rightarrow> U_SStream \<Rightarrow> fault + Device option" where
  "match_device 0 devs ss = Inr None"
| "match_device (Suc n) [] ss = Inl OutOfBounds"
| "match_device (Suc n) (d # devs) ss = (case peek (dev_serial d) 0 of Inl f \<Rightarrow> Inl f
     | Inr c \<Rightarrow> if c = 0 then match_device n devs ss
       else (case finds ss (dev_path d) of Inl f \<Rightarrow> Inl f
         | Inr b1 \<Rightarrow> if b1 then Inr (Some d)
           else (case finds ss (dev_stablepath d) of Inl f \<Rightarrow> Inl f
             | Inr b2 \<Rightarrow> if b2 then Inr (Some d) else match_device n devs ss)))"

text \<open>\<open>U_sstream_init(&ss, &gcf->devpath[0], U_strlen(&gcf->devpath[0]))\<close>\<close>

definition devpath_stream :: "GCF \<Rightarrow> fault + U_SStream" where
  "devpath_stream g = (case U_strlen (devpath g) of Inl f \<Rightarrow> Inl f
     | Inr n \<Rightarrow> Inr (U_sstream_init (Some (devpath g)) n))"

definition PL_GetDevices :: "(int \<Rightarrow> action) \<Rightarrow> action" where
  "PL_GetDevices k = callv (os os_devices) (\<lambda>(n, devs). block [set_gcf (\<lambda>g. g\<lparr>devices := devs\<rparr>), k n])"

definition gcfGetDevices :: action where
  "gcfGetDevices = PL_GetDevices (\<lambda>n. block [
     set_gcf (\<lambda>g. g\<lparr>devCount := (if n > 0 then nat n else 0)\<rparr>),
     attempt (\<lambda>g. peek (devpath g) 0) (\<lambda>c. attempt (\<lambda>g. peek (devSerialNum g) 0) (\<lambda>s.
       if c \<noteq> 0 \<and> s = 0
       then attempt devpath_stream (\<lambda>ss.
         attempt (\<lambda>g. match_device (nat n) (devices g) ss) (\<lambda>m. case m of None \<Rightarrow> skip
           | Some d \<Rightarrow> block [
               zoom (\<lambda>w. devSerialNum (gcf w)) (\<lambda>b w. w\<lparr>gcf := (gcf w)\<lparr>devSerialNum := b\<rparr>\<rparr>)
                 (U_memcpy 0 (dev_serial d) 0 MAX_DEV_SERIALNR_LENGTH),
               gif (\<lambda>g. devBaudrate g = PL_BAUDRATE_UNKNOWN)
                 [set_gcf (\<lambda>g. g\<lparr>devBaudrate := dev_baudrate d\<rparr>)] []]))
       else skip))])"

text \<open>The if-else chain of \<open>gcfGetDeviceType\<close>, in its order.\<close>

definition path_types :: "(string \<times> device_type \<times> baudrate) list" where
  "path_types = [
     (''ttyACM'', DEV_CONBEE_2, PL_BAUDRATE_115200),
     (''ConBee_II'', DEV_CONBEE_2, PL_BAUDRATE_115200),
     (''cu.usbmodemDE'', DEV_CONBEE_2, PL_BAUDRATE_115200),
     (''ttyUSB'', DEV_CONBEE_1, PL_BAUDRATE_38400),
     (''usb-FTDI'', DEV_CONBEE_1, PL_BAUDRATE_38400),
     (''cu.usbserial'', DEV_CONBEE_1, PL_BAUDRATE_38400),
     (''ttyAMA'', DEV_RASPBEE_1, PL_BAUDRATE_38400),
     (''ttyAML'', DEV_RASPBEE_1, PL_BAUDRATE_38400),
     (''ttyS'', DEV_RASPBEE_1, PL_BAUDRATE_38400),
     (''/serial'', DEV_RASPBEE_1, PL_BAUDRATE_38400)]"

fun find_type :: "(string \<times> device_type \<times> baudrate) list \<Rightarrow> U_SStream \<Rightarrow> fault + (device_type \<times> baudrate)" where
  "find_type [] ss = Inr (DEV_UNKNOWN, PL_BAUDRATE_UNKNOWN)"
| "find_type ((s, d, b) # ts) ss = (case U_sstream_find (bytes s) ss of Inl f \<Rightarrow> Inl f
     | Inr (found, _) \<Rightarrow> if found then Inr (d, b) else find_type ts ss)"

text \<open>The file type refines what the path told.\<close>

definition refine_type :: "nat \<Rightarrow> device_type \<times> baudrate \<Rightarrow> device_type \<times> baudrate" where
  "refine_type ftype r = (case r of (d, b) \<Rightarrow>
     if ftype = 60 then (DEV_HIVE, PL_BAUDRATE_115200)
     else if d = DEV_CONBEE_1 \<and> ftype > 9 then (DEV_UNKNOWN, PL_BAUDRATE_38400)
     else if d = DEV_RASPBEE_2 \<and> ftype \<ge> 30 \<and> ftype \<le> 39 then (DEV_RASPBEE_2, PL_BAUDRATE_38400)
     else (d, b))"

definition device_type :: "GCF \<Rightarrow> fault + (device_type \<times> baudrate)" where
  "device_type g = (case peek (devpath g) 0 of Inl f \<Rightarrow> Inl f
     | Inr c \<Rightarrow> (case (if c \<noteq> 0 then (case devpath_stream g of Inl f \<Rightarrow> Inl f | Inr ss \<Rightarrow> find_type path_types ss)
                       else Inr (DEV_UNKNOWN, PL_BAUDRATE_UNKNOWN)) of Inl f \<Rightarrow> Inl f
         | Inr r \<Rightarrow> Inr (refine_type (unat (gcfFileType (gcf_file g))) r)))"

definition gcfGetDeviceType :: "(device_type \<Rightarrow> action) \<Rightarrow> action" where
  "gcfGetDeviceType k = attempt device_type (\<lambda>(d, b). block [
     gif (\<lambda>g. devBaudrate g = PL_BAUDRATE_UNKNOWN) [set_gcf (\<lambda>g. g\<lparr>devBaudrate := b\<rparr>)] [],
     k d])"

definition device_line :: "Device \<Rightarrow> fault + U_SStream stmt list" where
  "device_line d = (case c_string (dev_path d) of Inl f \<Rightarrow> Inl f | Inr path \<Rightarrow>
     (case c_string (dev_serial d) of Inl f \<Rightarrow> Inl f | Inr serial \<Rightarrow>
     (case c_string (dev_name d) of Inl f \<Rightarrow> Inl f | Inr name \<Rightarrow> Inr [
       U_sstream_put_str path, pad_to 18, put_lit ''| '',
       U_sstream_put_str serial, pad_to 32, put_lit ''| '',
       U_sstream_put_str name, put_line ''''])))"

primrec list_devices :: "nat \<Rightarrow> nat \<Rightarrow> action" where
  "list_devices 0 i = skip"
| "list_devices (Suc n) i = block [
     attempt (\<lambda>g. case peek (devices g) i of Inl f \<Rightarrow> Inl f | Inr d \<Rightarrow> device_line d) print_line,
     list_devices n (i + 1)]"

definition ST_ListDevices_handler :: "event \<Rightarrow> action" where
  "ST_ListDevices_handler ev = (if ev = EV_ACTION
     then block [
       gcfGetDevices,
       gif (\<lambda>g. devCount g = 0) [puts_line ''no devices found''] [],
       puts_line ''Path              | Serial      | Type'',
       puts_line ''------------------+-------------+---------------'',
       gget devCount (\<lambda>n. list_devices n 0),
       PL_ShutDown]
     else skip)"

section \<open>Command line\<close>

definition set_task :: "task \<Rightarrow> action" where
  "set_task t = set_gcf (\<lambda>g. g\<lparr>task := t\<rparr>)"

text \<open>The characters \<open>arg[0]\<close> and \<open>arg[1]\<close> of an argument.\<close>

definition char0 :: "byte list \<Rightarrow> byte" where
  "char0 a = (case a of [] \<Rightarrow> 0 | c # cs \<Rightarrow> c)"

definition char1 :: "byte list \<Rightarrow> byte" where
  "char1 a = (case a of c # d # ds \<Rightarrow> d | _ \<Rightarrow> 0)"

text \<open>\<open>U_sstream_get_long\<close> on a whole argument: the number, if the status is OK.\<close>

definition arg_long :: "nat \<Rightarrow> byte list \<Rightarrow> fault + int option" where
  "arg_long L a = (case U_strlen (a @ [0]) of Inl f \<Rightarrow> Inl f | Inr n \<Rightarrow>
     (case U_sstream_get_long L (U_sstream_init (Some (a @ [0])) n) of Inl f \<Rightarrow> Inl f
      | Inr (v, ss) \<Rightarrow> Inr (if ss_status ss = U_SSTREAM_OK then Some v else None)))"

text \<open>
  \<open>ret\<close> stands for returning from \<open>gcfProcessCommandline\<close>, \<open>k\<close> for what follows the option.
\<close>

definition missing_arg :: "(gcf_status \<Rightarrow> action) \<Rightarrow> string \<Rightarrow> action" where
  "missing_arg ret msg = block [PL_Printf DBG_INFO msg [], ret GCF_FAILED]"

definition invalid_arg :: "(gcf_status \<Rightarrow> action) \<Rightarrow> string \<Rightarrow> byte list \<Rightarrow> action" where
  "invalid_arg ret msg a = block [PL_Printf DBG_INFO msg [AStr a], ret GCF_FAILED]"

definition option_d :: "(gcf_status \<Rightarrow> action) \<Rightarrow> byte list \<Rightarrow> action \<Rightarrow> action" where
  "option_d ret a k = attempt (\<lambda>_. U_strlen (a @ [0])) (\<lambda>n.
     if n \<ge> MAX_DEV_PATH_LENGTH then invalid_arg ret ''invalid argument, %s, for parameter -d'' a
     else block [
       zoom (\<lambda>w. devpath (gcf w)) (\<lambda>b w. w\<lparr>gcf := (gcf w)\<lparr>devpath := b\<rparr>\<rparr>) (U_memcpy 0 (a @ [0]) 0 (n + 1)),
       k])"

definition set_file :: "(GCF_File \<Rightarrow> GCF_File) \<Rightarrow> action" where
  "set_file f = set_gcf (\<lambda>g. g\<lparr>gcf_file := f (gcf_file g)\<rparr>)"

definition print_msg :: "out_event \<Rightarrow> action" where
  "print_msg m = (case m of Printf l f a \<Rightarrow> PL_Printf l f a | _ \<Rightarrow> skip)"

text \<open>\<open>GCF_ParseFile(&gcf->file)\<close>\<close>

definition parse_file :: "(int \<Rightarrow> action) \<Rightarrow> action" where
  "parse_file k = reads (\<lambda>w. GCF_ParseFile (ndebug (env w)) (long_bits (env w)) (gcf_file (gcf w))) (\<lambda>r.
     case r of Inl f \<Rightarrow> fails f
     | Inr ((v, msgs), f') \<Rightarrow> block [set_file (\<lambda>_. f'), block (map print_msg msgs), k v])"

definition option_f :: "(gcf_status \<Rightarrow> action) \<Rightarrow> byte list \<Rightarrow> action \<Rightarrow> action" where
  "option_f ret a k = attempt (\<lambda>_. U_strlen (a @ [0])) (\<lambda>n.
     if n \<ge> MAX_DEV_PATH_LENGTH then invalid_arg ret ''invalid argument, %s, for parameter -f'' a
     else block [
       zoom (\<lambda>w. fname (gcf_file (gcf w)))
         (\<lambda>b w. w\<lparr>gcf := (gcf w)\<lparr>gcf_file := (gcf_file (gcf w))\<lparr>fname := b\<rparr>\<rparr>\<rparr>) (U_memcpy 0 (a @ [0]) 0 (n + 1)),
       attempt (\<lambda>g. c_string (fname (gcf_file g))) (\<lambda>path.
       callv (PL_ReadFile path MAX_GCF_FILE_SIZE) (\<lambda>nread.
         if nread \<le> 0
         then block [PL_Printf DBG_INFO ''failed to read file: %s'' [AStr path], ret GCF_FAILED]
         else block [
           PL_Printf DBG_INFO ''read file success: %s (%ld bytes)'' [AStr path, ANum nread],
           set_file (\<lambda>f. f\<lparr>fsize := nat nread\<rparr>),
           parse_file (\<lambda>r. if r \<noteq> 0
             then block [PL_Printf DBG_INFO ''invalid file: %s'' [AStr path], ret GCF_FAILED]
             else k)]))])"

definition option_number :: "(gcf_status \<Rightarrow> action) \<Rightarrow> string \<Rightarrow> (int \<Rightarrow> bool) \<Rightarrow> byte list \<Rightarrow> (int \<Rightarrow> action) \<Rightarrow> action" where
  "option_number ret msg valid a k = reads (\<lambda>w. arg_long (long_bits (env w)) a) (\<lambda>r.
     case r of Inl f \<Rightarrow> fails f
     | Inr None \<Rightarrow> invalid_arg ret msg a
     | Inr (Some v) \<Rightarrow> if valid v then k v else invalid_arg ret msg a)"

definition option_b :: "(gcf_status \<Rightarrow> action) \<Rightarrow> byte list \<Rightarrow> action \<Rightarrow> action" where
  "option_b ret a k = option_number ret ''invalid argument, %s, for parameter -b'' (\<lambda>v. v = 38400 \<or> v = 115200) a (\<lambda>v.
     block [set_gcf (\<lambda>g. g\<lparr>devBaudrate := (if v = 38400 then PL_BAUDRATE_38400 else PL_BAUDRATE_115200)\<rparr>), k])"

definition option_t :: "(gcf_status \<Rightarrow> action) \<Rightarrow> byte list \<Rightarrow> action \<Rightarrow> action" where
  "option_t ret a k = option_number ret ''invalid argument, %s, for parameter -t'' (\<lambda>v. 0 \<le> v \<and> v \<le> 3600) a (\<lambda>v.
     block [set_gcf (\<lambda>g. g\<lparr>maxTime := uadd 64 (nat v * 1000) (startTime g)\<rparr>), k])"

definition option_s :: "(gcf_status \<Rightarrow> action) \<Rightarrow> byte list \<Rightarrow> action \<Rightarrow> action" where
  "option_s ret a k = option_number ret ''invalid argument, %s, for parameter -s'' (\<lambda>v. 11 \<le> v \<and> v \<le> 26) a (\<lambda>v.
     block [set_task T_SNIFF, set_sniff (\<lambda>s. s\<lparr>sniffChannel := v\<rparr>), k])"

definition option_x :: "(gcf_status \<Rightarrow> action) \<Rightarrow> byte list \<Rightarrow> action \<Rightarrow> action" where
  "option_x ret a k = option_number ret ''invalid argument, %s, for parameter -x'' (\<lambda>v. 0 \<le> v \<and> v \<le> 3) a (\<lambda>v.
     block [set_ui (\<lambda>u. u\<lparr>uiDebugLevel := v\<rparr>), k])"

text \<open>An option with an argument that may not start with a dash.\<close>

definition with_arg :: "(gcf_status \<Rightarrow> action) \<Rightarrow> string \<Rightarrow> byte list list \<Rightarrow> (byte list \<Rightarrow> action) \<Rightarrow> action" where
  "with_arg ret msg as k = (case as of [] \<Rightarrow> missing_arg ret msg
     | b # bs \<Rightarrow> if char0 b = 0x2D then missing_arg ret msg else k b)"

text \<open>The option loop, over the arguments from \<open>argv[i]\<close> on.\<close>

fun options :: "(gcf_status \<Rightarrow> action) \<Rightarrow> (gcf_status \<Rightarrow> action) \<Rightarrow> byte list list \<Rightarrow> gcf_status \<Rightarrow> action" where
  "options ret fin [] st = fin st"
| "options ret fin (a # as) st =
    (if char0 a \<noteq> 0x2D then options ret fin as st
     else let c = char1 a in
       if c = 0x72 then block [set_task T_RESET, options ret fin as st]
       else if c = 0x63 then block [set_task T_CONNECT, options ret fin as st]
       else if c = 0x69 then block [set_ui (\<lambda>u. u\<lparr>uiInteractive := True\<rparr>), options ret fin as st]
       else if c = 0x64 then with_arg ret ''missing argument for parameter -d'' as
         (\<lambda>b. option_d ret b (options ret fin (tl as) st))
       else if c = 0x66 then block [set_task T_PROGRAM, with_arg ret ''missing argument for parameter -f'' as
         (\<lambda>b. option_f ret b (options ret fin (tl as) st))]
       else if c = 0x6C then block [set_task T_LIST, set_state ST_ListDevices, options ret fin as GCF_SUCCESS]
       else if c = 0x6B then block [set_task T_DUMP_FLASH, options ret fin as st]
       else if c = 0x62 then with_arg ret ''missing argument for parameter -b'' as
         (\<lambda>b. option_b ret b (options ret fin (tl as) st))
       else if c = 0x74 then with_arg ret ''missing argument for parameter -t'' as
         (\<lambda>b. option_t ret b (options ret fin (tl as) st))
       else if c = 0x73 then (case as of [] \<Rightarrow> missing_arg ret ''missing argument for parameter -s''
         | b # bs \<Rightarrow> option_s ret b (options ret fin bs st))
       else if c = 0x48 then (case as of [] \<Rightarrow> missing_arg ret ''missing argument for parameter -H''
         | b # bs \<Rightarrow> block [set_sniff (\<lambda>s. s\<lparr>sniffHost := b\<rparr>), options ret fin bs st])
       else if c = 0x78 then with_arg ret ''missing argument for parameter -x'' as
         (\<lambda>b. option_x ret b (options ret fin (tl as) st))
       else if c = 0x3F \<or> c = 0x68 then block [set_task T_HELP, options ret fin as GCF_SUCCESS]
       else block [PL_Printf DBG_INFO ''unknown option: %s'' [AStr a], ret GCF_FAILED])"

definition usage_lines :: "string list" where
  "usage_lines = [
     ''usage: GCFFlasher <options>'',
     ''options:'',
     '' -r              force device reboot without programming'',
     '' -f <firmware>   flash firmware file'',
     '' -d <device>     device number or path to use, e.g. 0, /dev/ttyUSB0 or RaspBee'',
     '' -b <baudrate>   use specific baudrate (if not detected automatically)'',
     ''                 38400    RaspBee I, RaspBee II, ConBee I'',
     ''                 115200   ConBee II, ConBee III, Hive, FLS-M'',
     '' -s <channel>    enable sniffer on Zigbee channel (requires sniffer firmware)'',
     ''                 the Wireshark sniffer traffic is send to UDP port 17754'',
     '' -H <host>       send sniffer traffic to Wireshark running on host'',
     ''                 default is 172.0.0.1 (localhost)'',
     '' -c              connect and debug serial protocol'',
     '' -t <timeout>    retry until timeout (seconds) is reached'',
     '' -l              list devices'',
     '' -x <loglevel>   debug log level 0, 1, 3'',
     '' -k              dump flash in SREC format to stdout'',
     ''                 (currently only for ConBee II / RaspBee II)'',
     ''                 requires latest firmware version'',
     '' -i              interactive mode for debugging'',
     '' -h -?           print this help'']"

definition gcfPrintHelp :: action where
  "gcfPrintHelp = block [
     PL_Printf DBG_INFO ''GCFFlasher %s copyright dresden elektronik ingenieurtechnik gmbh'' [],
     PL_Print (concat (map (\<lambda>l. bytes l @ [0x0A]) usage_lines))]"

definition missing_d :: "(gcf_status \<Rightarrow> action) \<Rightarrow> action \<Rightarrow> action" where
  "missing_d ret k = attempt (\<lambda>g. peek (devpath g) 0) (\<lambda>c. if c = 0
     then block [PL_Printf DBG_INFO ''missing -d argument'' [], ret GCF_FAILED] else k)"

definition is_r21 :: "nat \<Rightarrow> bool" where
  "is_r21 fw \<longleftrightarrow> fw AND 0x0000FF00 = 0x00000700"

definition finish_program :: "(gcf_status \<Rightarrow> action) \<Rightarrow> action" where
  "finish_program ret = missing_d ret (attempt (\<lambda>g. peek (fname (gcf_file g)) 0) (\<lambda>c. if c = 0
     then block [PL_Printf DBG_INFO ''missing -f argument'' [], ret GCF_FAILED]
     else block [
       gif (\<lambda>g. maxTime g < startTime g) [set_gcf (\<lambda>g. g\<lparr>maxTime := uadd 64 (10 * 1000) (startTime g)\<rparr>)] [],
       gif (\<lambda>g. devType g = DEV_RASPBEE_1 \<and> is_r21 (fwVersion (gcf_file g)))
         [PL_Printf DBG_DEBUG ''assume RaspBee II'' [], set_gcf (\<lambda>g. g\<lparr>devType := DEV_RASPBEE_2\<rparr>)]
         [gif (\<lambda>g. devType g = DEV_RASPBEE_1 \<and> gcfTargetAddress (gcf_file g) = 0x5000)
           [PL_Printf DBG_DEBUG ''assume RaspBee II'' [], set_gcf (\<lambda>g. g\<lparr>devType := DEV_RASPBEE_2\<rparr>)] []],
       set_state ST_Program,
       ret GCF_SUCCESS]))"

definition finish_with :: "(gcf_status \<Rightarrow> action) \<Rightarrow> handler \<Rightarrow> action" where
  "finish_with ret h = missing_d ret (block [set_state h, ret GCF_SUCCESS])"

definition finish_cmdline :: "(gcf_status \<Rightarrow> action) \<Rightarrow> gcf_status \<Rightarrow> action" where
  "finish_cmdline ret st = block [
     gcfGetDevices,
     gcfGetDeviceType (\<lambda>d. set_gcf (\<lambda>g. g\<lparr>devType := d\<rparr>)),
     gget task (\<lambda>t. case t of
         T_PROGRAM \<Rightarrow> finish_program ret
       | T_CONNECT \<Rightarrow> finish_with ret ST_Connect
       | T_SNIFF \<Rightarrow> finish_with ret ST_SniffConnect
       | T_DUMP_FLASH \<Rightarrow> finish_with ret ST_DumpFlashConnect
       | T_RESET \<Rightarrow> finish_with ret ST_Reset
       | T_HELP \<Rightarrow> block [gcfPrintHelp, PL_ShutDown, ret GCF_SUCCESS]
       | _ \<Rightarrow> ret st)]"

definition reset_options :: action where
  "reset_options = block [
     set_state ST_Void,
     set_substate ST_Void,
     set_ui (\<lambda>u. u\<lparr>uiInteractive := False, uiDebugLevel := 0\<rparr>),
     set_sniff (\<lambda>s. s\<lparr>sniffChannel := 0\<rparr>),
     zoom (\<lambda>w. devpath (gcf w)) (\<lambda>b w. w\<lparr>gcf := (gcf w)\<lparr>devpath := b\<rparr>\<rparr>) (poke 0 0),
     zoom (\<lambda>w. devSerialNum (gcf w)) (\<lambda>b w. w\<lparr>gcf := (gcf w)\<lparr>devSerialNum := b\<rparr>\<rparr>) (poke 0 0),
     set_gcf (\<lambda>g. g\<lparr>devType := DEV_UNKNOWN, devBaudrate := PL_BAUDRATE_UNKNOWN\<rparr>),
     zoom (\<lambda>w. fname (gcf_file (gcf w))) (\<lambda>b w. w\<lparr>gcf := (gcf w)\<lparr>gcf_file := (gcf_file (gcf w))\<lparr>fname := b\<rparr>\<rparr>\<rparr>) (poke 0 0),
     set_file (\<lambda>f. f\<lparr>gcfFileType := 0, fsize := 0\<rparr>),
     set_task T_NONE]"

definition gcfProcessCommandline :: "(gcf_status \<Rightarrow> action) \<Rightarrow> action" where
  "gcfProcessCommandline ret = block [
     reset_options,
     gif (\<lambda>g. length (argv g) = 1) [set_task T_HELP] [],
     gget (\<lambda>g. drop 1 (argv g)) (\<lambda>as. options ret (finish_cmdline ret) as GCF_FAILED)]"

definition ST_Init_handler :: "(event \<Rightarrow> action) \<Rightarrow> event \<Rightarrow> action" where
  "ST_Init_handler he ev = (if ev = EV_PL_STARTED \<or> ev = EV_TIMEOUT
     then gcfProcessCommandline (\<lambda>st. if st = GCF_FAILED then PL_ShutDown else he EV_ACTION)
     else skip)"

section \<open>Initial state\<close>

definition zero_device :: Device where
  "zero_device = \<lparr>dev_baudrate = PL_BAUDRATE_UNKNOWN, dev_name = replicate 32 0, dev_path = replicate 255 0,
     dev_serial = replicate 18 0, dev_stablepath = replicate 255 0\<rparr>"

definition zero_file :: GCF_File where
  "zero_file = \<lparr>fname = replicate 255 0, fsize = 0, fwVersion = 0, gcfFileType = 0, gcfTargetAddress = 0,
     gcfFileSize = 0, gcfCrc = 0, gcfCrc32 = 0, fcontent = (\<lambda>_. 0), dataOffset = 0\<rparr>"

text \<open>The static \<open>gcfLocal\<close> before \<open>GCF_Init\<close>: all zero; the static \<open>gcfSeq\<close> starts at 1.\<close>

definition zero_gcf :: GCF where
  "zero_gcf = \<lparr>argv = [], rp = 0, wp = 0, ascii = replicate 512 0, rxPacket = replicate 256 0, rxPacketLength = 0,
     state = ST_Void, substate = ST_Void, evAction = False,
     ui = \<lparr>uiCurrentLine = 0, uiLines = replicate 32 (replicate 384 0), uiStringStream = U_sstream_init None 0,
       uiDebugLevel = 0, uiInteractive = False, uiInputPos = 0, uiInputSize = 0, uiInputLine = replicate 1024 0\<rparr>,
     retry = 0, flashAddress = 0, flashSize = 0, flashStep = 0, remaining = 0, task = T_NONE, rxstate = rx_init,
     sniff = \<lparr>sniffChannel = 0, sniffHost = [], sniffWp = 0, sniffLength = 0, sniffPacket = replicate 256 0, sniffSeqNum = 0\<rparr>,
     startTime = 0, maxTime = 0, devCount = 0, devices = replicate 4 zero_device, devType = DEV_UNKNOWN,
     devBaudrate = PL_BAUDRATE_UNKNOWN, devpath = replicate 255 0, devSerialNum = replicate 18 0, gcf_file = zero_file,
     gcfSeq = 1\<rparr>"

definition GCF_Init :: "byte list list \<Rightarrow> action" where
  "GCF_Init av = callv PL_Time (\<lambda>t. block [
     set_gcf (\<lambda>g. g\<lparr>rxstate := rx_init, startTime := t, maxTime := 0, devCount := 0, task := T_NONE,
       state := ST_Init, substate := ST_Void, argv := av, wp := 0, evAction := False\<rparr>),
     set_sniff (\<lambda>s. s\<lparr>sniffChannel := 0, sniffHost := bytes ''127.0.0.1''\<rparr>),
     set_ui (\<lambda>u. u\<lparr>uiInteractive := False, uiDebugLevel := 0, uiInputPos := 0, uiInputSize := 0\<rparr>),
     zoom (\<lambda>w. uiInputLine (ui (gcf w)))
       (\<lambda>b w. w\<lparr>gcf := (gcf w)\<lparr>ui := (ui (gcf w))\<lparr>uiInputLine := b\<rparr>\<rparr>\<rparr>) (poke 0 0),
     set_ascii 0 0])"

definition init_pl :: PL_Internal where
  "init_pl = \<lparr>timer = 0, fd = 0, running = True, txbuf = (\<lambda>_. 0), tx_rp = 0, tx_wp = 0\<rparr>"

definition init_world :: "env \<Rightarrow> world" where
  "init_world e = \<lparr>gcf = zero_gcf, platform = init_pl\<lparr>running := False\<rparr>, tick = 0, outs = [], env = e\<rparr>"

end
