(* ===== verification/Gcf_Machine.thy ===== *)
theory Gcf_Machine
  imports Gcf_Cmdline
begin

text \<open>
  The dispatch of \<open>gcf.c\<close>: \<open>GCF_HandleEvent\<close>, the packets of the framed protocol
  (\<open>PROT_Packet\<close>), and the entry point for received bytes (\<open>GCF_Received\<close>).

  Handlers post events from inside a handler, so \<open>GCF_HandleEvent\<close> is recursive through
  the handlers. \<open>run\<close> bounds the nesting by fuel; running out is the fault \<open>NoFuel\<close>, and the
  theory \<open>Gcf_Safety\<close> shows that a fuel of 12 is never used up.
\<close>

section \<open>Dispatch\<close>

text \<open>The call \<open>h(gcf, ev)\<close> through a function pointer.\<close>

definition call_handler :: "(event \<Rightarrow> action) \<Rightarrow> (handler \<Rightarrow> event \<Rightarrow> action) \<Rightarrow> handler \<Rightarrow> event \<Rightarrow> action" where
  "call_handler he disp h ev = (case h of
     ST_Void \<Rightarrow> skip
   | ST_Init \<Rightarrow> ST_Init_handler he ev
   | ST_Program \<Rightarrow> ST_Program_handler gcfGetDevices he ev
   | ST_V1ProgramSync \<Rightarrow> ST_V1ProgramSync_handler he ev
   | ST_V1ProgramWriteHeader \<Rightarrow> ST_V1ProgramWriteHeader_handler he ev
   | ST_V1ProgramUpload \<Rightarrow> ST_V1ProgramUpload_handler he ev
   | ST_V1ProgramValidate \<Rightarrow> ST_V1ProgramValidate_handler ev
   | ST_V3ProgramSync \<Rightarrow> ST_V3ProgramSync_handler he ev
   | ST_V3ProgramUpload \<Rightarrow> ST_V3ProgramUpload_handler he ev
   | ST_V3ProgramWaitID \<Rightarrow> ST_V3ProgramWaitID_handler ev
   | ST_BootloaderConnect \<Rightarrow> ST_BootloaderConnect_handler he ev
   | ST_BootloaderQuery \<Rightarrow> ST_BootloaderQuery_handler he ev
   | ST_Connect \<Rightarrow> ST_Connect_handler ev
   | ST_Connected \<Rightarrow> ST_Connected_handler he ev
   | ST_SniffConnect \<Rightarrow> ST_SniffConnect_handler ev
   | ST_SniffConfig \<Rightarrow> ST_SniffConfig_handler he ev
   | ST_SniffConfigConfirm \<Rightarrow> ST_SniffConfigConfirm_handler ev
   | ST_SniffSyncData \<Rightarrow> ST_SniffSyncData_handler he ev
   | ST_SniffRecvData \<Rightarrow> ST_SniffRecvData_handler ev
   | ST_SniffTeardown \<Rightarrow> ST_SniffTeardown_handler ev
   | ST_DumpFlashConnect \<Rightarrow> ST_DumpFlashConnect_handler ev
   | ST_DumpFlashQueryFirmwareVersion \<Rightarrow> ST_DumpFlashQueryFirmwareVersion_handler he ev
   | ST_DumpFlashSend \<Rightarrow> ST_DumpFlashSend_handler he ev
   | ST_DumpFlashWait \<Rightarrow> ST_DumpFlashWait_handler ev
   | ST_Reset \<Rightarrow> ST_Reset_handler he (\<lambda>e. gget substate (\<lambda>s. disp s e)) ev
   | ST_ResetUart \<Rightarrow> ST_ResetUart_handler he ev
   | ST_ResetFtdi \<Rightarrow> ST_ResetFtdi_handler he ev
   | ST_ResetRaspBee \<Rightarrow> ST_ResetRaspBee_handler he ev
   | ST_ListDevices \<Rightarrow> ST_ListDevices_handler ev)"

text \<open>
  \<open>GCF_HandleEvent\<close> over the call of a handler: \<open>EV_PL_LOOP\<close> only runs a scheduled action,
  except in the state that polls its buffer. (\<open>NET_Step\<close> is empty in the default build.)
\<close>

definition handle_event :: "(handler \<Rightarrow> event \<Rightarrow> action) \<Rightarrow> event \<Rightarrow> action" where
  "handle_event disp ev =
    (if ev = EV_PL_LOOP
     then gget state (\<lambda>s. if s = ST_SniffSyncData then disp s ev
       else gif evAction [set_gcf (\<lambda>g. g\<lparr>evAction := False\<rparr>), gget state (\<lambda>s. disp s EV_ACTION)] [])
     else gget state (\<lambda>s. disp s ev))"

fun run :: "nat \<Rightarrow> handler \<Rightarrow> event \<Rightarrow> action" where
  "run 0 h ev = fails NoFuel"
| "run (Suc n) h ev = call_handler (handle_event (run n)) (run n) h ev"

definition GCF_HandleEvent :: "nat \<Rightarrow> event \<Rightarrow> action" where
  "GCF_HandleEvent n ev = handle_event (run n) ev"

section \<open>Packets\<close>

definition PROT_Packet :: "(event \<Rightarrow> action) \<Rightarrow> byte list \<Rightarrow> action" where
  "PROT_Packet he data = block [Assert (\<lambda>_. length data > 0), attempt (\<lambda>_. peek data 0) (\<lambda>d0. block [
     gif (\<lambda>g. uiInteractive (ui g) \<and> uiInputSize (ui g) \<noteq> 0) []
       [gif (\<lambda>g. d0 \<noteq> 0x81 \<and> task g = T_CONNECT)
         [let printlen = (if length data > (512 - 1) div 2 then (512 - 1) div 2 else length data) in block [
            zoom (\<lambda>w. ascii (gcf w)) (\<lambda>s w. w\<lparr>gcf := (gcf w)\<lparr>ascii := s\<rparr>\<rparr>) (hex_dump (take printlen data) 0),
            attempt (\<lambda>g. c_string (ascii g)) (\<lambda>text. print_line [
              put_lit ''packet: '',
              U_sstream_put_long (int (length data)),
              put_lit '' bytes, '',
              U_sstream_put_str text,
              put_line ''''])]]
         [gcfDebugHex ''recv_packet'' data]],
     if d0 = 0x0B \<and> length data \<ge> 8
     then (if data ! 7 = 0x26 then he EV_PKG_UART_RESET else skip)
     else if d0 = 0x81
     then (if length data < 512
       then block [
         zoom (\<lambda>w. ascii (gcf w)) (\<lambda>s w. w\<lparr>gcf := (gcf w)\<lparr>ascii := s\<rparr>\<rparr>) (U_memcpy 0 data 0 (length data)),
         set_wp (length data),
         he EV_RX_BTL_PKG_DATA]
       else skip)
     else block [
       if d0 = 0x0D \<and> length data \<ge> 9 \<and> data ! 2 = 0
       then print_line [
         put_lit ''firmware version: 0x'',
         U_sstream_put_u32hex (un_le32 (drop 5 data)),
         put_line '''']
       else skip,
       if length data < 256
       then block [
         zoom (\<lambda>w. rxPacket (gcf w)) (\<lambda>p w. w\<lparr>gcf := (gcf w)\<lparr>rxPacket := p\<rparr>\<rparr>) (U_memcpy 0 data 0 (length data)),
         set_gcf (\<lambda>g. g\<lparr>rxPacketLength := length data\<rparr>),
         he EV_RX_PKG_DATA]
       else skip]])]"

section \<open>Received bytes\<close>

text \<open>
  \<open>ascii\<close> counts the stored bytes; at 510 bytes the buffer is emptied and the byte is lost.
\<close>

fun rx_ascii :: "byte list \<Rightarrow> nat \<Rightarrow> (nat \<Rightarrow> action) \<Rightarrow> action" where
  "rx_ascii [] n k = k n"
| "rx_ascii (ch # cs) n k = gget wp (\<lambda>i. if i < 512 - 2
     then block [set_ascii i ch, set_wp (i + 1), set_ascii (i + 1) 0, rx_ascii cs (n + 1) k]
     else block [set_wp 0, set_ascii 0 0, rx_ascii cs n k])"

definition ascii_state :: "handler \<Rightarrow> bool" where
  "ascii_state h \<longleftrightarrow> h \<in> {ST_BootloaderQuery, ST_V1ProgramSync, ST_V1ProgramWriteHeader, ST_V1ProgramUpload,
     ST_V1ProgramValidate}"

text \<open>The receiver's state is a field of \<open>gcf\<close>; \<open>PROT_Packet\<close> does not touch it.\<close>

definition receive_flagged :: "(event \<Rightarrow> action) \<Rightarrow> byte list \<Rightarrow> action" where
  "receive_flagged he data w = (case PROT_ReceiveFlagged (PROT_Packet he) (rxstate (gcf w)) data w of
     Inl f \<Rightarrow> Inl f
   | Inr (rx, err, w1) \<Rightarrow> block [
       set_gcf (\<lambda>g. g\<lparr>rxstate := rx\<rparr>),
       if err \<noteq> 0 then PL_Printf DBG_DEBUG ''received invalid CRC'' [] else skip] w1)"

definition GCF_Received :: "(event \<Rightarrow> action) \<Rightarrow> byte list \<Rightarrow> action" where
  "GCF_Received he data = block [
     Assert (\<lambda>_. length data > 0),
     gget (\<lambda>g. task g = T_SNIFF \<or> ascii_state (state g)) (\<lambda>raw. if raw
       then rx_ascii data 0 (\<lambda>n. block [
         if n > 0 then he EV_RX_ASCII else skip,
         gif (\<lambda>g. task g = T_SNIFF) [] [receive_flagged he data]])
       else receive_flagged he data)]"

end
