(* ===== verification/Gcf_Input.thy ===== *)
theory Gcf_Input
  imports Gcf_Machine
begin

text \<open>
  The interactive input of \<open>gcf.c\<close>: the line editor \<open>GCF_KeyboardInput\<close> and the command
  interpreter \<open>GCF_ProcessInput\<close>. The editor's arrays have their real sizes, so \<open>Gcf_Keys\<close> and
  \<open>Gcf_Lines\<close> can say which lines it handles and which overrun them.
\<close>

section \<open>Commands\<close>

datatype input_command = INone | IHelp | IInvalid | IRead int "byte list option"

text \<open>The bytes of a \<open>0x...\<close> argument; \<open>arg\<close> has room for \<open>n\<close> more.\<close>

primrec hex_args :: "nat \<Rightarrow> U_SStream \<Rightarrow> fault + byte list" where
  "hex_args 0 rs = (case GCF_sstream_get_hexbyte rs of Inl f \<Rightarrow> Inl f | Inr _ \<Rightarrow> Inr [])"
| "hex_args (Suc n) rs = (case GCF_sstream_get_hexbyte rs of Inl f \<Rightarrow> Inl f
     | Inr (None, rs') \<Rightarrow> Inr []
     | Inr (Some b, rs') \<Rightarrow> (case hex_args n rs' of Inl f \<Rightarrow> Inl f | Inr bs \<Rightarrow> Inr (b # bs)))"

definition read_command :: "nat \<Rightarrow> U_SStream \<Rightarrow> fault + input_command" where
  "read_command L rs =
     (case U_sstream_find (bytes '' '') rs of Inl f \<Rightarrow> Inl f | Inr (_, rs1) \<Rightarrow>
     (case U_sstream_skip_whitespace rs1 of Inl f \<Rightarrow> Inl f | Inr rs2 \<Rightarrow>
     (case U_sstream_get_long L rs2 of Inl f \<Rightarrow> Inl f | Inr (param, rs3) \<Rightarrow>
       if ss_status rs3 \<noteq> U_SSTREAM_OK \<or> param > 255 then Inr IInvalid
       else (case U_sstream_skip_whitespace rs3 of Inl f \<Rightarrow> Inl f | Inr rs4 \<Rightarrow>
       (case U_sstream_starts_with (bytes ''0x'') rs4 of Inl f \<Rightarrow> Inl f | Inr hex \<Rightarrow>
         if hex then (case hex_args 32 (U_sstream_seek (U_sstream_pos rs4 + 2) rs4) of Inl f \<Rightarrow> Inl f
           | Inr args \<Rightarrow> Inr (IRead param (Some args)))
         else Inr (IRead param None))))))"

definition parse_input :: "nat \<Rightarrow> byte list \<Rightarrow> nat \<Rightarrow> fault + input_command" where
  "parse_input L buf n = (let rs = U_sstream_init (Some buf) n in
     case U_sstream_starts_with (bytes ''help'') rs of Inl f \<Rightarrow> Inl f | Inr help \<Rightarrow>
       if help then Inr IHelp
       else (case U_sstream_starts_with (bytes ''read '') rs of Inl f \<Rightarrow> Inl f | Inr r1 \<Rightarrow>
       (case U_sstream_starts_with (bytes ''rp '') rs of Inl f \<Rightarrow> Inl f | Inr r2 \<Rightarrow>
         if r1 \<or> r2 then read_command L rs else Inr INone)))"

definition run_command :: "(event \<Rightarrow> action) \<Rightarrow> input_command \<Rightarrow> action" where
  "run_command he c = (case c of
     INone \<Rightarrow> skip
   | IHelp \<Rightarrow> block [
       puts_line ''commands:'',
       UI_Puts (bytes ''rp <id> [hex payload]         | read config parameter id (decimal) and optional'' @ [0x0A]
         @ bytes ''                              | payload as 0x... hex string'' @ [0x0A])]
   | IInvalid \<Rightarrow> puts_line ''invalid argument for parameter <id>''
   | IRead param args \<Rightarrow> (let bs = (case args of None \<Rightarrow> [] | Some bs \<Rightarrow> bs) in block [
       print_line ([put_lit ''> reading parameter: '', U_sstream_put_long param]
         @ concat (map (\<lambda>b. [put_lit '' '', U_sstream_put_long (uint b)]) bs)
         @ [put_line '''']),
       next_seq (\<lambda>seq. gcfCommandQueryParameter he seq (word_of_int param) bs)]))"

definition GCF_ProcessInput :: "(event \<Rightarrow> action) \<Rightarrow> action" where
  "GCF_ProcessInput he = gget (\<lambda>g. uiInputSize (ui g)) (\<lambda>size. if size = 0
     then puts_line ''use 'help' to see a list of available commands''
     else block [
       if size > 0 \<and> size < 1024
       then callv UI_GetWinSize (\<lambda>(w, h). attempt (\<lambda>g. c_string (uiInputLine (ui g))) (\<lambda>line. print_line [
         U_sstream_put_str (0x0A # bytes ''> ''),
         U_sstream_put_str line,
         pad_to (min w (UI_MAX_LINE_LENGTH - 2)),
         put_line '''']))
       else skip,
       reads (\<lambda>w. parse_input (long_bits (env w)) (uiInputLine (ui (gcf w))) (nat size)) (\<lambda>r.
         case r of Inl f \<Rightarrow> fails f | Inr c \<Rightarrow> run_command he c),
       set_ui (\<lambda>u. u\<lparr>uiInputPos := 0, uiInputSize := 0\<rparr>)])"

section \<open>Line editor\<close>

datatype key = KeyEnter | KeyBackspace | KeyDelete | KeyLeft | KeyRight | KeyPos1 | KeyEnd | KeyChar byte | KeyOther

text \<open>The code point constants of \<open>gcf.h\<close>.\<close>

definition key_of :: "nat \<Rightarrow> key" where
  "key_of cp =
    (if cp = 0x0A then KeyEnter
     else if cp = 0x07FFFF00 then KeyBackspace
     else if cp = 0x07FFFF01 then KeyDelete
     else if cp = 0x07FFFF06 then KeyLeft
     else if cp = 0x07FFFF07 then KeyRight
     else if cp = 0x07FFFF09 then KeyPos1
     else if cp = 0x07FFFF0A then KeyEnd
     else if 32 \<le> cp \<and> cp \<le> 126 then KeyChar (of_nat cp)
     else KeyOther)"

text \<open>An array access with an \<open>int\<close> index.\<close>

definition at_int :: "int \<Rightarrow> (nat \<Rightarrow> 'a list stmt) \<Rightarrow> 'a list stmt" where
  "at_int i s = (if i < 0 then fails OutOfBounds else s (nat i))"

text \<open>\<open>for (i = 0; i < n; i++) line[hi - i] = line[hi - (i + 1)];\<close>\<close>

fun shift_up :: "nat \<Rightarrow> int \<Rightarrow> byte list stmt" where
  "shift_up 0 hi buf = Inr buf"
| "shift_up (Suc n) hi buf = (if hi - 1 < 0 then Inl OutOfBounds
     else case peek buf (nat (hi - 1)) of Inl f \<Rightarrow> Inl f
     | Inr c \<Rightarrow> (case poke (nat hi) c buf of Inl f \<Rightarrow> Inl f | Inr buf' \<Rightarrow> shift_up n (hi - 1) buf'))"

definition on_line :: "byte list stmt \<Rightarrow> UI stmt" where
  "on_line = zoom uiInputLine (\<lambda>b u. u\<lparr>uiInputLine := b\<rparr>)"

definition edit :: "key \<Rightarrow> UI stmt" where
  "edit k u = (let pos = uiInputPos u; size = uiInputSize u in case k of
     KeyBackspace \<Rightarrow>
       (if pos > 0 \<and> size > 0
        then block [
          on_line (move_down (nat (size - pos)) (nat (pos - 1)) (nat pos)),
          upd (\<lambda>u. u\<lparr>uiInputPos := pos - 1, uiInputSize := size - 1\<rparr>),
          on_line (at_int (size - 1) (\<lambda>i. poke i 0))] u
        else Inr u)
   | KeyDelete \<Rightarrow>
       (if pos \<ge> 0 \<and> pos < size \<and> size > 0
        then block [
          on_line (move_down (nat (size - pos)) (nat pos) (nat (pos + 1))),
          upd (\<lambda>u. u\<lparr>uiInputSize := size - 1\<rparr>),
          on_line (at_int (size - 1) (\<lambda>i. poke i 0))] u
        else Inr u)
   | KeyLeft \<Rightarrow> Inr (if pos > 0 then u\<lparr>uiInputPos := pos - 1\<rparr> else u)
   | KeyRight \<Rightarrow> Inr (if pos < size then u\<lparr>uiInputPos := pos + 1\<rparr> else u)
   | KeyPos1 \<Rightarrow> Inr (u\<lparr>uiInputPos := 0\<rparr>)
   | KeyEnd \<Rightarrow> Inr (u\<lparr>uiInputPos := size\<rparr>)
   | KeyChar c \<Rightarrow>
       (if size < 1024
        then block [
          on_line (shift_up (nat (size - pos)) size),
          on_line (at_int pos (\<lambda>i. poke i c)),
          upd (\<lambda>u. u\<lparr>uiInputPos := pos + 1, uiInputSize := size + 1\<rparr>),
          on_line (at_int (size + 1) (\<lambda>i. poke i 0))] u
        else Inr u)
   | _ \<Rightarrow> Inr u)"

text \<open>The echo goes through a local array of 384 bytes.\<close>

definition echo_text :: "byte list \<Rightarrow> nat \<Rightarrow> nat \<Rightarrow> fault + byte list" where
  "echo_text line n w =
     (if n > length line \<or> n > 384 then Inl OutOfBounds
      else let spaces = min 383 w - n; i = n + spaces in
        if i \<ge> 384 then Inl OutOfBounds
        else c_string (take n line @ replicate spaces 0x20 @ [0]))"

definition GCF_KeyboardInput :: "(event \<Rightarrow> action) \<Rightarrow> nat \<Rightarrow> action" where
  "GCF_KeyboardInput he cp = block [
     if key_of cp = KeyEnter then GCF_ProcessInput he
     else zoom (\<lambda>w. ui (gcf w)) (\<lambda>u w. w\<lparr>gcf := (gcf w)\<lparr>ui := u\<rparr>\<rparr>) (edit (key_of cp)),
     gget (\<lambda>g. uiInputSize (ui g)) (\<lambda>size. if size > 0 \<and> size < 1024
       then callv UI_GetWinSize (\<lambda>(w, h). block [
         UI_SetCursor 0 h,
         attempt (\<lambda>g. echo_text (uiInputLine (ui g)) (nat size) w) PL_Print,
         gget (\<lambda>g. uiInputPos (ui g)) (\<lambda>pos. UI_SetCursor (nat ((pos + 1) mod 2 ^ 32)) h)])
       else skip)]"

end
