(* ===== verification/Gcf_Invariant.thy ===== *)
theory Gcf_Invariant
  imports Gcf_Input
begin

text \<open>
  The invariant of the program between two events, and rules that walk a handler along its
  statements.

  \<open>core_ok\<close> is about the fields of \<open>GCF\<close> on their own: the arrays have their sizes, the
  indices point into them, and every array that holds a string holds a NUL. \<open>prog_ok\<close> ties
  the state to the firmware file: in the states that upload, the header accounts for all
  bytes of the file. The environment is the debug build on a host with 64-bit \<open>long\<close>, whose
  device list is well-formed and whose \<open>write()\<close> loops end.

  \<open>runs P s Q\<close> is the triple over the three fields a handler decides on (state, task, file);
  the only fault it admits is a failed \<open>Assert\<close>. \<open>steps\<close> is the same for a statement in the
  middle of a block; the two have their own rules so that resolution drives the proofs.
\<close>

named_theorems ok_intro \<open>rules for handlers\<close>
named_theorems core_simps \<open>updates that keep the core invariant\<close>

section \<open>The invariant\<close>

definition nul_in :: "nat \<Rightarrow> byte list \<Rightarrow> bool" where
  "nul_in n buf \<longleftrightarrow> length buf = n \<and> 0 \<in> set buf"

definition device_ok :: "Device \<Rightarrow> bool" where
  "device_ok d \<longleftrightarrow> nul_in 32 (dev_name d) \<and> nul_in 255 (dev_path d) \<and> nul_in 18 (dev_serial d) \<and> nul_in 255 (dev_stablepath d)"

definition devices_ok :: "env \<Rightarrow> bool" where
  "devices_ok e \<longleftrightarrow> (\<forall>t. case os_devices e t of (n, devs) \<Rightarrow> n \<le> 4 \<and> length devs = 4 \<and> (\<forall>d\<in>set devs. device_ok d))"

definition env_ok :: "env \<Rightarrow> bool" where
  "env_ok e \<longleftrightarrow> \<not> ndebug e \<and> long64 e \<and> writes_ok e \<and> devices_ok e"

definition sub_handlers :: "handler set" where
  "sub_handlers = {ST_Void, ST_ResetUart, ST_ResetFtdi, ST_ResetRaspBee}"

definition sniff_ok :: "Sniff \<Rightarrow> bool" where
  "sniff_ok s \<longleftrightarrow> length (sniffPacket s) = 256 \<and> sniffLength s \<le> 255 \<and> sniffSeqNum s < 2 ^ 32
     \<and> 0 \<le> sniffChannel s \<and> sniffChannel s \<le> 26"

text \<open>The line editor: a line that is not empty ends in its array with a NUL, the cursor is on it.\<close>

definition input_ok :: "UI \<Rightarrow> bool" where
  "input_ok u \<longleftrightarrow> length (uiInputLine u) = 1024 \<and> 0 \<le> uiInputPos u \<and> uiInputPos u \<le> uiInputSize u
     \<and> uiInputSize u < 1024 \<and> (0 < uiInputSize u \<longrightarrow> uiInputLine u ! nat (uiInputSize u) = 0)"

lemma input_ok_same: "ui_same u v \<Longrightarrow> input_ok u = input_ok v"
  by (simp add: ui_same_def input_ok_def)

definition core_ok :: "GCF \<Rightarrow> bool" where
  "core_ok g \<longleftrightarrow> length (ascii g) = 512 \<and> ascii g ! 511 = 0 \<and> wp g \<le> 510
     \<and> length (rxPacket g) = 256 \<and> rxPacketLength g \<le> 256 \<and> rx_ok (rxstate g)
     \<and> nul_in 255 (devpath g) \<and> length (devSerialNum g) = 18 \<and> fname_ok (gcf_file g)
     \<and> sniff_ok (sniff g)
     \<and> length (devices g) = 4 \<and> devCount g \<le> 4 \<and> (\<forall>d\<in>set (devices g). device_ok d)
     \<and> substate g \<in> sub_handlers \<and> ui_ok (ui g) \<and> input_ok (ui g)"

text \<open>The states that read the firmware file, directly or in a later state.\<close>

definition upload_states :: "handler set" where
  "upload_states = {ST_Program, ST_BootloaderConnect, ST_BootloaderQuery, ST_V1ProgramSync, ST_V1ProgramWriteHeader,
     ST_V1ProgramUpload, ST_V3ProgramSync, ST_V3ProgramUpload}"

definition prog_ok :: "handler \<Rightarrow> task \<Rightarrow> GCF_File \<Rightarrow> bool" where
  "prog_ok s t f \<longleftrightarrow> (s \<in> upload_states \<or> s = ST_Reset \<and> t = T_PROGRAM \<longrightarrow> file_ok f)"

definition holds :: "(handler \<Rightarrow> task \<Rightarrow> GCF_File \<Rightarrow> bool) \<Rightarrow> world \<Rightarrow> bool" where
  "holds P w \<longleftrightarrow> env_ok (env w) \<and> ring_ok (platform w) \<and> core_ok (gcf w)
     \<and> P (state (gcf w)) (task (gcf w)) (gcf_file (gcf w))"

abbreviation machine_ok :: "world \<Rightarrow> bool" where
  "machine_ok \<equiv> holds prog_ok"

section \<open>Triples\<close>

definition steps :: "(handler \<Rightarrow> task \<Rightarrow> GCF_File \<Rightarrow> bool) \<Rightarrow> action \<Rightarrow> (handler \<Rightarrow> task \<Rightarrow> GCF_File \<Rightarrow> bool) \<Rightarrow> bool" where
  "steps P s Q \<longleftrightarrow> hoare {AssertFailed} (holds P) s (holds Q)"

definition runs :: "(handler \<Rightarrow> task \<Rightarrow> GCF_File \<Rightarrow> bool) \<Rightarrow> action \<Rightarrow> (handler \<Rightarrow> task \<Rightarrow> GCF_File \<Rightarrow> bool) \<Rightarrow> bool" where
  "runs P s Q \<longleftrightarrow> hoare {AssertFailed} (holds P) s (holds Q)"

lemma holds_mono: "holds P w \<Longrightarrow> (\<And>s t f. P s t f \<Longrightarrow> Q s t f) \<Longrightarrow> holds Q w"
  by (simp add: holds_def)

lemma runs_weaken: "steps P s R \<Longrightarrow> (\<And>s t f. R s t f \<Longrightarrow> Q s t f) \<Longrightarrow> runs P s Q"
  unfolding steps_def runs_def by (erule hoare_post) (erule holds_mono)

lemma runs_pre: "runs P' s Q \<Longrightarrow> (\<And>s t f. P s t f \<Longrightarrow> P' s t f) \<Longrightarrow> runs P s Q"
  unfolding runs_def by (erule hoare_pre) (erule holds_mono)

lemma runsD: "runs P s Q \<Longrightarrow> holds P w \<Longrightarrow> case s w of Inl f \<Rightarrow> f = AssertFailed | Inr w' \<Rightarrow> holds Q w'"
  unfolding runs_def hoare_def by (drule spec [of _ w]) (simp split: sum.splits)

lemma steps_runs: "runs P s P \<Longrightarrow> steps P s P"
  by (simp add: steps_def runs_def)

lemma runs_Nil [ok_intro]: "(\<And>s t f. P s t f \<Longrightarrow> Q s t f) \<Longrightarrow> runs P (block []) Q"
  unfolding runs_def by (rule hoare_block_Nil) (erule holds_mono)

lemma runs_Cons [ok_intro]: "steps P s R \<Longrightarrow> runs R (block (t # ss)) Q \<Longrightarrow> runs P (block (s # t # ss)) Q"
  unfolding runs_def steps_def by (rule hoare_block_Cons)

lemma runs_single [ok_intro]: "runs P s Q \<Longrightarrow> runs P (block [s]) Q"
  by simp

lemma runs_if [ok_intro]: "(b \<Longrightarrow> runs P s Q) \<Longrightarrow> (\<not> b \<Longrightarrow> runs P t Q) \<Longrightarrow> runs P (if b then s else t) Q"
  by simp

lemma runs_gif [ok_intro]: "runs P (block ss) Q \<Longrightarrow> runs P (block ts) Q \<Longrightarrow> runs P (gif c ss ts) Q"
  unfolding runs_def gif_def by (rule keeps_cond)

text \<open>What is read from a state with \<open>P\<close>.\<close>

definition at :: "(handler \<Rightarrow> task \<Rightarrow> GCF_File \<Rightarrow> bool) \<Rightarrow> GCF \<Rightarrow> bool" where
  "at P g \<longleftrightarrow> core_ok g \<and> P (state g) (task g) (gcf_file g)"

lemma holds_at: "holds P w \<Longrightarrow> at P (gcf w)"
  by (simp add: holds_def at_def)

lemma runs_gif_at: "(\<And>g. at P g \<Longrightarrow> c g \<Longrightarrow> runs P (block ss) Q) \<Longrightarrow> (\<And>g. at P g \<Longrightarrow> \<not> c g \<Longrightarrow> runs P (block ts) Q) \<Longrightarrow> runs P (gif c ss ts) Q"
  unfolding runs_def gif_def hoare_def cond_def by (simp split: if_split) (meson holds_at)

lemma runs_gget [ok_intro]: "(\<And>g. at P g \<Longrightarrow> runs P (k (f g)) Q) \<Longrightarrow> runs P (gget f k) Q"
  unfolding runs_def gget_def hoare_def reads_def by (meson holds_at)

lemma runs_reads [ok_intro]: "(\<And>w. holds P w \<Longrightarrow> runs P (k (f w)) Q) \<Longrightarrow> runs P (reads f k) Q"
  unfolding runs_def hoare_def reads_def by auto

lemma runs_attempt [ok_intro]:
  assumes "\<And>g. at P g \<Longrightarrow> \<exists>a. f g = Inr a" and "\<And>g a. at P g \<Longrightarrow> f g = Inr a \<Longrightarrow> runs P (k a) Q"
  shows "runs P (attempt f k) Q"
  unfolding attempt_def
proof (rule runs_gget)
  fix g assume "at P g"
  with assms show "runs P (case f g of Inl e \<Rightarrow> fails e | Inr a \<Rightarrow> k a) Q" by fastforce
qed

lemma runs_callv_os [ok_intro]:
  assumes "\<And>e t. env_ok e \<Longrightarrow> runs P (k (f e t)) Q"
  shows "runs P (callv (os f) k) Q"
  unfolding runs_def hoare_def callv_def os_def
proof (intro allI impI)
  fix w assume w: "holds P w"
  then have "holds P (w\<lparr>tick := tick w + 1\<rparr>)" "env_ok (env w)" by (simp_all add: holds_def)
  with assms show "case (case Inr (f (env w) (tick w), w\<lparr>tick := tick w + 1\<rparr>) of Inl f \<Rightarrow> Inl f | Inr (a, w') \<Rightarrow> k a w') of
      Inl f \<Rightarrow> f \<in> {AssertFailed} | Inr w' \<Rightarrow> holds Q w'"
    unfolding runs_def hoare_def by simp
qed

lemmas steps_compound [ok_intro] =
  steps_runs [where s = "block ss" for ss] steps_runs [where s = "if b then s else t" for b s t]
  steps_runs [where s = "gif c ss ts" for c ss ts] steps_runs [where s = "gget f k" for f k]
  steps_runs [where s = "reads f k" for f k] steps_runs [where s = "attempt f k" for f k]
  steps_runs [where s = "callv m k" for m k]

section \<open>Statements\<close>

text \<open>Statements that touch nothing the invariant is about.\<close>

lemma steps_quiet:
  assumes "quiet {AssertFailed} a"
  shows "steps P a P"
  unfolding steps_def
proof (rule quiet_keeps [OF assms])
  show "ui_ok (ui (gcf w))" if "holds P w" for w using that by (simp add: holds_def core_ok_def)
  show "holds P w'" if "quiet_to w w'" "holds P w" for w w'
    using that by (auto simp: quiet_to_def holds_def core_ok_def input_ok_same)
qed

lemma steps_upd:
  assumes "\<And>w. holds P w \<Longrightarrow> holds Q (f w)"
  shows "steps P (upd f) Q"
  unfolding steps_def using assms by (rule hoare_upd)

lemma steps_set_gcf:
  assumes "\<And>g. core_ok g \<Longrightarrow> core_ok (f g)" and "\<And>g. state (f g) = state g" and "\<And>g. task (f g) = task g" and "\<And>g. gcf_file (f g) = gcf_file g"
  shows "steps P (set_gcf f) P"
  unfolding set_gcf_def by (rule steps_upd) (simp add: holds_def assms)

lemma steps_set_pl:
  assumes "\<And>p. ring_ok p \<Longrightarrow> ring_ok (f p)"
  shows "steps P (set_pl f) P"
  unfolding set_pl_def by (rule steps_upd) (simp add: holds_def assms)

lemma steps_emit: "steps P (emit e) P"
  unfolding emit_def by (rule steps_upd) (simp add: holds_def)

lemma core_state [core_simps]: "core_ok (g\<lparr>state := s\<rparr>) = core_ok g" "core_ok (g\<lparr>task := t\<rparr>) = core_ok g"
  "core_ok (g\<lparr>evAction := b\<rparr>) = core_ok g" "core_ok (g\<lparr>retry := n\<rparr>) = core_ok g" "core_ok (g\<lparr>rp := n\<rparr>) = core_ok g"
  "core_ok (g\<lparr>remaining := n\<rparr>) = core_ok g" "core_ok (g\<lparr>flashAddress := n\<rparr>) = core_ok g"
  "core_ok (g\<lparr>flashSize := n\<rparr>) = core_ok g" "core_ok (g\<lparr>flashStep := n\<rparr>) = core_ok g"
  "core_ok (g\<lparr>devType := d\<rparr>) = core_ok g" "core_ok (g\<lparr>devBaudrate := bd\<rparr>) = core_ok g"
  "core_ok (g\<lparr>maxTime := n\<rparr>) = core_ok g" "core_ok (g\<lparr>gcfSeq := q\<rparr>) = core_ok g"
  by (simp_all add: core_ok_def)

lemma steps_set_state: "steps P (set_state s) (\<lambda>s' t f. s' = s \<and> (\<exists>s0. P s0 t f))"
  unfolding set_state_def set_gcf_def by (rule steps_upd) (auto simp: holds_def core_simps)

lemma steps_set_substate: "s \<in> sub_handlers \<Longrightarrow> steps P (set_substate s) P"
  unfolding set_substate_def by (rule steps_set_gcf) (auto simp: core_ok_def)

lemma timer_ring [core_simps]: "ring_ok (p\<lparr>timer := n\<rparr>) = ring_ok p" "ring_ok (p\<lparr>running := b\<rparr>) = ring_ok p"
  "ring_ok (p\<lparr>fd := d\<rparr>) = ring_ok p"
  by (simp_all add: ring_ok_def ring_len_def)

lemma runs_PL_Time [ok_intro]:
  assumes "\<And>n. n < 2 ^ 64 \<Longrightarrow> runs P (k n) Q"
  shows "runs P (callv PL_Time k) Q"
proof -
  have "callv PL_Time k = callv (os os_clock) (\<lambda>c. k (case c of None \<Rightarrow> 0 | Some (sec, nsec) \<Rightarrow> (sec * 1000 + nsec div 1000000) mod 2 ^ 64))"
    by (rule ext) (auto simp: callv_def PL_Time_def os_def split: option.splits)
  then show ?thesis using assms by (auto intro!: runs_callv_os split: option.splits)
qed

lemma steps_SetTimeout: "steps P (PL_SetTimeout ms) P"
  unfolding PL_SetTimeout_def
  by (intro steps_runs runs_PL_Time runs_weaken [OF steps_set_pl]) (simp_all add: core_simps)

lemma steps_ClearTimeout: "steps P PL_ClearTimeout P"
  unfolding PL_ClearTimeout_def by (rule steps_set_pl) (simp add: core_simps)

lemma steps_ShutDown: "steps P PL_ShutDown P"
  unfolding PL_ShutDown_def
  by (rule steps_runs runs_Cons steps_quiet quiet_intro runs_single runs_weaken [OF steps_set_pl] | simp add: core_simps)+

text \<open>\<open>ascii\<close> keeps its size and the NUL at its end.\<close>

lemma steps_ascii:
  assumes "\<And>buf. length buf = 512 \<Longrightarrow> buf ! 511 = 0 \<Longrightarrow> \<exists>buf'. s buf = Inr buf' \<and> length buf' = 512 \<and> buf' ! 511 = 0"
  shows "steps P (zoom (\<lambda>w. ascii (gcf w)) (\<lambda>s w. w\<lparr>gcf := (gcf w)\<lparr>ascii := s\<rparr>\<rparr>) s) P"
  unfolding steps_def hoare_def
proof (intro allI impI)
  fix w assume w: "holds P w"
  then obtain b where "s (ascii (gcf w)) = Inr b" "length b = 512" "b ! 511 = 0"
    using assms [of "ascii (gcf w)"] by (auto simp: holds_def core_ok_def)
  with w show "case zoom (\<lambda>w. ascii (gcf w)) (\<lambda>s w. w\<lparr>gcf := (gcf w)\<lparr>ascii := s\<rparr>\<rparr>) s w of
      Inl f \<Rightarrow> f \<in> {AssertFailed} | Inr w' \<Rightarrow> holds P w'"
    by (auto simp: zoom_def holds_def core_ok_def)
qed

lemma steps_set_ascii: "i < 511 \<or> i = 511 \<and> v = 0 \<Longrightarrow> steps P (set_ascii i v) P"
  unfolding set_ascii_def by (rule steps_ascii) (auto simp: nth_list_update)

lemma steps_set_wp: "n \<le> 510 \<Longrightarrow> steps P (set_wp n) P"
  unfolding set_wp_def by (rule steps_set_gcf) (auto simp: core_ok_def)

lemma steps_clear_rx: "steps P clear_rx P"
  unfolding clear_rx_def by (rule steps_runs runs_Cons runs_single steps_set_wp runs_weaken [OF steps_set_ascii] | simp)+

lemma steps_Assert: "steps P (Assert c) P"
  by (rule steps_quiet) (simp add: quiet_Assert)

lemma steps_puts_line: "steps P (puts_line s) P"
  unfolding puts_line_def by (intro steps_quiet quiet_intro)

lemma steps_print_line: "keeps {} (lbuf 384 384) (block ops) \<Longrightarrow> steps P (print_line ops) P"
  by (intro steps_quiet quiet_intro)

lemma steps_skip: "steps P skip P"
  by (intro steps_quiet quiet_intro)

lemma steps_Puts: "steps P (UI_Puts s) P" "steps P (puts_lit t) P" "steps P (PL_Printf l fmt a) P" "steps P (PL_Print s) P"
  "steps P (PL_MSleep n) P" "steps P UI_UpdateProgress P"
  by (intro steps_quiet quiet_intro)+

lemmas steps_atoms [ok_intro] = steps_Puts steps_skip steps_print_line steps_puts_line steps_Assert steps_clear_rx
  steps_set_wp steps_set_ascii steps_ShutDown steps_ClearTimeout steps_SetTimeout steps_set_substate steps_set_state
  steps_emit steps_set_pl

lemmas runs_atoms [ok_intro] = steps_atoms [THEN runs_weaken]

text \<open>Printing lines: numbers that fit an \<open>unsigned long\<close>, and lists of operations.\<close>

lemma keeps_put_line [line_intro]: "keeps F (lbuf n n) (put_line s)"
  unfolding put_line_def by (rule str_printer.out_stays) simp

lemma keeps_put_long [line_intro]: "0 \<le> z \<Longrightarrow> z < 2 ^ 64 \<Longrightarrow> keeps F (lbuf n n) (U_sstream_put_long z)"
  using put_long_len_stays [of "nat z" F n] by (simp add: nat_less_iff)

lemma keeps_list: "(\<And>s. s \<in> set ss \<Longrightarrow> keeps F I s) \<Longrightarrow> keeps F I (block ss)"
proof (induction ss)
  case (Cons s ss)
  then show ?case by (intro hoare_block_Cons [of F I s I]) auto
qed (simp add: hoare_block_Nil)

lemma keeps_more [line_intro]:
  "keeps F I s \<Longrightarrow> keeps F I (block ss) \<Longrightarrow> keeps F I (block (s # ss))"
  "keeps F I (block ss) \<Longrightarrow> keeps F I (block ts) \<Longrightarrow> keeps F I (block (ss @ ts))"
  "(b \<Longrightarrow> keeps F I (block ss)) \<Longrightarrow> (\<not> b \<Longrightarrow> keeps F I (block ts)) \<Longrightarrow> keeps F I (block (if b then ss else ts))"
proof -
  show "keeps F I s \<Longrightarrow> keeps F I (block ss) \<Longrightarrow> keeps F I (block (s # ss))" by (rule hoare_block_Cons)
  show "keeps F I (block ss) \<Longrightarrow> keeps F I (block ts) \<Longrightarrow> keeps F I (block (ss @ ts))"
    unfolding hoare_def block_append by (rule allI, drule spec, rule impI, drule mp, assumption) (auto split: sum.splits)
  show "(b \<Longrightarrow> keeps F I (block ss)) \<Longrightarrow> (\<not> b \<Longrightarrow> keeps F I (block ts)) \<Longrightarrow> keeps F I (block (if b then ss else ts))"
    by simp
qed

end
