(* ===== verification/Gcf_Posting.thy ===== *)
theory Gcf_Posting
  imports Gcf_Invariant
begin

text \<open>
  Which events a handler posts from inside, and in which state of the machine. The relation
  \<open>posts\<close> is the call graph of \<open>GCF_HandleEvent\<close> through the handlers; \<open>depth\<close> ranks it, so
  that every post goes down. The rest of the theory lets a proof about a handler assume of
  \<open>GCF_HandleEvent\<close> only what \<open>posts\<close> lists (\<open>calls_ok\<close>).
\<close>

section \<open>The posting relation\<close>

text \<open>
  \<open>posts h ev e s\<close>: the handler \<open>h\<close>, called with \<open>ev\<close>, may post \<open>e\<close> while \<open>state\<close> is \<open>s\<close>. Sending
  on a closed port posts \<open>EV_DISCONNECTED\<close>.
\<close>

inductive posts :: "handler \<Rightarrow> event \<Rightarrow> event \<Rightarrow> handler \<Rightarrow> bool" where
  init: "ev \<in> {EV_PL_STARTED, EV_TIMEOUT} \<Longrightarrow> posts ST_Init ev EV_ACTION s"
| program: "posts ST_Program EV_ACTION EV_ACTION ST_Reset"
| reset_done: "ev \<in> {EV_UART_RESET_SUCCESS, EV_FTDI_RESET_SUCCESS, EV_RASPBEE_RESET_SUCCESS} \<Longrightarrow>
    posts ST_Reset ev EV_RESET_SUCCESS ST_Program"
| reset_pretend: "posts ST_Reset EV_UART_RESET_FAILED EV_UART_RESET_SUCCESS s"
| reset_ftdi: "posts ST_Reset EV_FTDI_RESET_FAILED EV_FTDI_RESET_SUCCESS s"
| reset_raspbee: "posts ST_Reset EV_RASPBEE_RESET_FAILED EV_RASPBEE_RESET_SUCCESS s"
| uart_done: "ev \<in> {EV_RX_BTL_PKG_DATA, EV_DISCONNECTED, EV_PKG_UART_RESET} \<Longrightarrow> posts ST_ResetUart ev EV_UART_RESET_SUCCESS s"
| uart_failed: "posts ST_ResetUart EV_TIMEOUT EV_UART_RESET_FAILED s"
| uart_port: "ev \<in> {EV_ACTION, EV_TIMEOUT} \<Longrightarrow> posts ST_ResetUart ev EV_DISCONNECTED s"
| ftdi: "e \<in> {EV_FTDI_RESET_SUCCESS, EV_FTDI_RESET_FAILED} \<Longrightarrow> posts ST_ResetFtdi EV_ACTION e s"
| raspbee: "e \<in> {EV_RASPBEE_RESET_SUCCESS, EV_RASPBEE_RESET_FAILED} \<Longrightarrow> posts ST_ResetRaspBee EV_ACTION e s"
| boot_connect: "posts ST_BootloaderConnect EV_TIMEOUT EV_ACTION ST_BootloaderQuery"
| boot_ascii: "posts ST_BootloaderConnect EV_RX_ASCII EV_RX_ASCII ST_BootloaderQuery"
| boot_query: "posts ST_BootloaderQuery EV_TIMEOUT EV_DISCONNECTED s"
| boot_v1: "posts ST_BootloaderQuery EV_RX_ASCII EV_ACTION ST_V1ProgramSync"
| boot_v3: "posts ST_BootloaderQuery EV_RX_BTL_PKG_DATA EV_ACTION ST_V3ProgramSync"
| v1_sync: "posts ST_V1ProgramSync EV_ACTION EV_DISCONNECTED s"
| v1_ready: "posts ST_V1ProgramSync EV_RX_ASCII EV_ACTION ST_V1ProgramWriteHeader"
| v1_header: "posts ST_V1ProgramWriteHeader EV_ACTION EV_DISCONNECTED s"
| v1_page: "posts ST_V1ProgramUpload EV_RX_ASCII EV_DISCONNECTED s"
| v3_sync: "posts ST_V3ProgramSync EV_ACTION EV_DISCONNECTED s"
| v3_data: "posts ST_V3ProgramUpload EV_RX_BTL_PKG_DATA EV_DISCONNECTED s"
| status: "posts ST_Connected EV_TIMEOUT EV_DISCONNECTED s"
| sniff_config: "posts ST_SniffConfig EV_TIMEOUT EV_DISCONNECTED s"
| sniff_frame: "ev \<in> {EV_RX_ASCII, EV_PL_LOOP} \<Longrightarrow> posts ST_SniffSyncData ev EV_RX_ASCII ST_SniffRecvData"
| dump_version: "posts ST_DumpFlashQueryFirmwareVersion EV_ACTION EV_DISCONNECTED s"
| dump_send: "posts ST_DumpFlashSend EV_ACTION EV_DISCONNECTED s"

lemmas posts_intros [simp] = posts.intros

text \<open>
  How many nested calls of a handler an event needs at most, in the state \<open>s\<close> or, for a
  substate, called from \<open>ST_Reset\<close>.
\<close>

definition event_depth :: "event \<Rightarrow> nat" where
  "event_depth ev =
    (if ev \<in> {EV_RESET_SUCCESS, EV_RESET_FAILED} then 2
     else if ev \<in> {EV_UART_RESET_SUCCESS, EV_FTDI_RESET_SUCCESS, EV_RASPBEE_RESET_SUCCESS} then 3
     else if ev \<in> {EV_FTDI_RESET_FAILED, EV_RASPBEE_RESET_FAILED} then 4
     else if ev = EV_DISCONNECTED then 5
     else if ev = EV_ACTION then 7
     else if ev = EV_UART_RESET_FAILED then 8
     else if ev = EV_RX_ASCII then 9
     else 10)"

definition depth :: "handler \<Rightarrow> event \<Rightarrow> nat" where
  "depth s ev =
    (if s \<in> sub_handlers then event_depth ev - 1
     else if ev = EV_PL_LOOP then 11
     else if s = ST_Program \<and> ev = EV_ACTION \<or> s \<in> {ST_BootloaderConnect, ST_SniffSyncData} \<and> ev = EV_RX_ASCII
     then event_depth ev + 1
     else event_depth ev)"

lemma depth_bounds: "1 \<le> depth s ev" "depth s ev \<le> 11"
  by (auto simp: depth_def event_depth_def)

lemma posts_down: "posts h ev e s \<Longrightarrow> depth s e < depth h ev"
  by (induction rule: posts.induct) (auto simp: depth_def event_depth_def sub_handlers_def)

section \<open>Calls of the dispatcher\<close>

definition calls_ok :: "(event \<Rightarrow> handler \<Rightarrow> bool) \<Rightarrow> (event \<Rightarrow> action) \<Rightarrow> bool" where
  "calls_ok C he \<longleftrightarrow> (\<forall>e P. (\<forall>s t f. P s t f \<longrightarrow> prog_ok s t f \<and> C e s) \<longrightarrow> steps P (he e) prog_ok)"

lemma calls_okD:
  assumes "calls_ok C he"
  shows "(\<And>s t f. P s t f \<Longrightarrow> prog_ok s t f) \<Longrightarrow> (\<And>s t f. P s t f \<Longrightarrow> C e s) \<Longrightarrow> steps P (he e) prog_ok"
  using assms by (simp add: calls_ok_def)

lemma calls_ok_mono: "calls_ok C he \<Longrightarrow> (\<And>e s. D e s \<Longrightarrow> C e s) \<Longrightarrow> calls_ok D he"
  by (simp add: calls_ok_def)

text \<open>Sending posts \<open>EV_DISCONNECTED\<close> when the port is closed.\<close>

lemma holds_putc: "holds P w \<Longrightarrow> \<exists>r w'. PROT_Putc c w = Inr (r, w') \<and> holds P w'"
  using ring_put_pending [of "platform w" c]
  by (auto simp: PROT_Putc_def returns_def set_pl_def upd_def holds_def)

lemma steps_putc: "steps P (call (PROT_Putc c)) P"
  unfolding steps_def hoare_def
proof (intro allI impI)
  fix w assume "holds P w"
  with holds_putc [of P w c] show "case call (PROT_Putc c) w of Inl f \<Rightarrow> f \<in> {AssertFailed} | Inr w' \<Rightarrow> holds P w'"
    by (auto simp: call_def callv_def skip_def)
qed

lemma holds_putc_all: "holds P w \<Longrightarrow> \<exists>k w'. putc_all d r w = Inr (k, w') \<and> holds P w'"
proof (induction d arbitrary: r w)
  case (Cons c d)
  then show ?case using holds_putc [of P w c] by fastforce
qed simp

lemma holds_talk: "talk d w w' \<Longrightarrow> holds P w \<Longrightarrow> holds P w'"
  by (auto simp: talk_def holds_def core_ok_def input_ok_same)

definition may_send :: "(handler \<Rightarrow> task \<Rightarrow> GCF_File \<Rightarrow> bool) \<Rightarrow> (event \<Rightarrow> action) \<Rightarrow> bool" where
  "may_send P he \<longleftrightarrow> steps P (he EV_DISCONNECTED) prog_ok \<and> (\<forall>s t f. P s t f \<longrightarrow> prog_ok s t f)"

lemma may_sendI:
  "calls_ok C he \<Longrightarrow> (\<And>s t f. P s t f \<Longrightarrow> prog_ok s t f) \<Longrightarrow> (\<And>s t f. P s t f \<Longrightarrow> C EV_DISCONNECTED s) \<Longrightarrow> may_send P he"
  by (simp add: may_send_def calls_ok_def)

lemma flush_ok:
  assumes send: "may_send P he" and w: "holds P w"
  shows "case PROT_Flush he w of Inl f \<Rightarrow> f = AssertFailed | Inr (r, w') \<Rightarrow> machine_ok w'"
proof (cases "fd (platform w) = 0")
  case True
  have "steps P (set_pl (\<lambda>p. p\<lparr>tx_wp := 0, tx_rp := 0\<rparr>)) P"
    by (rule steps_set_pl) (simp add: ring_ok_def ring_len_def usub_def)
  moreover have "runs P (block [he EV_DISCONNECTED]) prog_ok"
    using send by (auto simp: may_send_def intro: runs_weaken)
  ultimately have "runs P (block [set_pl (\<lambda>p. p\<lparr>tx_wp := 0, tx_rp := 0\<rparr>), he EV_DISCONNECTED]) prog_ok"
    by (rule runs_Cons)
  with True w show ?thesis
    unfolding PROT_Flush_def returns_def runs_def hoare_def by (auto split: sum.splits)
next
  case False
  with w have "port_open w" "ui_ok (ui (gcf w))" "writes_ok (env w)" "\<not> ndebug (env w)"
    by (auto simp: port_open_def holds_def core_ok_def env_ok_def)
  with flush_talks [of w he] w send show ?thesis
    by (auto simp: may_send_def flush_fault_def dump_fault_def split: sum.splits prod.splits dest: holds_talk intro: holds_mono)
qed

lemma steps_flush:
  assumes "may_send P he"
  shows "steps P (call (PROT_Flush he)) prog_ok"
  unfolding steps_def hoare_def call_def callv_def skip_def using flush_ok [OF assms]
  by (fastforce split: sum.splits prod.splits)

lemma steps_Send:
  assumes "may_send P he"
  shows "steps P (PROT_Send he d) prog_ok"
  unfolding PROT_Send_def steps_def
  by (rule send_keeps) (use steps_putc steps_flush [OF assms] in \<open>simp_all add: steps_def\<close>)

lemma steps_write_port:
  assumes "may_send P he"
  shows "steps P (write_port he d) prog_ok"
  unfolding steps_def hoare_def
proof (intro allI impI)
  fix w assume "holds P w"
  then obtain k w1 where w1: "putc_all d 0 w = Inr (k, w1)" "holds P w1" using holds_putc_all by blast
  then have "write_port he d w = call (PROT_Flush he) w1"
    by (auto simp: write_port_def call_def callv_def PROT_Write_def returns_def skip_def split: sum.splits prod.splits)
  with steps_flush [OF assms] w1 show "case write_port he d w of Inl f \<Rightarrow> f \<in> {AssertFailed} | Inr w' \<Rightarrow> machine_ok w'"
    by (simp add: steps_def hoare_def)
qed

lemma steps_Disconnect:
  assumes "may_send P he"
  shows "steps P (PL_Disconnect he) prog_ok"
proof -
  have he: "steps P (he EV_DISCONNECTED) prog_ok" using assms by (simp add: may_send_def)
  have close: "steps P (cond (\<lambda>w. fd (platform w) \<noteq> 0)
      (block [reads (\<lambda>w. fd (platform w)) (\<lambda>d. emit (Closed d)), set_pl (\<lambda>p. p\<lparr>fd := 0\<rparr>)]) skip) P"
    unfolding steps_def by (rule keeps_cond; fold runs_def) (rule ok_intro | simp add: core_simps)+
  show ?thesis
    unfolding PL_Disconnect_def
    by (unfold steps_def, fold runs_def)
      (rule ok_intro close steps_set_pl runs_weaken [OF he] | simp add: ring_ok_def ring_len_def usub_def)+
qed

lemma holds_Connect: "holds P w \<Longrightarrow> \<exists>r w'. PL_Connect path b w = Inr (r, w') \<and> holds P w'"
  by (auto simp: PL_Connect_def PL_Printf_def cond_def emit_def upd_def skip_def returns_def set_pl_def os_def
      plSetupPort_def holds_def core_simps ring_ok_def ring_len_def usub_def env_ok_def)

lemma runs_connected [ok_intro]:
  assumes "\<And>ok. runs P (k ok) Q"
  shows "runs P (connected k) Q"
  unfolding connected_def devpath_string_def
proof (rule runs_attempt; (rule runs_gget)?)
  show "\<exists>a. c_string (devpath g) = Inr a" if "at P g" for g
    using that by (simp add: at_def core_ok_def nul_in_def c_string_def)
  show "runs P (callv (PL_Connect path (devBaudrate g)) (\<lambda>r. k (r = GCF_SUCCESS))) Q" for path g
    unfolding runs_def
  proof (rule hoare_callv [where R = "\<lambda>_. holds P"])
    show "vhoare {AssertFailed} (holds P) (PL_Connect path (devBaudrate g)) (\<lambda>_. holds P)"
      using holds_Connect [of P _ path "devBaudrate g"] by (fastforce simp: vhoare_def)
  qed (use assms in \<open>simp add: runs_def\<close>)
qed

lemmas steps_connected [ok_intro] = steps_runs [where s = "connected k" for k]

end
