(* ===== verification/Gcf_Handlers.thy ===== *)
theory Gcf_Handlers
  imports Gcf_Posting
begin

text \<open>
  Every handler keeps the machine's invariant, in its own state and for every event, when
  the dispatcher does for the events of \<open>posts\<close>. The only fault is a failed assertion.
\<close>

section \<open>Shared statements\<close>

text \<open>In the state \<open>h\<close>.\<close>

definition here :: "handler \<Rightarrow> handler \<Rightarrow> task \<Rightarrow> GCF_File \<Rightarrow> bool" where
  "here h s t f \<longleftrightarrow> prog_ok s t f \<and> s = h"

lemma here_ok: "here h s t f \<Longrightarrow> prog_ok s t f"
  by (auto simp: here_def)

lemma prog_cases: "s \<notin> upload_states \<Longrightarrow> s \<noteq> ST_Reset \<Longrightarrow> prog_ok s t f" "s \<in> upload_states \<Longrightarrow> prog_ok s t f = file_ok f"
  "prog_ok ST_Reset t f = (t = T_PROGRAM \<longrightarrow> file_ok f)"
  by (auto simp: prog_ok_def upload_states_def)

lemmas prog_simps = here_def prog_cases upload_states_def sub_handlers_def

lemma runs_fix: "(\<And>t0 f0. runs (\<lambda>s t f. P s t f \<and> t = t0 \<and> f = f0) a Q) \<Longrightarrow> runs P a Q"
  unfolding runs_def hoare_def by (auto simp: holds_def)

lemma sub_depth: "depth ST_Void ev < depth ST_Reset ev" "depth ST_Void EV_ACTION < depth ST_Reset EV_UART_RESET_FAILED"
  by (auto simp: depth_def event_depth_def sub_handlers_def)

lemma steps_set_sniff:
  assumes "\<And>s. sniff_ok s \<Longrightarrow> sniff_ok (f s)"
  shows "steps P (set_sniff f) P"
  unfolding set_sniff_def by (rule steps_set_gcf) (auto simp: core_ok_def assms)

lemmas more_atoms = steps_set_gcf steps_set_sniff
lemmas more_atoms_intro [ok_intro] = more_atoms more_atoms [THEN runs_weaken]

lemma runs_next_seq [ok_intro]: "(\<And>seq. runs P (k seq) Q) \<Longrightarrow> runs P (next_seq k) Q"
  unfolding next_seq_def by (rule ok_intro | simp add: core_simps)+

lemmas steps_next_seq [ok_intro] = steps_runs [where s = "next_seq k" for k]

lemma runs_attempt_devpath [ok_intro]: "(\<And>s. runs P (k s) Q) \<Longrightarrow> runs P (devpath_string k) Q"
  unfolding devpath_string_def by (rule ok_intro | simp add: at_def core_ok_def nul_in_def c_string_def)+

lemmas steps_devpath [ok_intro] = steps_runs [where s = "devpath_string k" for k]

lemma runs_ascii_find [ok_intro]:
  assumes "\<And>b. runs P (k b) Q"
  shows "runs P (ascii_find s k) Q"
  unfolding ascii_find_def
proof (rule runs_attempt)
  show "\<exists>a. U_sstream_find (bytes s) (U_sstream_init (Some (ascii g)) (wp g)) = Inr a" if "at P g" for g
    using that find_total [of "U_sstream_init (Some (ascii g)) (wp g)" "bytes s"]
    by (auto simp: at_def core_ok_def U_sstream_init_def)
qed (use assms in auto)

lemma quiet_long_line:
  assumes "\<bar>z\<bar> < 2 ^ 64" and "length a < 300"
  shows "quiet F (print_line [put_lit a, U_sstream_put_long z, put_line b])"
proof (rule quiet_print_line)
  have "hoare {} (lbuf 384 (0 + length a)) (block [U_sstream_put_long z, put_line b]) (lbuf 384 384)"
  proof (rule hoare_block_Cons)
    show "hoare {} (lbuf 384 (0 + length a)) (U_sstream_put_long z) (lbuf 384 384)"
      using assms by (intro hoare_post [OF put_long_lbuf]) (auto intro: lbuf_all)
    show "keeps {} (lbuf 384 384) (block [put_line b])" by (intro hoare_intro line_intro)
  qed
  moreover have "hoare {} (fits 384 0) (put_lit a) (lbuf 384 (0 + length a))"
    using put_str_lbuf [of "{}" 384 0 "bytes a"] by (auto simp: put_lit_def hoare_def fits_def)
  ultimately show "hoare {} (fits 384 0) (block [put_lit a, U_sstream_put_long z, put_line b]) (lbuf 384 384)"
    by (rule hoare_block_Cons [rotated])
qed

lemma retry_seconds: "\<bar>cdiv (to_long (long_bits e) (n mod 2 ^ long_bits e)) 1000\<bar> < 2 ^ 64"
proof -
  have "\<bar>to_long (long_bits e) (n mod 2 ^ long_bits e)\<bar> < 2 ^ 64"
    by (rule to_long_bound [OF long_bits_cases]) simp
  moreover have "\<bar>z\<bar> div 1000 \<le> \<bar>z\<bar>" for z :: int by linarith
  ultimately show ?thesis by (simp add: abs_cdiv)
qed

lemma runs_Retry [ok_intro]:
  assumes "\<And>s t f. P s t f \<Longrightarrow> prog_ok s t f"
  shows "runs P gcfRetry prog_ok"
proof -
  have line: "steps P (print_line [put_lit a, U_sstream_put_long z, put_line b]) P" if "\<bar>z\<bar> < 2 ^ 64" "length a < 300" for a b z
    using that by (intro steps_quiet quiet_long_line)
  show ?thesis
    unfolding gcfRetry_def case_prod_beta fst_conv snd_conv
    by (rule line runs_weaken [OF line] ok_intro | simp add: assms prog_simps retry_seconds [simplified])+
qed

lemma steps_Retry [ok_intro]: "(\<And>s t f. P s t f \<Longrightarrow> prog_ok s t f) \<Longrightarrow> steps P gcfRetry prog_ok"
  using runs_Retry by (simp add: steps_def runs_def)

section \<open>Devices\<close>

lemma devices_env: "env_ok e \<Longrightarrow> os_devices e t = (n, devs) \<Longrightarrow> n \<le> 4 \<and> length devs = 4 \<and> (\<forall>d\<in>set devs. device_ok d)"
  unfolding env_ok_def devices_ok_def by (metis (mono_tags, lifting) case_prod_conv)

lemma takeWhile_shorter: "0 \<in> set buf \<Longrightarrow> length (takeWhile (\<lambda>b. b \<noteq> 0) buf) < length (buf :: byte list)"
  by (induction buf) auto

lemma nul_string: "nul_in n buf \<Longrightarrow> \<exists>s. c_string buf = Inr s \<and> U_strlen buf = Inr (length s) \<and> length s < n"
  using takeWhile_shorter [of buf] by (auto simp: nul_in_def c_string_def U_strlen_eq)

definition inside :: "U_SStream \<Rightarrow> bool" where
  "inside ss \<longleftrightarrow> ss_len ss \<le> length (ss_str ss)"

lemma finds_ok:
  assumes "inside ss" and "nul_in n buf"
  shows "\<exists>b. finds ss buf = Inr b"
proof -
  obtain s where "c_string buf = Inr s" using nul_string [OF assms(2)] by blast
  moreover obtain b p where "U_sstream_find s ss = Inr (b, ss\<lparr>ss_pos := p\<rparr>)"
    using find_total assms(1) unfolding inside_def by blast
  ultimately show ?thesis by (simp add: finds_def)
qed

lemma match_device_ok:
  "inside ss \<Longrightarrow> n \<le> length devs \<Longrightarrow> \<forall>d\<in>set devs. device_ok d \<Longrightarrow>
   \<exists>r. match_device n devs ss = Inr r \<and> (\<forall>d. r = Some d \<longrightarrow> device_ok d)"
proof (induction n devs ss rule: match_device.induct)
  case (3 n d devs ss)
  then have d: "device_ok d" by simp
  obtain b1 b2 where "finds ss (dev_path d) = Inr b1" "finds ss (dev_stablepath d) = Inr b2"
    using finds_ok [of ss] "3.prems"(1) d unfolding device_ok_def by meson
  moreover have "peek (dev_serial d) 0 = Inr (dev_serial d ! 0)" using d by (simp add: device_ok_def nul_in_def)
  ultimately show ?case using 3 d by (cases b1; cases b2) auto
qed auto

lemma devpath_stream_ok: "core_ok g \<Longrightarrow> \<exists>ss. devpath_stream g = Inr ss \<and> inside ss"
  using nul_string [of 255 "devpath g"] by (auto simp: devpath_stream_def core_ok_def inside_def U_sstream_init_def nul_in_def)

lemma steps_serial:
  assumes "device_ok d"
  shows "steps P (zoom (\<lambda>w. devSerialNum (gcf w)) (\<lambda>b w. w\<lparr>gcf := (gcf w)\<lparr>devSerialNum := b\<rparr>\<rparr>)
    (U_memcpy 0 (dev_serial d) 0 MAX_DEV_SERIALNR_LENGTH)) P"
  unfolding steps_def
  by (rule hoare_zoom [where p = "\<lambda>b. length b = 18" and q = "\<lambda>b. length b = 18"])
    (use assms in \<open>auto simp: holds_def core_ok_def hoare_def U_memcpy_eq device_ok_def nul_in_def\<close>)

lemma runs_GetDevices:
  assumes "\<And>n. n \<le> 4 \<Longrightarrow> runs P (k n) Q"
  shows "runs P (PL_GetDevices k) Q"
  unfolding PL_GetDevices_def
proof (rule runs_callv_os)
  fix e t assume "env_ok e"
  obtain n devs where d: "os_devices e t = (n, devs)" by fastforce
  note ok = devices_env [OF \<open>env_ok e\<close> d]
  have "steps P (set_gcf (\<lambda>g. g\<lparr>devices := devs\<rparr>)) P"
    by (rule steps_set_gcf) (use ok in \<open>auto simp: core_ok_def\<close>)
  then have "runs P (block [set_gcf (\<lambda>g. g\<lparr>devices := devs\<rparr>), k n]) Q"
    using assms [of n] ok by (auto intro: runs_Cons runs_single)
  then show "runs P (case os_devices e t of (n, devs) \<Rightarrow> block [set_gcf (\<lambda>g. g\<lparr>devices := devs\<rparr>), k n]) Q"
    by (simp only: d case_prod_conv)
qed

lemma steps_gcfGetDevices [ok_intro]: "steps P gcfGetDevices P"
proof -
  have copy: "runs P (block [
      zoom (\<lambda>w. devSerialNum (gcf w)) (\<lambda>b w. w\<lparr>gcf := (gcf w)\<lparr>devSerialNum := b\<rparr>\<rparr>)
        (U_memcpy 0 (dev_serial d) 0 MAX_DEV_SERIALNR_LENGTH),
      gif (\<lambda>g. devBaudrate g = PL_BAUDRATE_UNKNOWN) [set_gcf (\<lambda>g. g\<lparr>devBaudrate := dev_baudrate d\<rparr>)] []]) P"
    if "device_ok d" for d
    by (rule steps_serial [OF that] ok_intro more_atoms more_atoms [THEN runs_weaken] | simp add: core_simps)+
  have count: "steps P (set_gcf (\<lambda>g. g\<lparr>devCount := (if n > 0 then nat n else 0)\<rparr>)) P" if "n \<le> 4" for n
    using that by (intro steps_set_gcf) (auto simp: core_ok_def)
  have match: "\<exists>r. match_device (nat n) (devices g) ss = Inr r \<and> (\<forall>d. r = Some d \<longrightarrow> device_ok d)"
    if "n \<le> 4" "at P g" "at P g0" "devpath_stream g0 = Inr ss" for n g g0 ss
  proof (rule match_device_ok)
    show "inside ss" using devpath_stream_ok [of g0] that(3,4) by (auto simp: at_def)
    have "nat n \<le> 4" using that(1) by simp
    then show "nat n \<le> length (devices g)" "\<forall>d\<in>set (devices g). device_ok d"
      using that(2) by (auto simp: at_def core_ok_def)
  qed
  have "runs P gcfGetDevices P"
    unfolding gcfGetDevices_def
    apply (rule runs_GetDevices, rule runs_Cons [OF count], assumption, rule runs_single)
    apply (rule runs_attempt, simp add: at_def core_ok_def nul_in_def)+
    apply (rule ok_intro)
     apply (rule runs_attempt, use devpath_stream_ok in \<open>force simp: at_def\<close>)
     apply (rule runs_attempt, use match in blast)
    subgoal for n g c g' s g0 ss g1 m
      using match [of n g1 g0 ss] copy runs_weaken [OF steps_skip] by (cases m) auto
    by (rule runs_weaken [OF steps_skip])
  then show ?thesis by (rule steps_runs)
qed

section \<open>Buffers\<close>

lemma runs_case_prod [ok_intro]: "(\<And>x y. a = (x, y) \<Longrightarrow> runs P (k x y) Q) \<Longrightarrow> runs P (case a of (x, y) \<Rightarrow> k x y) Q"
  by (cases a) simp

lemma zero_ascii: "steps P (zoom (\<lambda>w. ascii (gcf w)) (\<lambda>s w. w\<lparr>gcf := (gcf w)\<lparr>ascii := s\<rparr>\<rparr>) (U_bzero 0 512)) P"
  by (rule steps_ascii) (simp add: U_bzero_eq overwrite_def)

lemma ascii_string: "length buf = 512 \<Longrightarrow> buf ! 511 = 0 \<Longrightarrow> \<exists>s. c_string buf = Inr s"
  using nth_mem [of 511 buf] by (auto simp: c_string_def)

text \<open>In the debug build the code goes on only when the assertion holds.\<close>

lemma runs_Assert:
  assumes "b \<Longrightarrow> runs P (block (s # ss)) Q"
  shows "runs P (block (Assert (\<lambda>_. b) # s # ss)) Q"
  using assms unfolding runs_def hoare_def
  by (auto simp: Assert_def cond_def holds_def env_ok_def fails_def skip_def split: if_splits)

lemma runs_slice:
  assumes "off + n \<le> MAX_GCF_FILE_SIZE" and "\<And>d. length d = n \<Longrightarrow> runs P (k d) Q"
  shows "runs P (attempt (\<lambda>g. file_slice g off n) k) Q"
proof (rule runs_attempt)
  show "\<exists>d. file_slice g off n = Inr d" for g using file_slice_ok [OF assms(1), of g] by blast
  show "runs P (k d) Q" if "file_slice g off n = Inr d" for g d
    using assms(2) file_slice_ok [OF assms(1), of g] that by auto
qed

lemma peek_last: "at P g \<Longrightarrow> at Q h \<Longrightarrow> \<exists>a. peek (ascii h) (wp g - 1) = Inr a"
  by (auto simp: at_def core_ok_def peek_def)

lemma runs_build:
  assumes "runs P (k False 64) Q"
  shows "runs P (reads (\<lambda>w. (ndebug (env w), long_bits (env w))) (\<lambda>(nd, L). k nd L)) Q"
  using assms unfolding runs_def hoare_def reads_def by (simp add: holds_def env_ok_def long_bits_def)

lemma get_u32_bound: "get_u32_le buf i = Inr (n, j) \<Longrightarrow> n < 2 ^ 32"
  using un_le32_bound [of "take 4 (drop i buf)"] le32.get_spec [of i buf] le32.get_fault [of buf i]
  by (cases "i + 4 \<le> length buf") auto

lemma runs_head:
  assumes "runs P (k 9) Q"
  shows "runs P (on_ascii (put_chain [\<lambda>p. put_u8_le p 0x81, \<lambda>p. put_u8_le p 0x84, \<lambda>p. put_u8_le p status,
    \<lambda>p. put_u32_le p offset, \<lambda>p. put_u16_le p (of_nat len)] 0) k) Q"
  unfolding runs_def hoare_def
proof (intro allI impI)
  fix w assume w: "holds P w"
  then have len: "length (ascii (gcf w)) = 512" and nul: "ascii (gcf w) ! 511 = 0" by (auto simp: holds_def core_ok_def)
  define buf where "buf = overwrite 0 (v3_head offset status len) (ascii (gcf w))"
  have "length buf = 512" "buf ! 511 = 0" using len nul by (simp_all add: buf_def nth_overwrite_above)
  then have "holds P (w\<lparr>gcf := (gcf w)\<lparr>ascii := buf\<rparr>\<rparr>)" using w by (simp add: holds_def core_ok_def)
  with assms len show "case on_ascii (put_chain [\<lambda>p. put_u8_le p 0x81, \<lambda>p. put_u8_le p 0x84, \<lambda>p. put_u8_le p status,
    \<lambda>p. put_u32_le p offset, \<lambda>p. put_u16_le p (of_nat len)] 0) k w of Inl f \<Rightarrow> f \<in> {AssertFailed} | Inr w' \<Rightarrow> holds Q w'"
    by (simp add: on_ascii_def v3_head_eq buf_def runs_def hoare_def del: put_chain.simps)
qed

lemma steps_data:
  assumes "length d \<le> 480"
  shows "steps P (zoom (\<lambda>w. ascii (gcf w)) (\<lambda>s w. w\<lparr>gcf := (gcf w)\<lparr>ascii := s\<rparr>\<rparr>) (U_memcpy 9 d 0 (length d))) P"
  by (rule steps_ascii) (use assms in \<open>simp add: U_memcpy_eq nth_overwrite_above\<close>)

lemma runs_remaining:
  "runs P (block (set_gcf (\<lambda>g. g\<lparr>remaining := v\<rparr>) # k v # ss)) Q \<Longrightarrow>
   runs P (block (set_gcf (\<lambda>g. g\<lparr>remaining := v\<rparr>) # gget remaining k # ss)) Q"
  by (simp only: remaining_read)

lemma page_bound:
  assumes "file_ok f" and "page < dataOffset f + gcfFileSize f"
  shows "page + (if 256 < u32_sub (dataOffset f + gcfFileSize f) page then 256
      else u32_sub (dataOffset f + gcfFileSize f) page) \<le> MAX_GCF_FILE_SIZE"
  using assms usub_exact [of page "dataOffset f + gcfFileSize f" 32] by (auto simp: file_ok_def)

section \<open>The dispatcher's contract\<close>

text \<open>
  What a handler needs of \<open>GCF_HandleEvent\<close>: the events and states of \<open>C\<close> are taken care of.
\<close>

locale dispatcher =
  fixes he :: "event \<Rightarrow> action" and C :: "event \<Rightarrow> handler \<Rightarrow> bool"
  assumes calls: "calls_ok C he"
begin

lemmas steps_he = calls_okD [OF calls]
lemmas send = may_sendI [OF calls]

lemma runs_steps: "runs P s prog_ok \<Longrightarrow> steps P s prog_ok"
  by (simp add: steps_def runs_def)

lemma steps_ResetUart: "may_send P he \<Longrightarrow> steps P (gcfCommandResetUart he) prog_ok"
  unfolding gcfCommandResetUart_def
  by (rule runs_steps) (rule runs_weaken [OF steps_Send] ok_intro | simp)+

lemma steps_QueryStatus: "may_send P he \<Longrightarrow> steps P (gcfCommandQueryStatus he) prog_ok"
  unfolding gcfCommandQueryStatus_def
  by (rule runs_steps) (rule runs_weaken [OF steps_Send] ok_intro | simp add: core_simps)+

lemma steps_QueryFirmwareVersion: "may_send P he \<Longrightarrow> steps P (gcfCommandQueryFirmwareVersion he) prog_ok"
  unfolding gcfCommandQueryFirmwareVersion_def by (rule steps_Send)

lemma steps_ReadFlash: "may_send P he \<Longrightarrow> steps P (gcfCommandReadFlash he a n) prog_ok"
  unfolding ReadFlash_eq
  by (rule runs_steps) (rule runs_weaken [OF steps_Send] ok_intro | simp add: core_simps)+

lemmas steps_sending = steps_Send steps_write_port steps_Disconnect steps_ResetUart steps_QueryStatus
  steps_QueryFirmwareVersion steps_ReadFlash
lemmas steps_calls [ok_intro] = steps_he steps_sending [OF send]
lemmas runs_calls [ok_intro] = steps_calls [THEN runs_weaken]

lemmas step_simps = prog_simps at_def core_ok_def

section \<open>Reset and bootloader\<close>

lemma ResetUart_runs:
  assumes "\<And>e s. posts ST_ResetUart ev e s \<Longrightarrow> C e s"
  shows "runs prog_ok (ST_ResetUart_handler he ev) prog_ok"
  unfolding ST_ResetUart_handler_def
  by (rule ok_intro | simp add: step_simps assms)+

lemma ResetFtdi_runs:
  assumes "\<And>e s. posts ST_ResetFtdi ev e s \<Longrightarrow> C e s"
  shows "runs prog_ok (ST_ResetFtdi_handler he ev) prog_ok"
  unfolding ST_ResetFtdi_handler_def PL_ResetFTDI_def
  by (rule ok_intro | simp add: step_simps assms)+

lemma ResetRaspBee_runs:
  assumes "\<And>e s. posts ST_ResetRaspBee ev e s \<Longrightarrow> C e s"
  shows "runs prog_ok (ST_ResetRaspBee_handler he ev) prog_ok"
  unfolding ST_ResetRaspBee_handler_def PL_ResetRaspBee_def
  by (rule ok_intro | simp add: step_simps assms)+

lemma Reset_runs:
  assumes "\<And>e s. posts ST_Reset ev e s \<Longrightarrow> C e s" and sub: "\<And>e. depth ST_Void e < depth ST_Reset ev \<Longrightarrow> runs prog_ok (sub e) prog_ok"
  shows "runs (here ST_Reset) (ST_Reset_handler he sub ev) prog_ok"
proof (rule runs_fix)
  fix t0 f0
  show "runs (\<lambda>s t f. here ST_Reset s t f \<and> t = t0 \<and> f = f0) (ST_Reset_handler he sub ev) prog_ok"
    unfolding ST_Reset_handler_def Let_def
    by (rule runs_pre [OF sub] runs_gif_at ok_intro | simp add: step_simps assms(1) sub_depth)+
qed

lemma BootloaderConnect_runs:
  assumes "\<And>e s. posts ST_BootloaderConnect ev e s \<Longrightarrow> C e s"
  shows "runs (here ST_BootloaderConnect) (ST_BootloaderConnect_handler he ev) prog_ok"
  unfolding ST_BootloaderConnect_handler_def
  by (rule ok_intro | simp add: step_simps assms | intro line_intro hoare_intro)+

lemma BootloaderQuery_runs:
  assumes "\<And>e s. posts ST_BootloaderQuery ev e s \<Longrightarrow> C e s"
  shows "runs (here ST_BootloaderQuery) (ST_BootloaderQuery_handler he ev) prog_ok"
  unfolding ST_BootloaderQuery_handler_def
  by (rule ok_intro zero_ascii runs_weaken [OF zero_ascii] | rule peek_last; assumption | intro line_intro hoare_intro
    | simp add: step_simps assms le32.get_spec)+

lemma Program_runs:
  assumes "\<And>e s. posts ST_Program ev e s \<Longrightarrow> C e s"
  shows "runs (here ST_Program) (ST_Program_handler gcfGetDevices he ev) prog_ok"
  unfolding ST_Program_handler_def
  by (rule ok_intro | simp add: step_simps assms)+

section \<open>Upload\<close>

lemma V1ProgramSync_runs:
  assumes "\<And>e s. posts ST_V1ProgramSync ev e s \<Longrightarrow> C e s"
  shows "runs (here ST_V1ProgramSync) (ST_V1ProgramSync_handler he ev) prog_ok"
  unfolding ST_V1ProgramSync_handler_def Let_def
  by (rule ok_intro | intro line_intro hoare_intro | simp add: step_simps assms ascii_string)+

lemma V1ProgramWriteHeader_runs:
  assumes "\<And>e s. posts ST_V1ProgramWriteHeader ev e s \<Longrightarrow> C e s"
  shows "runs (here ST_V1ProgramWriteHeader) (ST_V1ProgramWriteHeader_handler he ev) prog_ok"
  unfolding ST_V1ProgramWriteHeader_handler_def
  by (rule ok_intro | simp add: step_simps assms v1_header_eq)+

lemma V1ProgramValidate_runs: "runs (here ST_V1ProgramValidate) (ST_V1ProgramValidate_handler ev) prog_ok"
  unfolding ST_V1ProgramValidate_handler_def
  by (rule ok_intro | simp add: step_simps)+

lemma v1_serve_runs:
  assumes "file_ok f0" and "\<And>s. C EV_DISCONNECTED s"
  shows "runs (\<lambda>s t f. here ST_V1ProgramUpload s t f \<and> f = f0) (v1_serve he n) prog_ok"
proof -
  let ?P = "\<lambda>s t f. here ST_V1ProgramUpload s t f \<and> f = f0"
  let ?page = "dataOffset f0 + n * 256" and ?stop = "dataOffset f0 + gcfFileSize f0"
  let ?rest = "u32_sub ?stop ?page"
  let ?len = "if ?rest > 256 then 256 else ?rest"
  have tail: "runs ?P (block [
       if n mod 20 = 0 \<or> ?rest < 256 then UI_UpdateProgress else skip,
       clear_rx,
       attempt (\<lambda>g. file_slice g ?page ?len) (\<lambda>d. write_port he d),
       gif (\<lambda>g. u32_sub (remaining g) ?len = 0)
         [set_state ST_V1ProgramValidate, UI_Puts msg, PL_SetTimeout 25600]
         [PL_SetTimeout 2000]]) prog_ok" if "?page < ?stop" for msg
  proof -
    note slice = runs_slice [OF page_bound [OF assms(1) that]]
    show ?thesis
      by (rule runs_steps [OF slice] ok_intro | simp add: prog_simps assms)+
  qed
  show ?thesis
    unfolding v1_serve_def
  proof (rule runs_gget, unfold case_prod_conv)
    fix g assume "at ?P g"
    then have f: "gcf_file g = f0" by (simp add: at_def)
    show "runs ?P (block [
       Assert (\<lambda>_. dataOffset (gcf_file g) + n * 256 < dataOffset (gcf_file g) + gcfFileSize (gcf_file g)),
       if dataOffset (gcf_file g) + n * 256 \<ge> dataOffset (gcf_file g) + gcfFileSize (gcf_file g) then gcfRetry else skip,
       set_gcf (\<lambda>h. h\<lparr>remaining := u32_sub (dataOffset (gcf_file g) + gcfFileSize (gcf_file g)) (dataOffset (gcf_file g) + n * 256)\<rparr>),
       gget remaining (\<lambda>rest. let len = (if rest > 256 then 256 else rest) in block [
       if n mod 20 = 0 \<or> rest < 256 then UI_UpdateProgress else skip,
       clear_rx,
       attempt (\<lambda>g'. file_slice g' (dataOffset (gcf_file g) + n * 256) len) (\<lambda>d. write_port he d),
       gif (\<lambda>g. u32_sub (remaining g) len = 0)
         [set_state ST_V1ProgramValidate,
          UI_Puts (0x0A # bytes ''done, wait validation...'' @ [0x0A]),
          PL_SetTimeout 25600]
         [PL_SetTimeout 2000]])]) prog_ok"
      unfolding f Let_def
      by (rule runs_Assert) (rule runs_remaining tail ok_intro | simp add: core_simps)+
  qed
qed

lemma V1ProgramUpload_runs:
  assumes "\<And>e s. posts ST_V1ProgramUpload ev e s \<Longrightarrow> C e s"
  shows "runs (here ST_V1ProgramUpload) (ST_V1ProgramUpload_handler he ev) prog_ok"
proof (rule runs_fix)
  fix t0 f0
  let ?P = "\<lambda>s t f. here ST_V1ProgramUpload s t f \<and> t = t0 \<and> f = f0"
  have serve: "runs ?P (v1_serve he n) prog_ok" if "at ?P g" "ev = EV_RX_ASCII" for n g
    by (rule runs_pre [OF v1_serve_runs]) (use that in \<open>auto simp: step_simps assms\<close>)
  show "runs ?P (ST_V1ProgramUpload_handler he ev) prog_ok"
    unfolding ST_V1ProgramUpload_handler_def
    by (rule serve ok_intro | assumption | simp add: step_simps assms(1))+
qed

lemma V3ProgramSync_runs:
  assumes "\<And>e s. posts ST_V3ProgramSync ev e s \<Longrightarrow> C e s"
  shows "runs (here ST_V3ProgramSync) (ST_V3ProgramSync_handler he ev) prog_ok"
  unfolding ST_V3ProgramSync_handler_def
  by (rule ok_intro | simp add: step_simps assms v3_request_eq)+

lemma V3ProgramWaitID_runs: "runs (here ST_V3ProgramWaitID) (ST_V3ProgramWaitID_handler ev) prog_ok"
  unfolding ST_V3ProgramWaitID_handler_def
  by (rule ok_intro | intro line_intro hoare_intro | simp add: step_simps le32.get_spec)+

lemma v3_respond_runs:
  assumes "status = 0 \<Longrightarrow> dataOffset f0 + offset + len \<le> MAX_GCF_FILE_SIZE \<and> len \<le> 480" and "\<And>s. C EV_DISCONNECTED s"
  shows "runs (\<lambda>s t f. here ST_V3ProgramUpload s t f \<and> f = f0) (v3_respond he offset status len) prog_ok"
proof -
  let ?P = "\<lambda>s t f. here ST_V3ProgramUpload s t f \<and> f = f0"
  have finish: "runs ?P (block [
      Assert (\<lambda>_. p > 0),
      Assert (\<lambda>_. p < 512),
      attempt (\<lambda>g. if p \<le> length (ascii g) then Inr (take p (ascii g)) else Inl OutOfBounds) (\<lambda>d. PROT_Send he d),
      UI_UpdateProgress,
      gif (\<lambda>g. remaining g = len) [UI_Puts msg, PL_SetTimeout 20000, set_state ST_V3ProgramWaitID] []]) prog_ok"
    if "p \<le> 512" for p msg
    by (rule runs_steps [where s = "attempt f k" for f k] ok_intro | simp add: step_simps assms(2) that)+
  show ?thesis
  proof (cases "status = 0")
    case True
    note bound = assms(1) [OF True]
    show ?thesis
      unfolding v3_respond_def Let_def
    proof (rule runs_head, simp only: True simp_thms if_True, rule runs_Assert, rule runs_single, rule runs_attempt)
      fix g assume "at ?P g"
      then have f: "gcf_file g = f0" by (simp add: at_def)
      show "\<exists>d. file_slice g (dataOffset (gcf_file g) + offset) len = Inr d"
        using file_slice_ok [of "dataOffset f0 + offset" len g] bound by (auto simp: f)
      fix d assume "file_slice g (dataOffset (gcf_file g) + offset) len = Inr d"
      then have d: "length d = len" using file_slice_ok [of "dataOffset f0 + offset" len g] bound by (auto simp: f)
      have "steps ?P (zoom (\<lambda>w. ascii (gcf w)) (\<lambda>s w. w\<lparr>gcf := (gcf w)\<lparr>ascii := s\<rparr>\<rparr>) (U_memcpy 9 d 0 len)) ?P"
        using steps_data [of d ?P] bound d by simp
      moreover have "9 + len \<le> 512" using bound by simp
      ultimately show "runs ?P (block [
        zoom (\<lambda>w. ascii (gcf w)) (\<lambda>s w. w\<lparr>gcf := (gcf w)\<lparr>ascii := s\<rparr>\<rparr>) (U_memcpy 9 d 0 len),
        block [
          Assert (\<lambda>_. 9 + len > 0),
          Assert (\<lambda>_. 9 + len < 512),
          attempt (\<lambda>g. if 9 + len \<le> length (ascii g) then Inr (take (9 + len) (ascii g)) else Inl OutOfBounds) (\<lambda>d. PROT_Send he d),
          UI_UpdateProgress,
          gif (\<lambda>g. remaining g = len)
            [UI_Puts (0x0A # bytes ''done, wait (up to 20 seconds) for verification'' @ [0x0A]),
             PL_SetTimeout 20000,
             set_state ST_V3ProgramWaitID] []]]) prog_ok"
        by (rule runs_Cons [OF _ runs_single [OF finish]])
    qed
  next
    case False
    have line: "steps ?P (print_line [put_lit ''failed to handle data request, status: '',
        U_sstream_put_long (uint status), put_line '''']) ?P"
      using unsigned_less [of status] by (intro steps_print_line line_intro hoare_intro) (auto intro: order.strict_trans)
    show ?thesis
      unfolding v3_respond_def Let_def
      by (rule runs_head) (simp only: False if_False, rule runs_Cons [OF line], rule runs_single, rule finish, simp)
  qed
qed

lemma v3_check_runs:
  assumes "file_ok f0" and "offset < 2 ^ 32" and "len < 2 ^ 16" and "\<And>s. C EV_DISCONNECTED s"
  shows "runs (\<lambda>s t f. here ST_V3ProgramUpload s t f \<and> f = f0) (v3_check 64 offset len (v3_respond he offset)) prog_ok"
proof -
  let ?P = "\<lambda>s t f. here ST_V3ProgramUpload s t f \<and> f = f0"
  have sum: "uadd 64 offset len = offset + len" using assms(2,3) by (simp add: uadd_exact)
  have rem: "steps ?P (set_gcf (\<lambda>g. g\<lparr>remaining := v\<rparr>)) ?P" for v
    by (rule steps_set_gcf) (simp_all add: core_simps)
  have err: "runs ?P (v3_respond he offset status n) prog_ok" if "status \<noteq> 0" for status n
    using that assms(4) by (intro v3_respond_runs) simp_all
  show ?thesis
    unfolding v3_check_def
  proof (rule runs_Cons [OF rem], rule runs_single, rule runs_gget)
    fix g assume "at ?P g"
    then have f: "gcf_file g = f0" by (simp add: at_def)
    show "runs ?P (if uadd 64 offset len > gcfFileSize (gcf_file g) then v3_respond he offset 1 len
       else if len > 512 - 32 then v3_respond he offset 2 len
       else if len = 0 then v3_respond he offset 3 len
       else block [
         Assert (\<lambda>_. gcfFileSize (gcf_file g) > offset),
         set_gcf (\<lambda>h. h\<lparr>remaining := u32_sub (gcfFileSize (gcf_file g)) offset\<rparr>),
         Assert (\<lambda>g. remaining g < MAX_GCF_FILE_SIZE),
         gget remaining (\<lambda>rest. let len' = (if len < rest then len else rest mod 2 ^ 16) in block [
           Assert (\<lambda>_. len' > 0),
           v3_respond he offset 0 len'])]) prog_ok"
      unfolding f sum
    proof (intro runs_if err)
      assume "\<not> offset + len > gcfFileSize f0" "\<not> len > 512 - 32" "len \<noteq> 0"
      then have bound: "dataOffset f0 + offset + n \<le> MAX_GCF_FILE_SIZE \<and> n \<le> 480" if "n \<le> len" for n
        using assms(1) that by (simp add: file_ok_def)
      have serve: "runs ?P (let len' = (if len < rest then len else rest mod 2 ^ 16) in block [
           Assert (\<lambda>_. len' > 0),
           v3_respond he offset 0 len']) prog_ok" for rest
        unfolding Let_def
        by (intro runs_Assert runs_single v3_respond_runs bound) (use assms(4) in \<open>auto intro: le_trans [OF mod_less_eq_dividend]\<close>)
      show "runs ?P (block [
         Assert (\<lambda>_. gcfFileSize f0 > offset),
         set_gcf (\<lambda>h. h\<lparr>remaining := u32_sub (gcfFileSize f0) offset\<rparr>),
         Assert (\<lambda>g. remaining g < MAX_GCF_FILE_SIZE),
         gget remaining (\<lambda>rest. let len' = (if len < rest then len else rest mod 2 ^ 16) in block [
           Assert (\<lambda>_. len' > 0),
           v3_respond he offset 0 len'])]) prog_ok"
        by (rule runs_Assert) (rule runs_Cons [OF rem], rule runs_Cons [OF steps_Assert], rule runs_single, rule runs_gget, rule serve)
    qed simp_all
  qed
qed

lemma V3ProgramUpload_runs:
  assumes "\<And>e s. posts ST_V3ProgramUpload ev e s \<Longrightarrow> C e s"
  shows "runs (here ST_V3ProgramUpload) (ST_V3ProgramUpload_handler he ev) prog_ok"
proof (rule runs_fix)
  fix t0 f0
  let ?P = "\<lambda>s t f. here ST_V3ProgramUpload s t f \<and> t = t0 \<and> f = f0"
  have length16: "unat (n :: 16 word) < 2 ^ 16" for n using unsigned_less [of n] by simp
  have check: "runs ?P (v3_check 64 n (unat m) (v3_respond he n)) prog_ok"
    if "at ?P g" "n < 2 ^ 32" "ev = EV_RX_BTL_PKG_DATA" for g n and m :: "16 word"
    by (rule runs_pre [OF v3_check_runs]) (use that length16 in \<open>auto simp: step_simps assms\<close>)
  have data: "runs ?P (reads (\<lambda>w. (ndebug (env w), long_bits (env w))) (\<lambda>(nd, L). block [
       if nd then skip else print_line [
         put_lit ''BTL data request, offset: '',
         U_sstream_put_long (to_long L n),
         put_lit '', length: '',
         U_sstream_put_long (int (unat m)),
         put_line ''''],
       v3_check L n (unat m) (v3_respond he n)])) prog_ok"
    if "at ?P g" "get_u32_le buf i = Inr a" "a = (n, j)" "ev = EV_RX_BTL_PKG_DATA" for g n buf i j a and m :: "16 word"
  proof (rule runs_build)
    note n = get_u32_bound [OF that(2) [unfolded that(3)]]
    have "0 \<le> to_long 64 n" "to_long 64 n < 2 ^ 64" "unat m < 2 ^ 64"
      using n length16 [of m] by (simp_all add: to_long_def)
    then have line: "keeps {} (lbuf 384 384) (block [put_lit ''BTL data request, offset: '', U_sstream_put_long (to_long 64 n),
        put_lit '', length: '', U_sstream_put_long (int (unat m)), put_line ''''])"
      by (intro line_intro hoare_intro)
    show "runs ?P (block [if False then skip else print_line [put_lit ''BTL data request, offset: '',
         U_sstream_put_long (to_long 64 n), put_lit '', length: '', U_sstream_put_long (int (unat m)), put_line ''''],
        v3_check 64 n (unat m) (v3_respond he n)]) prog_ok"
      unfolding if_False by (rule runs_Cons [OF steps_print_line [OF line] runs_single [OF check [OF that(1) n that(4)]]])
  qed
  show "runs ?P (ST_V3ProgramUpload_handler he ev) prog_ok"
    unfolding ST_V3ProgramUpload_handler_def
    by (rule data ok_intro | assumption | simp add: step_simps assms(1) le32.get_spec le16.get_spec)+
qed

end

end
