(* ===== verification/Gcf_Traffic.thy ===== *)
theory Gcf_Traffic
  imports Gcf_Handlers
begin

text \<open>
  The handlers that keep a connection, sniff, dump the flash or list the devices keep the
  machine's invariant, like those of \<open>Gcf_Handlers\<close>.
\<close>

section \<open>Packets and lines\<close>

lemma built_total:
  assumes "\<And>s. s \<in> set ss \<Longrightarrow> keeps {} bs_ok s"
  shows "\<exists>d. built n ss = Inr d"
proof -
  have "keeps {} bs_ok (block ss)" by (rule keeps_list) (rule assms)
  from hoare_total [OF this bs_ok_init [of n "replicate n 0"]] show ?thesis by (auto simp: built_def)
qed

lemma zep_packet_total: "len \<le> length packet \<Longrightarrow> \<exists>d. zep_packet channel seq len packet = Inr d"
  unfolding zep_packet_def Let_def
  by (simp only: if_False not_less [symmetric] simp_thms) (rule built_total, auto split: if_splits intro: hoare_intro)

lemma reads_total:
  assumes "set ops \<subseteq> {U_bstream_get_u8, U_bstream_get_u16_le, U_bstream_get_u32_le}" and "bs_ok bs"
  shows "\<exists>vs bs'. bs_reads ops bs = Inr (vs, bs') \<and> bs_ok bs'"
  using assms
proof (induction ops arbitrary: bs)
  case (Cons r rs)
  obtain v bs1 where v: "r bs = Inr (v, bs1)" "bs_ok bs1"
    using Cons.prems r8.get_total r16.get_total r32.get_total by (simp; blast)
  have "set rs \<subseteq> {U_bstream_get_u8, U_bstream_get_u16_le, U_bstream_get_u32_le}" using Cons.prems(1) by simp
  from Cons.IH [OF this v(2)] v(1) show ?case by (auto simp: bs_reads.simps)
qed (simp add: bs_reads.simps)

lemma runs_packet_reads [ok_intro]:
  assumes "set ops \<subseteq> {U_bstream_get_u8, U_bstream_get_u16_le, U_bstream_get_u32_le}"
    and "\<And>vs bs. bs_ok bs \<Longrightarrow> runs P (k (vs, bs)) Q"
  shows "runs P (packet_reads ops k) Q"
  unfolding packet_reads_def
proof (rule runs_attempt)
  have total: "\<exists>vs bs. bs_reads ops (U_bstream_init (Some (rxPacket g)) (rxPacketLength g)) = Inr (vs, bs) \<and> bs_ok bs"
    if "at P g" for g
    by (rule reads_total [OF assms(1) bs_ok_init]) (use that in \<open>simp add: at_def core_ok_def\<close>)
  then show "\<exists>a. bs_reads ops (U_bstream_init (Some (rxPacket g)) (rxPacketLength g)) = Inr a" if "at P g" for g
    using that by blast
  show "runs P (k a) Q" if "at P g" "bs_reads ops (U_bstream_init (Some (rxPacket g)) (rxPacketLength g)) = Inr a" for g a
    using total [OF that(1)] that(2) assms(2) by auto
qed

lemma put_bytes_total: "bs_ok bs \<Longrightarrow> \<exists>ops. put_bytes_from n bs = Inr ops \<and> (\<forall>s\<in>set ops. \<exists>b. s = U_sstream_put_u8hex b)"
proof (induction n arbitrary: bs)
  case (Suc n)
  obtain v bs' where "U_bstream_get_u8 bs = Inr (v, bs')" "bs_ok bs'" using r8.get_total [OF Suc.prems] by blast
  with Suc.IH [of bs'] show ?case by auto
qed simp

lemma keeps_hex_ops: "\<forall>s\<in>set ops. \<exists>b. s = U_sstream_put_u8hex b \<Longrightarrow> keeps F (lbuf n n) (block ops)"
  by (rule keeps_list) (auto intro: printer_stays)

lemma srec_total:
  assumes "bs_ok bs"
  shows "\<exists>ops. srec_ops addr len bs = Inr ops \<and> keeps {} (lbuf 384 384) (block ops)"
proof -
  obtain ops where ops: "put_bytes_from len bs = Inr ops" "\<forall>s\<in>set ops. \<exists>b. s = U_sstream_put_u8hex b"
    using put_bytes_total [OF assms] by blast
  have "keeps {} (lbuf 384 384) (block ([put_lit ''S2'', U_sstream_put_u8hex (of_nat (len + 4)),
      U_sstream_put_u8hex (of_nat (drop_bit 16 addr AND 0xFF)), U_sstream_put_u8hex (of_nat (drop_bit 8 addr AND 0xFF)),
      U_sstream_put_u8hex (of_nat (addr AND 0xFF))] @ ops @ [put_lit ''FF'', put_line '''']))"
    by (intro keeps_hex_ops [OF ops(2)] line_intro hoare_intro)
  with ops(1) show ?thesis by (simp add: srec_ops_def)
qed

lemma sniff_debug_total:
  assumes "core_ok g"
  shows "\<exists>ops. sniff_debug 64 g = Inr ops \<and> keeps {} (lbuf 384 384) (block ops)"
proof -
  have "sniffLength (sniff g) < 2 ^ 63" "sniffSeqNum (sniff g) < 2 ^ 63"
    using assms by (auto simp: core_ok_def sniff_ok_def)
  then have long: "to_long 64 (sniffLength (sniff g)) = int (sniffLength (sniff g))"
      "to_long 64 (sniffSeqNum (sniff g)) = int (sniffSeqNum (sniff g))"
      "sniffLength (sniff g) < 2 ^ 64" "sniffSeqNum (sniff g) < 2 ^ 64"
    by (simp_all add: to_long_def)
  have "keeps {} (lbuf 384 384) (block (concat (map (\<lambda>c. [U_sstream_put_u8hex c, put_lit '' '']) cs)))" for cs
    by (rule keeps_list) (auto intro: printer_stays put_lit_stays)
  then show ?thesis
    using assms long
    by (auto simp: sniff_debug_def core_ok_def sniff_ok_def simp del: append_Cons append.simps intro!: line_intro hoare_intro)
qed

section \<open>Sniffer\<close>

lemma sniff_config_total:
  assumes "core_ok g"
  shows "\<exists>ss. sniff_config (sniffChannel (sniff g)) (U_sstream_init (Some (replicate 128 0)) 128) = Inr ss \<and> ss_pos ss \<le> length (ss_str ss)"
proof -
  let ?ch = "sniffChannel (sniff g)"
  have ch: "\<bar>?ch\<bar> < 2 ^ 64" using assms by (auto simp: core_ok_def sniff_ok_def)
  have long: "hoare {} (lbuf 128 12) (block [U_sstream_put_long ?ch, U_sstream_put_str [0x0A],
      U_sstream_put_str ([0x0A] @ bytes ''sniff'' @ [0x0A])]) (lbuf 128 128)"
  proof (rule hoare_block_Cons)
    show "hoare {} (lbuf 128 12) (U_sstream_put_long ?ch) (lbuf 128 128)"
      by (rule hoare_post [OF put_long_lbuf [OF ch]]) (auto intro: lbuf_all)
    show "keeps {} (lbuf 128 128) (block [U_sstream_put_str [0x0A], U_sstream_put_str ([0x0A] @ bytes ''sniff'' @ [0x0A])])"
      by (intro hoare_intro line_intro)
  qed
  have "hoare {} (lbuf 128 0) (sniff_config ?ch) (lbuf 128 128)"
    unfolding sniff_config_def by (rule hoare_block_Cons [OF put_str_lbuf])+ (use long in \<open>simp add: numeral_eq_Suc\<close>)
  moreover have "lbuf 128 0 (U_sstream_init (Some (replicate 128 0)) 128)" by (rule lbuf_init) simp_all
  ultimately show ?thesis
    by (auto dest!: hoare_total simp: lbuf_def ss_ok_def)
qed

lemma ascii_byte: "at P g \<Longrightarrow> i < 512 \<Longrightarrow> \<exists>c. peek (ascii g) i = Inr c"
  by (simp add: at_def core_ok_def)

lemma sync_loop_total: "r < length buf \<Longrightarrow> w < length buf \<Longrightarrow> \<exists>i. sync_loop buf r w = Inr i \<and> r \<le> i \<and> i \<le> max r w"
proof (induction buf r w rule: sync_loop.induct)
  case (1 buf r w)
  show ?case
  proof (cases "buf ! r \<noteq> 1 \<and> r < w")
    case True
    with 1 obtain i where "sync_loop buf (r + 1) w = Inr i" "r + 1 \<le> i" "i \<le> max (r + 1) w"
      by (auto simp: peek_def)
    with True 1 show ?thesis by (subst sync_loop.simps) auto
  qed (use 1 in \<open>subst sync_loop.simps, auto\<close>)
qed

lemma move_down_spec:
  "i \<le> r \<Longrightarrow> r + n \<le> 511 \<Longrightarrow> length buf = 512 \<Longrightarrow> buf ! 511 = 0 \<Longrightarrow>
   \<exists>buf'. move_down n i r buf = Inr buf' \<and> length buf' = 512 \<and> buf' ! 511 = (0 :: byte)"
  by (induction n arbitrary: i r buf) (auto simp: nth_list_update)

lemma steps_sniff_copy [ok_intro]: "steps P (sniff_copy n) P"
proof (induction n)
  case (Suc n)
  have put: "runs P (block (Assert (\<lambda>g. sniffWp (sniff g) < 256) # Assert (\<lambda>g. rp g < 512) #
      attempt (\<lambda>g. peek (ascii g) (rp g)) (\<lambda>c. gget (\<lambda>g. sniffWp (sniff g)) (\<lambda>i.
         zoom (\<lambda>w. sniffPacket (sniff (gcf w)))
           (\<lambda>p w. w\<lparr>gcf := (gcf w)\<lparr>sniff := (sniff (gcf w))\<lparr>sniffPacket := p\<rparr>\<rparr>\<rparr>) (poke i c))) # ss)) P"
    if "runs P (block ss) P" for ss
    unfolding runs_def hoare_def
  proof (intro allI impI)
    fix w assume w: "holds P w"
    define w1 where "w1 = w\<lparr>gcf := (gcf w)\<lparr>sniff := (sniff (gcf w))\<lparr>sniffPacket :=
      (sniffPacket (sniff (gcf w)))[sniffWp (sniff (gcf w)) := ascii (gcf w) ! rp (gcf w)]\<rparr>\<rparr>\<rparr>"
    have "holds P w1" using w by (simp add: w1_def holds_def core_ok_def sniff_ok_def)
    then have "case block ss w1 of Inl f \<Rightarrow> f \<in> {AssertFailed} | Inr w' \<Rightarrow> holds P w'"
      using that by (simp add: runs_def hoare_def)
    with w show "case block (Assert (\<lambda>g. sniffWp (sniff g) < 256) # Assert (\<lambda>g. rp g < 512) #
      attempt (\<lambda>g. peek (ascii g) (rp g)) (\<lambda>c. gget (\<lambda>g. sniffWp (sniff g)) (\<lambda>i.
         zoom (\<lambda>w. sniffPacket (sniff (gcf w)))
           (\<lambda>p w. w\<lparr>gcf := (gcf w)\<lparr>sniff := (sniff (gcf w))\<lparr>sniffPacket := p\<rparr>\<rparr>\<rparr>) (poke i c))) # ss) w of
        Inl f \<Rightarrow> f \<in> {AssertFailed} | Inr w' \<Rightarrow> holds P w'"
      by (simp add: Assert_def cond_def skip_def fails_def holds_def env_ok_def core_ok_def sniff_ok_def attempt_def gget_def
          reads_def zoom_def w1_def)
  qed
  show ?case
    unfolding sniff_copy.simps
    by (rule steps_runs, rule put) (rule Suc [THEN runs_weaken] Suc ok_intro | simp add: core_simps sniff_ok_def)+
qed (simp add: steps_skip)

lemmas runs_sniff_copy [ok_intro] = steps_sniff_copy [THEN runs_weaken]

lemma steps_move_down:
  assumes "w \<le> 510"
  shows "steps P (zoom (\<lambda>w. ascii (gcf w)) (\<lambda>s w. w\<lparr>gcf := (gcf w)\<lparr>ascii := s\<rparr>\<rparr>) (move_down (w - r) 0 r)) P"
proof (rule steps_ascii)
  fix buf :: "byte list" assume "length buf = 512" "buf ! 511 = 0"
  then show "\<exists>buf'. move_down (w - r) 0 r buf = Inr buf' \<and> length buf' = 512 \<and> buf' ! 511 = 0"
    using assms move_down_spec [of 0 r "w - r" buf] by (cases "r \<le> w") auto
qed

lemma sniff_stop_runs: "runs (here h) (sniff_stop ev) prog_ok"
  unfolding sniff_stop_def by (rule ok_intro | simp add: prog_simps)+

lemma steps_sniff_deliver [ok_intro]: "steps P sniff_deliver P"
proof -
  have debug: "runs P (reads (\<lambda>w. long_bits (env w)) (\<lambda>L. attempt (sniff_debug L) print_line)) P"
    unfolding runs_def hoare_def
  proof (intro allI impI)
    fix w assume w: "holds P w"
    then obtain ops where ops: "sniff_debug 64 (gcf w) = Inr ops" "keeps {} (lbuf 384 384) (block ops)"
      using sniff_debug_total [of "gcf w"] by (auto simp: holds_def)
    have "steps P (print_line ops) P" by (rule steps_print_line [OF ops(2)])
    with w ops(1) show "case reads (\<lambda>w. long_bits (env w)) (\<lambda>L. attempt (sniff_debug L) print_line) w of
        Inl f \<Rightarrow> f \<in> {AssertFailed} | Inr w' \<Rightarrow> holds P w'"
      by (simp add: reads_def attempt_def gget_def holds_def env_ok_def long_bits_def steps_def hoare_def)
  qed
  show ?thesis
    unfolding sniff_deliver_def
    by (rule debug ok_intro | simp add: sniff_ok_def zep_packet_total at_def core_ok_def)+
qed

lemmas runs_sniff_deliver [ok_intro] = steps_sniff_deliver [THEN runs_weaken]

section \<open>Device list\<close>

lemma fits_put [OF refl]: "m = k + length s \<Longrightarrow> m + 1 < n \<Longrightarrow> hoare F (fits n m) (block ss) Q \<Longrightarrow> hoare F (fits n k) (block (U_sstream_put_str s # ss)) Q"
  by (rule hoare_block_Cons [OF put_str_fits]) simp_all

lemma fits_pad: "m + 1 < n \<Longrightarrow> m \<le> k \<Longrightarrow> k + 1 < n \<Longrightarrow> hoare F (fits n k) (block ss) Q \<Longrightarrow> hoare F (fits n k) (block (pad_to m # ss)) Q"
proof (rule hoare_block_Cons)
  assume m: "m + 1 < n" "m \<le> k" "k + 1 < n"
  have "\<exists>ss'. pad_to m ss = Inr ss' \<and> fits n k ss'" if f: "fits n k ss" for ss
  proof -
    have "pad_to m ss = Inr (if ss_pos ss < m then ss_write (replicate (m - ss_pos ss) 0x20) ss else ss)"
      using f m by (intro pad_to_eq) (auto simp: fits_def lbuf_def)
    moreover have "lbuf n k (ss_write (replicate (m - ss_pos ss) 0x20) ss)" if "ss_pos ss < m"
      using f m that by (intro lbuf_weaken [OF lbuf_write]) (auto simp: fits_def lbuf_def)
    ultimately show ?thesis using f by (auto simp: fits_def)
  qed
  then show "hoare F (fits n k) (pad_to m) (fits n k)" by (fastforce simp: hoare_def)
qed

lemma device_line_ok:
  assumes "device_ok d"
  shows "\<exists>ops. device_line d = Inr ops \<and> (\<forall>F. quiet F (print_line ops))"
proof -
  obtain path where path: "c_string (dev_path d) = Inr path" "length path < 255"
    using assms nul_string [of 255 "dev_path d"] by (auto simp: device_ok_def)
  obtain serial where serial: "c_string (dev_serial d) = Inr serial" "length serial < 18"
    using assms nul_string [of 18 "dev_serial d"] by (auto simp: device_ok_def)
  obtain name where name: "c_string (dev_name d) = Inr name"
    using assms nul_string [of 32 "dev_name d"] by (auto simp: device_ok_def)
  have stay: "hoare {} (fits 384 380) (block [U_sstream_put_str name, put_line '''']) (lbuf 384 384)"
    by (rule hoare_pre [where P' = "lbuf 384 384"]) (intro hoare_intro line_intro, auto simp: fits_def intro: lbuf_all)
  have weak: "hoare F (fits 384 k) s Q" if "hoare F (fits 384 k') s Q" "k \<le> k'" for F k k' s and Q :: "U_SStream \<Rightarrow> bool"
    by (rule hoare_pre [OF that(1)]) (rule fits_weaken [OF _ that(2)])
  have "hoare {} (fits 384 0) (block [U_sstream_put_str path, pad_to 18, put_lit ''| '', U_sstream_put_str serial, pad_to 32,
      put_lit ''| '', U_sstream_put_str name, put_line '''']) (lbuf 384 384)"
    unfolding put_lit_def
    apply (rule fits_put, use path in simp)
    apply (rule weak [where k' = 260], rule fits_pad; simp?)
    apply (rule fits_put, simp, rule fits_put, use serial in simp)
    apply (rule weak [where k' = 300], rule fits_pad; simp?)
    by (rule fits_put, simp, rule weak [OF stay], simp) (use path serial in simp_all)
  then show ?thesis using path serial name by (auto simp: device_line_def intro: quiet_print_line)
qed

lemma runs_list_devices: "i + n \<le> 4 \<Longrightarrow> runs P (list_devices n i) P"
proof (induction n arbitrary: i)
  case 0
  show ?case by (simp add: runs_weaken [OF steps_skip])
next
  case (Suc n)
  let ?line = "\<lambda>g. case peek (devices g) i of Inl f \<Rightarrow> Inl f | Inr d \<Rightarrow> device_line d"
  have line: "\<exists>ops. ?line g = Inr ops \<and> (\<forall>F. quiet F (print_line ops))" if "at P g" for g
    using that Suc.prems device_line_ok [of "devices g ! i"] by (simp add: at_def core_ok_def)
  have "runs P (attempt ?line print_line) P"
  proof (rule runs_attempt)
    show "\<exists>a. ?line g = Inr a" if "at P g" for g using line [OF that] by blast
    show "runs P (print_line a) P" if "at P g" "?line g = Inr a" for g a
      using line [OF that(1)] that(2) by (intro runs_weaken [OF steps_quiet]) auto
  qed
  moreover have "runs P (list_devices n (i + 1)) P" using Suc by simp
  ultimately show ?case
    unfolding list_devices.simps by (rule runs_Cons [OF steps_runs runs_single])
qed

section \<open>The handlers\<close>

context dispatcher
begin

lemma Connect_runs: "runs (here ST_Connect) (ST_Connect_handler ev) prog_ok"
  unfolding ST_Connect_handler_def
  by (rule ok_intro | simp add: step_simps)+

lemma Connected_runs:
  assumes "\<And>e s. posts ST_Connected ev e s \<Longrightarrow> C e s"
  shows "runs (here ST_Connected) (ST_Connected_handler he ev) prog_ok"
proof (rule runs_pre [OF _ here_ok])
  show "runs prog_ok (ST_Connected_handler he ev) prog_ok"
    unfolding ST_Connected_handler_def
    by (rule ok_intro | simp add: step_simps assms)+
qed

lemma SniffConnect_runs: "runs (here ST_SniffConnect) (ST_SniffConnect_handler ev) prog_ok"
  unfolding ST_SniffConnect_handler_def
  by (rule ok_intro | simp add: step_simps sniff_ok_def)+

lemma SniffConfig_runs:
  assumes "\<And>e s. posts ST_SniffConfig ev e s \<Longrightarrow> C e s"
  shows "runs (here ST_SniffConfig) (ST_SniffConfig_handler he ev) prog_ok"
proof (rule runs_pre [OF _ here_ok])
  have stop: "runs prog_ok (sniff_stop ev) prog_ok"
    unfolding sniff_stop_def by (rule ok_intro | simp add: prog_simps)+
  have send: "runs prog_ok (attempt (\<lambda>g. sniff_config (sniffChannel (sniff g)) (U_sstream_init (Some (replicate 128 0)) 128))
      (\<lambda>ss. write_port he (take (ss_pos ss) (ss_str ss)))) prog_ok" if "ev = EV_TIMEOUT"
    by (rule runs_attempt, use sniff_config_total in \<open>force simp: at_def\<close>)
      (rule ok_intro | simp add: step_simps assms that)+
  show "runs prog_ok (ST_SniffConfig_handler he ev) prog_ok"
    unfolding ST_SniffConfig_handler_def
    by (rule stop runs_steps [OF send] send ok_intro | simp add: step_simps assms)+
qed

lemma SniffConfigConfirm_runs: "runs (here ST_SniffConfigConfirm) (ST_SniffConfigConfirm_handler ev) prog_ok"
  unfolding ST_SniffConfigConfirm_handler_def
  by (rule sniff_stop_runs ok_intro | simp add: step_simps sniff_ok_def)+

lemma SniffRecvData_runs: "runs (here ST_SniffRecvData) (ST_SniffRecvData_handler ev) prog_ok"
  unfolding ST_SniffRecvData_handler_def
  by (rule sniff_stop_runs ok_intro steps_move_down | simp add: step_simps sniff_ok_def le_trans [OF diff_le_self])+

lemma SniffTeardown_runs: "runs (here ST_SniffTeardown) (ST_SniffTeardown_handler ev) prog_ok"
  unfolding ST_SniffTeardown_handler_def
  by (rule ok_intro | simp add: step_simps)+

lemma DumpFlashConnect_runs: "runs (here ST_DumpFlashConnect) (ST_DumpFlashConnect_handler ev) prog_ok"
  unfolding ST_DumpFlashConnect_handler_def gcfScheduleEventAction_def
  by (rule ok_intro | simp add: step_simps)+

lemma DumpFlashQueryFirmwareVersion_runs:
  assumes "\<And>e s. posts ST_DumpFlashQueryFirmwareVersion ev e s \<Longrightarrow> C e s"
  shows "runs (here ST_DumpFlashQueryFirmwareVersion) (ST_DumpFlashQueryFirmwareVersion_handler he ev) prog_ok"
  unfolding ST_DumpFlashQueryFirmwareVersion_handler_def gcfScheduleEventAction_def
  by (rule ok_intro | simp add: step_simps assms)+

lemma DumpFlashSend_runs:
  assumes "\<And>e s. posts ST_DumpFlashSend ev e s \<Longrightarrow> C e s"
  shows "runs (here ST_DumpFlashSend) (ST_DumpFlashSend_handler he ev) prog_ok"
proof (rule runs_pre [OF _ here_ok])
  have send: "steps prog_ok (gget flashAddress (\<lambda>a. gcfCommandReadFlash he a 32)) prog_ok" if "ev = EV_ACTION"
    by (rule runs_steps ok_intro | simp add: step_simps assms that)+
  show "runs prog_ok (ST_DumpFlashSend_handler he ev) prog_ok"
    unfolding ST_DumpFlashSend_handler_def
    by (rule send ok_intro | simp add: step_simps)+
qed

lemma dump_next_runs: "runs (here ST_DumpFlashWait) dump_next prog_ok"
  unfolding dump_next_def gcfScheduleEventAction_def
  by (rule ok_intro | simp add: step_simps)+

lemma DumpFlashWait_runs: "runs (here ST_DumpFlashWait) (ST_DumpFlashWait_handler ev) prog_ok"
proof -
  let ?rest = "\<lambda>bs. bs_reads [U_bstream_get_u16_le, U_bstream_get_u8, U_bstream_get_u32_le, U_bstream_get_u8] bs"
  have srec: "runs (here ST_DumpFlashWait) (attempt (\<lambda>_. ?rest bs) (\<lambda>(us, bs1).
      block [attempt (\<lambda>_. srec_ops (us ! 2) (us ! 3) bs1) print_line, dump_next])) prog_ok" if bs: "bs_ok bs" for bs
  proof (rule runs_attempt)
    have total: "\<exists>us bs1. ?rest bs = Inr (us, bs1) \<and> bs_ok bs1" by (rule reads_total) (use bs in simp_all)
    then show "\<exists>a. ?rest bs = Inr a" by blast
    fix a assume "?rest bs = Inr a"
    with total obtain us bs1 where a: "a = (us, bs1)" "bs_ok bs1" by auto
    have "steps (here ST_DumpFlashWait) (attempt (\<lambda>_. srec_ops (us ! 2) (us ! 3) bs1) print_line) (here ST_DumpFlashWait)"
      by (rule steps_runs, rule runs_attempt) (use srec_total [OF a(2), of "us ! 2" "us ! 3"] in \<open>auto intro: runs_weaken [OF steps_print_line]\<close>)
    then show "runs (here ST_DumpFlashWait) (case a of (us, bs1) \<Rightarrow>
        block [attempt (\<lambda>_. srec_ops (us ! 2) (us ! 3) bs1) print_line, dump_next]) prog_ok"
      by (auto simp: a intro: runs_Cons runs_single dump_next_runs)
  qed
  show ?thesis
    unfolding ST_DumpFlashWait_handler_def
    by (rule srec dump_next_runs ok_intro | simp add: step_simps | intro line_intro hoare_intro)+
qed

lemma ListDevices_runs: "runs (here ST_ListDevices) (ST_ListDevices_handler ev) prog_ok"
  unfolding ST_ListDevices_handler_def
  by (rule runs_list_devices ok_intro | simp add: step_simps)+

lemma SniffSyncData_runs:
  assumes "\<And>e s. posts ST_SniffSyncData ev e s \<Longrightarrow> C e s"
  shows "runs (here ST_SniffSyncData) (ST_SniffSyncData_handler he ev) prog_ok"
proof -
  let ?P = "here ST_SniffSyncData"
  let ?none = "block [set_rp 0, set_wp 0]"
  have none: "runs ?P ?none prog_ok"
    unfolding set_rp_def by (rule ok_intro | simp add: step_simps)+
  have rp: "runs ?P (set_rp n) prog_ok" "steps ?P (set_rp n) ?P" for n
    unfolding set_rp_def by (rule ok_intro | simp add: step_simps)+
  have found: "runs ?P (block [set_rp (i + 2), set_state ST_SniffRecvData, he EV_RX_ASCII]) prog_ok"
    if "ev = EV_RX_ASCII \<or> ev = EV_PL_LOOP" for i
    by (rule rp ok_intro | simp add: step_simps assms that)+
  have frame: "runs ?P (let len = unat c1 in block [
             set_sniff (\<lambda>s. s\<lparr>sniffWp := 0, sniffLength := len\<rparr>),
             if len < 8 then set_rp (i + 1)
             else if 2 + len < u32_sub w i
             then attempt (\<lambda>g. peek (ascii g) (i + 2 + len)) (\<lambda>e. if e = 0x04
               then block [set_rp (i + 2), set_state ST_SniffRecvData, he EV_RX_ASCII]
               else set_rp (i + 1))
             else skip]) prog_ok"
    if "ev = EV_RX_ASCII \<or> ev = EV_PL_LOOP" "i \<le> w" "w \<le> 510" for i w and c1 :: byte
  proof -
    have "u32_sub w i = w - i" using that(2,3) by (simp add: usub_exact)
    moreover have "unat c1 \<le> 255" using byte_bound [of c1] by simp
    moreover have "i + 2 + unat c1 < 512" if "2 + unat c1 < w - i" using that \<open>w \<le> 510\<close> by linarith
    ultimately show ?thesis
      unfolding Let_def
      by (simp only:) (rule found [OF that(1)] rp ascii_byte ok_intro | assumption | simp add: prog_simps sniff_ok_def)+
  qed
  have sync: "runs ?P (sniff_sync he) prog_ok" if "ev = EV_RX_ASCII \<or> ev = EV_PL_LOOP"
    unfolding sniff_sync_def Let_def [of ?none]
  proof (rule runs_gget, unfold case_prod_conv, rule runs_if [OF runs_attempt none])
    fix g assume "at ?P g" "rp g < wp g"
    then have w: "wp g \<le> 510" by (simp add: at_def core_ok_def)
    have loop: "\<exists>i. sync_loop (ascii h) (rp g) (wp g) = Inr i \<and> i \<le> wp g" if "at ?P h" for h
      using sync_loop_total [of "rp g" "ascii h" "wp g"] that w \<open>rp g < wp g\<close> by (auto simp: at_def core_ok_def)
    show "\<exists>a. sync_loop (ascii h) (rp g) (wp g) = Inr a" if "at ?P h" for h using loop [OF that] by blast
    fix h i assume "at ?P h" "sync_loop (ascii h) (rp g) (wp g) = Inr i"
    then have i: "i \<le> wp g" using loop [of h] by force
    have first: "runs ?P (attempt (\<lambda>g. peek (ascii g) (i + 1)) k) prog_ok" if "i + 1 < wp g" "\<And>c. runs ?P (k c) prog_ok" for k
      using that w by (intro runs_attempt ascii_byte) auto
    have start: "runs ?P (attempt (\<lambda>g. peek (ascii g) i) k) prog_ok" if "\<And>c. runs ?P (k c) prog_ok" for k
      using that w i by (intro runs_attempt ascii_byte) auto
    show "runs ?P (block [
         set_rp i,
         attempt (\<lambda>g. peek (ascii g) i) (\<lambda>c. if c = 0x01 \<and> i + 1 < wp g
           then attempt (\<lambda>g. peek (ascii g) (i + 1)) (\<lambda>c1. let len = unat c1 in block [
             set_sniff (\<lambda>s. s\<lparr>sniffWp := 0, sniffLength := len\<rparr>),
             if len < 8 then set_rp (i + 1)
             else if 2 + len < u32_sub (wp g) i
             then attempt (\<lambda>g. peek (ascii g) (i + 2 + len)) (\<lambda>e. if e = 0x04
               then block [set_rp (i + 2), set_state ST_SniffRecvData, he EV_RX_ASCII]
               else set_rp (i + 1))
             else skip])
           else ?none)]) prog_ok"
      by (rule runs_Cons [OF rp(2)], rule runs_single, rule start, rule runs_if, rule first, simp)
        (rule frame none; use that i w in simp)+
  qed
  show ?thesis
    unfolding ST_SniffSyncData_handler_def
    by (rule sniff_stop_runs sync ok_intro | simp add: step_simps sniff_ok_def)+
qed

end

end
