(* ===== verification/Gcf_Start.thy ===== *)
theory Gcf_Start
  imports Gcf_Traffic
begin

text \<open>
  The command line keeps the machine's invariant: whatever the arguments are, \<open>ST_Init\<close> ends
  in a state of the invariant, and \<open>T_PROGRAM\<close> is only ever started with an accepted file.
\<close>

section \<open>Numbers\<close>

lemma skip_blanks_total:
  "len \<le> length s \<Longrightarrow> \<exists>s1 len1. skip_blanks s len = Inr (s1, len1) \<and> length s1 + len = length s + len1"
proof (induction s len rule: skip_blanks.induct)
  case (2 s len)
  then show ?case by (cases s) auto
qed simp

lemma strtol_digits_total: "k \<le> length s \<Longrightarrow> \<exists>r. strtol_digits L s i k r0 e = Inr r"
proof (induction k arbitrary: s i r0 e)
  case (Suc k)
  then show ?case by (cases s) (auto simp: Let_def)
qed simp

lemma strtol_total:
  assumes "len < length s"
  shows "\<exists>r. U_strtol L s len = Inr r"
proof -
  obtain s1 len1 where s1: "skip_blanks s len = Inr (s1, len1)" "length s1 + len = length s + len1"
    using skip_blanks_total [of len s] assms by auto
  then have "len1 < length s1" using assms by linarith
  define i0 where "i0 = (if s1 ! 0 = 0x2D then 1 else 0 :: nat)"
  have "len1 - i0 \<le> length (drop i0 s1)" using \<open>len1 < length s1\<close> by (simp add: i0_def)
  then obtain i r e where "strtol_digits L (drop i0 s1) i0 (len1 - i0) 0 0 = Inr (i, r, e)"
    using strtol_digits_total [of "len1 - i0" "drop i0 s1" L i0 0 0] by auto
  moreover have "peek s1 0 = Inr (s1 ! 0)" using \<open>len1 < length s1\<close> by (cases s1) simp_all
  ultimately show ?thesis using s1(1) by (simp add: U_strtol_def Let_def i0_def)
qed

lemma strlen_arg: "\<exists>n. U_strlen (a @ [0]) = Inr n \<and> n \<le> length a \<and> (a @ [0]) ! n = 0"
proof -
  let ?n = "length (takeWhile (\<lambda>b. b \<noteq> 0) (a @ [0]))"
  have "?n < length (a @ [0])" by (rule takeWhile_shorter) simp
  moreover have "(a @ [0]) ! ?n = 0" using nth_length_takeWhile [OF calculation] by simp
  ultimately show ?thesis by (auto simp: U_strlen_eq)
qed

lemma arg_long_total: "\<exists>r. arg_long L a = Inr r"
proof -
  obtain n where n: "U_strlen (a @ [0]) = Inr n" "n \<le> length a" using strlen_arg by blast
  obtain r where "U_strtol L (a @ [0]) n = Inr r" using strtol_total [of n "a @ [0]" L] n(2) by auto
  with n show ?thesis
    by (cases r) (simp add: arg_long_def U_sstream_get_long_def U_sstream_init_def Let_def)
qed

section \<open>Options\<close>

text \<open>While options are read: a task that needs the file has one.\<close>

definition choosing :: "handler \<Rightarrow> bool" where
  "choosing s \<longleftrightarrow> s \<in> {ST_Void, ST_ListDevices}"

definition chosen :: "handler \<Rightarrow> task \<Rightarrow> GCF_File \<Rightarrow> bool" where
  "chosen s t f \<longleftrightarrow> choosing s \<and> (t = T_PROGRAM \<longrightarrow> file_ok f)"

lemma choosing_ok: "choosing s \<Longrightarrow> prog_ok s t f"
  by (auto simp: choosing_def prog_simps)

lemma chosen_ok: "chosen s t f \<Longrightarrow> prog_ok s t f"
  by (simp add: chosen_def choosing_ok)

lemma steps_set_task: "steps P (set_task t) (\<lambda>s t' f. t' = t \<and> (\<exists>t0. P s t0 f))"
  unfolding set_task_def set_gcf_def by (rule steps_upd) (auto simp: holds_def core_simps)

lemma steps_set_file:
  assumes "\<And>f. fname_ok f \<Longrightarrow> fname_ok (h f)" and "\<And>s t f. P s t f \<Longrightarrow> Q s t (h f)"
  shows "steps P (set_file h) Q"
  unfolding set_file_def set_gcf_def by (rule steps_upd) (use assms in \<open>auto simp: holds_def core_ok_def\<close>)

lemma steps_fname:
  assumes "\<And>b. length b = 255 \<Longrightarrow> \<exists>b'. s b = Inr b' \<and> nul_in 255 b'" and "\<And>s t f b. P s t f \<Longrightarrow> Q s t (f\<lparr>fname := b\<rparr>)"
  shows "steps P (zoom (\<lambda>w. fname (gcf_file (gcf w)))
         (\<lambda>b w. w\<lparr>gcf := (gcf w)\<lparr>gcf_file := (gcf_file (gcf w))\<lparr>fname := b\<rparr>\<rparr>\<rparr>) s) Q"
  unfolding steps_def hoare_def zoom_def
proof (intro allI impI)
  fix w assume w: "holds P w"
  then obtain b where "s (fname (gcf_file (gcf w))) = Inr b" "nul_in 255 b"
    using assms(1) [of "fname (gcf_file (gcf w))"] by (auto simp: holds_def core_ok_def fname_ok_def)
  with w assms(2) show "case (case s (fname (gcf_file (gcf w))) of Inl f \<Rightarrow> Inl f
      | Inr c \<Rightarrow> Inr (w\<lparr>gcf := (gcf w)\<lparr>gcf_file := (gcf_file (gcf w))\<lparr>fname := c\<rparr>\<rparr>\<rparr>)) of
      Inl f \<Rightarrow> f \<in> {AssertFailed} | Inr w' \<Rightarrow> holds Q w'"
    by (simp add: holds_def core_ok_def fname_ok_def nul_in_def)
qed

lemma steps_devpath_set:
  assumes "\<And>b. length b = 255 \<Longrightarrow> \<exists>b'. s b = Inr b' \<and> nul_in 255 b'"
  shows "steps P (zoom (\<lambda>w. devpath (gcf w)) (\<lambda>b w. w\<lparr>gcf := (gcf w)\<lparr>devpath := b\<rparr>\<rparr>) s) P"
  unfolding steps_def hoare_def zoom_def
proof (intro allI impI)
  fix w assume w: "holds P w"
  then obtain b where "s (devpath (gcf w)) = Inr b" "nul_in 255 b"
    using assms [of "devpath (gcf w)"] by (auto simp: holds_def core_ok_def nul_in_def)
  with w show "case (case s (devpath (gcf w)) of Inl f \<Rightarrow> Inl f | Inr c \<Rightarrow> Inr (w\<lparr>gcf := (gcf w)\<lparr>devpath := c\<rparr>\<rparr>)) of
      Inl f \<Rightarrow> f \<in> {AssertFailed} | Inr w' \<Rightarrow> holds P w'"
    by (simp add: holds_def core_ok_def)
qed

lemma copy_string:
  assumes "U_strlen (a @ [0]) = Inr n" and "n < 255" and "length b = 255"
  shows "\<exists>b'. U_memcpy 0 (a @ [0]) 0 (n + 1) b = Inr b' \<and> nul_in 255 b'"
proof -
  have n: "n \<le> length a" "(a @ [0]) ! n = 0" using strlen_arg [of a] assms(1) by auto
  define d where "d = take (n + 1) (a @ [0])"
  have "length d = n + 1" using n(1) by (simp add: d_def)
  moreover have "d ! n = 0" unfolding d_def using n(2) by (subst nth_take) simp_all
  ultimately have len: "length d = n + 1" and "d ! n = 0" by simp_all
  then have "0 \<in> set d" by (metis nth_mem less_add_one)
  then have "nul_in 255 (overwrite 0 d b)"
    using assms(2,3) len by (auto simp: nul_in_def overwrite_def)
  moreover have "U_memcpy 0 (a @ [0]) 0 (n + 1) b = Inr (overwrite 0 d b)"
    using assms(2,3) n(1) U_memcpy_eq [of 0 "n + 1" b 0 "a @ [0]"] by (simp add: d_def)
  ultimately show ?thesis by blast
qed

lemma first_nul: "length b = n \<Longrightarrow> 0 < n \<Longrightarrow> \<exists>b'. poke 0 0 b = Inr b' \<and> nul_in n b'"
  by (cases b) (auto simp: nul_in_def poke_def)

section \<open>The file\<close>

lemma runs_ReadFile:
  assumes "\<And>n. n \<le> int MAX_GCF_FILE_SIZE \<Longrightarrow> runs P (k n) Q" and "\<And>s t f c. P s t f \<Longrightarrow> P s t (f\<lparr>fcontent := c\<rparr>)"
  shows "runs P (callv (PL_ReadFile path MAX_GCF_FILE_SIZE) k) Q"
  unfolding runs_def
proof (rule hoare_callv)
  show "vhoare {AssertFailed} (holds P) (PL_ReadFile path MAX_GCF_FILE_SIZE) (\<lambda>n w. n \<le> int MAX_GCF_FILE_SIZE \<and> holds P w)"
    using assms(2)
    by (auto simp: vhoare_def PL_ReadFile_def Assert_def cond_def skip_def os_def returns_def PL_Printf_def emit_def upd_def
        Let_def set_gcf_def holds_def core_ok_def fname_ok_def split: option.splits sum.splits)
  show "hoare {AssertFailed} (\<lambda>w. n \<le> int MAX_GCF_FILE_SIZE \<and> holds P w) (k n) (holds Q)" for n
    using assms(1) [of n] by (simp add: hoare_def runs_def)
qed

lemma runs_parse_file:
  assumes "\<And>v. runs (\<lambda>s t f. R s t \<and> (v = 0 \<longrightarrow> file_ok f)) (k v) Q"
  shows "runs (\<lambda>s t f. R s t \<and> fsize f \<le> MAX_GCF_FILE_SIZE) (parse_file k) Q"
  unfolding runs_def hoare_def parse_file_def reads_def
proof (intro allI impI)
  fix w assume w: "holds (\<lambda>s t f. R s t \<and> fsize f \<le> MAX_GCF_FILE_SIZE) w"
  define f where "f = gcf_file (gcf w)"
  have f: "fname_ok f" "fsize f \<le> MAX_GCF_FILE_SIZE" "ndebug (env w) = False" "long_bits (env w) = 64"
    using w by (auto simp: holds_def core_ok_def f_def env_ok_def long_bits_def)
  have msgs: "steps P (block (map print_msg ms)) P" for ms and P :: "handler \<Rightarrow> task \<Rightarrow> GCF_File \<Rightarrow> bool"
    unfolding steps_def
    by (rule keeps_list, fold steps_def) (auto simp: print_msg_def split: out_event.split intro: steps_Puts steps_skip)
  show "case (case GCF_ParseFile (ndebug (env w)) (long_bits (env w)) (gcf_file (gcf w)) of Inl f \<Rightarrow> fails f
     | Inr ((v, msgs), f') \<Rightarrow> block [set_file (\<lambda>_. f'), block (map print_msg msgs), k v]) w of
      Inl f \<Rightarrow> f \<in> {AssertFailed} | Inr w' \<Rightarrow> holds Q w'"
  proof (cases "GCF_ParseFile False 64 f")
    case (Inl e)
    then show ?thesis
      using parse_file_spec [OF f(1,2), of False 64] by (simp add: f(3,4) f_def [symmetric] fails_def)
  next
    case (Inr r)
    obtain v ms f' where r: "r = ((v, ms), f')" by (metis prod.exhaust)
    have f': "fname_ok f'" "v = 0 \<longrightarrow> file_ok f'"
      using parse_file_spec [OF f(1,2), of False 64] accepted_file_ok [OF f(1,2), of False ms f'] f(1) Inr r
      by (auto simp: same_file_def fname_ok_def)
    have "steps (\<lambda>s t f. R s t \<and> fsize f \<le> MAX_GCF_FILE_SIZE) (set_file (\<lambda>_. f')) (\<lambda>s t f. R s t \<and> (v = 0 \<longrightarrow> file_ok f))"
      using f' by (intro steps_set_file) auto
    then have "runs (\<lambda>s t f. R s t \<and> fsize f \<le> MAX_GCF_FILE_SIZE) (block [set_file (\<lambda>_. f'), block (map print_msg ms), k v]) Q"
      by (rule runs_Cons [OF _ runs_Cons [OF msgs runs_single [OF assms]]])
    with w show ?thesis
      by (simp add: f(3,4) f_def [symmetric] Inr r runs_def hoare_def del: block.simps)
  qed
qed

text \<open>What follows an option: it may return, or go on with the next one.\<close>

definition returns_ok :: "(gcf_status \<Rightarrow> action) \<Rightarrow> bool" where
  "returns_ok ret \<longleftrightarrow> (\<forall>P st. (\<forall>s t f. P s t f \<longrightarrow> prog_ok s t f) \<longrightarrow> runs P (ret st) prog_ok)"

lemma returns_okD: "returns_ok ret \<Longrightarrow> (\<And>s t f. P s t f \<Longrightarrow> prog_ok s t f) \<Longrightarrow> runs P (ret st) prog_ok"
  by (simp add: returns_ok_def)

lemma missing_arg_runs: "returns_ok ret \<Longrightarrow> (\<And>s t f. P s t f \<Longrightarrow> prog_ok s t f) \<Longrightarrow> runs P (missing_arg ret msg) prog_ok"
  unfolding missing_arg_def by (rule ok_intro returns_okD | assumption)+

lemma invalid_arg_runs: "returns_ok ret \<Longrightarrow> (\<And>s t f. P s t f \<Longrightarrow> prog_ok s t f) \<Longrightarrow> runs P (invalid_arg ret msg a) prog_ok"
  unfolding invalid_arg_def by (rule ok_intro returns_okD | assumption)+

lemma runs_strlen:
  assumes "\<And>n. U_strlen (a @ [0]) = Inr n \<Longrightarrow> runs P (k n) Q"
  shows "runs P (attempt (\<lambda>_. U_strlen (a @ [0])) k) Q"
  by (rule runs_attempt) (use strlen_arg [of a] assms in auto)

lemma option_d_runs:
  assumes "returns_ok ret" and "runs chosen k prog_ok"
  shows "runs chosen (option_d ret a k) prog_ok"
  unfolding option_d_def
  by (rule runs_strlen, rule ok_intro, rule invalid_arg_runs [OF assms(1) chosen_ok], assumption,
      rule runs_Cons [OF steps_devpath_set runs_single [OF assms(2)]], rule copy_string) simp_all

lemma option_f_runs:
  assumes "returns_ok ret" and "runs chosen k prog_ok"
  shows "runs (\<lambda>s t f. choosing s) (option_f ret a k) prog_ok"
proof -
  let ?P = "\<lambda>s (t :: task) (f :: GCF_File). choosing s"
  have ok: "prog_ok s t f" if "?P s t f" for s t f using that by (rule choosing_ok)
  have path: "\<exists>p. c_string (fname (gcf_file g)) = Inr p" if "at ?P g" for g
    using that by (simp add: at_def core_ok_def fname_ok_def c_string_def)
  have parse: "runs (\<lambda>s t f. choosing s \<and> fsize f \<le> MAX_GCF_FILE_SIZE) (parse_file (\<lambda>r. if r \<noteq> 0
      then block [PL_Printf DBG_INFO ''invalid file: %s'' [AStr p], ret GCF_FAILED] else k)) prog_ok" for p
  proof (rule runs_parse_file)
    fix v :: int
    show "runs (\<lambda>s t f. choosing s \<and> (v = 0 \<longrightarrow> file_ok f)) (if v \<noteq> 0
      then block [PL_Printf DBG_INFO ''invalid file: %s'' [AStr p], ret GCF_FAILED] else k) prog_ok"
      by (rule ok_intro returns_okD [OF assms(1)] runs_pre [OF assms(2)] | simp add: choosing_ok chosen_def)+
  qed
  have read: "runs ?P (callv (PL_ReadFile p MAX_GCF_FILE_SIZE) (\<lambda>nread.
         if nread \<le> 0
         then block [PL_Printf DBG_INFO ''failed to read file: %s'' [AStr p], ret GCF_FAILED]
         else block [
           PL_Printf DBG_INFO ''read file success: %s (%ld bytes)'' [AStr p, ANum nread],
           set_file (\<lambda>f. f\<lparr>fsize := nat nread\<rparr>),
           parse_file (\<lambda>r. if r \<noteq> 0
             then block [PL_Printf DBG_INFO ''invalid file: %s'' [AStr p], ret GCF_FAILED]
             else k)])) prog_ok" for p
  proof (rule runs_ReadFile)
    fix n :: int assume n: "n \<le> int MAX_GCF_FILE_SIZE"
    have "steps ?P (set_file (\<lambda>f. f\<lparr>fsize := nat n\<rparr>)) (\<lambda>s t f. choosing s \<and> fsize f \<le> MAX_GCF_FILE_SIZE)"
      by (rule steps_set_file) (use n in \<open>auto simp: fname_ok_def\<close>)
    then show "runs ?P (if n \<le> 0
         then block [PL_Printf DBG_INFO ''failed to read file: %s'' [AStr p], ret GCF_FAILED]
         else block [
           PL_Printf DBG_INFO ''read file success: %s (%ld bytes)'' [AStr p, ANum n],
           set_file (\<lambda>f. f\<lparr>fsize := nat n\<rparr>),
           parse_file (\<lambda>r. if r \<noteq> 0
             then block [PL_Printf DBG_INFO ''invalid file: %s'' [AStr p], ret GCF_FAILED]
             else k)]) prog_ok"
      by (intro runs_if runs_Cons [OF steps_Puts(3)] runs_single returns_okD [OF assms(1) ok] runs_Cons [OF _ runs_single [OF parse]])
  qed simp
  show ?thesis
    unfolding option_f_def
    by (rule runs_strlen, rule runs_if, rule invalid_arg_runs [OF assms(1) ok], assumption,
        rule runs_Cons [OF steps_fname runs_single], rule copy_string, assumption, simp, assumption, assumption)
      (rule runs_attempt [OF path read])
qed

lemma option_number_runs:
  assumes "returns_ok ret" and "\<And>v. valid v \<Longrightarrow> runs chosen (k v) prog_ok"
  shows "runs chosen (option_number ret msg valid a k) prog_ok"
  unfolding option_number_def
proof (rule runs_reads)
  fix w
  show "runs chosen (case arg_long (long_bits (env w)) a of Inl f \<Rightarrow> fails f
     | Inr None \<Rightarrow> invalid_arg ret msg a
     | Inr (Some v) \<Rightarrow> if valid v then k v else invalid_arg ret msg a) prog_ok"
    using arg_long_total [of "long_bits (env w)" a] assms(2) invalid_arg_runs [OF assms(1) chosen_ok]
    by (auto split: option.splits)
qed

lemma steps_ui_set: "(\<And>u. ui_ok u \<Longrightarrow> input_ok u \<Longrightarrow> ui_ok (h u) \<and> input_ok (h u)) \<Longrightarrow> steps P (set_ui h) P"
  unfolding set_ui_def by (rule steps_set_gcf) (auto simp: core_ok_def)

lemma option_b_runs: "returns_ok ret \<Longrightarrow> runs chosen k prog_ok \<Longrightarrow> runs chosen (option_b ret a k) prog_ok"
  unfolding option_b_def by (rule option_number_runs, assumption) (rule ok_intro | assumption | simp add: core_simps)+

lemma option_t_runs: "returns_ok ret \<Longrightarrow> runs chosen k prog_ok \<Longrightarrow> runs chosen (option_t ret a k) prog_ok"
  unfolding option_t_def by (rule option_number_runs, assumption) (rule ok_intro | assumption | simp add: core_simps)+

lemma chosen_task: "t \<noteq> T_PROGRAM \<Longrightarrow> (\<exists>t0. chosen s t0 f) \<Longrightarrow> chosen s t f"
  by (auto simp: chosen_def)

lemma steps_choose: "t \<noteq> T_PROGRAM \<Longrightarrow> steps chosen (set_task t) chosen"
  using steps_set_task [of chosen t] unfolding steps_def by (rule hoare_post) (auto simp: holds_def chosen_def)

lemma option_s_runs: "returns_ok ret \<Longrightarrow> runs chosen k prog_ok \<Longrightarrow> runs chosen (option_s ret a k) prog_ok"
  unfolding option_s_def
  by (rule option_number_runs, assumption, rule runs_Cons [OF steps_choose], simp, rule runs_Cons [OF steps_set_sniff])
    (auto simp: sniff_ok_def)

lemma option_x_runs: "returns_ok ret \<Longrightarrow> runs chosen k prog_ok \<Longrightarrow> runs chosen (option_x ret a k) prog_ok"
  unfolding option_x_def
  by (rule option_number_runs, assumption, rule runs_Cons [OF steps_ui_set]) (auto simp: ui_ok_def input_ok_def)

lemmas option_runs = option_d_runs option_b_runs option_t_runs option_x_runs

lemma with_arg_runs:
  "returns_ok ret \<Longrightarrow> (\<And>s t f. P s t f \<Longrightarrow> prog_ok s t f) \<Longrightarrow> (\<And>b. runs P (k b) prog_ok) \<Longrightarrow> runs P (with_arg ret msg as k) prog_ok"
  unfolding with_arg_def by (auto split: list.split intro: missing_arg_runs)

lemma options_runs:
  assumes ret: "returns_ok ret" and fin: "\<And>st. runs chosen (fin st) prog_ok"
  shows "runs chosen (options ret fin as st) prog_ok"
proof (induction as arbitrary: st rule: length_induct)
  case (1 as)
  then have rest: "runs chosen (options ret fin bs st) prog_ok" if "length bs < length as" for bs st using that by blast
  show ?case
  proof (cases as)
    case Nil
    then show ?thesis using fin by simp
  next
    case (Cons a bs)
    have bs: "runs chosen (options ret fin bs st) prog_ok" "runs chosen (options ret fin (tl bs) st) prog_ok" for st
      by (rule rest, simp add: Cons)+
    have tl: "runs chosen (options ret fin cs st) prog_ok" if "bs = c # cs" for c cs st
      by (rule rest) (simp add: Cons that)
    have list: "steps chosen (set_state ST_ListDevices) chosen"
      using steps_set_state [of chosen ST_ListDevices] unfolding steps_def
      by (rule hoare_post) (auto simp: holds_def chosen_def choosing_def)
    have prog: "runs chosen (block [set_task T_PROGRAM, with_arg ret ''missing argument for parameter -f'' bs
         (\<lambda>b. option_f ret b (options ret fin (tl bs) st))]) prog_ok"
      by (rule runs_Cons [OF steps_set_task], rule runs_single, rule runs_pre [where P' = "\<lambda>s t f. choosing s"])
        (rule with_arg_runs ret option_f_runs bs | simp add: choosing_ok chosen_def)+
    have step: "runs chosen (block [s, k]) prog_ok" if "steps chosen s chosen" "runs chosen k prog_ok" for s k
      using that by (rule runs_Cons [OF _ runs_single])
    have arg: "runs chosen (with_arg ret msg bs (\<lambda>b. opt ret b (options ret fin (tl bs) st))) prog_ok"
      if "\<And>k a. runs chosen k prog_ok \<Longrightarrow> runs chosen (opt ret a k) prog_ok" for msg opt
      by (rule with_arg_runs [OF ret chosen_ok]) (assumption, rule that, rule bs)
    have given: "runs chosen (case bs of [] \<Rightarrow> missing_arg ret msg | b # ds \<Rightarrow> k b ds) prog_ok"
      if "\<And>b ds. bs = b # ds \<Longrightarrow> runs chosen (k b ds) prog_ok" for msg k
      using that missing_arg_runs [OF ret chosen_ok] by (cases bs) simp_all
    have unknown: "runs chosen (block [PL_Printf DBG_INFO msg as, ret GCF_FAILED]) prog_ok" for msg as
      by (rule step [OF steps_Puts(3) returns_okD [OF ret chosen_ok]])
    show ?thesis
      unfolding Cons options.simps Let_def
    proof (intro runs_if)
      show "runs chosen (block [set_ui (\<lambda>u. u\<lparr>uiInteractive := True\<rparr>), options ret fin bs st]) prog_ok"
        by (rule step [OF steps_ui_set bs(1)]) (simp add: ui_ok_def input_ok_def)
      show "runs chosen (block [set_task T_LIST, set_state ST_ListDevices, options ret fin bs GCF_SUCCESS]) prog_ok"
        by (rule runs_Cons [OF steps_choose step [OF list bs(1)]]) simp
      show "runs chosen (case bs of [] \<Rightarrow> missing_arg ret ''missing argument for parameter -H''
         | b # bs \<Rightarrow> block [set_sniff (\<lambda>s. s\<lparr>sniffHost := b\<rparr>), options ret fin bs st]) prog_ok"
        by (rule given, rule step [OF steps_set_sniff tl]) (simp_all add: sniff_ok_def)
      show "runs chosen (case bs of [] \<Rightarrow> missing_arg ret ''missing argument for parameter -s''
         | b # bs \<Rightarrow> option_s ret b (options ret fin bs st)) prog_ok"
        by (rule given, rule option_s_runs [OF ret tl])
    qed (rule bs unknown prog arg option_runs [OF ret] step [OF steps_choose] | assumption | simp)+
  qed
qed

section \<open>Starting a task\<close>

lemma find_type_total: "inside ss \<Longrightarrow> \<exists>r. find_type ts ss = Inr r"
proof (induction ts ss rule: find_type.induct)
  case (2 s d b ts ss)
  obtain found p where "U_sstream_find (bytes s) ss = Inr (found, ss\<lparr>ss_pos := p\<rparr>)"
    using find_total "2.prems" unfolding inside_def by blast
  with 2 show ?case by auto
qed simp

lemma device_type_total: "core_ok g \<Longrightarrow> \<exists>r. device_type g = Inr r"
  using devpath_stream_ok [of g] find_type_total [of _ path_types]
  by (force simp: device_type_def core_ok_def nul_in_def)

lemma runs_GetDeviceType:
  assumes "\<And>d. runs P (k d) Q"
  shows "runs P (gcfGetDeviceType k) Q"
  unfolding gcfGetDeviceType_def
  by (rule runs_attempt, use device_type_total in \<open>force simp: at_def\<close>)
    (rule assms ok_intro | simp add: core_simps)+

lemma missing_d_runs:
  assumes "returns_ok ret" and "\<And>s t f. P s t f \<Longrightarrow> prog_ok s t f" and "runs P k prog_ok"
  shows "runs P (missing_d ret k) prog_ok"
  unfolding missing_d_def
  by (rule returns_okD [OF assms(1)] assms(3) ok_intro | erule assms(2) | simp add: at_def core_ok_def nul_in_def)+

text \<open>One kind of task at a time.\<close>

abbreviation picked :: "task \<Rightarrow> handler \<Rightarrow> task \<Rightarrow> GCF_File \<Rightarrow> bool" where
  "picked t0 s t f \<equiv> chosen s t f \<and> t = t0"

lemma picked_ok: "picked t0 s t f \<Longrightarrow> prog_ok s t f"
  by (auto intro: chosen_ok)

lemma finish_with_runs:
  assumes "returns_ok ret" and "\<And>f. prog_ok h t0 f"
  shows "runs (picked t0) (finish_with ret h) prog_ok"
  unfolding finish_with_def
  by (rule missing_d_runs [OF assms(1)], erule picked_ok, rule runs_Cons [OF steps_set_state], rule runs_single,
      rule returns_okD [OF assms(1)]) (use assms(2) in auto)

lemma finish_program_runs:
  assumes "returns_ok ret"
  shows "runs (picked T_PROGRAM) (finish_program ret) prog_ok"
proof -
  have ready: "runs (picked T_PROGRAM) (block [set_state ST_Program, ret GCF_SUCCESS]) prog_ok"
    by (rule runs_Cons [OF steps_set_state], rule runs_single, rule returns_okD [OF assms])
      (auto simp: chosen_def prog_simps)
  show ?thesis
    unfolding finish_program_def
    apply (rule missing_d_runs [OF assms], erule picked_ok, rule runs_attempt, simp add: at_def core_ok_def fname_ok_def)
    by (rule ready returns_okD [OF assms] ok_intro | erule picked_ok | simp add: core_simps)+
qed

lemma finish_cmdline_runs:
  assumes "returns_ok ret"
  shows "runs chosen (finish_cmdline ret st) prog_ok"
proof (rule runs_fix)
  fix t0 f0
  have task: "runs (picked t0) (case t0 of
         T_PROGRAM \<Rightarrow> finish_program ret
       | T_CONNECT \<Rightarrow> finish_with ret ST_Connect
       | T_SNIFF \<Rightarrow> finish_with ret ST_SniffConnect
       | T_DUMP_FLASH \<Rightarrow> finish_with ret ST_DumpFlashConnect
       | T_RESET \<Rightarrow> finish_with ret ST_Reset
       | T_HELP \<Rightarrow> block [gcfPrintHelp, PL_ShutDown, ret GCF_SUCCESS]
       | _ \<Rightarrow> ret st) prog_ok"
  proof (cases t0)
    case T_HELP
    have "steps (picked T_HELP) gcfPrintHelp (picked T_HELP)"
      unfolding gcfPrintHelp_def by (rule ok_intro | assumption)+
    then have "runs (picked T_HELP) (block [gcfPrintHelp, PL_ShutDown, ret GCF_SUCCESS]) prog_ok"
      by (rule runs_Cons [OF _ runs_Cons [OF steps_ShutDown runs_single [OF returns_okD [OF assms]]]]) (rule picked_ok)
    then show ?thesis by (simp add: T_HELP)
  qed (auto intro: finish_with_runs [OF assms] finish_program_runs [OF assms] returns_okD [OF assms] chosen_ok simp: prog_simps)
  have "runs (picked t0) (finish_cmdline ret st) prog_ok"
    unfolding finish_cmdline_def
  proof (rule runs_Cons [OF steps_gcfGetDevices], rule runs_Cons, rule steps_runs, rule runs_GetDeviceType)
    show "runs (picked t0) (set_gcf (\<lambda>g. g\<lparr>devType := d\<rparr>)) (picked t0)" for d
      by (rule ok_intro | simp add: core_simps)+
    show "runs (picked t0) (block [gget task (\<lambda>t. case t of
         T_PROGRAM \<Rightarrow> finish_program ret
       | T_CONNECT \<Rightarrow> finish_with ret ST_Connect
       | T_SNIFF \<Rightarrow> finish_with ret ST_SniffConnect
       | T_DUMP_FLASH \<Rightarrow> finish_with ret ST_DumpFlashConnect
       | T_RESET \<Rightarrow> finish_with ret ST_Reset
       | T_HELP \<Rightarrow> block [gcfPrintHelp, PL_ShutDown, ret GCF_SUCCESS]
       | _ \<Rightarrow> ret st)]) prog_ok"
      by (rule runs_single, rule runs_gget) (use task in \<open>auto simp: at_def\<close>)
  qed
  then show "runs (\<lambda>s t f. chosen s t f \<and> t = t0 \<and> f = f0) (finish_cmdline ret st) prog_ok"
    by (rule runs_pre) simp
qed

section \<open>Initialisation\<close>

lemma reset_options_runs: "steps P reset_options chosen"
proof -
  let ?P = "\<lambda>s (t :: task) (f :: GCF_File). choosing s"
  have serial: "steps ?P (zoom (\<lambda>w. devSerialNum (gcf w)) (\<lambda>b w. w\<lparr>gcf := (gcf w)\<lparr>devSerialNum := b\<rparr>\<rparr>) (poke 0 0)) ?P"
    unfolding steps_def hoare_def by (auto simp: zoom_def holds_def core_ok_def)
  have "steps P (set_state ST_Void) ?P"
    using steps_set_state [of P ST_Void] unfolding steps_def by (rule hoare_post) (auto simp: holds_def choosing_def)
  moreover have "runs ?P (block [
     set_substate ST_Void,
     set_ui (\<lambda>u. u\<lparr>uiInteractive := False, uiDebugLevel := 0\<rparr>),
     set_sniff (\<lambda>s. s\<lparr>sniffChannel := 0\<rparr>),
     zoom (\<lambda>w. devpath (gcf w)) (\<lambda>b w. w\<lparr>gcf := (gcf w)\<lparr>devpath := b\<rparr>\<rparr>) (poke 0 0),
     zoom (\<lambda>w. devSerialNum (gcf w)) (\<lambda>b w. w\<lparr>gcf := (gcf w)\<lparr>devSerialNum := b\<rparr>\<rparr>) (poke 0 0),
     set_gcf (\<lambda>g. g\<lparr>devType := DEV_UNKNOWN, devBaudrate := PL_BAUDRATE_UNKNOWN\<rparr>),
     zoom (\<lambda>w. fname (gcf_file (gcf w))) (\<lambda>b w. w\<lparr>gcf := (gcf w)\<lparr>gcf_file := (gcf_file (gcf w))\<lparr>fname := b\<rparr>\<rparr>\<rparr>) (poke 0 0),
     set_file (\<lambda>f. f\<lparr>gcfFileType := 0, fsize := 0\<rparr>),
     set_task T_NONE]) chosen"
    apply (rule runs_Cons [OF steps_set_substate], simp add: sub_handlers_def)
    apply (rule runs_Cons [OF steps_ui_set], simp add: ui_ok_def input_ok_def)
    apply (rule runs_Cons [OF steps_set_sniff], simp add: sniff_ok_def)
    apply (rule runs_Cons [OF steps_devpath_set [OF first_nul]], assumption, simp)
    apply (rule runs_Cons [OF serial])
    apply (rule runs_Cons [OF steps_set_gcf], simp add: core_simps, simp, simp, simp)
    apply (rule runs_Cons [OF steps_fname [OF first_nul, where Q = ?P]], assumption, simp, simp)
    apply (rule runs_Cons [OF steps_set_file [where Q = ?P]], simp add: fname_ok_def, simp)
    apply (rule runs_single, rule runs_weaken [OF steps_set_task], simp add: chosen_def)
    done
  ultimately show ?thesis
    unfolding reset_options_def steps_def runs_def by (rule hoare_block_Cons)
qed

lemma gcfProcessCommandline_runs:
  assumes "returns_ok ret"
  shows "runs P (gcfProcessCommandline ret) prog_ok"
proof -
  have usage: "steps chosen (gif (\<lambda>g. length (argv g) = 1) [set_task T_HELP] []) chosen"
    by (rule steps_compound runs_gif runs_single runs_weaken [OF steps_choose] ok_intro | simp | assumption)+
  show ?thesis
    unfolding gcfProcessCommandline_def
    by (rule runs_Cons [OF reset_options_runs], rule runs_Cons [OF usage], rule runs_single, rule runs_gget,
        rule options_runs [OF assms finish_cmdline_runs [OF assms]])
qed

context dispatcher
begin

lemma Init_runs:
  assumes "\<And>e s. posts ST_Init ev e s \<Longrightarrow> C e s"
  shows "runs (here ST_Init) (ST_Init_handler he ev) prog_ok"
proof -
  have "returns_ok (\<lambda>st. if st = GCF_FAILED then PL_ShutDown else he EV_ACTION)" if "ev = EV_PL_STARTED \<or> ev = EV_TIMEOUT"
    unfolding returns_ok_def
    by (intro allI impI) (rule ok_intro | simp add: assms that)+
  then show ?thesis
    unfolding ST_Init_handler_def
    by (auto intro: gcfProcessCommandline_runs runs_weaken [OF steps_skip] here_ok)
qed

end

end
