(* ===== verification/Gcf_Safety.thy ===== *)
theory Gcf_Safety
  imports Gcf_Start
begin

text \<open>
  The dispatcher as a whole. By induction on the fuel every call of a handler keeps the
  machine's invariant, so that a fuel of 11 is enough for every event: the calls end, no
  array is left, no loop spins. The entry points of the main loop inherit it.
\<close>

section \<open>Every handler\<close>

definition entry :: "handler \<Rightarrow> handler \<Rightarrow> task \<Rightarrow> GCF_File \<Rightarrow> bool" where
  "entry h s t f \<longleftrightarrow> prog_ok s t f \<and> (h \<in> sub_handlers \<or> s = h)"

lemma entry_here: "h \<notin> sub_handlers \<Longrightarrow> entry h = here h" "h \<in> sub_handlers \<Longrightarrow> entry h = prog_ok"
  by (intro ext; simp add: entry_def here_def)+

lemma loop_depth: "depth s EV_ACTION < depth s EV_PL_LOOP"
  by (simp add: depth_def event_depth_def)

lemma sub_handler_depth: "s \<in> sub_handlers \<Longrightarrow> depth s e = depth ST_Void e"
  by (simp add: depth_def sub_handlers_def)

lemma handle_event_calls:
  assumes "\<And>h ev. depth h ev \<le> n \<Longrightarrow> runs (entry h) (run n h ev) prog_ok"
  shows "calls_ok (\<lambda>e s. depth s e \<le> n) (handle_event (run n))"
  unfolding calls_ok_def
proof (intro allI impI)
  fix e P assume P: "\<forall>s t f. P s t f \<longrightarrow> prog_ok s t f \<and> depth s e \<le> n"
  have call: "case run n (state (gcf w)) ev w of Inl f \<Rightarrow> f \<in> {AssertFailed} | Inr w' \<Rightarrow> machine_ok w'"
    if "holds prog_ok w" "depth (state (gcf w)) ev \<le> n" for ev w
  proof -
    have "holds (entry (state (gcf w))) w" using that(1) by (simp add: holds_def entry_def)
    then show ?thesis using assms [OF that(2)] by (simp add: runs_def hoare_def)
  qed
  show "steps P (handle_event (run n) e) prog_ok"
    unfolding steps_def hoare_def
  proof (intro allI impI)
    fix w assume w: "holds P w"
    then have ok: "machine_ok w" "depth (state (gcf w)) e \<le> n" using P by (auto simp: holds_def)
    define w1 where "w1 = w\<lparr>gcf := (gcf w)\<lparr>evAction := False\<rparr>\<rparr>"
    have w1: "machine_ok w1" "state (gcf w1) = state (gcf w)" using ok by (simp_all add: w1_def holds_def core_simps)
    have "depth (state (gcf w)) EV_ACTION \<le> n" if "e = EV_PL_LOOP" using ok(2) loop_depth that by (metis less_or_eq_imp_le order_trans)
    then show "case handle_event (run n) e w of Inl f \<Rightarrow> f \<in> {AssertFailed} | Inr w' \<Rightarrow> machine_ok w'"
      using call [OF ok] call [OF w1(1), of EV_ACTION] ok w1(2)
      by (auto simp: handle_event_def gget_def reads_def gif_def cond_def set_gcf_def upd_def w1_def [symmetric] block_one)
  qed
qed

lemma run_ok: "depth h ev \<le> n \<Longrightarrow> runs (entry h) (run n h ev) prog_ok"
proof (induction n arbitrary: h ev)
  case 0
  then show ?case using depth_bounds(1) [of h ev] by simp
next
  case (Suc n)
  define he where "he = handle_event (run n)"
  have disp: "dispatcher he (\<lambda>e s. depth s e \<le> n)"
    unfolding he_def by (rule dispatcher.intro [OF handle_event_calls [OF Suc.IH]])
  have sub: "runs prog_ok (gget substate (\<lambda>s. run n s e)) prog_ok" if "depth ST_Void e \<le> n" for e
  proof (rule runs_gget)
    fix g assume "at prog_ok g"
    then have "substate g \<in> sub_handlers" by (simp add: at_def core_ok_def)
    then show "runs prog_ok (run n (substate g) e) prog_ok"
      using Suc.IH [of "substate g" e] that by (simp add: sub_handler_depth entry_here)
  qed
  have post: "depth s e \<le> n" if "posts h ev e s" for e s
    using posts_down [OF that] Suc.prems by simp
  note handlers = dispatcher.ResetUart_runs [OF disp] dispatcher.ResetFtdi_runs [OF disp] dispatcher.ResetRaspBee_runs [OF disp]
    dispatcher.BootloaderConnect_runs [OF disp] dispatcher.BootloaderQuery_runs [OF disp] dispatcher.Program_runs [OF disp]
    dispatcher.V1ProgramSync_runs [OF disp] dispatcher.V1ProgramWriteHeader_runs [OF disp] dispatcher.V1ProgramUpload_runs [OF disp]
    dispatcher.V1ProgramValidate_runs [OF disp] dispatcher.V3ProgramSync_runs [OF disp] dispatcher.V3ProgramUpload_runs [OF disp]
    dispatcher.V3ProgramWaitID_runs [OF disp] dispatcher.Connect_runs [OF disp] dispatcher.Connected_runs [OF disp]
    dispatcher.SniffConnect_runs [OF disp] dispatcher.SniffConfig_runs [OF disp] dispatcher.SniffConfigConfirm_runs [OF disp]
    dispatcher.SniffSyncData_runs [OF disp] dispatcher.SniffRecvData_runs [OF disp] dispatcher.SniffTeardown_runs [OF disp]
    dispatcher.DumpFlashConnect_runs [OF disp] dispatcher.DumpFlashQueryFirmwareVersion_runs [OF disp]
    dispatcher.DumpFlashSend_runs [OF disp] dispatcher.DumpFlashWait_runs [OF disp] dispatcher.ListDevices_runs [OF disp]
    dispatcher.Init_runs [OF disp]
  have reset: "runs (here ST_Reset) (ST_Reset_handler he (\<lambda>e. gget substate (\<lambda>s. run n s e)) ev) prog_ok" if "h = ST_Reset"
    by (rule dispatcher.Reset_runs [OF disp]) (use post sub Suc.prems that in auto)
  show ?case
  proof (cases h)
    case ST_Void
    then show ?thesis by (auto simp: call_handler_def entry_def intro: runs_weaken [OF steps_skip])
  next
    case ST_Reset
    then show ?thesis using reset by (simp add: call_handler_def entry_here sub_handlers_def he_def)
  qed (simp_all only: run.simps call_handler_def handler.case he_def [symmetric],
       simp_all add: entry_here sub_handlers_def handlers post)
qed

section \<open>Received bytes\<close>

lemma steps_hex_dump:
  assumes "length d \<le> 255"
  shows "steps P (zoom (\<lambda>w. ascii (gcf w)) (\<lambda>s w. w\<lparr>gcf := (gcf w)\<lparr>ascii := s\<rparr>\<rparr>) (hex_dump d 0)) P"
  by (rule steps_ascii) (use assms in \<open>simp add: hex_dump_eq nth_overwrite_above\<close>)

lemma steps_packet:
  assumes "length d \<le> 254"
  shows "steps P (zoom (\<lambda>w. ascii (gcf w)) (\<lambda>s w. w\<lparr>gcf := (gcf w)\<lparr>ascii := s\<rparr>\<rparr>) (U_memcpy 0 d 0 (length d))) P"
    and "steps P (zoom (\<lambda>w. rxPacket (gcf w)) (\<lambda>p w. w\<lparr>gcf := (gcf w)\<lparr>rxPacket := p\<rparr>\<rparr>) (U_memcpy 0 d 0 (length d))) P"
proof -
  show "steps P (zoom (\<lambda>w. ascii (gcf w)) (\<lambda>s w. w\<lparr>gcf := (gcf w)\<lparr>ascii := s\<rparr>\<rparr>) (U_memcpy 0 d 0 (length d))) P"
    by (rule steps_ascii) (use assms in \<open>simp add: U_memcpy_eq nth_overwrite_above\<close>)
  show "steps P (zoom (\<lambda>w. rxPacket (gcf w)) (\<lambda>p w. w\<lparr>gcf := (gcf w)\<lparr>rxPacket := p\<rparr>\<rparr>) (U_memcpy 0 d 0 (length d))) P"
    unfolding steps_def hoare_def using assms by (simp add: zoom_def holds_def core_ok_def U_memcpy_eq)
qed

context dispatcher
begin

lemma Packet_runs:
  assumes "\<And>e s. C e s" and "0 < length d" and "length d \<le> 254"
  shows "runs prog_ok (PROT_Packet he d) prog_ok"
proof -
  have d: "d \<noteq> []" "length d < 2 ^ 64" "length d \<le> 510" "length d \<le> 256" using assms(2,3) by auto
  have he: "runs prog_ok (he e) prog_ok" for e
    by (rule runs_weaken [OF steps_he]) (simp_all add: assms)
  have debug: "steps prog_ok (gcfDebugHex m d) prog_ok" for m
    by (rule steps_quiet, rule quiet_gcfDebugHex) (use assms in simp_all)
  show ?thesis
    unfolding PROT_Packet_def Let_def
    by (rule he debug debug [THEN runs_weaken] steps_packet [OF assms(3)] steps_hex_dump ok_intro
      | intro line_intro hoare_intro | simp add: assms at_def core_ok_def ascii_string d d(2) [simplified])+
qed

lemma rx_ascii_runs: "(\<And>n. runs P (k n) Q) \<Longrightarrow> runs P (rx_ascii cs n k) Q"
proof (induction cs arbitrary: n)
  case (Cons c cs)
  show ?case
    unfolding rx_ascii.simps
    by (rule Cons ok_intro | simp)+
qed simp

lemma flagged_runs:
  assumes "\<And>e s. C e s"
  shows "runs prog_ok (receive_flagged he cs) prog_ok"
  unfolding runs_def hoare_def
proof (intro allI impI)
  fix w assume w: "machine_ok w"
  have pkt: "keeps {AssertFailed} machine_ok (PROT_Packet he d)" if "0 < length d" "length d \<le> 254" for d
    using Packet_runs [OF assms that] by (simp add: runs_def)
  have rx: "rx_ok (rxstate (gcf w))" using w by (simp add: holds_def core_ok_def)
  have loop: "case PROT_ReceiveFlagged (PROT_Packet he) (rxstate (gcf w)) cs w of
      Inl f \<Rightarrow> f \<in> {AssertFailed} | Inr (rx, err, w1) \<Rightarrow> rx_ok rx \<and> machine_ok w1"
    using rx_loop_keeps [of "{AssertFailed}" machine_ok "PROT_Packet he" cs, OF pkt] w rx
    unfolding PROT_ReceiveFlagged_def hoare_def by fastforce
  show "case receive_flagged he cs w of Inl f \<Rightarrow> f \<in> {AssertFailed} | Inr w' \<Rightarrow> machine_ok w'"
  proof (cases "PROT_ReceiveFlagged (PROT_Packet he) (rxstate (gcf w)) cs w")
    case (Inl f)
    then show ?thesis using loop by (simp add: receive_flagged_def)
  next
    case (Inr r)
    obtain rx err w1 where r: "r = (rx, err, w1)" by (cases r)
    have ok: "rx_ok rx" "machine_ok w1" using loop by (simp_all add: Inr r)
    have "runs prog_ok (block [set_gcf (\<lambda>g. g\<lparr>rxstate := rx\<rparr>),
       if err \<noteq> 0 then PL_Printf DBG_DEBUG ''received invalid CRC'' [] else skip]) prog_ok"
      using ok(1) by (intro runs_Cons [OF steps_set_gcf] runs_single runs_if runs_weaken [OF steps_Puts(3)] runs_weaken [OF steps_skip])
        (auto simp: core_ok_def)
    with ok(2) show ?thesis by (simp add: receive_flagged_def Inr r runs_def hoare_def del: block.simps)
  qed
qed

lemma Received_runs:
  assumes "\<And>e s. C e s"
  shows "runs prog_ok (GCF_Received he cs) prog_ok"
proof -
  have he: "steps prog_ok (he e) prog_ok" for e by (rule steps_he) (simp_all add: assms)
  show ?thesis
    unfolding GCF_Received_def
    by (rule he flagged_runs [OF assms] rx_ascii_runs ok_intro | simp add: assms)+
qed

end

section \<open>The machine\<close>

text \<open>The whole dispatcher fulfils the contract of \<open>dispatcher\<close> for every event and state.\<close>

lemma GCF_HandleEvent_calls: "11 \<le> n \<Longrightarrow> calls_ok (\<lambda>e s. True) (GCF_HandleEvent n)"
proof -
  assume n: "11 \<le> n"
  have "depth s e \<le> n" for s e using depth_bounds(2) [of s e] n by simp
  then have "calls_ok (\<lambda>e s. True) (handle_event (run n))"
    by (intro calls_ok_mono [OF handle_event_calls [OF run_ok]])
  moreover have "GCF_HandleEvent n = handle_event (run n)" by (rule ext) (simp add: GCF_HandleEvent_def)
  ultimately show ?thesis by simp
qed

interpretation machine: dispatcher "GCF_HandleEvent 12" "\<lambda>e s. True"
  by unfold_locales (rule GCF_HandleEvent_calls, simp)

end
