(* ===== verification/Gcf_Keys.thy ===== *)
theory Gcf_Keys
  imports Gcf_Safety
begin

text \<open>
  The interactive input: the line editor refines editing a string at a cursor, and a line of
  up to 379 bytes is echoed and interpreted without a fault. Longer lines are not safe.
\<close>

section \<open>The line editor refines an abstract one\<close>

lemma shift_up_eq:
  "shift_up (length b) (int (length a + length b)) (a @ b @ z # rest) = Inr (a @ hd (b @ [z]) # b @ rest)"
proof (induction b arbitrary: z rest rule: rev_induct)
  case (snoc y b)
  have "(a @ (b @ [y]) @ z # rest) ! (length a + length b) = y" by (simp add: nth_append)
  moreover have "(a @ (b @ [y]) @ z # rest)[length a + length b + 1 := y] = a @ b @ y # y # rest"
    by (simp add: list_update_append)
  ultimately show ?case
    using snoc [of y "y # rest"] by (simp add: nat_add_distrib peek_def poke_def hd_append)
qed simp

lemma move_down_eq:
  "move_down (length b) (length a) (length a + 1) (a @ x # b @ rest) = Inr (a @ b @ last (x # b) # rest)"
proof (induction b arbitrary: a x)
  case (Cons y b)
  have "(a @ x # (y # b) @ rest)[length a := y] = (a @ [y]) @ y # b @ rest" by (simp add: list_update_append)
  then show ?case using Cons [of "a @ [y]" y] by (simp add: nth_append peek_def poke_def)
qed simp

text \<open>A line is a string with a cursor.\<close>

fun line_edit :: "key \<Rightarrow> byte list \<times> nat \<Rightarrow> byte list \<times> nat" where
  "line_edit KeyBackspace (t, p) = (if 0 < p then (take (p - 1) t @ drop p t, p - 1) else (t, p))"
| "line_edit KeyDelete (t, p) = (take p t @ drop (p + 1) t, p)"
| "line_edit KeyLeft (t, p) = (t, p - 1)"
| "line_edit KeyRight (t, p) = (t, if p < length t then p + 1 else p)"
| "line_edit KeyPos1 (t, p) = (t, 0)"
| "line_edit KeyEnd (t, p) = (t, length t)"
| "line_edit (KeyChar c) (t, p) = (take p t @ c # drop p t, p + 1)"
| "line_edit k (t, p) = (t, p)"

definition line_of :: "UI \<Rightarrow> byte list \<times> nat" where
  "line_of u = (take (nat (uiInputSize u)) (uiInputLine u), nat (uiInputPos u))"

definition line_rest :: "UI \<Rightarrow> UI \<Rightarrow> bool" where
  "line_rest u u' \<longleftrightarrow> uiCurrentLine u' = uiCurrentLine u \<and> uiLines u' = uiLines u \<and> uiStringStream u' = uiStringStream u
     \<and> uiDebugLevel u' = uiDebugLevel u \<and> uiInteractive u' = uiInteractive u"

lemmas edit_simps = edit_def on_line_def zoom_def upd_def at_int_def poke_def Let_def list_update_append

lemma edit_char:
  assumes "uiInputLine u = a @ b @ z # y # ys" and "uiInputPos u = int (length a)"
    and "uiInputSize u = int (length a) + int (length b)" and "length a + length b < 1023"
  shows "edit (KeyChar c) u = Inr (u\<lparr>uiInputLine := a @ c # b @ 0 # ys, uiInputPos := int (length a) + 1,
    uiInputSize := int (length a) + int (length b) + 1\<rparr>)"
proof -
  have "shift_up (length b) (int (length a) + int (length b)) (a @ b @ z # y # ys) = Inr (a @ hd (b @ [z]) # b @ y # ys)"
    using shift_up_eq [of b a z "y # ys"] by simp
  with assms show ?thesis by (simp add: edit_simps nat_add_distrib)
qed

lemma edit_backspace:
  assumes "uiInputLine u = a @ x # b @ z # rest" and "uiInputPos u = int (length a) + 1"
    and "uiInputSize u = int (length a) + int (length b) + 1"
  shows "edit KeyBackspace u = Inr (u\<lparr>uiInputLine := a @ b @ 0 # z # rest, uiInputPos := int (length a),
    uiInputSize := int (length a) + int (length b)\<rparr>)"
  using assms move_down_eq [of b a x "z # rest"] by (simp add: edit_simps nat_add_distrib)

lemma edit_delete:
  assumes "uiInputLine u = a @ x # b @ 0 # rest" and "uiInputPos u = int (length a)"
    and "uiInputSize u = int (length a) + int (length b) + 1"
  shows "edit KeyDelete u = Inr (u\<lparr>uiInputLine := a @ b @ 0 # 0 # rest, uiInputSize := int (length a) + int (length b)\<rparr>)"
  using assms move_down_eq [of "b @ [0]" a x rest] by (simp add: edit_simps nat_add_distrib)

lemma edit_line:
  assumes "input_ok u" and room: "uiInputSize u < 1023 \<or> (\<forall>c. k \<noteq> KeyChar c)"
  shows "\<exists>u'. edit k u = Inr u' \<and> input_ok u' \<and> line_of u' = line_edit k (line_of u) \<and> line_rest u u'
    \<and> uiInputSize u' \<le> uiInputSize u + 1"
proof -
  define t where "t = take (nat (uiInputSize u)) (uiInputLine u)"
  define p where "p = nat (uiInputPos u)"
  define z where "z = uiInputLine u ! nat (uiInputSize u)"
  define rest where "rest = drop (nat (uiInputSize u) + 1) (uiInputLine u)"
  have u: "length (uiInputLine u) = 1024" "uiInputPos u = int p" "p \<le> length t" "uiInputSize u = int (length t)"
    "length t < 1024"
    using assms(1) by (auto simp: input_ok_def t_def p_def)
  have line: "uiInputLine u = t @ z # rest"
    using assms(1) id_take_nth_drop [of "nat (uiInputSize u)" "uiInputLine u"]
    by (auto simp: input_ok_def t_def rest_def z_def)
  have rest: "length rest = 1023 - length t" using u(1) by (simp add: line)
  have abs: "line_of u = (t, p)" by (simp add: line_of_def t_def p_def)
  show ?thesis
  proof (cases k)
    case (KeyChar c)
    have room: "length t < 1023" using room u(4) KeyChar by simp
    obtain y ys where ys: "rest = y # ys" using rest room by (cases rest) auto
    define a b where "a = take p t" and "b = drop p t"
    have t: "t = a @ b" "p = length a" using u(3) by (simp_all add: a_def b_def)
    have "edit k u = Inr (u\<lparr>uiInputLine := a @ c # b @ 0 # ys, uiInputPos := int (length a) + 1,
        uiInputSize := int (length a) + int (length b) + 1\<rparr>)"
      unfolding KeyChar using u line room by (intro edit_char) (simp_all add: t ys)
    then show ?thesis
      using rest u room unfolding abs by (simp add: KeyChar t ys input_ok_def line_of_def line_rest_def nat_add_distrib nth_append)
  next
    case KeyBackspace
    show ?thesis
    proof (cases "p = 0")
      case True
      with assms(1) u(2) abs show ?thesis by (simp add: KeyBackspace edit_def line_rest_def)
    next
      case False
      define a x b where "a = take (p - 1) t" and "x = t ! (p - 1)" and "b = drop p t"
      have t: "t = a @ x # b" "p = Suc (length a)"
        using u(3) False id_take_nth_drop [of "p - 1" t] by (simp_all add: a_def b_def x_def)
      have "edit k u = Inr (u\<lparr>uiInputLine := a @ b @ 0 # z # rest, uiInputPos := int (length a),
          uiInputSize := int (length a) + int (length b)\<rparr>)"
        unfolding KeyBackspace using u line by (intro edit_backspace) (simp_all add: t)
      then show ?thesis
        using rest u unfolding abs by (simp add: KeyBackspace t input_ok_def line_of_def line_rest_def nat_add_distrib nth_append)
    qed
  next
    case KeyDelete
    show ?thesis
    proof (cases "p < length t")
      case False
      with assms(1) u(2,3,4) abs show ?thesis by (simp add: KeyDelete edit_def line_rest_def)
    next
      case True
      define a x b where "a = take p t" and "x = t ! p" and "b = drop (p + 1) t"
      have t: "t = a @ x # b" "p = length a"
        using True id_take_nth_drop [of p t] by (simp_all add: a_def b_def x_def)
      have "z = 0" using assms(1) u(4) by (simp add: input_ok_def z_def t)
      then have "edit k u = Inr (u\<lparr>uiInputLine := a @ b @ 0 # 0 # rest, uiInputSize := int (length a) + int (length b)\<rparr>)"
        unfolding KeyDelete using u line by (intro edit_delete) (simp_all add: t)
      then show ?thesis
        using rest u unfolding abs by (simp add: KeyDelete t input_ok_def line_of_def line_rest_def nat_add_distrib nth_append)
    qed
  qed (use assms(1) in \<open>auto simp: edit_def input_ok_def line_of_def line_rest_def Let_def\<close>)
qed

text \<open>
  The editor accepts a character too many: with 1023 characters in the line the next one is
  stored, and its terminating NUL is written one byte behind the array.
\<close>

lemma edit_full:
  assumes "input_ok u" and "uiInputSize u = 1023"
  shows "edit (KeyChar c) u = Inl OutOfBounds"
proof -
  define t where "t = take 1023 (uiInputLine u)"
  define p where "p = nat (uiInputPos u)"
  have line: "uiInputLine u = t @ [uiInputLine u ! 1023]"
    using assms(1) id_take_nth_drop [of 1023 "uiInputLine u"] by (simp add: t_def input_ok_def)
  define a b where "a = take p t" and "b = drop p t"
  have p: "uiInputPos u = int p" "p \<le> 1023" using assms(1,2) by (auto simp: p_def input_ok_def)
  have "length t = 1023" using assms(1) by (simp add: t_def input_ok_def)
  then have t: "t = a @ b" "length a = p" "length a + length b = 1023" using p(2) by (simp_all add: a_def b_def)
  have sh: "shift_up (length b) 1023 (uiInputLine u) = Inr (a @ hd (b @ [uiInputLine u ! 1023]) # b)"
    using shift_up_eq [of b a "uiInputLine u ! 1023" "[]"] line t by (simp flip: of_nat_add)
  have "nat (uiInputSize u - uiInputPos u) = length b" using p t(2,3) assms(2) by simp
  then show ?thesis using assms(2) p t(2,3) sh by (simp add: edit_simps)
qed

lemma edit_cases:
  assumes "input_ok u"
  obtains (overrun) "edit k u = Inl OutOfBounds" and "uiInputSize u = 1023"
    | (edited) u' where "edit k u = Inr u'" and "input_ok u'" and "line_rest u u'" and "uiInputSize u' \<le> uiInputSize u + 1"
proof (cases "uiInputSize u < 1023 \<or> (\<forall>c. k \<noteq> KeyChar c)")
  case True
  with edit_line [OF assms True] show ?thesis using edited by blast
next
  case False
  moreover have "uiInputSize u = 1023" using False assms by (auto simp: input_ok_def)
  ultimately show ?thesis using edit_full [OF assms] overrun by auto
qed

section \<open>Commands\<close>

definition readable :: "U_SStream \<Rightarrow> bool" where
  "readable ss \<longleftrightarrow> ss_len ss < length (ss_str ss) \<and> ss_pos ss \<le> ss_len ss \<and> ss_len ss < 2 ^ 32"

lemma find_readable:
  assumes "readable ss"
  shows "\<exists>b ss'. U_sstream_find s ss = Inr (b, ss') \<and> readable ss'"
  using find_loop_spec [of "ss_len ss" "ss_str ss" s "ss_pos ss"] assms
  by (auto simp: readable_def U_sstream_find_def occurs_at_def)

lemma skip_readable: "readable ss \<Longrightarrow> \<exists>ss'. U_sstream_skip_whitespace ss = Inr ss' \<and> readable ss'"
  using skip_whitespace_total [of ss] by (auto simp: readable_def)

lemma starts_readable: "readable ss \<Longrightarrow> \<exists>b. U_sstream_starts_with s ss = Inr b"
  using starts_with_eq [of ss s] by (auto simp: readable_def)

lemma strtol_digits_bound: "r0 < 2 ^ L \<Longrightarrow> strtol_digits L s i k r0 e = Inr (j, r, e') \<Longrightarrow> r < 2 ^ L"
proof (induction k arbitrary: s i r0 e)
  case (Suc k)
  from Suc.prems show ?case
    by (cases s) (auto simp: Let_def split: if_splits elim!: Suc.IH [rotated])
qed simp

lemma strtol_bound: "L \<in> {32, 64} \<Longrightarrow> U_strtol L s n = Inr (v, e, err) \<Longrightarrow> \<bar>v\<bar> < 2 ^ 64"
proof -
  assume L: "L \<in> {32, 64}" and r: "U_strtol L s n = Inr (v, e, err)"
  have long: "\<bar>to_long L (x mod 2 ^ L)\<bar> < 2 ^ 64" "y < 2 ^ L \<Longrightarrow> \<bar>to_long L y\<bar> < 2 ^ 64" for x y
    using to_long_bound [OF L, of "x mod 2 ^ L"] to_long_bound [OF L, of y] by simp_all
  have neg: "\<bar>to_long L (2 ^ L - x)\<bar> < 2 ^ 64" if "0 < x" for x
    using that by (intro long(2)) simp
  have digits: "y < 2 ^ L" if "strtol_digits L ds i k 0 0 = Inr (j, y, e')" for ds i k j y e'
    by (rule strtol_digits_bound [OF _ that]) simp
  from r show ?thesis
    by (auto simp: U_strtol_def Let_def split: if_splits sum.splits dest!: digits intro: long [simplified] neg [simplified])
qed

lemma get_long_readable:
  assumes "readable ss" and "L \<in> {32, 64}"
  shows "\<exists>v ss'. U_sstream_get_long L ss = Inr (v, ss') \<and> readable ss' \<and> \<bar>v\<bar> < 2 ^ 64"
proof (cases "ss_pos ss < ss_len ss")
  case True
  obtain v e err where r: "U_strtol L (drop (ss_pos ss) (ss_str ss)) (ss_len ss - ss_pos ss) = Inr (v, e, err)"
    using strtol_total [of "ss_len ss - ss_pos ss" "drop (ss_pos ss) (ss_str ss)" L] assms(1) True
    by (fastforce simp: readable_def)
  with strtol_bound [OF assms(2) r] assms(1) True show ?thesis
    by (auto simp: U_sstream_get_long_def readable_def Let_def)
next
  case False
  then show ?thesis using assms(1) by (simp add: U_sstream_get_long_def)
qed

lemma hexbyte_readable: "readable ss \<Longrightarrow> \<exists>r ss'. GCF_sstream_get_hexbyte ss = Inr (r, ss') \<and> readable ss'"
  by (auto simp: GCF_sstream_get_hexbyte_def readable_def split: option.splits)

lemma hex_args_readable: "readable ss \<Longrightarrow> \<exists>bs. hex_args n ss = Inr bs \<and> length bs \<le> n"
proof (induction n arbitrary: ss)
  case 0
  then show ?case using hexbyte_readable [of ss] by auto
next
  case (Suc n)
  obtain r ss' where r: "GCF_sstream_get_hexbyte ss = Inr (r, ss')" "readable ss'" using hexbyte_readable [OF Suc.prems] by blast
  then show ?case using Suc.IH [OF r(2)] by (cases r) auto
qed

lemma seek_readable: "readable ss \<Longrightarrow> readable (U_sstream_seek p ss)"
  by (simp add: readable_def U_sstream_seek_def)

definition command_ok :: "input_command \<Rightarrow> bool" where
  "command_ok c \<longleftrightarrow> (\<forall>v args. c = IRead v args \<longrightarrow> \<bar>v\<bar> < 2 ^ 64 \<and> (\<forall>bs. args = Some bs \<longrightarrow> length bs \<le> 32))"

lemma read_command_total:
  assumes "readable rs" and L: "L \<in> {32, 64}"
  shows "\<exists>c. read_command L rs = Inr c \<and> command_ok c"
proof -
  obtain b rs1 where 1: "U_sstream_find (bytes '' '') rs = Inr (b, rs1)" "readable rs1" using find_readable [OF assms(1)] by blast
  obtain rs2 where 2: "U_sstream_skip_whitespace rs1 = Inr rs2" "readable rs2" using skip_readable [OF 1(2)] by blast
  obtain v rs3 where 3: "U_sstream_get_long L rs2 = Inr (v, rs3)" "readable rs3" "\<bar>v\<bar> < 2 ^ 64"
    using get_long_readable [OF 2(2) L] by blast
  obtain rs4 where 4: "U_sstream_skip_whitespace rs3 = Inr rs4" "readable rs4" using skip_readable [OF 3(2)] by blast
  obtain hex where 5: "U_sstream_starts_with (bytes ''0x'') rs4 = Inr hex" using starts_readable [OF 4(2)] by blast
  obtain bs where 6: "hex_args 32 (U_sstream_seek (U_sstream_pos rs4 + 2) rs4) = Inr bs" "length bs \<le> 32"
    using hex_args_readable [OF seek_readable [OF 4(2)]] by blast
  show ?thesis using 3(3) 6(2) by (simp add: read_command_def 1 2 3 4 5 6(1) [simplified] command_ok_def)
qed

lemma parse_input_total:
  assumes "n < length buf" and "n < 2 ^ 32" and "L \<in> {32, 64}"
  shows "\<exists>c. parse_input L buf n = Inr c \<and> command_ok c"
proof -
  define rs where "rs = U_sstream_init (Some buf) n"
  have rs: "readable rs" using assms by (simp add: rs_def readable_def U_sstream_init_def)
  obtain b1 b2 b3 where "U_sstream_starts_with (bytes ''help'') rs = Inr b1" "U_sstream_starts_with (bytes ''read '') rs = Inr b2"
      "U_sstream_starts_with (bytes ''rp '') rs = Inr b3"
    using starts_readable [OF rs] by meson
  with read_command_total [OF rs assms(3)] show ?thesis
    by (simp add: parse_input_def rs_def [symmetric] Let_def command_ok_def)
qed

section \<open>Echoing a line\<close>

text \<open>A short line is echoed; a longer one may keep the padding busy for ever.\<close>

lemma pad_to_stays: "keeps {Diverges} (lbuf k k) (pad_to n)"
proof -
  have stay: "keeps {} (lbuf k k) (U_sstream_put_str [0x20])" by (rule str_printer.out_stays) simp
  have "lbuf k k ss \<Longrightarrow> case pad_to n ss of Inl f \<Rightarrow> f \<in> {Diverges} | Inr ss' \<Rightarrow> lbuf k k ss'" for ss
  proof (induction n ss rule: pad_to.induct)
    case (1 n ss)
    then obtain ss1 where ss1: "U_sstream_put_str [0x20] ss = Inr ss1" "lbuf k k ss1" using hoare_total [OF stay] by blast
    show ?case using "1.IH" [OF _ ss1(1) _ ss1(2)] ss1(1) "1.prems" by (subst pad_to.simps) simp
  qed
  then show ?thesis unfolding hoare_def by blast
qed

lemma print_line_partial:
  assumes "keeps F (lbuf 384 384) (block ops)"
  shows "quiet F (print_line ops)"
proof -
  define some :: "U_SStream stmt" where "some = (\<lambda>ss. case block ops ss of Inl f \<Rightarrow> Inr ss | Inr ss' \<Rightarrow> Inr ss')"
  have "keeps {} (lbuf 384 384) (block [some])"
    using assms by (auto simp: some_def hoare_def split: sum.splits)
  then have some: "quiet F (print_line [some])" by (rule keeps_print_line)
  have "(\<exists>f\<in>F. print_line ops w = Inl f) \<or> print_line ops w = print_line [some] w" if ok: "ui_ok (ui (gcf w))" for w
  proof -
    obtain u where u: "UI_StringStream w = Inr (w\<lparr>gcf := (gcf w)\<lparr>ui := u\<rparr>\<rparr>)" "lbuf 384 384 (uiStringStream u)"
      using StringStream_eq [OF ok] by (auto intro: lbuf_all)
    show ?thesis
      using u hoare_Inl [OF assms u(2)]
      by (cases "block ops (uiStringStream u)") (simp_all add: print_line_def on_ss_def zoom_def some_def)
  qed
  then show ?thesis using some unfolding quiet_def by (metis (mono_tags, lifting) sum.case(1))
qed

lemma long_line_partial:
  "quiet {Diverges} (print_line [U_sstream_put_str s, U_sstream_put_str line, pad_to n, put_line ''''])"
  by (rule print_line_partial)
    (intro keeps_more hoare_block_single pad_to_stays hoare_intro line_intro; simp)

lemma enter_line_ok:
  assumes "length line \<le> 379" and "n \<le> 382"
  shows "quiet F (print_line [U_sstream_put_str (0x0A # bytes ''> ''), U_sstream_put_str line, pad_to n, put_line ''''])"
proof (rule quiet_print_line)
  have weak: "hoare {} (fits 384 k) s Q" if "hoare {} (fits 384 k') s Q" "k \<le> k'" for k k' s and Q :: "U_SStream \<Rightarrow> bool"
    by (rule hoare_pre [OF that(1)]) (rule fits_weaken [OF _ that(2)])
  have stay: "hoare {} (fits 384 382) (block [put_line '''']) (lbuf 384 384)"
    by (rule hoare_pre [where P' = "lbuf 384 384"]) (intro hoare_intro line_intro, auto simp: fits_def intro: lbuf_all)
  show "hoare {} (fits 384 0) (block [U_sstream_put_str (0x0A # bytes ''> ''), U_sstream_put_str line, pad_to n, put_line ''''])
      (lbuf 384 384)"
    by (rule fits_put, simp, rule fits_put, use assms in simp, rule weak [where k' = 382], rule fits_pad)
      (use assms stay in simp_all)
qed

lemma quiet_more: "quiet F a \<Longrightarrow> F \<subseteq> F' \<Longrightarrow> quiet F' a"
  unfolding quiet_def by (metis (mono_tags, lifting) subsetD sum.case_eq_if)

lemma quiet_to_holds: "quiet_to w w' \<Longrightarrow> holds P w \<Longrightarrow> holds P w'"
  by (auto simp: quiet_to_def holds_def core_ok_def input_ok_same)

lemma runs_keeps: "runs prog_ok a prog_ok \<Longrightarrow> AssertFailed \<in> F \<Longrightarrow> keeps F machine_ok a"
  unfolding runs_def by (erule hoare_weaken) auto

lemma runs_WinSize [ok_intro]:
  assumes "\<And>w h. w < 2 ^ 16 \<Longrightarrow> h < 2 ^ 16 \<Longrightarrow> runs P (k (w, h)) Q"
  shows "runs P (callv UI_GetWinSize k) Q"
proof -
  have "unat (x :: 16 word) < 2 ^ 16" for x using unsigned_less [of x] by simp
  then show ?thesis unfolding UI_GetWinSize_def by (intro runs_callv_os assms)
qed

lemma line_string:
  assumes "input_ok u" and "0 < uiInputSize u"
  shows "\<exists>s. c_string (uiInputLine u) = Inr s \<and> length s \<le> nat (uiInputSize u)"
proof -
  define n l where "n = nat (uiInputSize u)" and "l = uiInputLine u"
  have nul: "n < length l" "l ! n = 0" using assms by (auto simp: input_ok_def n_def l_def)
  have "length (takeWhile (\<lambda>b. b \<noteq> 0) l) \<le> n"
  proof (rule ccontr)
    assume "\<not> ?thesis"
    then have "n < length (takeWhile (\<lambda>b. b \<noteq> 0) l)" by simp
    from nth_mem [OF this] takeWhile_nth [OF this] show False using nul(2) by (auto dest: set_takeWhileD)
  qed
  moreover have "0 \<in> set l" using nul by (metis nth_mem)
  ultimately show ?thesis by (simp add: c_string_def n_def l_def)
qed

context dispatcher
begin

lemma run_command_runs:
  assumes "\<And>e s. C e s" and "command_ok c"
  shows "runs prog_ok (run_command he c) prog_ok"
proof (cases c)
  case (IRead v args)
  define bs where "bs = (case args of None \<Rightarrow> [] | Some bs \<Rightarrow> bs)"
  have v: "\<bar>v\<bar> < 2 ^ 64" and bs: "length bs \<le> 119"
    using assms(2) IRead by (auto simp: command_ok_def bs_def split: option.splits)
  have byte: "uint b < 2 ^ 64" for b :: byte using unsigned_less [of b] by (auto intro: order.strict_trans)
  have rest: "keeps {} (lbuf 384 384) (block (concat (map (\<lambda>b. [put_lit '' '', U_sstream_put_long (uint b)]) bs) @ [put_line '''']))"
    by (rule keeps_more(2), rule keeps_list) (auto intro: line_intro hoare_intro byte split: if_splits)
  have line: "quiet F (print_line ([put_lit ''> reading parameter: '', U_sstream_put_long v]
         @ concat (map (\<lambda>b. [put_lit '' '', U_sstream_put_long (uint b)]) bs) @ [put_line '''']))" for F
  proof (rule quiet_print_line, unfold append_Cons append_Nil)
    have long: "hoare {} (lbuf 384 21) (U_sstream_put_long v) (lbuf 384 384)"
      by (rule hoare_post [OF put_long_lbuf [OF v]]) (auto intro: lbuf_all)
    have lit: "hoare {} (fits 384 0) (put_lit ''> reading parameter: '') (lbuf 384 21)"
      unfolding put_lit_def by (rule hoare_post [OF put_str_fits' [where k' = 21]]) (auto simp: fits_def)
    show "hoare {} (fits 384 0) (block (put_lit ''> reading parameter: '' # U_sstream_put_long v
         # concat (map (\<lambda>b. [put_lit '' '', U_sstream_put_long (uint b)]) bs) @ [put_line ''''])) (lbuf 384 384)"
      by (rule hoare_block_Cons [OF lit hoare_block_Cons [OF long rest]])
  qed
  have send: "runs prog_ok (next_seq (\<lambda>seq. gcfCommandQueryParameter he seq (word_of_int v) bs)) prog_ok"
    using bs by (simp add: QueryParameter_eq) (rule ok_intro | simp add: assms)+
  show ?thesis
    unfolding run_command_def IRead Let_def input_command.case bs_def [symmetric]
    by (rule runs_Cons [OF steps_quiet [OF line] runs_single [OF send]])
qed (simp_all add: run_command_def del: block.simps, (rule ok_intro | simp)+)

text \<open>
  A key is handled with the invariant, or one of the faults \<open>F\<close> stops the program: a failed \<open>Assert\<close>,
  and for a line of more than 379 characters the endless padding and the overrun arrays.
\<close>

lemma ProcessInput_keeps:
  assumes C: "\<And>e s. C e s" and w: "machine_ok w" and F: "AssertFailed \<in> F"
    and short: "uiInputSize (ui (gcf w)) \<le> 379 \<or> Diverges \<in> F"
  shows "case GCF_ProcessInput he w of Inl f \<Rightarrow> f \<in> F | Inr w' \<Rightarrow> machine_ok w' \<and> uiInputSize (ui (gcf w')) = 0"
proof (cases "uiInputSize (ui (gcf w)) = 0")
  case True
  have q: "quiet {} (puts_line ''use 'help' to see a list of available commands'')" unfolding puts_line_def by (rule quiet_UI_Puts)
  have ok: "ui_ok (ui (gcf w))" using w by (simp add: holds_def core_ok_def)
  obtain w1 where w1: "puts_line ''use 'help' to see a list of available commands'' w = Inr w1" "quiet_to w w1"
    using quietD [OF q ok] quietF [OF q ok] by (cases "puts_line ''use 'help' to see a list of available commands'' w") auto
  have "machine_ok w1"
    using steps_quiet [OF quiet_faults [OF q], of prog_ok] w w1(1) by (auto simp: steps_def dest: hoare_Inr)
  moreover have "uiInputSize (ui (gcf w1)) = 0" using w1(2) True by (auto simp: quiet_to_def ui_same_def)
  ultimately show ?thesis using True w1(1) by (simp add: GCF_ProcessInput_def gget_def reads_def)
next
  case False
  have ok: "ui_ok (ui (gcf w))" "input_ok (ui (gcf w))" "long64 (env w)" using w by (auto simp: holds_def core_ok_def env_ok_def)
  define size where "size = uiInputSize (ui (gcf w))"
  have size: "0 < size" "size < 1024" using False ok(2) by (simp_all add: size_def input_ok_def)
  obtain line where line: "c_string (uiInputLine (ui (gcf w))) = Inr line" "length line \<le> nat size"
    using line_string [OF ok(2)] size by (auto simp: size_def)
  define w1 where "w1 = w\<lparr>tick := tick w + 1\<rparr>"
  define ww where "ww = unat (fst (os_winsize (env w) (tick w)))"
  define echo where "echo = print_line [U_sstream_put_str (0x0A # bytes ''> ''), U_sstream_put_str line, pad_to (min ww 382), put_line '''']"
  have echo: "quiet F echo"
  proof (cases "size \<le> 379")
    case True
    then show ?thesis unfolding echo_def using line(2) by (intro enter_line_ok) simp_all
  next
    case False
    with short have "{Diverges} \<subseteq> F" by (simp add: size_def)
    then show ?thesis unfolding echo_def by (rule quiet_more [OF long_line_partial])
  qed
  have w1: "machine_ok w1" "ui_ok (ui (gcf w1))" using w ok by (simp_all add: w1_def holds_def)
  note def = GCF_ProcessInput_def gget_def reads_def callv_def UI_GetWinSize_def os_def attempt_def w1_def ww_def echo_def
  show ?thesis
  proof (cases "echo w1")
    case (Inl f)
    then show ?thesis using False size line(1) quietF [OF echo w1(2) Inl] by (simp add: def size_def [symmetric])
  next
  case (Inr w2)
  have w2: "echo w1 = Inr w2" "quiet_to w1 w2" using Inr quietD [OF echo w1(2) Inr] .
  have same: "ui_same (ui (gcf w2)) (ui (gcf w))" "env w2 = env w"
    using w2(2) by (auto simp: quiet_to_def w1_def)
  have "machine_ok w2" using quiet_to_holds [OF w2(2) w1(1)] .
  have "nat size < length (uiInputLine (ui (gcf w2)))" using same(1) ok(2) size by (simp add: ui_same_def input_ok_def)
  moreover have "nat size < 2 ^ 32" using size by simp
  ultimately obtain c where c: "parse_input 64 (uiInputLine (ui (gcf w2))) (nat size) = Inr c" "command_ok c"
    using parse_input_total [of "nat size" "uiInputLine (ui (gcf w2))" 64] by auto
  have first: "GCF_ProcessInput he w = block [run_command he c, set_ui (\<lambda>u. u\<lparr>uiInputPos := 0, uiInputSize := 0\<rparr>)] w2"
    using False size ok(3) line(1) w2(1) c(1) same(2)
    by (simp add: def long_bits_def size_def [symmetric])
  have "runs prog_ok (run_command he c) prog_ok" by (rule run_command_runs [OF C c(2)])
  then have "case run_command he c w2 of Inl f \<Rightarrow> f = AssertFailed | Inr w3 \<Rightarrow> machine_ok w3"
    using \<open>machine_ok w2\<close> by (rule runsD)
  moreover have "machine_ok (w3\<lparr>gcf := (gcf w3)\<lparr>ui := (ui (gcf w3))\<lparr>uiInputPos := 0, uiInputSize := 0\<rparr>\<rparr>\<rparr>)" if "machine_ok w3" for w3
    using that by (simp add: holds_def core_ok_def ui_ok_def input_ok_def)
  ultimately show ?thesis using F
    by (auto simp: first set_ui_def set_gcf_def upd_def split: sum.splits)
  qed
qed

lemma echo_total: "length line = 1024 \<Longrightarrow> n \<le> 383 \<Longrightarrow> \<exists>s. echo_text line n w = Inr s"
  by (auto simp: echo_text_def c_string_def Let_def)

abbreviation (input) show_line :: "int \<Rightarrow> action" where
  "show_line n \<equiv> if n > 0 \<and> n < 1024
     then callv UI_GetWinSize (\<lambda>(w, h). block [
       UI_SetCursor 0 h,
       attempt (\<lambda>g. echo_text (uiInputLine (ui g)) (nat n) w) PL_Print,
       gget (\<lambda>g. uiInputPos (ui g)) (\<lambda>pos. UI_SetCursor (nat ((pos + 1) mod 2 ^ 32)) h)])
     else skip"

lemma steps_cursor: "x < 2 ^ 31 \<Longrightarrow> h < 2 ^ 32 \<Longrightarrow> steps prog_ok (UI_SetCursor x h) prog_ok"
  by (intro steps_quiet quiet_SetCursor)

lemma echo_runs:
  assumes "n \<le> 383"
  shows "runs prog_ok (show_line n) prog_ok"
proof -
  have echo: "runs prog_ok (attempt (\<lambda>g. echo_text (uiInputLine (ui g)) (nat n) w) PL_Print) prog_ok" for w
    using assms by (intro runs_attempt runs_weaken [OF steps_Puts(4)] echo_total) (auto simp: at_def core_ok_def input_ok_def)
  have last: "runs prog_ok (gget (\<lambda>g. uiInputPos (ui g)) (\<lambda>pos. UI_SetCursor (nat ((pos + 1) mod 2 ^ 32)) h)) prog_ok"
    if "h < 2 ^ 32" for h
  proof (rule runs_gget)
    fix g assume "at prog_ok g"
    then have "0 \<le> uiInputPos (ui g)" "uiInputPos (ui g) < 1024" by (auto simp: at_def core_ok_def input_ok_def)
    then have "nat ((uiInputPos (ui g) + 1) mod 2 ^ 32) < 2 ^ 31" by simp
    then show "runs prog_ok (UI_SetCursor (nat ((uiInputPos (ui g) + 1) mod 2 ^ 32)) h) prog_ok"
      using that by (intro runs_weaken [OF steps_cursor])
  qed
  show ?thesis
    by (rule runs_if, rule runs_WinSize, unfold case_prod_conv,
        rule runs_Cons [OF steps_cursor runs_Cons [OF steps_runs [OF echo] runs_single [OF last]]])
      (auto intro: runs_weaken [OF steps_skip])
qed

text \<open>A line that leaves no room for the NUL of the array it is copied to overruns it.\<close>

lemma echo_overrun:
  assumes "383 < n"
  shows "keeps {AssertFailed, OutOfBounds} machine_ok (show_line n)"
proof -
  have over: "echo_text line (nat n) w = Inl OutOfBounds" for line w
  proof -
    have "384 \<le> nat n" using assms by simp
    then show ?thesis by (simp add: echo_text_def Let_def)
  qed
  have cursor: "keeps {AssertFailed, OutOfBounds} machine_ok (UI_SetCursor 0 h)" if "h < 2 ^ 32" for h
    using runs_keeps [OF runs_weaken [OF steps_cursor [of 0 h]]] that by simp
  have rest: "keeps {AssertFailed, OutOfBounds} machine_ok (block [attempt (\<lambda>g. echo_text (uiInputLine (ui g)) (nat n) w) PL_Print, s])"
    for w s by (simp add: hoare_def attempt_def gget_def reads_def over fails_def)
  have size: "unat (x :: 16 word) < 2 ^ 32" for x
    by (rule order.strict_trans [OF unsigned_less]) simp
  have tick: "holds prog_ok w \<Longrightarrow> holds prog_ok (w\<lparr>tick := t\<rparr>)" for w t by (simp add: holds_def)
  show ?thesis
    using hoare_block_Cons [OF cursor rest] size tick
    by (auto simp: hoare_def callv_def UI_GetWinSize_def os_def skip_def split del: sum.splits)
qed

lemma KeyboardInput_keeps:
  assumes C: "\<And>e s. C e s" and w: "machine_ok w" and F: "AssertFailed \<in> F"
    and short: "uiInputSize (ui (gcf w)) \<le> 379 \<or> Diverges \<in> F \<and> OutOfBounds \<in> F"
  shows "case GCF_KeyboardInput he cp w of Inl f \<Rightarrow> f \<in> F | Inr w' \<Rightarrow> machine_ok w'"
proof -
  let ?first = "if key_of cp = KeyEnter then GCF_ProcessInput he
     else zoom (\<lambda>w. ui (gcf w)) (\<lambda>u w. w\<lparr>gcf := (gcf w)\<lparr>ui := u\<rparr>\<rparr>) (edit (key_of cp))"
  have first: "case ?first w of Inl f \<Rightarrow> f \<in> F
    | Inr w1 \<Rightarrow> machine_ok w1 \<and> (uiInputSize (ui (gcf w1)) \<le> 380 \<or> OutOfBounds \<in> F)"
  proof (cases "key_of cp = KeyEnter")
    case True
    then show ?thesis using ProcessInput_keeps [OF C w F] short by (auto split: sum.splits)
  next
    case False
    have "input_ok (ui (gcf w))" using w by (simp add: holds_def core_ok_def)
    then show ?thesis
    proof (cases rule: edit_cases [of "ui (gcf w)" "key_of cp"])
      case overrun
      with short False show ?thesis by (simp add: zoom_def)
    next
      case (edited u')
      with w short False show ?thesis by (auto simp: zoom_def holds_def core_ok_def line_rest_def ui_ok_def)
    qed
  qed
  have k: "keeps F machine_ok (show_line n)" if "n \<le> 380 \<or> OutOfBounds \<in> F" for n
  proof (cases "n \<le> 383")
    case True
    then show ?thesis by (intro runs_keeps echo_runs F)
  next
    case False
    with that F show ?thesis by (intro hoare_weaken [OF echo_overrun]) auto
  qed
  have "GCF_KeyboardInput he cp w = (case ?first w of Inl f \<Rightarrow> Inl f | Inr w1 \<Rightarrow> show_line (uiInputSize (ui (gcf w1))) w1)"
    unfolding GCF_KeyboardInput_def by (simp add: gget_def reads_def split: sum.splits)
  moreover have "case show_line (uiInputSize (ui (gcf w1))) w1 of Inl f \<Rightarrow> f \<in> F | Inr w' \<Rightarrow> machine_ok w'"
    if "?first w = Inr w1" for w1
    using first k [of "uiInputSize (ui (gcf w1))"] unfolding that sum.case hoare_def by blast
  ultimately show ?thesis using first by (cases "?first w") simp_all
qed

end

end
