(* ===== verification/Posix_Loop.thy ===== *)
theory Posix_Loop
  imports Gcf_Input
begin

text \<open>
  The main loop of \<open>main_posix.c\<close>: \<open>PL_Loop\<close> and \<open>main\<close>. What one \<open>poll()\<close> and the two
  \<open>read()\<close> calls after it return is a \<open>poll_result\<close>; a run of the program is given by the
  list of them, in order. The loop itself need not end, so \<open>PL_Loop\<close> follows it for as many
  polls as the list has.
\<close>

section \<open>Input\<close>

text \<open>
  \<open>dev_gone\<close> and \<open>dev_in\<close> are the bits \<open>POLLHUP | POLLERR | POLLNVAL\<close> and \<open>POLLIN\<close> of the
  device, \<open>key_in\<close> is \<open>POLLIN\<close> of the terminal. The bytes are what \<open>read()\<close> delivers, none if
  it fails or finds the end of the file; the buffer has 1024 bytes.
\<close>

record poll_result =
  poll_ret :: int
  dev_gone :: bool
  dev_in :: bool
  dev_read :: "byte list"
  key_in :: bool
  key_read :: "byte list"

definition poll_ok :: "poll_result \<Rightarrow> bool" where
  "poll_ok p \<longleftrightarrow> length (dev_read p) \<le> 1024 \<and> length (key_read p) \<le> 1024"

text \<open>The code point of the bytes a key press delivers, 0 if it is not one of the known keys.\<close>

definition key_codepoint :: "byte list \<Rightarrow> nat" where
  "key_codepoint ks = (case ks of
     [c] \<Rightarrow> (let cp = unat c in
        if cp \<ge> 32 \<and> cp \<le> 126 then cp
        else if cp = 0x09 then 0x09
        else if cp = 0x0A then 0x0A
        else if cp = 0x1B then 0x1B
        else if cp = 0x7F then 0x07FFFF00
        else 0)
   | c0 # c1 # c2 # cs \<Rightarrow>
       (if c0 = 0x1B \<and> c1 = 0x5B
        then if c2 = 0x33 then 0x07FFFF01
          else if c2 = 0x41 then 0x07FFFF04
          else if c2 = 0x42 then 0x07FFFF05
          else if c2 = 0x43 then 0x07FFFF07
          else if c2 = 0x44 then 0x07FFFF06
          else if c2 = 0x48 then 0x07FFFF09
          else if c2 = 0x46 then 0x07FFFF0A
          else 0
        else 0)
   | _ \<Rightarrow> 0)"

primrec key_dump :: "nat \<Rightarrow> byte list \<Rightarrow> action" where
  "key_dump i [] = skip"
| "key_dump i (c # cs) = block [
     PL_Printf DBG_INFO ''IN: [%d] = 0x%02X (%c) '' [ANum (int i), ANum (uint c), ANum (uint c)],
     key_dump (i + 1) cs]"

definition read_keys :: "(event \<Rightarrow> action) \<Rightarrow> byte list \<Rightarrow> action" where
  "read_keys he ks = (let cp = key_codepoint ks in block [
     if cp \<noteq> 0 then GCF_KeyboardInput he cp else skip,
     reads (\<lambda>w. ndebug (env w)) (\<lambda>nd. if \<not> nd \<and> cp = 0 then key_dump 0 ks else skip)])"

section \<open>Loop\<close>

definition check_timer :: "(event \<Rightarrow> action) \<Rightarrow> action" where
  "check_timer he = cond (\<lambda>w. timer (platform w) \<noteq> 0)
     (callv PL_Time (\<lambda>now. cond (\<lambda>w. timer (platform w) < now)
        (block [set_pl (\<lambda>p. p\<lparr>timer := 0\<rparr>), he EV_TIMEOUT]) skip))
     skip"

definition poll_device :: "(event \<Rightarrow> action) \<Rightarrow> poll_result \<Rightarrow> action" where
  "poll_device he p = block [
     if dev_in p \<and> dev_read p \<noteq> [] then GCF_Received he (dev_read p) else skip,
     cond (\<lambda>w. tx_rp (platform w) \<noteq> tx_wp (platform w)) (call (PROT_Flush he)) skip]"

text \<open>
  The part of an iteration after a \<open>poll\<close> that found something; \<open>dev\<close> tells whether a device
  was polled, which is decided before the timeout is handled.
\<close>

definition poll_ready :: "(event \<Rightarrow> action) \<Rightarrow> bool \<Rightarrow> poll_result \<Rightarrow> action" where
  "poll_ready he dev p =
    (if dev \<and> dev_gone p then PL_Disconnect he
     else block [
       if dev then poll_device he p else skip,
       if key_in p
       then if key_read p = [] then set_pl (\<lambda>q. q\<lparr>running := False\<rparr>) else read_keys he (key_read p)
       else skip])"

fun poll_loop :: "(event \<Rightarrow> action) \<Rightarrow> poll_result list \<Rightarrow> action" where
  "poll_loop he [] = cond (\<lambda>w. running (platform w)) skip (PL_Disconnect he)"
| "poll_loop he (p # ps) = cond (\<lambda>w. running (platform w))
     (block [
       he EV_PL_LOOP,
       reads (\<lambda>w. fd (platform w) \<noteq> 0) (\<lambda>dev.
         if poll_ret p < 0
         then block [PL_Printf DBG_DEBUG ''poll error: %s'' [], PL_Disconnect he]
         else block [
           check_timer he,
           if poll_ret p = 0 then skip else poll_ready he dev p,
           poll_loop he ps])])
     (PL_Disconnect he)"

definition PL_Loop :: "(event \<Rightarrow> action) \<Rightarrow> poll_result list \<Rightarrow> action" where
  "PL_Loop he ps = block [
     set_pl (\<lambda>_. init_pl),
     he EV_PL_STARTED,
     poll_loop he ps]"

text \<open>\<open>main\<close>; the signal handlers and the terminal mode are the subject of \<open>Posix_Terminal\<close>.\<close>

definition gcf_main :: "nat \<Rightarrow> byte list list \<Rightarrow> poll_result list \<Rightarrow> action" where
  "gcf_main n av ps = block [GCF_Init av, PL_Loop (GCF_HandleEvent n) ps]"

end
