(* ===== verification/Gcf_Reach.thy ===== *)
theory Gcf_Reach
  imports Gcf_Handlers
begin

text \<open>
  What a handler does, exactly. \<open>reached w0 r T g d w\<close> describes a world \<open>w\<close> the program has
  come to from \<open>w0\<close> with an open port: the fields of \<open>GCF\<close> are those of \<open>g\<close> (the UI lines
  aside), the timer is in \<open>T\<close>, \<open>running\<close> is \<open>r\<close>, and the bytes written together with the
  bytes still pending have grown by \<open>d\<close>. Each statement of the handlers moves such a
  description on; the rules below are total, so a chain of them also says that the handler
  returns.
\<close>

definition reached :: "world \<Rightarrow> bool \<Rightarrow> nat set \<Rightarrow> GCF \<Rightarrow> byte list \<Rightarrow> world \<Rightarrow> bool" where
  "reached w0 r T g d w \<longleftrightarrow> env w = env w0 \<and> tick w0 \<le> tick w \<and> fd (platform w) = fd (platform w0) \<and> running (platform w) = r
     \<and> timer (platform w) \<in> T \<and> ring_ok (platform w) \<and> (\<exists>u. gcf w = g\<lparr>ui := u\<rparr> \<and> ui_ok u \<and> ui_same u (ui (gcf w0)))
     \<and> (\<exists>es. outs w = outs w0 @ es \<and> sent es @ pending (platform w) = pending (platform w0) @ d)"

text \<open>The port is open, has room for \<open>n\<close> more bytes, and the debug output is off.\<close>

definition ready :: "nat \<Rightarrow> world \<Rightarrow> bool" where
  "ready n w \<longleftrightarrow> port_open w \<and> ui_ok (ui (gcf w)) \<and> uiDebugLevel (ui (gcf w)) = 0 \<and> writes_ok (env w)
     \<and> ring_len (platform w) + n \<le> 2047"

text \<open>The time the clock shows at a system call, in milliseconds.\<close>

definition time_at :: "env \<Rightarrow> nat \<Rightarrow> nat" where
  "time_at e t = (case os_clock e t of None \<Rightarrow> 0 | Some (sec, nsec) \<Rightarrow> (sec * 1000 + nsec div 1000000) mod 2 ^ 64)"

lemma PL_Time_at: "PL_Time w = Inr (time_at (env w) (tick w), w\<lparr>tick := tick w + 1\<rparr>)"
  by (simp add: PL_Time_def os_def time_at_def split: option.splits)

text \<open>The values of the timer after \<open>PL_SetTimeout(ms)\<close>: \<open>ms\<close> behind the time the clock shows from \<open>w0\<close> on.\<close>

definition timeout :: "world \<Rightarrow> nat \<Rightarrow> nat set" where
  "timeout w0 ms = {uadd 64 (time_at (env w0) t) ms | t. tick w0 \<le> t}"

abbreviation (input) leads :: "world \<Rightarrow> bool \<Rightarrow> nat set \<Rightarrow> GCF \<Rightarrow> byte list \<Rightarrow> action \<Rightarrow> (world \<Rightarrow> bool) \<Rightarrow> bool" where
  "leads w0 r T g d s Q \<equiv> hoare {} (reached w0 r T g d) s Q"

named_theorems reach_intro \<open>rules for statements\<close>

lemma reached_start:
  assumes "ready n w"
  shows "reached w (running (platform w)) {timer (platform w)} (gcf w) [] w"
  using assms by (auto simp: reached_def ready_def port_open_def ui_same_def intro: exI [of _ "ui (gcf w)"])

lemma leadsD:
  assumes "leads w (running (platform w)) {timer (platform w)} (gcf w) [] s Q" and "ready n w"
  shows "\<exists>w'. s w = Inr w' \<and> Q w'"
  using hoare_total [OF assms(1) reached_start [OF assms(2)]] .

lemma reached_gcf: "reached w0 r T g d w \<Longrightarrow> \<exists>u. gcf w = g\<lparr>ui := u\<rparr>"
  by (auto simp: reached_def)

lemma reached_env: "reached w0 r T g d w \<Longrightarrow> env w = env w0"
  by (auto simp: reached_def)

lemma reached_weaken: "reached w0 r T g d w \<Longrightarrow> T \<subseteq> T' \<Longrightarrow> reached w0 r T' g d w"
  by (auto simp: reached_def)

section \<open>Statements\<close>

lemma leads_upd:
  assumes "\<And>w. reached w0 r T g d w \<Longrightarrow> reached w0 r' T' g' d' (f w)"
  shows "leads w0 r T g d (upd f) (reached w0 r' T' g' d')"
  using assms by (rule hoare_upd)

lemma reached_gcf_set:
  "reached w0 r T g d w \<Longrightarrow> (\<And>u. f (g\<lparr>ui := u\<rparr>) = g'\<lparr>ui := u\<rparr>) \<Longrightarrow> reached w0 r T g' d (w\<lparr>gcf := f (gcf w)\<rparr>)"
  by (auto simp: reached_def)

lemma leads_set:
  assumes "\<And>u. f (g\<lparr>ui := u\<rparr>) = g'\<lparr>ui := u\<rparr>"
  shows "leads w0 r T g d (set_gcf f) (reached w0 r T g' d)"
  unfolding set_gcf_def by (rule leads_upd, erule reached_gcf_set) (rule assms)

lemmas leads_set_gcf [reach_intro] = leads_set [where g' = "f g" for f g]

lemma leads_set_state [reach_intro]: "leads w0 r T g d (set_state h) (reached w0 r T (g\<lparr>state := h\<rparr>) d)"
  unfolding set_state_def by (rule leads_set_gcf) simp

lemma leads_set_substate [reach_intro]: "leads w0 r T g d (set_substate h) (reached w0 r T (g\<lparr>substate := h\<rparr>) d)"
  unfolding set_substate_def by (rule leads_set_gcf) simp

lemma leads_set_wp [reach_intro]: "leads w0 r T g d (set_wp n) (reached w0 r T (g\<lparr>wp := n\<rparr>) d)"
  unfolding set_wp_def by (rule leads_set_gcf) simp

lemma leads_ascii:
  assumes "s (ascii g) = Inr b"
  shows "leads w0 r T g d (zoom (\<lambda>w. ascii (gcf w)) (\<lambda>s w. w\<lparr>gcf := (gcf w)\<lparr>ascii := s\<rparr>\<rparr>) s) (reached w0 r T (g\<lparr>ascii := b\<rparr>) d)"
  unfolding hoare_def
proof (intro allI impI)
  fix w assume w: "reached w0 r T g d w"
  then have "ascii (gcf w) = ascii g" using reached_gcf by fastforce
  moreover have "reached w0 r T (g\<lparr>ascii := b\<rparr>) d (w\<lparr>gcf := (gcf w)\<lparr>ascii := b\<rparr>\<rparr>)"
    by (rule reached_gcf_set [OF w]) simp
  ultimately show "case zoom (\<lambda>w. ascii (gcf w)) (\<lambda>s w. w\<lparr>gcf := (gcf w)\<lparr>ascii := s\<rparr>\<rparr>) s w of Inl f \<Rightarrow> f \<in> {}
      | Inr w' \<Rightarrow> reached w0 r T (g\<lparr>ascii := b\<rparr>) d w'"
    using assms by (simp add: zoom_def)
qed

lemma leads_set_ascii [reach_intro]:
  "i < length (ascii g) \<Longrightarrow> leads w0 r T g d (set_ascii i v) (reached w0 r T (g\<lparr>ascii := (ascii g)[i := v]\<rparr>) d)"
  unfolding set_ascii_def by (rule leads_ascii) simp

lemma leads_clear_rx [reach_intro]:
  assumes "length (ascii g) = 512"
  shows "leads w0 r T g d clear_rx (reached w0 r T (g\<lparr>wp := 0, ascii := (ascii g)[0 := 0]\<rparr>) d)"
  unfolding clear_rx_def
  by (rule hoare_block_Cons [OF leads_set_wp] hoare_block_single)+ (rule leads_set_ascii [THEN hoare_post], simp_all add: assms)

lemma leads_quiet:
  assumes "quiet {} a"
  shows "leads w0 r T g d a (reached w0 r T g d)"
proof (rule quiet_keeps [OF assms])
  show "ui_ok (ui (gcf w))" if "reached w0 r T g d w" for w using that by (auto simp: reached_def)
  fix w w' assume "quiet_to w w'" "reached w0 r T g d w"
  then show "reached w0 r T g d w'"
    by (auto simp: quiet_to_def reached_def ui_same_def sent_terminal)
qed

lemma leads_PL:
  assumes "\<And>p. fd (f p) = fd p" "\<And>p. ring_ok (f p) = ring_ok p" "\<And>p. pending (f p) = pending p"
    and "\<And>p. running p = r \<Longrightarrow> running (f p) = r'" and "\<And>p. timer p \<in> T \<Longrightarrow> timer (f p) \<in> T'"
  shows "leads w0 r T g d (set_pl f) (reached w0 r' T' g d)"
  unfolding set_pl_def by (rule leads_upd) (auto simp: reached_def assms)

lemma timer_pending [simp]: "ring_ok (p\<lparr>timer := n\<rparr>) = ring_ok p" "pending (p\<lparr>timer := n\<rparr>) = pending p"
  "ring_ok (p\<lparr>running := b\<rparr>) = ring_ok p" "pending (p\<lparr>running := b\<rparr>) = pending p"
  by (simp_all add: ring_ok_def ring_len_def pending_def)

lemma leads_ClearTimeout [reach_intro]: "leads w0 r T g d PL_ClearTimeout (reached w0 r {0} g d)"
  unfolding PL_ClearTimeout_def by (rule leads_PL) simp_all

lemma leads_ShutDown [reach_intro]: "leads w0 r T g d PL_ShutDown (reached w0 False T g d)"
  unfolding PL_ShutDown_def
  by (rule hoare_block_Cons [OF leads_quiet] hoare_block_single leads_PL | simp add: quiet_intro)+

lemma leads_clock:
  assumes "\<And>t. tick w0 \<le> t \<Longrightarrow> leads w0 r T g d (k (time_at (env w0) t)) Q"
  shows "leads w0 r T g d (callv PL_Time k) Q"
  unfolding hoare_def
proof (intro allI impI)
  fix w assume w: "reached w0 r T g d w"
  then have "reached w0 r T g d (w\<lparr>tick := tick w + 1\<rparr>)" by (auto simp: reached_def)
  moreover have "tick w0 \<le> tick w" "env w = env w0" using w by (simp_all add: reached_def)
  ultimately show "case callv PL_Time k w of Inl f \<Rightarrow> f \<in> {} | Inr w' \<Rightarrow> Q w'"
    using assms [of "tick w"] by (simp add: callv_def PL_Time_at hoare_def)
qed

lemma leads_SetTimeout [reach_intro]: "leads w0 r T g d (PL_SetTimeout ms) (reached w0 r (timeout w0 ms) g d)"
  unfolding PL_SetTimeout_def by (rule leads_clock, rule leads_PL) (auto simp: timeout_def)

text \<open>Blocks, branches and reads.\<close>

lemma leads_Nil: "leads w0 r T g d (block []) (reached w0 r T g d)"
  by (rule hoare_block_Nil)

lemma leads_same:
  "leads w0 r T g d s (reached w0 r' T' g1 d1) \<Longrightarrow> T' = T'' \<Longrightarrow> g1 = g' \<Longrightarrow> d1 = d' \<Longrightarrow> leads w0 r T g d s (reached w0 r' T'' g' d')"
  by simp

lemma leads_gget:
  "leads w0 r T g d (k (f g)) Q \<Longrightarrow> (\<And>u. f (g\<lparr>ui := u\<rparr>) = f g) \<Longrightarrow> leads w0 r T g d (gget f k) Q"
  unfolding hoare_def gget_def reads_def using reached_gcf by fastforce

lemma leads_if: "b \<Longrightarrow> leads w0 r T g d s Q \<Longrightarrow> leads w0 r T g d (if b then s else t) Q"
  by simp

lemma leads_get:
  "(\<And>u. f (g\<lparr>ui := u\<rparr>) = a) \<Longrightarrow> leads w0 r T g d (k a) Q \<Longrightarrow> leads w0 r T g d (gget f k) Q"
  unfolding hoare_def gget_def reads_def using reached_gcf by fastforce

lemma leads_gif:
  "leads w0 r T g d (block (if c g then ss else ts)) Q \<Longrightarrow> (\<And>u. c (g\<lparr>ui := u\<rparr>) = c g) \<Longrightarrow> leads w0 r T g d (gif c ss ts) Q"
  unfolding hoare_def gif_def cond_def using reached_gcf by fastforce

lemma leads_attempt:
  "(\<And>u. f (g\<lparr>ui := u\<rparr>) = Inr a) \<Longrightarrow> leads w0 r T g d (k a) Q \<Longrightarrow> leads w0 r T g d (attempt f k) Q"
  unfolding hoare_def attempt_def gget_def reads_def using reached_gcf by fastforce

lemma leads_Assert [reach_intro]:
  assumes "\<And>u. c (g\<lparr>ui := u\<rparr>)"
  shows "leads w0 r T g d (Assert c) (reached w0 r T g d)"
  unfolding hoare_def Assert_def cond_def skip_def fails_def using reached_gcf assms by fastforce

lemma leads_reads_env:
  "leads w0 r T g d (k (f (env w0))) Q \<Longrightarrow> leads w0 r T g d (reads (\<lambda>w. f (env w)) k) Q"
  unfolding hoare_def reads_def using reached_env by fastforce

lemma leads_on_ascii:
  assumes "m (ascii g) = Inr (a, buf)" and "leads w0 r T (g\<lparr>ascii := buf\<rparr>) d (k a) Q"
  shows "leads w0 r T g d (on_ascii m k) Q"
  unfolding hoare_def
proof (intro allI impI)
  fix w assume w: "reached w0 r T g d w"
  then have "ascii (gcf w) = ascii g" using reached_gcf by fastforce
  moreover have "reached w0 r T (g\<lparr>ascii := buf\<rparr>) d (w\<lparr>gcf := (gcf w)\<lparr>ascii := buf\<rparr>\<rparr>)"
    by (rule reached_gcf_set [OF w]) simp
  ultimately show "case on_ascii m k w of Inl f \<Rightarrow> f \<in> {} | Inr w' \<Rightarrow> Q w'"
    using assms by (simp add: on_ascii_def hoare_def)
qed

section \<open>Sending\<close>

lemma reached_talk:
  assumes "reached w0 r T g d w" and "talk x w w'"
  shows "reached w0 r T g (d @ x) w'"
proof -
  obtain es where es: "outs w = outs w0 @ es" "sent es @ pending (platform w) = pending (platform w0) @ d"
    using assms(1) by (auto simp: reached_def)
  obtain u t es' p where w': "w' = w\<lparr>gcf := (gcf w)\<lparr>ui := u\<rparr>, platform := p, tick := t, outs := outs w @ es'\<rparr>"
    and rest: "tick w \<le> t" "ui_ok u" "ui_same u (ui (gcf w))" "fd p = fd (platform w)" "timer p = timer (platform w)"
      "running p = running (platform w)" "ring_ok p" "sent es' @ pending p = pending (platform w) @ x"
    using assms(2) unfolding talk_def by blast
  obtain u0 where u0: "gcf w = g\<lparr>ui := u0\<rparr>" "ui_same u0 (ui (gcf w0))" using assms(1) by (auto simp: reached_def)
  have "sent (es @ es') @ pending p = sent es @ (pending (platform w) @ x)" by (simp add: rest(8))
  also have "\<dots> = pending (platform w0) @ d @ x" unfolding append_assoc [symmetric] es(2) ..
  finally have "\<exists>es. outs w' = outs w0 @ es \<and> sent es @ pending (platform w') = pending (platform w0) @ d @ x"
    using w' es(1) by (intro exI [of _ "es @ es'"]) simp
  moreover have "\<exists>u. gcf w' = g\<lparr>ui := u\<rparr> \<and> ui_ok u \<and> ui_same u (ui (gcf w0))"
    using reached_gcf [OF assms(1)] u0 rest(2,3) by (intro exI [of _ u]) (auto simp: w' ui_same_def)
  moreover have "env w' = env w0" "tick w0 \<le> tick w'" "fd (platform w') = fd (platform w0)" "running (platform w') = r" "timer (platform w') \<in> T"
    "ring_ok (platform w')"
    using assms(1) rest(1,4-7) unfolding reached_def w' by simp_all
  ultimately show ?thesis by (simp add: reached_def)
qed

lemma reached_ready:
  assumes "reached w0 r T g d w" and "ready n w0" and "length d + k \<le> n"
  shows "port_open w" "ui_ok (ui (gcf w))" "\<not> dump_fault w f" "writes_ok (env w)" "ring_len (platform w) + k \<le> 2047"
proof -
  obtain es where "sent es @ pending (platform w) = pending (platform w0) @ d" using assms(1) by (auto simp: reached_def)
  from arg_cong [OF this, of length] have "ring_len (platform w) \<le> ring_len (platform w0) + length d" by simp
  with assms show "port_open w" "ui_ok (ui (gcf w))" "\<not> dump_fault w f" "writes_ok (env w)" "ring_len (platform w) + k \<le> 2047"
    by (auto simp: ready_def port_open_def dump_fault_def ui_same_def reached_def)
qed

lemma leads_Send:
  assumes "ready n w0" and "length d + length (frame x) \<le> n"
  shows "leads w0 r T g d (PROT_Send he x) (reached w0 r T g (d @ frame x))"
  unfolding hoare_def
proof (intro allI impI)
  fix w assume w: "reached w0 r T g d w"
  note r = reached_ready [OF w assms]
  show "case PROT_Send he x w of Inl f \<Rightarrow> f \<in> {} | Inr w' \<Rightarrow> reached w0 r T g (d @ frame x) w'"
    using send_talks [OF r(1,2,5), of he] r(3,4) reached_talk [OF w] by (auto split: sum.splits)
qed

lemma leads_write_port:
  assumes "ready n w0" and "length d + length x \<le> n"
  shows "leads w0 r T g d (write_port he x) (reached w0 r T g (d @ x))"
  unfolding hoare_def
proof (intro allI impI)
  fix w assume w: "reached w0 r T g d w"
  note r = reached_ready [OF w assms]
  show "case write_port he x w of Inl f \<Rightarrow> f \<in> {} | Inr w' \<Rightarrow> reached w0 r T g (d @ x) w'"
    using write_talks [OF r(1,2,5), of he] r(3,4) reached_talk [OF w]
    by (auto simp: write_port_def call_def callv_def skip_def split: sum.splits)
qed

lemma leads_DebugHex:
  assumes "ready n w0"
  shows "leads w0 r T g d (gcfDebugHex msg x) (reached w0 r T g d)"
  unfolding hoare_def
proof (intro allI impI)
  fix w assume w: "reached w0 r T g d w"
  then have "uiDebugLevel (ui (gcf w)) = 0" using assms by (auto simp: reached_def ready_def ui_same_def)
  with w show "case gcfDebugHex msg x w of Inl f \<Rightarrow> f \<in> {} | Inr w' \<Rightarrow> reached w0 r T g d w'"
    by (simp add: gcfDebugHex_def gif_def cond_def)
qed

section \<open>Events\<close>

lemma event_hoare:
  assumes "\<And>w. P w \<Longrightarrow> state (gcf w) = h" and "ev \<noteq> EV_PL_LOOP" and "hoare F P (call_handler (GCF_HandleEvent n) (run n) h ev) Q"
  shows "hoare F P (GCF_HandleEvent (Suc n) ev) Q"
proof -
  have "GCF_HandleEvent n = handle_event (run n)" by (rule ext) (simp add: GCF_HandleEvent_def)
  then have "GCF_HandleEvent (Suc n) ev w = call_handler (GCF_HandleEvent n) (run n) h ev w" if "P w" for w
    using assms(1) [OF that] assms(2) by (simp add: GCF_HandleEvent_def handle_event_def gget_def reads_def)
  with assms(3) show ?thesis by (simp add: hoare_def)
qed

lemma leads_event:
  assumes "state g = h" and "ev \<noteq> EV_PL_LOOP" and "leads w0 r T g d (call_handler (GCF_HandleEvent n) (run n) h ev) Q"
  shows "leads w0 r T g d (GCF_HandleEvent (Suc n) ev) Q"
proof (rule event_hoare [OF _ assms(2,3)])
  fix w assume "reached w0 r T g d w"
  then show "state (gcf w) = h" using assms(1) by (auto simp: reached_def)
qed

lemma leads_block1: "leads w0 r T g d s Q \<Longrightarrow> leads w0 r T g d (block [s]) Q"
  by (rule hoare_block_single)

lemmas leads_Cons = hoare_block_Cons [where F = "{}"]

text \<open>The quiet statements the handlers use.\<close>

lemma leads_puts:
  "leads w0 r T g d (puts_line s) (reached w0 r T g d)" "leads w0 r T g d (UI_Puts x) (reached w0 r T g d)"
  "leads w0 r T g d (PL_Printf l f a) (reached w0 r T g d)" "leads w0 r T g d UI_UpdateProgress (reached w0 r T g d)"
  "leads w0 r T g d (PL_MSleep ms) (reached w0 r T g d)" "leads w0 r T g d (puts_lit s) (reached w0 r T g d)"
  unfolding puts_line_def by (rule leads_quiet, intro quiet_intro)+

lemma leads_print_line:
  "keeps {} (lbuf 384 384) (block ops) \<Longrightarrow> leads w0 r T g d (print_line ops) (reached w0 r T g d)"
  by (rule leads_quiet) (rule keeps_print_line)

lemma leads_skip: "leads w0 r T g d skip (reached w0 r T g d)"
  by (rule hoare_skip)

lemmas leads_atoms = leads_puts leads_print_line leads_skip leads_set_state leads_set_substate leads_set_wp
  leads_ClearTimeout leads_ShutDown leads_SetTimeout leads_Assert leads_clear_rx leads_set_ascii

section \<open>Sample worlds\<close>

text \<open>A host without devices and files whose writes fail, a started program on it, and one with an
open port.\<close>

definition bare_env :: env where
  "bare_env = \<lparr>ndebug = False, long64 = True, os_clock = (\<lambda>_. Some (0, 0)), os_open = (\<lambda>_ _. - 1), os_write = (\<lambda>_. [WError]),
     os_file = (\<lambda>_ _. None), os_winsize = (\<lambda>_. (80, 24)), os_devices = (\<lambda>_. (0, replicate 4 zero_device)),
     os_reset_ftdi = (\<lambda>_. - 1), os_reset_raspbee = (\<lambda>_. - 1)\<rparr>"

lemma bare_env_ok: "env_ok bare_env"
proof -
  have "writes_end [WError] n" for n by (cases n) simp_all
  then show ?thesis
    by (simp add: env_ok_def bare_env_def writes_ok_def devices_ok_def device_ok_def zero_device_def nul_in_def)
qed

lemma zero_core: "core_ok zero_gcf"
  by (simp add: core_ok_def zero_gcf_def zero_file_def zero_device_def device_ok_def nul_in_def fname_ok_def sniff_ok_def
      sub_handlers_def ui_ok_def input_ok_def rx_ok_init)

definition sample_world :: "(GCF \<Rightarrow> GCF) \<Rightarrow> world" where
  "sample_world f = (init_world bare_env)\<lparr>gcf := f zero_gcf, platform := init_pl\<lparr>fd := 3\<rparr>\<rparr>"

lemma sample_select [simp]: "gcf (sample_world f) = f zero_gcf" "platform (sample_world f) = init_pl\<lparr>fd := 3\<rparr>"
  by (simp_all add: sample_world_def)

lemma sample_ready: "ui (f zero_gcf) = ui zero_gcf \<Longrightarrow> n \<le> 2047 \<Longrightarrow> ready n (sample_world f)"
  using bare_env_ok zero_core
  by (simp add: ready_def port_open_def init_pl_def ring_ok_def ring_len_def usub_def env_ok_def sample_world_def init_world_def)
    (simp add: zero_gcf_def core_ok_def)

lemma sample_ok: "core_ok (f zero_gcf) \<Longrightarrow> prog_ok (state (f zero_gcf)) (task (f zero_gcf)) (gcf_file (f zero_gcf)) \<Longrightarrow> machine_ok (sample_world f)"
  using bare_env_ok by (simp add: holds_def init_pl_def ring_ok_def ring_len_def usub_def sample_world_def init_world_def)

definition sample_fw :: GCF_File where
  "sample_fw = zero_file\<lparr>fsize := 314, gcfFileSize := 300, dataOffset := 14, fcontent := (\<lambda>i. of_nat i)\<rparr>"

lemma sample_fw_ok: "file_ok sample_fw" "fname_ok sample_fw"
  by (simp_all add: sample_fw_def file_ok_def fname_ok_def zero_file_def)

text \<open>The started program in a state, with the sample firmware and some received text.\<close>

definition in_state :: "handler \<Rightarrow> byte list \<Rightarrow> GCF \<Rightarrow> GCF" where
  "in_state h bs g = g\<lparr>state := h, gcf_file := sample_fw, ascii := overwrite 0 bs (ascii g), wp := length bs\<rparr>"

lemma in_state_ok: "length bs \<le> 510 \<Longrightarrow> machine_ok (sample_world (in_state h bs))"
  using zero_core sample_fw_ok
  by (intro sample_ok) (simp_all add: in_state_def core_ok_def prog_ok_def zero_gcf_def overwrite_def nth_append)

lemma in_state_ready: "n \<le> 2047 \<Longrightarrow> ready n (sample_world (in_state h bs))"
  by (rule sample_ready) (simp_all add: in_state_def)

lemma in_state_select: "state (in_state h bs g) = h" "gcf_file (in_state h bs g) = sample_fw"
  "wp (in_state h bs g) = length bs" "ascii (in_state h bs zero_gcf) = bs @ replicate (512 - length bs) 0"
  by (simp_all add: in_state_def zero_gcf_def overwrite_def)

end
