(* ===== verification/Gcf_Serve.thy ===== *)
theory Gcf_Serve
  imports Gcf_Reach
begin

text \<open>
  The answers to the bootloader, branch by branch: a data request of the V3 bootloader is
  answered as the abstract \<open>v3_reply\<close> says, a page request of the V1 bootloader with that
  page of the firmware, and the requests before and after the transfer move the machine on.
\<close>

section \<open>Packets for the bootloader states\<close>

lemma leads_gif_any:
  "leads w0 r T g d (block ss) Q \<Longrightarrow> leads w0 r T g d (block ts) Q \<Longrightarrow> leads w0 r T g d (gif c ss ts) Q"
  by (auto simp: hoare_def gif_def cond_def)

lemma leads_packet:
  assumes "ready n w0" and "length (ascii g) = 512" and "length cs < 511"
    and "leads w0 r T (g\<lparr>ascii := overwrite 0 (0x81 # cs) (ascii g), wp := Suc (length cs)\<rparr>) d (he EV_RX_BTL_PKG_DATA) Q"
  shows "leads w0 r T g d (PROT_Packet he (0x81 # cs)) Q"
proof -
  let ?g1 = "g\<lparr>ascii := overwrite 0 (0x81 # cs) (ascii g)\<rparr>"
  have log: "leads w0 r T g d (gif c [] [gif (\<lambda>g. (0x81 :: byte) \<noteq> 0x81 \<and> task g = T_CONNECT) ss [gcfDebugHex msg x]]) (reached w0 r T g d)"
    for c ss msg x
    by (rule leads_gif_any, rule leads_Nil, rule leads_block1, rule leads_gif)
      (simp_all add: leads_block1 leads_DebugHex [OF assms(1)])
  have copy: "leads w0 r T g d (zoom (\<lambda>w. ascii (gcf w)) (\<lambda>s w. w\<lparr>gcf := (gcf w)\<lparr>ascii := s\<rparr>\<rparr>)
      (U_memcpy 0 (0x81 # cs) 0 (length ((0x81 :: byte) # cs)))) (reached w0 r T ?g1 d)"
    by (rule leads_ascii) (subst U_memcpy_eq, use assms(2,3) in simp_all)
  have rest: "leads w0 r T g d (block [
         zoom (\<lambda>w. ascii (gcf w)) (\<lambda>s w. w\<lparr>gcf := (gcf w)\<lparr>ascii := s\<rparr>\<rparr>) (U_memcpy 0 (0x81 # cs) 0 (length ((0x81 :: byte) # cs))),
         set_wp (length ((0x81 :: byte) # cs)),
         he EV_RX_BTL_PKG_DATA]) Q"
    by (rule leads_Cons [OF copy], rule leads_Cons [OF leads_set_wp], rule leads_block1) (use assms(4) in simp)
  show ?thesis
    unfolding PROT_Packet_def
    by (rule leads_Cons [OF leads_Assert], simp, rule leads_block1, rule leads_attempt, simp, rule leads_Cons [OF log], rule leads_block1)
      (use rest assms(3) in simp)
qed

section \<open>V3 data requests\<close>

definition v3_data_request :: "nat \<Rightarrow> nat \<Rightarrow> byte list" where
  "v3_data_request offset len = [0x81, 0x04] @ le32 offset @ le16 (of_nat len)"

definition v3_status :: "nat \<Rightarrow> nat \<Rightarrow> nat \<Rightarrow> byte" where
  "v3_status fs offset len = (if offset + len > fs then 1 else if len > 480 then 2 else if len = 0 then 3 else 0)"

definition payload :: "GCF_File \<Rightarrow> byte list" where
  "payload f = map (fcontent f) [dataOffset f..<dataOffset f + gcfFileSize f]"

definition v3_reply :: "GCF_File \<Rightarrow> nat \<Rightarrow> nat \<Rightarrow> byte list" where
  "v3_reply f offset len = (let s = v3_status (gcfFileSize f) offset len in
     v3_head offset s len @ (if s = 0 then take len (drop offset (payload f)) else []))"

lemma length_payload [simp]: "length (payload f) = gcfFileSize f"
  by (simp add: payload_def)

lemma file_slice_payload:
  assumes "file_ok (gcf_file g)" and "offset + len \<le> gcfFileSize (gcf_file g)"
  shows "file_slice g (dataOffset (gcf_file g) + offset) len = Inr (take len (drop offset (payload (gcf_file g))))"
proof -
  have "take len (drop offset (payload (gcf_file g)))
      = map (fcontent (gcf_file g)) [dataOffset (gcf_file g) + offset..<dataOffset (gcf_file g) + offset + len]"
    using assms(2) by (simp add: payload_def drop_map take_map)
  then show ?thesis using assms by (simp add: file_slice_def file_ok_def)
qed

lemma take_overwrite0: "length vs \<le> length xs \<Longrightarrow> take (length vs) (overwrite 0 vs xs) = vs"
  by (simp add: overwrite_def)

text \<open>What the machine remembers of a request: the bytes that remain, and whether it was the last.\<close>

definition v3_remaining :: "nat \<Rightarrow> nat \<Rightarrow> nat \<Rightarrow> nat" where
  "v3_remaining fs offset len = (if v3_status fs offset len = 0 then fs - offset else 0)"

definition v3_answered :: "GCF \<Rightarrow> nat \<Rightarrow> nat \<Rightarrow> byte list \<Rightarrow> GCF" where
  "v3_answered g offset len buf = (let rest = v3_remaining (gcfFileSize (gcf_file g)) offset len in
     g\<lparr>ascii := buf, wp := 8, remaining := rest, state := (if rest = len then ST_V3ProgramWaitID else ST_V3ProgramUpload)\<rparr>)"

text \<open>The end of an answer: it is sent, and behind the last one the program waits for the device.\<close>

lemma v3_last_leads:
  assumes "state g = ST_V3ProgramUpload"
  shows "leads w0 r (timeout w0 5000) g out (gif (\<lambda>g. remaining g = len) [UI_Puts msg, PL_SetTimeout 20000, set_state ST_V3ProgramWaitID] [])
    (reached w0 r (timeout w0 (if remaining g = len then 20000 else 5000))
      (g\<lparr>state := (if remaining g = len then ST_V3ProgramWaitID else ST_V3ProgramUpload)\<rparr>) out)"
    (is "leads _ _ _ _ _ _ ?Q")
proof (rule leads_gif)
  show "leads w0 r (timeout w0 5000) g out
      (block (if remaining g = len then [UI_Puts msg, PL_SetTimeout 20000, set_state ST_V3ProgramWaitID] else [])) ?Q"
  proof (cases "remaining g = len")
    case True
    have "leads w0 r (timeout w0 5000) g out (block [UI_Puts msg, PL_SetTimeout 20000, set_state ST_V3ProgramWaitID])
        (reached w0 r (timeout w0 20000) (g\<lparr>state := ST_V3ProgramWaitID\<rparr>) out)"
      by (rule leads_Cons [OF leads_puts(2)], rule leads_Cons [OF leads_SetTimeout], rule leads_block1, rule leads_set_state)
    with True show ?thesis by (simp del: block.simps)
  next
    case False
    have "g\<lparr>state := ST_V3ProgramUpload\<rparr> = g" using assms by simp
    with False show ?thesis by (auto intro!: hoare_block_Nil)
  qed
qed simp

lemma v3_finish_leads:
  assumes "ready n w0" and "length (frame d) \<le> n" and "state g = ST_V3ProgramUpload" and "take p (ascii g) = d" and "0 < p" and "p < 512"
    and "length (ascii g) = 512"
  shows "leads w0 r (timeout w0 5000) g [] (block [
      Assert (\<lambda>_. p > 0),
      Assert (\<lambda>_. p < 512),
      attempt (\<lambda>g. if p \<le> length (ascii g) then Inr (take p (ascii g)) else Inl OutOfBounds) (\<lambda>d. PROT_Send he d),
      UI_UpdateProgress,
      gif (\<lambda>g. remaining g = len) [UI_Puts msg, PL_SetTimeout 20000, set_state ST_V3ProgramWaitID] []])
    (reached w0 r (timeout w0 (if remaining g = len then 20000 else 5000))
      (g\<lparr>state := (if remaining g = len then ST_V3ProgramWaitID else ST_V3ProgramUpload)\<rparr>) (frame d))"
proof -
  have send: "leads w0 r (timeout w0 5000) g []
      (attempt (\<lambda>g. if p \<le> length (ascii g) then Inr (take p (ascii g)) else Inl OutOfBounds) (\<lambda>d. PROT_Send he d))
      (reached w0 r (timeout w0 5000) g (frame d))"
    by (rule leads_attempt) (use assms(4-7) leads_Send [OF assms(1), of "[]" d] assms(2) in simp_all)
  show ?thesis
    by (rule leads_Cons [OF leads_Assert], simp add: assms, rule leads_Cons [OF leads_Assert], simp add: assms,
        rule leads_Cons [OF send], rule leads_Cons [OF leads_puts(4)], rule leads_block1, rule v3_last_leads [OF assms(3)])
qed

lemma v3_respond_leads:
  assumes "ready n w0" and "length (frame (v3_head offset status len @ x)) \<le> n" and "length (ascii g) = 512"
    and "if status = 0 then 0 < len \<and> length x = len \<and> len \<le> 480 \<and> file_slice g (dataOffset (gcf_file g) + offset) len = Inr x
         else x = []"
    and "state g = ST_V3ProgramUpload"
  shows "leads w0 r (timeout w0 5000) g [] (v3_respond he offset status len)
    (\<lambda>w. \<exists>buf. length buf = 512 \<and> reached w0 r (timeout w0 (if remaining g = len then 20000 else 5000))
      (g\<lparr>ascii := buf, state := (if remaining g = len then ST_V3ProgramWaitID else ST_V3ProgramUpload)\<rparr>)
      (frame (v3_head offset status len @ x)) w)"
    (is "leads _ _ _ _ _ _ ?Q")
proof -
  let ?h = "v3_head offset status len"
  have finish: "leads w0 r (timeout w0 5000) (g\<lparr>ascii := buf\<rparr>) [] (block [
      Assert (\<lambda>_. p > 0),
      Assert (\<lambda>_. p < 512),
      attempt (\<lambda>g. if p \<le> length (ascii g) then Inr (take p (ascii g)) else Inl OutOfBounds) (\<lambda>d. PROT_Send he d),
      UI_UpdateProgress,
      gif (\<lambda>g. remaining g = len) [UI_Puts msg, PL_SetTimeout 20000, set_state ST_V3ProgramWaitID] []]) ?Q"
    if "take p buf = ?h @ x" "length buf = 512" "0 < p" "p < 512" for p buf msg
    by (rule hoare_post [OF v3_finish_leads [where g = "g\<lparr>ascii := buf\<rparr>" and d = "?h @ x", OF assms(1,2)]]) (use that assms(5) in auto)
  let ?b1 = "overwrite 0 ?h (ascii g)"
  have b1: "length ?b1 = 512" "take 9 ?b1 = ?h" using assms(3) take_overwrite0 [of ?h "ascii g"] by simp_all
  show ?thesis
  proof (cases "status = 0")
    case False
    have line: "keeps {} (lbuf 384 384) (block [put_lit ''failed to handle data request, status: '',
        U_sstream_put_long (uint status), put_line ''''])"
      using unsigned_less [of status] by (intro line_intro hoare_intro) (auto intro: order.strict_trans)
    show ?thesis
      unfolding v3_respond_def Let_def
      apply (rule leads_on_ascii, rule v3_head_eq, use assms(3) in simp)
      apply (simp only: False simp_thms if_False)
      by (rule leads_Cons [OF leads_print_line [OF line]], rule leads_block1, rule finish) (use False b1 assms(4) in simp_all)
  next
    case True
    with assms(4) have x: "0 < len" "length x = len" "len \<le> 480"
      "file_slice g (dataOffset (gcf_file g) + offset) len = Inr x" by simp_all
    have f: "file_slice (g\<lparr>ascii := b, ui := u\<rparr>) (dataOffset (gcf_file g) + offset) len = Inr x" for b u
      using x(4) by (auto simp: file_slice_def split: if_splits)
    let ?b2 = "overwrite 9 x ?b1"
    have b2: "length ?b2 = 512" "take (9 + len) ?b2 = ?h @ x"
      using b1 x take_overwrite [of 9 x ?b1] by simp_all
    have copy: "leads w0 r (timeout w0 5000) (g\<lparr>ascii := ?b1\<rparr>) [] (zoom (\<lambda>w. ascii (gcf w))
        (\<lambda>s w. w\<lparr>gcf := (gcf w)\<lparr>ascii := s\<rparr>\<rparr>) (U_memcpy 9 x 0 len)) (reached w0 r (timeout w0 5000) (g\<lparr>ascii := ?b2\<rparr>) [])"
      by (rule leads_same [OF leads_ascii]) (use b1 x in \<open>simp_all add: U_memcpy_eq\<close>)
    have lt: "9 + len < 512" using x by simp
    show ?thesis
      unfolding v3_respond_def Let_def
      apply (rule leads_on_ascii, rule v3_head_eq, use assms(3) in simp)
      apply (subst if_P [OF True])
      apply (rule leads_Cons [OF leads_Assert], rule x(1), rule leads_block1, rule leads_attempt)
       apply (simp, rule f)
      apply (rule leads_Cons [OF copy], rule leads_block1)
      by (rule finish) (use b2 lt in simp_all)
  qed
qed

text \<open>The whole request: the checks, the reply, and the end of the transfer.\<close>

lemma v3_check_leads:
  assumes n: "ready n w0" "length (frame (v3_reply (gcf_file g) offset len)) \<le> n" and g: "length (ascii g) = 512"
    "state g = ST_V3ProgramUpload" "wp g = 8"
    and f: "file_ok (gcf_file g)" "gcfFileSize (gcf_file g) < MAX_GCF_FILE_SIZE"
    and L: "offset < 2 ^ 32" "len < 2 ^ 16" "33 \<le> L"
  shows "leads w0 r (timeout w0 5000) g [] (v3_check L offset len (v3_respond he offset))
    (\<lambda>w. \<exists>buf. length buf = 512 \<and> reached w0 r
      (timeout w0 (if v3_remaining (gcfFileSize (gcf_file g)) offset len = len then 20000 else 5000))
      (v3_answered g offset len buf) (frame (v3_reply (gcf_file g) offset len)) w)"
    (is "leads _ _ _ _ _ _ ?Q")
proof -
  let ?fs = "gcfFileSize (gcf_file g)"
  have "offset + len < 2 ^ 33" using L(1,2) by simp
  also have "\<dots> \<le> 2 ^ L" using L(3) by (rule power_increasing) simp
  finally have sum: "uadd L offset len = offset + len" by (rule uadd_exact)
  have upd: "g\<lparr>remaining := v, ascii := b, state := h\<rparr> = g\<lparr>ascii := b, wp := 8, remaining := v, state := h\<rparr>" for v b h
    using g(3) by (cases g) simp
  have err: "leads w0 r (timeout w0 5000) (g\<lparr>remaining := 0\<rparr>) [] (v3_respond he offset s len) ?Q"
    if "v3_status ?fs offset len = s" "s \<noteq> 0" for s
    by (rule hoare_post [OF v3_respond_leads [OF n(1), where x = "[]"]])
      (use that n(2) g in \<open>auto simp: v3_reply_def v3_answered_def v3_remaining_def upd\<close>)
  have serve: "leads w0 r (timeout w0 5000) (g\<lparr>remaining := ?fs - offset\<rparr>) [] (v3_respond he offset 0 len) ?Q"
    if "v3_status ?fs offset len = 0"
  proof -
    let ?x = "take len (drop offset (payload (gcf_file g)))"
    have c: "offset + len \<le> ?fs" "len \<le> 480" "0 < len" using that by (auto simp: v3_status_def split: if_splits)
    have slice: "file_slice (g\<lparr>remaining := ?fs - offset\<rparr>) (dataOffset (gcf_file g) + offset) len = Inr ?x"
      using file_slice_payload [of "g\<lparr>remaining := ?fs - offset\<rparr>" offset len] f(1) c(1) by simp
    show ?thesis
      by (rule hoare_post [OF v3_respond_leads [OF n(1), where x = ?x]])
        (use that n(2) g c slice in \<open>auto simp: v3_reply_def v3_answered_def v3_remaining_def upd\<close>)
  qed
  show ?thesis
    unfolding v3_check_def
  proof (rule leads_Cons [OF leads_set [where g' = "g\<lparr>remaining := 0\<rparr>"]], simp, rule leads_block1, rule leads_gget)
    show "leads w0 r (timeout w0 5000) (g\<lparr>remaining := 0\<rparr>) [] (if uadd L offset len > gcfFileSize (gcf_file (g\<lparr>remaining := 0\<rparr>)) then v3_respond he offset 1 len
       else if len > 512 - 32 then v3_respond he offset 2 len
       else if len = 0 then v3_respond he offset 3 len
       else block [
         Assert (\<lambda>_. gcfFileSize (gcf_file (g\<lparr>remaining := 0\<rparr>)) > offset),
         set_gcf (\<lambda>h. h\<lparr>remaining := u32_sub (gcfFileSize (gcf_file (g\<lparr>remaining := 0\<rparr>))) offset\<rparr>),
         Assert (\<lambda>g. remaining g < MAX_GCF_FILE_SIZE),
         gget remaining (\<lambda>rest. let len' = (if len < rest then len else rest mod 2 ^ 16) in block [
           Assert (\<lambda>_. len' > 0),
           v3_respond he offset 0 len'])]) ?Q"
    proof (cases "v3_status ?fs offset len = 0")
      case False
      then show ?thesis using err by (auto simp: sum v3_status_def split: if_splits)
    next
      case True
      then have c: "offset + len \<le> ?fs" "len \<le> 480" "0 < len" by (auto simp: v3_status_def split: if_splits)
      then have lt: "offset < ?fs" by simp
      have rest: "u32_sub ?fs offset = ?fs - offset" using c f(2) by (intro usub_exact) simp_all
      have same: "(if len < ?fs - offset then len else (?fs - offset) mod 2 ^ 16) = len"
        using c by auto
      have "leads w0 r (timeout w0 5000) (g\<lparr>remaining := 0\<rparr>) [] (block [
         Assert (\<lambda>_. ?fs > offset),
         set_gcf (\<lambda>h. h\<lparr>remaining := ?fs - offset\<rparr>),
         Assert (\<lambda>g. remaining g < MAX_GCF_FILE_SIZE),
         gget remaining (\<lambda>rest. let len' = (if len < rest then len else rest mod 2 ^ 16) in block [
           Assert (\<lambda>_. len' > 0),
           v3_respond he offset 0 len'])]) ?Q"
        apply (rule leads_Cons [OF leads_Assert], rule lt)
        apply (rule leads_Cons [OF leads_set [where g' = "g\<lparr>remaining := ?fs - offset\<rparr>"]], simp)
        apply (rule leads_Cons [OF leads_Assert], use f(2) in simp)
        apply (rule leads_block1, rule leads_get [where a = "?fs - offset"], simp)
        apply (simp only: Let_def same)
        by (rule leads_Cons [OF leads_Assert], rule c(3), rule leads_block1, rule serve [OF True])
      then show ?thesis using c by (simp add: sum rest)
    qed
  qed simp
qed

lemma ready_frame: "machine_ok w \<Longrightarrow> length (ascii (gcf w)) = 512 \<and> long_bits (env w) = 64 \<and> \<not> ndebug (env w)"
  by (simp add: holds_def core_ok_def env_ok_def long_bits_def)

text \<open>C4: In the upload state every data request of a V3 bootloader, valid or not, is answered with
  exactly one frame: the reply the protocol defines for it (\<open>v3_reply\<close>), which for a valid request holds
  the bytes of the payload asked for. The timeout is set anew, and the transfer is over, with the
  longer timeout, when the reply held the last byte of the payload.\<close>

theorem v3_request_answered:
  assumes "machine_ok w" and "state (gcf w) = ST_V3ProgramUpload" and "gcfFileSize (gcf_file (gcf w)) < MAX_GCF_FILE_SIZE"
    and "offset < 2 ^ 32" and "len < 2 ^ 16" and "ready (length (frame (v3_reply (gcf_file (gcf w)) offset len))) w"
  shows "\<exists>w' buf. PROT_Packet (GCF_HandleEvent (Suc n)) (v3_data_request offset len) w = Inr w' \<and> length buf = 512
    \<and> reached w (running (platform w))
        (timeout w (if v3_remaining (gcfFileSize (gcf_file (gcf w))) offset len = len then 20000 else 5000))
        (v3_answered (gcf w) offset len buf) (frame (v3_reply (gcf_file (gcf w)) offset len)) w'"
proof -
  define g where "g = gcf w"
  define req where "req = 0x04 # le32 offset @ le16 (of_nat len :: 16 word)"
  let ?Q = "\<lambda>w'. \<exists>buf. length buf = 512 \<and> reached w (running (platform w))
        (timeout w (if v3_remaining (gcfFileSize (gcf_file g)) offset len = len then 20000 else 5000))
        (v3_answered g offset len buf) (frame (v3_reply (gcf_file g) offset len)) w'"
  have req: "v3_data_request offset len = 0x81 # req" "length req = 7" by (simp_all add: v3_data_request_def req_def)
  define buf where "buf = overwrite 0 (0x81 # req) (ascii g)"
  define g1 where "g1 = g\<lparr>ascii := buf, wp := 8\<rparr>"
  have len512: "length (ascii g) = 512" "length buf = 512"
    using ready_frame [OF assms(1)] req(2) by (simp_all add: g_def buf_def)
  have fields: "buf ! 1 = 0x04" "un_le32 (take 4 (drop 2 buf)) = offset" "un_le16 (take 2 (drop 6 buf)) = of_nat len"
    using assms(4) un_le32_le32 [of offset] un_le16_le16 [of "of_nat len"]
    by (simp_all add: buf_def overwrite_def req_def le32_def le16_def)
  have fok: "file_ok (gcf_file g1)" "gcfFileSize (gcf_file g1) < MAX_GCF_FILE_SIZE"
    using assms(1,2,3) by (simp_all add: g1_def g_def holds_def prog_ok_def upload_states_def)
  have ln: "unat (of_nat len :: 16 word) = len" using assms(5) by (simp add: unat_of_nat)
  have line: "keeps {} (lbuf 384 384) (block [put_lit ''BTL data request, offset: '', U_sstream_put_long (to_long 64 offset),
      put_lit '', length: '', U_sstream_put_long (int len), put_line ''''])"
    using assms(4,5) by (intro line_intro hoare_intro) (auto simp: to_long_def ln)
  have check: "leads w (running (platform w)) (timeout w 5000) g1 [] (v3_check 64 offset len (v3_respond he offset)) ?Q" for he
    using v3_check_leads [OF assms(6), of g1 offset len 64 "running (platform w)" he] fok len512 assms(2,4,5)
    by (simp add: g1_def g_def v3_answered_def)
  have "leads w (running (platform w)) {timer (platform w)} g1 []
      (call_handler (GCF_HandleEvent n) (run n) ST_V3ProgramUpload EV_RX_BTL_PKG_DATA) ?Q"
    apply (simp only: call_handler_def handler.case ST_V3ProgramUpload_handler_def simp_thms if_True)
    apply (rule leads_attempt, use len512 fields in \<open>simp add: g1_def\<close>, rule leads_get [where a = 8], simp add: g1_def)
     apply (simp only: simp_thms if_True)
     apply (rule leads_Cons [OF leads_SetTimeout], rule leads_block1)
     apply (rule leads_attempt, simp add: g1_def le32.get_spec len512 fields, simp only: case_prod_conv)
     apply (rule leads_attempt, simp add: g1_def le16.get_spec len512 fields, simp only: case_prod_conv)
     apply (rule leads_reads_env [where f = "\<lambda>e. (ndebug e, long_bits e)"])
     apply (simp only: ready_frame [OF assms(1)] case_prod_conv if_False ln)
    by (rule leads_Cons [OF leads_print_line [OF line]], rule leads_block1, rule check)
  then have event: "leads w (running (platform w)) {timer (platform w)} g1 [] (GCF_HandleEvent (Suc n) EV_RX_BTL_PKG_DATA) ?Q"
    by (intro leads_event [where h = ST_V3ProgramUpload]) (simp_all add: g1_def g_def assms(2))
  have "leads w (running (platform w)) {timer (platform w)} g [] (PROT_Packet (GCF_HandleEvent (Suc n)) (0x81 # req)) ?Q"
    by (rule leads_packet [OF assms(6)]) (use len512 req(2) event in \<open>simp_all add: g1_def buf_def\<close>)
  from leadsD [OF this [unfolded g_def] assms(6)] show ?thesis by (auto simp: req(1) g_def)
qed

section \<open>V1 page requests\<close>

definition v1_page :: "GCF_File \<Rightarrow> nat \<Rightarrow> byte list" where
  "v1_page f p = take 256 (drop (p * 256) (payload f))"

definition v1_last :: "GCF_File \<Rightarrow> nat \<Rightarrow> bool" where
  "v1_last f p \<longleftrightarrow> gcfFileSize f \<le> (p + 1) * 256"

definition v1_answered :: "GCF \<Rightarrow> nat \<Rightarrow> GCF" where
  "v1_answered g p = g\<lparr>wp := 0, ascii := (ascii g)[0 := 0], remaining := gcfFileSize (gcf_file g) - p * 256,
     state := (if v1_last (gcf_file g) p then ST_V1ProgramValidate else ST_V1ProgramUpload)\<rparr>"

text \<open>Behind a page the program waits for the next request, or for the validation.\<close>

lemma v1_next_leads:
  assumes "state g = ST_V1ProgramUpload"
  shows "leads w0 r T g d (gif (\<lambda>g. u32_sub (remaining g) len = 0)
      [set_state ST_V1ProgramValidate, UI_Puts msg, PL_SetTimeout 25600] [PL_SetTimeout 2000])
    (reached w0 r (timeout w0 (if u32_sub (remaining g) len = 0 then 25600 else 2000))
      (g\<lparr>state := (if u32_sub (remaining g) len = 0 then ST_V1ProgramValidate else ST_V1ProgramUpload)\<rparr>) d)"
    (is "leads _ _ _ _ _ _ ?Q")
proof (rule leads_gif)
  show "leads w0 r T g d (block (if u32_sub (remaining g) len = 0
      then [set_state ST_V1ProgramValidate, UI_Puts msg, PL_SetTimeout 25600] else [PL_SetTimeout 2000])) ?Q"
  proof (cases "u32_sub (remaining g) len = 0")
    case True
    have "leads w0 r T g d (block [set_state ST_V1ProgramValidate, UI_Puts msg, PL_SetTimeout 25600])
        (reached w0 r (timeout w0 25600) (g\<lparr>state := ST_V1ProgramValidate\<rparr>) d)"
      by (rule leads_Cons [OF leads_set_state], rule leads_Cons [OF leads_puts(2)], rule leads_block1, rule leads_SetTimeout)
    with True show ?thesis by (simp del: block.simps)
  next
    case False
    have "leads w0 r T g d (block [PL_SetTimeout 2000]) (reached w0 r (timeout w0 2000) g d)"
      by (rule leads_block1, rule leads_SetTimeout)
    moreover have "g\<lparr>state := ST_V1ProgramUpload\<rparr> = g" using assms by simp
    ultimately show ?thesis using False by (simp del: block.simps)
  qed
qed simp

lemma v1_serve_leads:
  assumes n: "ready n w0" "length (v1_page (gcf_file g) p) \<le> n" and g: "length (ascii g) = 512" "state g = ST_V1ProgramUpload"
    and f: "file_ok (gcf_file g)" "p * 256 < gcfFileSize (gcf_file g)"
  shows "leads w0 r T g [] (v1_serve he p)
    (reached w0 r (timeout w0 (if v1_last (gcf_file g) p then 25600 else 2000)) (v1_answered g p) (v1_page (gcf_file g) p))"
proof -
  let ?f = "gcf_file g" and ?x = "v1_page (gcf_file g) p"
  let ?page = "dataOffset ?f + p * 256" and ?stop = "dataOffset ?f + gcfFileSize ?f"
  define rest where "rest = gcfFileSize ?f - p * 256"
  define len where "len = (if rest > 256 then 256 else rest)"
  have bound: "?stop \<le> 4194304" "?page \<le> ?stop" "rest \<le> 4194304" using f by (auto simp: file_ok_def rest_def)
  then have "u32_sub ?stop ?page = ?stop - ?page" by (intro usub_exact) simp_all
  then have sub1: "u32_sub ?stop ?page = rest" by (simp add: rest_def)
  have sub2: "u32_sub rest len = rest - len" using bound(3) by (intro usub_exact) (simp_all add: len_def)
  note sub = sub1 sub2
  have last: "rest - len = 0 \<longleftrightarrow> v1_last ?f p" by (auto simp: rest_def len_def v1_last_def)
  have len: "p * 256 + len \<le> gcfFileSize ?f" "take len (drop (p * 256) (payload ?f)) = ?x"
    using f(2) by (auto simp: rest_def len_def v1_page_def min_def)
  let ?g1 = "g\<lparr>remaining := rest\<rparr>"
  let ?g2 = "g\<lparr>wp := 0, ascii := (ascii g)[0 := 0], remaining := rest\<rparr>"
  have slice: "file_slice (?g2\<lparr>ui := u\<rparr>) ?page len = Inr ?x" for u
    using file_slice_payload [of "?g2\<lparr>ui := u\<rparr>" "p * 256" len] f(1) len by simp
  have page: "leads w0 r T ?g2 [] (attempt (\<lambda>g. file_slice g ?page len) (\<lambda>d. write_port he d)) (reached w0 r T ?g2 ?x)"
    by (rule leads_attempt, rule slice) (use leads_write_port [OF n(1), of "[]" ?x] n(2) in simp)
  have fin: "leads w0 r T ?g2 ?x (gif (\<lambda>g. u32_sub (remaining g) len = 0)
         [set_state ST_V1ProgramValidate,
          UI_Puts (0x0A # bytes ''done, wait validation...'' @ [0x0A]),
          PL_SetTimeout 25600]
         [PL_SetTimeout 2000]) (reached w0 r (timeout w0 (if v1_last ?f p then 25600 else 2000)) (v1_answered g p) ?x)"
    by (rule hoare_post [OF v1_next_leads]) (use g(2) last sub(2) in \<open>simp_all add: v1_answered_def rest_def cong: if_cong\<close>)
  have progress: "leads w0 r T ?g1 [] (if p mod 20 = 0 \<or> rest < 256 then UI_UpdateProgress else skip) (reached w0 r T ?g1 [])"
    using leads_puts(4) leads_skip by simp
  have clear: "leads w0 r T ?g1 [] clear_rx (reached w0 r T ?g2 [])"
    by (rule leads_same [OF leads_clear_rx]) (use g(1) in simp_all)
  have body: "leads w0 r T ?g1 [] (block [
       if p mod 20 = 0 \<or> rest < 256 then UI_UpdateProgress else skip,
       clear_rx,
       attempt (\<lambda>g. file_slice g ?page len) (\<lambda>d. write_port he d),
       gif (\<lambda>g. u32_sub (remaining g) len = 0)
         [set_state ST_V1ProgramValidate,
          UI_Puts (0x0A # bytes ''done, wait validation...'' @ [0x0A]),
          PL_SetTimeout 25600]
         [PL_SetTimeout 2000]]) (reached w0 r (timeout w0 (if v1_last ?f p then 25600 else 2000)) (v1_answered g p) ?x)"
    by (rule leads_Cons [OF progress], rule leads_Cons [OF clear], rule leads_Cons [OF page leads_block1 [OF fin]])
  show ?thesis
    unfolding v1_serve_def
    apply (rule leads_get [where a = "(?page, ?stop)"], simp, simp only: case_prod_conv)
    apply (rule leads_Cons [OF leads_Assert], use f(2) in simp)
    apply (rule leads_Cons [where R = "reached w0 r T g []"], use f(2) in \<open>simp add: leads_skip\<close>)
    apply (rule leads_Cons [OF leads_set [where g' = ?g1]], simp add: sub)
    apply (rule leads_block1, rule leads_get [where a = rest], simp)
    using body by (simp only: Let_def len_def)
qed

text \<open>C5: A page request of the V1 bootloader (\<open>G\<close>, two bytes, the page number, \<open>;\<close>) for a page inside
  the payload is answered by the raw bytes of that page, 256 or what is left of the last one. The
  request is taken out of the buffer, the timeout is set, and after the last page the program waits
  for the validation.\<close>

theorem v1_page_served:
  assumes "machine_ok w" and "state (gcf w) = ST_V1ProgramUpload" and "wp (gcf w) = 6"
    and "ascii (gcf w) ! 0 = 0x47" and "ascii (gcf w) ! 5 = 0x3B"
    and "page = unat (ascii (gcf w) ! 4) * 256 + unat (ascii (gcf w) ! 3)"
    and "page * 256 < gcfFileSize (gcf_file (gcf w))" and "ready (length (v1_page (gcf_file (gcf w)) page)) w"
  shows "\<exists>w'. GCF_HandleEvent (Suc n) EV_RX_ASCII w = Inr w'
    \<and> reached w (running (platform w)) (timeout w (if v1_last (gcf_file (gcf w)) page then 25600 else 2000))
        (v1_answered (gcf w) page) (v1_page (gcf_file (gcf w)) page) w'"
proof -
  have len: "length (ascii (gcf w)) = 512" using ready_frame [OF assms(1)] by simp
  have fok: "file_ok (gcf_file (gcf w))" using assms(1,2) by (simp add: holds_def prog_ok_def upload_states_def)
  have "leads w (running (platform w)) {timer (platform w)} (gcf w) []
      (call_handler (GCF_HandleEvent n) (run n) ST_V1ProgramUpload EV_RX_ASCII)
      (reached w (running (platform w)) (timeout w (if v1_last (gcf_file (gcf w)) page then 25600 else 2000))
        (v1_answered (gcf w) page) (v1_page (gcf_file (gcf w)) page))"
    apply (simp only: call_handler_def handler.case ST_V1ProgramUpload_handler_def simp_thms if_True)
    apply (rule leads_get [where a = 6], use assms(3) in simp)
    apply (subst if_not_P, simp, rule leads_attempt, simp add: len, subst if_not_P, simp add: assms(4))
    apply (rule leads_attempt, simp add: len, subst if_not_P, simp add: assms(5))
    apply (rule leads_attempt, simp add: len, rule leads_attempt, simp add: len)
    using v1_serve_leads [OF assms(8) le_refl len assms(2) fok assms(7)] by (simp add: assms(6))
  from leadsD [OF leads_event [where h = ST_V1ProgramUpload, OF assms(2) _ this] assms(8)] show ?thesis by simp
qed

section \<open>Text in the buffer\<close>

text \<open>\<open>U_sstream_find\<close> on the received bytes: whether the text occurs in them.\<close>

definition ascii_has :: "string \<Rightarrow> GCF \<Rightarrow> bool" where
  "ascii_has s g \<longleftrightarrow> (\<exists>p. occurs_at (ascii g) (wp g) (bytes s) p)"

lemma leads_find:
  assumes "wp g \<le> length (ascii g)" and "leads w0 r T g d (k (ascii_has s g)) Q"
  shows "leads w0 r T g d (ascii_find s k) Q"
proof -
  let ?ss = "U_sstream_init (Some (ascii g)) (wp g)"
  have len: "ss_len ?ss \<le> length (ss_str ?ss)" using assms(1) by (simp add: U_sstream_init_def)
  obtain b p where f: "U_sstream_find (bytes s) ?ss = Inr (b, ?ss\<lparr>ss_pos := p\<rparr>)" using find_total [OF len] by blast
  have "b = ascii_has s g"
    using find_iff [OF len, of "bytes s"] f by (auto simp: ascii_has_def U_sstream_init_def)
  with f have "U_sstream_find (bytes s) (U_sstream_init (Some (ascii (g\<lparr>ui := u\<rparr>))) (wp (g\<lparr>ui := u\<rparr>)))
      = Inr (ascii_has s g, ?ss\<lparr>ss_pos := p\<rparr>)" for u
    by simp
  then show ?thesis unfolding ascii_find_def by (rule leads_attempt) (simp add: assms(2))
qed

text \<open>The text of the V1 bootloader: it introduces itself, is synchronised, asks for the header,
  and reports the checksum.\<close>

text \<open>C8: When the query for a V1 bootloader is answered by a line with the word \<open>Bootloader\<close>, the
  program empties the buffer, sends the four synchronisation bytes and goes to the state that waits
  for \<open>READY\<close>.\<close>

theorem v1_bootloader_found:
  assumes "machine_ok w" and "state (gcf w) = ST_BootloaderQuery" and "32 < wp (gcf w)"
    and "ascii (gcf w) ! (wp (gcf w) - 1) = 0x0A" and "ascii_has ''Bootloader'' (gcf w)" and "ready 4 w"
  shows "\<exists>w'. GCF_HandleEvent (n + 2) EV_RX_ASCII w = Inr w' \<and> reached w (running (platform w)) (timeout w 500)
    ((gcf w)\<lparr>state := ST_V1ProgramSync, wp := 0, ascii := (ascii (gcf w))[0 := 0]\<rparr>) [0x1A, 0x1C, 0xA9, 0xAE] w'"
proof -
  define g where "g = gcf w"
  let ?g1 = "g\<lparr>state := ST_V1ProgramSync\<rparr>" and ?g2 = "g\<lparr>state := ST_V1ProgramSync, wp := 0, ascii := (ascii g)[0 := 0]\<rparr>"
  let ?Q = "reached w (running (platform w)) (timeout w 500) ?g2 [0x1A, 0x1C, 0xA9, 0xAE]"
  have g: "length (ascii g) = 512" "wp g \<le> 510" using assms(1) by (simp_all add: g_def holds_def core_ok_def)
  have clear: "leads w (running (platform w)) {0} ?g1 [] clear_rx (reached w (running (platform w)) {0} ?g2 [])"
    by (rule leads_same [OF leads_clear_rx]) (simp_all add: g)
  have act: "leads w (running (platform w)) {0} ?g1 [] (GCF_HandleEvent (Suc n) EV_ACTION) ?Q"
  proof (rule leads_event)
    show "leads w (running (platform w)) {0} ?g1 [] (call_handler (GCF_HandleEvent n) (run n) ST_V1ProgramSync EV_ACTION) ?Q"
      apply (simp only: call_handler_def handler.case ST_V1ProgramSync_handler_def simp_thms if_True)
      apply (rule leads_Cons [OF clear], rule leads_Cons [OF leads_write_port [OF assms(6)]], simp)
      by (rule leads_block1, simp only: append_Nil, rule leads_SetTimeout)
  qed simp_all
  have "leads w (running (platform w)) {timer (platform w)} g []
      (call_handler (GCF_HandleEvent (Suc n)) (run (Suc n)) ST_BootloaderQuery EV_RX_ASCII) ?Q"
    apply (simp only: call_handler_def handler.case ST_BootloaderQuery_handler_def event.distinct simp_thms if_True if_False)
    apply (rule leads_get [where a = "wp g"], simp, rule leads_if, use assms(3) in \<open>simp add: g_def\<close>)
    apply (rule leads_attempt, use g in simp, rule leads_if, use assms(4) in \<open>simp add: g_def\<close>)
    apply (rule leads_find, use g in simp, rule leads_if, use assms(5) in \<open>simp add: g_def\<close>)
    by (rule leads_Cons [OF leads_ClearTimeout], rule leads_Cons [OF leads_puts(1)], rule leads_Cons [OF leads_set_state], rule leads_block1, rule act)
  from leadsD [OF leads_event [where h = ST_BootloaderQuery, OF _ _ this, unfolded g_def] assms(6)] show ?thesis
    using assms(2) by (simp add: g_def)
qed

text \<open>C9: When the synchronised V1 bootloader is \<open>READY\<close>, the program sends the ten header bytes (size,
  target address, type and CRC of the firmware, little-endian) and goes to the upload state.\<close>

theorem v1_header_sent:
  assumes "machine_ok w" and "state (gcf w) = ST_V1ProgramSync" and "4 < wp (gcf w)" and "ascii_has ''READY'' (gcf w)" and "ready 10 w"
  shows "\<exists>w'. GCF_HandleEvent (n + 2) EV_RX_ASCII w = Inr w' \<and> reached w (running (platform w)) (timeout w 1000)
    ((gcf w)\<lparr>state := ST_V1ProgramUpload, wp := 0, ascii := (ascii (gcf w))[0 := 0]\<rparr>) (v1_header_bytes (gcf_file (gcf w))) w'"
proof -
  define g where "g = gcf w"
  let ?h = "v1_header_bytes (gcf_file g)"
  let ?g1 = "g\<lparr>state := ST_V1ProgramWriteHeader\<rparr>"
  let ?g2 = "g\<lparr>state := ST_V1ProgramWriteHeader, wp := 0, ascii := (ascii g)[0 := 0]\<rparr>"
  let ?g3 = "g\<lparr>state := ST_V1ProgramUpload, wp := 0, ascii := (ascii g)[0 := 0]\<rparr>"
  let ?Q = "reached w (running (platform w)) (timeout w 1000) ?g3 ?h"
  have g: "length (ascii g) = 512" "wp g \<le> 510" "ascii g ! 511 = 0" using assms(1) by (simp_all add: g_def holds_def core_ok_def)
  have "0 \<in> set (ascii g)" using nth_mem [of 511 "ascii g"] g by simp
  then obtain tx where tx: "c_string (ascii g) = Inr tx" by (auto simp: c_string_def)
  have line: "keeps {} (lbuf 384 384) (block [put_lit ''bootloader synced: '', U_sstream_put_str tx, put_line ''''])"
    by (intro line_intro hoare_intro)
  have clear: "leads w (running (platform w)) {0} ?g1 [] clear_rx (reached w (running (platform w)) {0} ?g2 [])"
    by (rule leads_same [OF leads_clear_rx]) (simp_all add: g)
  have upload: "leads w (running (platform w)) {0} ?g2 [] (set_state ST_V1ProgramUpload) (reached w (running (platform w)) {0} ?g3 [])"
    by (rule leads_same [OF leads_set_state]) simp_all
  have len: "length ?h = 10" by (simp add: v1_header_bytes_def)
  have act: "leads w (running (platform w)) {0} ?g1 [] (GCF_HandleEvent (Suc n) EV_ACTION) ?Q"
  proof (rule leads_event)
    show "leads w (running (platform w)) {0} ?g1 [] (call_handler (GCF_HandleEvent n) (run n) ST_V1ProgramWriteHeader EV_ACTION) ?Q"
      apply (simp only: call_handler_def handler.case ST_V1ProgramWriteHeader_handler_def simp_thms if_True)
      apply (rule leads_Cons [OF clear], rule leads_block1, rule leads_attempt [where a = ?h], simp add: v1_header_eq)
      apply (rule leads_Cons [OF upload], rule leads_Cons [OF leads_write_port [OF assms(5)]], use len in simp)
      by (rule leads_block1, simp only: append_Nil, rule leads_SetTimeout)
  qed simp_all
  have "leads w (running (platform w)) {timer (platform w)} g []
      (call_handler (GCF_HandleEvent (Suc n)) (run (Suc n)) ST_V1ProgramSync EV_RX_ASCII) ?Q"
    apply (simp only: call_handler_def handler.case ST_V1ProgramSync_handler_def event.distinct simp_thms if_True if_False)
    apply (rule leads_get [where a = "wp g"], simp, simp only: Let_def, rule leads_if, use assms(3) in \<open>simp add: g_def\<close>)
    apply (rule leads_find, use g in simp, rule leads_if, use assms(4) in \<open>simp add: g_def\<close>)
    apply (rule leads_Cons [OF leads_ClearTimeout])
    apply (rule leads_Cons [OF leads_attempt [where a = tx]], simp add: tx, rule leads_print_line [OF line])
    by (rule leads_Cons [OF leads_set_state], rule leads_block1, rule act)
  from leadsD [OF leads_event [where h = ST_V1ProgramSync, OF _ _ this, unfolded g_def] assms(5)] show ?thesis
    using assms(2) by (simp add: g_def)
qed

text \<open>A V1 transfer ends when the bootloader reports \<open>#VALID CRC\<close>: the program shuts down; any
  other text is waited out.\<close>

lemma v1_validated:
  assumes "machine_ok w" and "state (gcf w) = ST_V1ProgramValidate" and "ready 0 w"
  shows "\<exists>w'. GCF_HandleEvent (Suc n) EV_RX_ASCII w = Inr w' \<and>
    (if 6 < wp (gcf w) \<and> ascii_has ''#VALID CRC'' (gcf w)
     then reached w False {timer (platform w)} (gcf w) [] w'
     else reached w (running (platform w)) (timeout w 1000) (gcf w) [] w')"
proof -
  define g where "g = gcf w"
  define valid where "valid \<longleftrightarrow> 6 < wp g \<and> ascii_has ''#VALID CRC'' g"
  let ?Q = "\<lambda>w'. if valid then reached w False {timer (platform w)} g [] w' else reached w (running (platform w)) (timeout w 1000) g [] w'"
  have g: "length (ascii g) = 512" "wp g \<le> 510" using assms(1) by (simp_all add: g_def holds_def core_ok_def)
  have shut: "leads w (running (platform w)) {timer (platform w)} g [] (block [UI_Puts x, PL_ShutDown]) ?Q" if valid for x
    using that by (simp only: if_True) (rule leads_Cons [OF leads_puts(2)], rule leads_block1, rule leads_ShutDown)
  have wait: "leads w (running (platform w)) {timer (platform w)} g [] (PL_SetTimeout 1000) ?Q" if "\<not> valid"
    using that by (simp only: if_False) (rule leads_SetTimeout)
  have "leads w (running (platform w)) {timer (platform w)} g []
      (call_handler (GCF_HandleEvent n) (run n) ST_V1ProgramValidate EV_RX_ASCII) ?Q"
    apply (simp only: call_handler_def handler.case ST_V1ProgramValidate_handler_def simp_thms if_True)
    apply (rule leads_get [where a = "wp g"], simp, rule hoare_if, rule leads_find, use g in simp, rule hoare_if)
    by (rule shut wait; simp add: valid_def)+
  from leadsD [OF leads_event [where h = ST_V1ProgramValidate, OF _ _ this, unfolded g_def] assms(3)] show ?thesis
    using assms(2) by (simp add: g_def valid_def)
qed

section \<open>The V3 handshake\<close>

text \<open>C6: When a V3 bootloader answers the query with its identification (version and CRC of the
  application), the program asks it to accept the firmware: one frame with command 3, size, address,
  type and CRC-32 of the firmware, and one second for the answer.\<close>

theorem v3_update_requested:
  assumes "machine_ok w" and "state (gcf w) = ST_BootloaderQuery" and "8 \<le> length cs" and "length cs < 500"
    and "ready (length (frame (v3_request_bytes (gcf_file (gcf w))))) w"
  shows "\<exists>w' buf. PROT_Packet (GCF_HandleEvent (n + 2)) (0x81 # 0x82 # cs) w = Inr w' \<and> length buf = 512 \<and>
    reached w (running (platform w)) (timeout w 1000)
      ((gcf w)\<lparr>ascii := buf, wp := length cs + 2, state := ST_V3ProgramSync\<rparr>) (frame (v3_request_bytes (gcf_file (gcf w)))) w'"
proof -
  define g where "g = gcf w"
  define buf where "buf = overwrite 0 (0x81 # 0x82 # cs) (ascii g)"
  let ?x = "v3_request_bytes (gcf_file g)"
  let ?g1 = "g\<lparr>ascii := buf, wp := length cs + 2\<rparr>" and ?g2 = "g\<lparr>ascii := buf, wp := length cs + 2, state := ST_V3ProgramSync\<rparr>"
  let ?T = "{timer (platform w)}" and ?r = "running (platform w)"
  let ?Q = "reached w ?r (timeout w 1000) ?g2 (frame ?x)"
  have len: "length (ascii g) = 512" "length buf = 512"
    using ready_frame [OF assms(1)] assms(4) by (simp_all add: g_def buf_def)
  have b1: "buf ! 1 = 0x82" by (simp add: buf_def overwrite_def)
  have line: "keeps {} (lbuf 384 384) (block [put_lit ''bootloader version 0x'', U_sstream_put_u32hex a,
             put_lit '', app crc 0x'', U_sstream_put_u32hex b, U_sstream_put_str [0x0A, 0x0A]])" for a b
    by (intro line_intro hoare_intro)
  have sync: "leads w ?r ?T ?g2 [] (GCF_HandleEvent (Suc n) EV_ACTION) ?Q"
  proof (rule leads_event)
    show "leads w ?r ?T ?g2 [] (call_handler (GCF_HandleEvent n) (run n) ST_V3ProgramSync EV_ACTION) ?Q"
      apply (simp only: call_handler_def handler.case ST_V3ProgramSync_handler_def simp_thms if_True)
      apply (rule leads_Cons [OF leads_puts(5)], rule leads_Cons [OF leads_SetTimeout], rule leads_block1)
      apply (rule leads_attempt [where a = ?x], simp add: v3_request_eq)
      using leads_Send [OF assms(5), of "[]" ?x] by (simp add: g_def)
  qed simp_all
  have upd: "leads w ?r ?T ?g1 [] (set_state ST_V3ProgramSync) (reached w ?r ?T ?g2 [])"
    by (rule leads_same [OF leads_set_state]) simp_all
  have "leads w ?r ?T ?g1 [] (call_handler (GCF_HandleEvent (Suc n)) (run (Suc n)) ST_BootloaderQuery EV_RX_BTL_PKG_DATA) ?Q"
    apply (simp only: call_handler_def handler.case ST_BootloaderQuery_handler_def event.distinct simp_thms if_True if_False)
    apply (rule leads_attempt [where a = "0x82"], use len b1 in simp, rule leads_if, rule refl)
    apply (rule leads_attempt, use len in \<open>simp add: le32.get_spec\<close>, simp only: case_prod_conv)
    apply (rule leads_attempt, use len in \<open>simp add: le32.get_spec\<close>, simp only: case_prod_conv)
    by (rule leads_Cons [OF leads_print_line [OF line]], rule leads_Cons [OF upd], rule leads_block1, rule sync)
  then have "leads w ?r ?T ?g1 [] (GCF_HandleEvent (Suc (Suc n)) EV_RX_BTL_PKG_DATA) ?Q"
    by (intro leads_event [where h = ST_BootloaderQuery]) (simp_all add: g_def assms(2))
  then have "leads w ?r ?T g [] (PROT_Packet (GCF_HandleEvent (n + 2)) (0x81 # 0x82 # cs)) ?Q"
    using leads_packet [OF assms(5), of g "0x82 # cs" ?r ?T "[]" "GCF_HandleEvent (n + 2)" ?Q] len assms(4)
    by (simp add: buf_def)
  from leadsD [OF this [unfolded g_def] assms(5)] show ?thesis using len by (auto simp: g_def)
qed

text \<open>C7: The V3 bootloader's answer to that request decides: with status 0 the upload starts, with any
  other status the program keeps waiting for its timeout.\<close>

theorem v3_update_accepted:
  assumes "machine_ok w" and "state (gcf w) = ST_V3ProgramSync" and "length cs < 500" and "ready 0 w"
  shows "\<exists>w' buf. PROT_Packet (GCF_HandleEvent (Suc n)) (0x81 # 0x83 # status # cs) w = Inr w' \<and> length buf = 512 \<and>
    (if status = 0
     then reached w (running (platform w)) (timeout w 3000) ((gcf w)\<lparr>ascii := buf, wp := length cs + 3, state := ST_V3ProgramUpload\<rparr>) [] w'
     else reached w (running (platform w)) {timer (platform w)} ((gcf w)\<lparr>ascii := buf, wp := length cs + 3\<rparr>) [] w')"
proof -
  define g where "g = gcf w"
  define buf where "buf = overwrite 0 (0x81 # 0x83 # status # cs) (ascii g)"
  let ?g1 = "g\<lparr>ascii := buf, wp := length cs + 3\<rparr>" and ?g2 = "g\<lparr>ascii := buf, wp := length cs + 3, state := ST_V3ProgramUpload\<rparr>"
  let ?T = "{timer (platform w)}" and ?r = "running (platform w)"
  let ?Q = "\<lambda>w'. if status = 0 then reached w ?r (timeout w 3000) ?g2 [] w' else reached w ?r ?T ?g1 [] w'"
  have len: "length (ascii g) = 512" "length buf = 512"
    using ready_frame [OF assms(1)] assms(3) by (simp_all add: g_def buf_def)
  have b: "buf ! 1 = 0x83" "buf ! 2 = status" by (simp_all add: buf_def overwrite_def)
  have upd: "leads w ?r (timeout w 3000) ?g1 [] (set_state ST_V3ProgramUpload) (reached w ?r (timeout w 3000) ?g2 [])"
    by (rule leads_same [OF leads_set_state]) simp_all
  have start: "leads w ?r ?T ?g1 [] (block [PL_SetTimeout 3000, set_state ST_V3ProgramUpload]) ?Q" if "status = 0"
    using that by (simp only: if_True simp_thms) (rule leads_Cons [OF leads_SetTimeout], rule leads_block1, rule upd)
  have wait: "leads w ?r ?T ?g1 [] skip ?Q" if "status \<noteq> 0"
    using that by (simp only: if_False) (rule leads_skip)
  have "leads w ?r ?T ?g1 [] (call_handler (GCF_HandleEvent n) (run n) ST_V3ProgramSync EV_RX_BTL_PKG_DATA) ?Q"
    apply (simp only: call_handler_def handler.case ST_V3ProgramSync_handler_def event.distinct simp_thms if_True if_False)
    apply (rule leads_attempt [where a = "0x83"], use len b in simp, rule leads_if, rule refl)
    apply (rule leads_attempt [where a = status], use len b in simp)
    by (rule hoare_if; rule start wait)
  then have "leads w ?r ?T ?g1 [] (GCF_HandleEvent (Suc n) EV_RX_BTL_PKG_DATA) ?Q"
    by (intro leads_event [where h = ST_V3ProgramSync]) (simp_all add: g_def assms(2))
  then have "leads w ?r ?T g [] (PROT_Packet (GCF_HandleEvent (Suc n)) (0x81 # 0x83 # status # cs)) ?Q"
    using leads_packet [OF assms(4), of g "0x83 # status # cs" ?r ?T "[]" "GCF_HandleEvent (Suc n)" ?Q] len assms(3)
    by (simp add: buf_def eval_nat_numeral)
  from leadsD [OF this [unfolded g_def] assms(4)] len show ?thesis
    unfolding g_def by (elim exE conjE) (rule exI, rule exI [of _ buf], simp)
qed

text \<open>A V3 transfer ends when the bootloader identifies itself again: the program reports the
  application's CRC and shuts down, without sending anything more.\<close>

lemma v3_finished:
  assumes "machine_ok w" and "state (gcf w) = ST_V3ProgramWaitID" and "8 \<le> length cs" and "length cs < 500" and "ready 0 w"
  shows "\<exists>w' buf. PROT_Packet (GCF_HandleEvent (Suc n)) (0x81 # 0x82 # cs) w = Inr w' \<and> length buf = 512 \<and>
    reached w False {timer (platform w)} ((gcf w)\<lparr>ascii := buf, wp := length cs + 2\<rparr>) [] w'"
proof -
  define g where "g = gcf w"
  define buf where "buf = overwrite 0 (0x81 # 0x82 # cs) (ascii g)"
  let ?g1 = "g\<lparr>ascii := buf, wp := length cs + 2\<rparr>"
  let ?T = "{timer (platform w)}" and ?r = "running (platform w)"
  let ?Q = "reached w False ?T ?g1 []"
  have len: "length (ascii g) = 512" "length buf = 512"
    using ready_frame [OF assms(1)] assms(4) by (simp_all add: g_def buf_def)
  have b1: "buf ! 1 = 0x82" by (simp add: buf_def overwrite_def)
  have crc: "leads w ?r ?T ?g1 [] (gget (\<lambda>g. gcfCrc32 (gcf_file g)) (\<lambda>crc32. if crc32 \<noteq> 0
             then print_line ([put_lit ''app checksum 0x'', U_sstream_put_u32hex a]
               @ (if a = crc32 then [put_lit '' (OK)'']
                  else [put_lit '' (expected 0x'', U_sstream_put_u32hex crc32, put_lit '')''])
               @ [put_line ''''])
             else skip)) (reached w ?r ?T ?g1 [])" for a
    by (rule leads_quiet) (intro quiet_intro keeps_print_line line_intro hoare_intro)
  have "leads w ?r ?T ?g1 [] (call_handler (GCF_HandleEvent n) (run n) ST_V3ProgramWaitID EV_RX_BTL_PKG_DATA) ?Q"
    apply (simp only: call_handler_def handler.case ST_V3ProgramWaitID_handler_def simp_thms if_True)
    apply (rule leads_attempt [where a = "0x82"], use len b1 in simp, rule leads_if, rule refl)
    apply (rule leads_attempt, use len in \<open>simp add: le32.get_spec\<close>, simp only: case_prod_conv)
    apply (rule leads_attempt, use len in \<open>simp add: le32.get_spec\<close>, simp only: case_prod_conv)
    by (rule leads_Cons [OF crc], rule leads_Cons [OF leads_puts(1)], rule leads_block1, rule leads_ShutDown)
  then have "leads w ?r ?T ?g1 [] (GCF_HandleEvent (Suc n) EV_RX_BTL_PKG_DATA) ?Q"
    by (intro leads_event [where h = ST_V3ProgramWaitID]) (simp_all add: g_def assms(2))
  then have "leads w ?r ?T g [] (PROT_Packet (GCF_HandleEvent (Suc n)) (0x81 # 0x82 # cs)) ?Q"
    using leads_packet [OF assms(5), of g "0x82 # cs" ?r ?T "[]" "GCF_HandleEvent (Suc n)" ?Q] len assms(4)
    by (simp add: buf_def)
  from leadsD [OF this [unfolded g_def] assms(5)] show ?thesis using len by (auto simp: g_def)
qed

section \<open>Timeouts\<close>

text \<open>A retry: back to the start, or the end, as the clock shows it in \<open>w0\<close>.\<close>

definition retried :: "world \<Rightarrow> bool \<Rightarrow> nat set \<Rightarrow> GCF \<Rightarrow> byte list \<Rightarrow> world \<Rightarrow> bool" where
  "retried w0 r T g d w \<longleftrightarrow> (if time_at (env w0) (tick w0) < maxTime g
     then reached w0 r (timeout w0 250) (g\<lparr>state := ST_Init, substate := ST_Void\<rparr>) d w
     else reached w0 False T g d w)"

text \<open>Before the first system call of a handler the clock is that of \<open>w0\<close>.\<close>

definition at_once :: "world \<Rightarrow> bool \<Rightarrow> nat set \<Rightarrow> GCF \<Rightarrow> byte list \<Rightarrow> world \<Rightarrow> bool" where
  "at_once w0 r T g d w \<longleftrightarrow> reached w0 r T g d w \<and> tick w = tick w0"

lemma puts_at_once: "hoare {} (at_once w0 r T g d) (puts_line s) (at_once w0 r T g d)"
proof -
  have "tick w' = tick w" if "puts_line s w = Inr w'" for w w'
    using that by (auto simp: puts_line_def UI_Puts_def PL_Print_def emit_def upd_def skip_def split: if_splits)
  with leads_puts(1) [of w0 r T g d s] show ?thesis
    unfolding hoare_def at_once_def by (fastforce split: sum.splits)
qed

lemma leads_reads:
  "(\<And>w. reached w0 r T g d w \<Longrightarrow> leads w0 r T g d (k (f w)) Q) \<Longrightarrow> leads w0 r T g d (reads f k) Q"
  by (simp add: hoare_def reads_def)

lemma Retry_at_once: "hoare {} (at_once w0 r T g d) gcfRetry (retried w0 r T g d)"
proof -
  define now where "now = time_at (env w0) (tick w0)"
  have line: "leads w0 r T g d (reads (\<lambda>w. (long_bits (env w), maxTime (gcf w))) (\<lambda>(L, m). print_line [
       put_lit ''retry: '', U_sstream_put_long (cdiv (to_long L ((m - now) mod 2 ^ L)) 1000), put_line '' seconds left''])) (reached w0 r T g d)"
    by (rule leads_reads, simp only: case_prod_conv, rule leads_quiet, rule quiet_long_line) (rule retry_seconds, simp)
  have again: "leads w0 r T g d (block [
     reads (\<lambda>w. (long_bits (env w), maxTime (gcf w))) (\<lambda>(L, m). print_line [
       put_lit ''retry: '', U_sstream_put_long (cdiv (to_long L ((m - now) mod 2 ^ L)) 1000), put_line '' seconds left'']),
     set_state ST_Init, set_substate ST_Void, PL_SetTimeout 250]) (retried w0 r T g d)" if "now < maxTime g"
    by (rule hoare_post [where Q' = "reached w0 r (timeout w0 250) (g\<lparr>state := ST_Init, substate := ST_Void\<rparr>) d"],
        rule leads_Cons [OF line], rule leads_Cons [OF leads_set_state], rule leads_Cons [OF leads_set_substate],
        rule leads_block1, rule leads_SetTimeout) (use that in \<open>simp add: retried_def now_def\<close>)
  have stop: "leads w0 r T g d (block [PL_ShutDown]) (retried w0 r T g d)" if "\<not> now < maxTime g"
    by (rule hoare_post [where Q' = "reached w0 False T g d"], rule leads_block1, rule leads_ShutDown)
      (use that in \<open>simp add: retried_def now_def\<close>)
  have decide: "leads w0 r T g d (gif (\<lambda>g. maxTime g > now) [
     reads (\<lambda>w. (long_bits (env w), maxTime (gcf w))) (\<lambda>(L, m). print_line [
       put_lit ''retry: '', U_sstream_put_long (cdiv (to_long L ((m - now) mod 2 ^ L)) 1000), put_line '' seconds left'']),
     set_state ST_Init, set_substate ST_Void, PL_SetTimeout 250] [PL_ShutDown]) (retried w0 r T g d)"
    by (rule leads_gif, rule if_split [where P = "\<lambda>ss. leads w0 r T g d (block ss) (retried w0 r T g d)", THEN iffD2])
      (auto simp del: block.simps dest: again stop)
  show ?thesis
    unfolding hoare_def
  proof (intro allI impI)
    fix w assume w: "at_once w0 r T g d w"
    then have "PL_Time w = Inr (now, w\<lparr>tick := tick w + 1\<rparr>)" by (simp add: PL_Time_at at_once_def reached_def now_def)
    moreover have "reached w0 r T g d (w\<lparr>tick := tick w + 1\<rparr>)" using w by (auto simp: at_once_def reached_def)
    ultimately show "case gcfRetry w of Inl f \<Rightarrow> f \<in> {} | Inr w' \<Rightarrow> retried w0 r T g d w'"
      using decide by (simp add: gcfRetry_def callv_def hoare_def)
  qed
qed

lemma Retry_said: "hoare {} (at_once w0 r T g d) (block [puts_line s, gcfRetry]) (retried w0 r T g d)"
  by (rule hoare_block_Cons [OF puts_at_once hoare_block_single [OF Retry_at_once]])

lemma at_once_start: "ready n w \<Longrightarrow> at_once w (running (platform w)) {timer (platform w)} (gcf w) [] w"
  by (simp add: at_once_def reached_start)

text \<open>C10: In every state of a transfer, a timeout makes the program look at the clock: when the time it shows
  is before \<open>maxTime\<close> (option \<open>-t\<close>, ten seconds without it) the program starts over from the command line 250 ms
  later, otherwise it shuts down and leaves its state and its timer alone. Nothing is sent.\<close>

theorem transfer_timeout:
  assumes "state (gcf w) \<in> {ST_V1ProgramSync, ST_V1ProgramUpload, ST_V1ProgramValidate, ST_V3ProgramSync,
      ST_V3ProgramUpload, ST_V3ProgramWaitID}" and "ready 0 w"
  shows "\<exists>w'. GCF_HandleEvent (Suc n) EV_TIMEOUT w = Inr w'
    \<and> (if time_at (env w) (tick w) < maxTime (gcf w)
       then reached w (running (platform w)) (timeout w 250) ((gcf w)\<lparr>state := ST_Init, substate := ST_Void\<rparr>) [] w'
       else reached w False {timer (platform w)} (gcf w) [] w')"
proof -
  let ?P = "at_once w (running (platform w)) {timer (platform w)} (gcf w) []"
  let ?Q = "retried w (running (platform w)) {timer (platform w)} (gcf w) []"
  have "hoare {} ?P (call_handler (GCF_HandleEvent n) (run n) (state (gcf w)) EV_TIMEOUT) ?Q"
    using assms(1) Retry_at_once Retry_said
    by (auto simp: call_handler_def ST_V1ProgramSync_handler_def ST_V1ProgramUpload_handler_def ST_V1ProgramValidate_handler_def
        ST_V3ProgramSync_handler_def ST_V3ProgramUpload_handler_def ST_V3ProgramWaitID_handler_def simp del: block.simps)
  then have "hoare {} ?P (GCF_HandleEvent (Suc n) EV_TIMEOUT) ?Q"
    by (intro event_hoare [where h = "state (gcf w)"]) (auto simp: at_once_def reached_def)
  from hoare_total [OF this at_once_start [OF assms(2)]] show ?thesis by (simp add: retried_def)
qed

lemma count_at_once:
  "hoare {} (at_once w0 r T g d) (set_gcf (\<lambda>g. g\<lparr>retry := retry g + 1\<rparr>)) (at_once w0 r T (g\<lparr>retry := retry g + 1\<rparr>) d)"
  by (auto simp: hoare_def set_gcf_def upd_def at_once_def intro: reached_gcf_set [where f = "\<lambda>g. g\<lparr>retry := retry g + 1\<rparr>", simplified])

lemma gif_at_once:
  "c g \<Longrightarrow> (\<And>u. c (g\<lparr>ui := u\<rparr>) = c g) \<Longrightarrow> hoare {} (at_once w0 r T g d) (block ss) Q \<Longrightarrow> hoare {} (at_once w0 r T g d) (gif c ss ts) Q"
  unfolding hoare_def gif_def cond_def at_once_def using reached_gcf by fastforce

text \<open>C11: The program asks for the bootloader at every timeout, in the form the file type tells, and
  gives the third try up for a retry.\<close>

theorem bootloader_queried:
  assumes "state (gcf w) = ST_BootloaderQuery" and "ready 30 w"
  shows "\<exists>w'. GCF_HandleEvent (Suc n) EV_TIMEOUT w = Inr w' \<and> (let g = (gcf w)\<lparr>retry := retry (gcf w) + 1\<rparr> in
    if retry (gcf w) = 2 then retried w (running (platform w)) {timer (platform w)} g [] w'
    else reached w (running (platform w)) (timeout w 200) g
      (if gcfFileType (gcf_file (gcf w)) < 30 then bytes ''ID'' else frame [0x81, 0x02]) w')"
proof -
  define g where "g = gcf w"
  let ?g1 = "g\<lparr>retry := retry g + 1\<rparr>" and ?T = "{timer (platform w)}" and ?r = "running (platform w)"
  let ?q = "if gcfFileType (gcf_file g) < 30 then bytes ''ID'' else frame [0x81, 0x02]"
  let ?Q = "\<lambda>w'. if retry g = 2 then retried w ?r ?T ?g1 [] w' else reached w ?r (timeout w 200) ?g1 ?q w'"
  have len: "length (frame [0x81, 0x02]) \<le> 30" using length_frame [of "[0x81, 0x02]"] by simp
  have v1: "leads w ?r ?T ?g1 [] (block [puts_line s, write_port he (bytes ''ID''), PL_SetTimeout 200]) ?Q"
    if "retry g \<noteq> 2" "gcfFileType (gcf_file g) < 30" for s he
    using that leads_write_port [OF assms(2), of "[]" "bytes ''ID''"]
    by (simp only: if_False if_True append_Nil) (rule leads_Cons [OF leads_puts(1)], rule leads_Cons [where R = "reached w ?r ?T ?g1 (bytes ''ID'')"], simp, rule leads_block1, rule leads_SetTimeout)
  have v3: "leads w ?r ?T ?g1 [] (block [puts_line s, PROT_Send he [0x81, 0x02], PL_SetTimeout 200]) ?Q"
    if "retry g \<noteq> 2" "\<not> gcfFileType (gcf_file g) < 30" for s he
    using that leads_Send [OF assms(2), of "[]" "[0x81, 0x02]"] len
    by (simp only: if_False if_True append_Nil) (rule leads_Cons [OF leads_puts(1)], rule leads_Cons [where R = "reached w ?r ?T ?g1 (frame [0x81, 0x02])"], simp, rule leads_block1, rule leads_SetTimeout)
  show ?thesis
  proof (cases "retry g = 2")
    case True
    have "hoare {} (at_once w ?r ?T g []) (call_handler (GCF_HandleEvent n) (run n) ST_BootloaderQuery EV_TIMEOUT) (retried w ?r ?T ?g1 [])"
      apply (simp only: call_handler_def handler.case ST_BootloaderQuery_handler_def event.distinct simp_thms if_True if_False)
      by (rule hoare_block_Cons [OF count_at_once hoare_block_single], rule gif_at_once, simp add: True, simp, rule Retry_said)
    then have "hoare {} (at_once w ?r ?T g []) (GCF_HandleEvent (Suc n) EV_TIMEOUT) (retried w ?r ?T ?g1 [])"
      by (intro event_hoare [where h = ST_BootloaderQuery]) (auto simp: at_once_def reached_def g_def assms(1))
    from hoare_total [OF this [unfolded g_def] at_once_start [OF assms(2)]] True show ?thesis by (simp add: Let_def g_def)
  next
    case False
    have "leads w ?r ?T g [] (call_handler (GCF_HandleEvent n) (run n) ST_BootloaderQuery EV_TIMEOUT) ?Q"
      apply (simp only: call_handler_def handler.case ST_BootloaderQuery_handler_def event.distinct simp_thms if_True if_False)
      apply (rule leads_Cons [OF leads_set [where g' = ?g1]], simp, rule leads_block1, rule leads_gif)
       apply (subst if_not_P, use False in simp, rule leads_block1, rule leads_gif)
        apply (cases "gcfFileType (gcf_file g) < 30")
         apply (subst if_P, simp, rule v1, rule False, assumption)
        apply (subst if_not_P, simp, rule v3, rule False, assumption)
      by simp_all
    then have "leads w ?r ?T g [] (GCF_HandleEvent (Suc n) EV_TIMEOUT) ?Q"
      by (intro leads_event [where h = ST_BootloaderQuery]) (simp_all add: g_def assms(1))
    from leadsD [OF this [unfolded g_def] assms(2)] show ?thesis by (simp only: Let_def)
  qed
qed

section \<open>Witnesses\<close>

lemma sample_small: "length (frame (v3_reply sample_fw 200 100)) \<le> 2047"
  using length_frame [of "v3_reply sample_fw 200 100"]
  by (simp add: v3_reply_def v3_status_def sample_fw_def Let_def)

theorem v3_request_answered_witness:
  "\<exists>w' buf. PROT_Packet (GCF_HandleEvent 1) (v3_data_request 200 100) (sample_world (in_state ST_V3ProgramUpload [])) = Inr w'
    \<and> length buf = 512 \<and> reached (sample_world (in_state ST_V3ProgramUpload [])) True (timeout (sample_world (in_state ST_V3ProgramUpload [])) 20000)
        (v3_answered (in_state ST_V3ProgramUpload [] zero_gcf) 200 100 buf) (frame (v3_reply sample_fw 200 100)) w'"
  using v3_request_answered [of "sample_world (in_state ST_V3ProgramUpload [])" 200 100 0] sample_small
  by (simp add: in_state_ok in_state_ready in_state_select v3_remaining_def v3_status_def)
    (simp add: sample_fw_def zero_file_def init_pl_def)

theorem v1_page_served_witness:
  "\<exists>w'. GCF_HandleEvent 1 EV_RX_ASCII (sample_world (in_state ST_V1ProgramUpload [0x47, 0, 0, 1, 0, 0x3B])) = Inr w'
    \<and> reached (sample_world (in_state ST_V1ProgramUpload [0x47, 0, 0, 1, 0, 0x3B])) True (timeout (sample_world (in_state ST_V1ProgramUpload [0x47, 0, 0, 1, 0, 0x3B])) 25600)
        (v1_answered (in_state ST_V1ProgramUpload [0x47, 0, 0, 1, 0, 0x3B] zero_gcf) 1) (v1_page sample_fw 1) w'"
  using v1_page_served [of "sample_world (in_state ST_V1ProgramUpload [0x47, 0, 0, 1, 0, 0x3B])" 1 0]
  by (simp add: in_state_ok in_state_ready in_state_select v1_last_def v1_page_def)
    (simp add: sample_fw_def zero_file_def init_pl_def)

lemma has_text: "take (length s) (drop p bs) = bytes s \<Longrightarrow> p + length s \<le> length bs \<Longrightarrow> s \<noteq> [] \<Longrightarrow>
    ascii_has s (in_state h bs zero_gcf)"
  unfolding ascii_has_def occurs_at_def by (rule exI [of _ p]) (cases s, auto simp: in_state_select)

lemma reached_fields: "reached w0 r T g d w \<Longrightarrow>
    state (gcf w) = state g \<and> running (platform w) = r \<and> retry (gcf w) = retry g
    \<and> (outs w0 = [] \<longrightarrow> sent (outs w) @ pending (platform w) = pending (platform w0) @ d)"
  by (auto simp: reached_def)

lemma sample_quiet: "outs (sample_world f) = []" "pending (platform (sample_world f)) = []" "running (platform (sample_world f))"
  by (simp_all add: sample_world_def init_world_def init_pl_def pending_def ring_len_def usub_def)

theorem v1_bootloader_found_witness:
  "\<exists>w'. GCF_HandleEvent (Suc (Suc 0)) EV_RX_ASCII (sample_world (in_state ST_BootloaderQuery (bytes ''ConBee Serial Bootloader version 2'' @ [0x0A]))) = Inr w'
    \<and> sent (outs w') @ pending (platform w') = [0x1A, 0x1C, 0xA9, 0xAE]"
proof -
  let ?w = "sample_world (in_state ST_BootloaderQuery (bytes ''ConBee Serial Bootloader version 2'' @ [0x0A]))"
  have "ascii_has ''Bootloader'' (gcf ?w)" unfolding sample_select by (rule has_text [where p = 14]) (simp_all add: bytes_def)
  from v1_bootloader_found [of ?w 0, OF in_state_ok _ _ _ this in_state_ready] show ?thesis
    by (auto simp: in_state_select sample_quiet nth_append bytes_def dest!: reached_fields simp del: sample_select(2))
qed

theorem v1_header_sent_witness:
  "\<exists>w'. GCF_HandleEvent (Suc (Suc 0)) EV_RX_ASCII (sample_world (in_state ST_V1ProgramSync (bytes ''READY''))) = Inr w'
    \<and> state (gcf w') = ST_V1ProgramUpload"
proof -
  let ?w = "sample_world (in_state ST_V1ProgramSync (bytes ''READY''))"
  have "ascii_has ''READY'' (gcf ?w)" unfolding sample_select by (rule has_text [where p = 0]) (simp_all add: bytes_def)
  from v1_header_sent [of ?w 0, OF in_state_ok _ _ this in_state_ready] show ?thesis
    by (auto simp: in_state_select dest!: reached_fields)
qed

theorem v1_validated_witness:
  "\<exists>w'. GCF_HandleEvent 1 EV_RX_ASCII (sample_world (in_state ST_V1ProgramValidate (bytes ''#VALID CRC''))) = Inr w'
    \<and> \<not> running (platform w')"
proof -
  let ?w = "sample_world (in_state ST_V1ProgramValidate (bytes ''#VALID CRC''))"
  have "ascii_has ''#VALID CRC'' (gcf ?w)" unfolding sample_select by (rule has_text [where p = 0]) (simp_all add: bytes_def)
  with v1_validated [of ?w 0, OF in_state_ok _ in_state_ready] show ?thesis
    by (auto simp: in_state_select dest!: reached_fields)
qed

theorem v3_update_requested_witness:
  "\<exists>w'. PROT_Packet (GCF_HandleEvent (Suc (Suc 0))) (0x81 # 0x82 # replicate 8 0) (sample_world (in_state ST_BootloaderQuery [])) = Inr w'
    \<and> state (gcf w') = ST_V3ProgramSync"
proof -
  have "length (frame (v3_request_bytes sample_fw)) \<le> 2047"
    using length_frame [of "v3_request_bytes sample_fw"] by (simp add: v3_request_bytes_def)
  then have "ready (length (frame (v3_request_bytes sample_fw))) (sample_world (in_state ST_BootloaderQuery []))"
    by (rule in_state_ready)
  with v3_update_requested [of "sample_world (in_state ST_BootloaderQuery [])" "replicate 8 0" 0, OF in_state_ok] show ?thesis
    by (auto simp: in_state_select dest!: reached_fields)
qed

theorem v3_update_accepted_witness:
  "\<exists>w'. PROT_Packet (GCF_HandleEvent 1) [0x81, 0x83, 0] (sample_world (in_state ST_V3ProgramSync [])) = Inr w'
    \<and> state (gcf w') = ST_V3ProgramUpload"
  using v3_update_accepted [of "sample_world (in_state ST_V3ProgramSync [])" "[]" 0 0, OF in_state_ok _ _ in_state_ready]
  by (auto simp: in_state_select dest!: reached_fields)

theorem v3_finished_witness:
  "\<exists>w'. PROT_Packet (GCF_HandleEvent 1) (0x81 # 0x82 # replicate 8 0) (sample_world (in_state ST_V3ProgramWaitID [])) = Inr w'
    \<and> \<not> running (platform w')"
  using v3_finished [of "sample_world (in_state ST_V3ProgramWaitID [])" "replicate 8 0" 0, OF in_state_ok _ _ _ in_state_ready]
  by (auto simp: in_state_select dest!: reached_fields)

theorem transfer_timeout_witness:
  "\<exists>w'. GCF_HandleEvent 1 EV_TIMEOUT (sample_world (in_state ST_V3ProgramUpload [])) = Inr w' \<and> \<not> running (platform w')"
proof -
  have "maxTime (in_state ST_V3ProgramUpload [] zero_gcf) = 0" by (simp add: in_state_def zero_gcf_def)
  with transfer_timeout [of "sample_world (in_state ST_V3ProgramUpload [])" 0, OF _ in_state_ready] show ?thesis
    by (auto simp: in_state_select dest!: reached_fields)
qed

theorem bootloader_queried_witness:
  "\<exists>w'. GCF_HandleEvent 1 EV_TIMEOUT (sample_world (in_state ST_BootloaderQuery [])) = Inr w' \<and> retry (gcf w') = 1"
proof -
  have "retry (in_state ST_BootloaderQuery [] zero_gcf) = 0" by (simp add: in_state_def zero_gcf_def)
  with bootloader_queried [of "sample_world (in_state ST_BootloaderQuery [])" 0, OF _ in_state_ready] show ?thesis
    by (auto simp: in_state_select Let_def dest!: reached_fields)
qed

end
