(* ===== verification/Gcf_Run.thy ===== *)
theory Gcf_Run
  imports Gcf_Keys Posix_Loop Gcf_Serve
begin

text \<open>
  The program from its start: \<open>GCF_Init\<close> establishes the invariant, every pass of the main loop
  keeps it or stops with a fault, and so does every run of \<open>main\<close>.
\<close>

section \<open>The steps of the main loop\<close>

lemma runs_cond [ok_intro]: "runs P s Q \<Longrightarrow> runs P t Q \<Longrightarrow> runs P (cond c s t) Q"
  unfolding runs_def by (rule keeps_cond)

lemmas steps_cond [ok_intro] = steps_runs [where s = "cond c s t" for c s t]

lemma runs_key_dump [ok_intro]: "runs P (key_dump i ks) P"
proof (induction ks arbitrary: i)
  case Nil
  show ?case by (simp add: runs_weaken [OF steps_skip])
next
  case (Cons k ks)
  show ?case unfolding key_dump.simps by (rule runs_Cons [OF steps_Puts(3) runs_single [OF Cons.IH]])
qed

context dispatcher
begin

lemma loop_calls:
  assumes "\<And>e s. C e s"
  shows "steps prog_ok (he e) prog_ok" and "steps prog_ok (call (PROT_Flush he)) prog_ok"
    and "steps prog_ok (PL_Disconnect he) prog_ok" and "steps prog_ok (GCF_Received he cs) prog_ok"
proof -
  show "steps prog_ok (he e) prog_ok" by (rule steps_he) (simp_all add: assms)
  have "may_send prog_ok he" by (rule send) (simp_all add: assms)
  then show "steps prog_ok (call (PROT_Flush he)) prog_ok" "steps prog_ok (PL_Disconnect he) prog_ok"
    by (rule steps_flush steps_Disconnect)+
  show "steps prog_ok (GCF_Received he cs) prog_ok" using Received_runs [OF assms] by (simp add: steps_def runs_def)
qed

lemmas loop_runs = loop_calls [unfolded steps_def, folded runs_def]

lemma check_timer_runs:
  assumes "\<And>e s. C e s"
  shows "runs prog_ok (check_timer he) prog_ok"
  unfolding check_timer_def
  by (rule loop_calls [OF assms] loop_runs [OF assms] ok_intro | simp add: core_simps)+

lemma poll_device_runs:
  assumes "\<And>e s. C e s"
  shows "runs prog_ok (poll_device he p) prog_ok"
  unfolding poll_device_def
  by (rule loop_calls [OF assms] loop_runs [OF assms] ok_intro | simp)+

text \<open>
  What the terminal delivers: a key that is not one of the known ones does nothing, any other is
  handled with the invariant or stops with one of the faults \<open>F\<close>.
\<close>

lemma read_keys_keeps:
  assumes C: "\<And>e s. C e s" and F: "AssertFailed \<in> F" and key: "key_codepoint ks = 0 \<or> Diverges \<in> F \<and> OutOfBounds \<in> F"
  shows "keeps F machine_ok (read_keys he ks)"
proof -
  let ?first = "if key_codepoint ks \<noteq> 0 then GCF_KeyboardInput he (key_codepoint ks) else skip"
  define dump where "dump = reads (\<lambda>w. ndebug (env w)) (\<lambda>nd. if \<not> nd \<and> key_codepoint ks = 0 then key_dump 0 ks else skip)"
  have "keeps F machine_ok ?first"
    using KeyboardInput_keeps [OF C _ F] key by (auto simp: hoare_def skip_def)
  moreover have "runs prog_ok dump prog_ok" unfolding dump_def by (rule ok_intro | simp)+
  then have "keeps F machine_ok (block [dump])" by (simp add: runs_keeps F)
  ultimately show ?thesis
    unfolding read_keys_def dump_def Let_def by (rule hoare_block_Cons)
qed

end

section \<open>The start\<close>

abbreviation post :: "event \<Rightarrow> action" where
  "post \<equiv> GCF_HandleEvent 12"

lemma holds_init_world: "env_ok e \<Longrightarrow> machine_ok (init_world e)"
  by (simp add: init_world_def holds_def ring_ok_def ring_len_def usub_def init_pl_def core_ok_def zero_gcf_def zero_file_def
      zero_device_def device_ok_def nul_in_def fname_ok_def sniff_ok_def sub_handlers_def ui_ok_def input_ok_def rx_ok_init prog_cases
      upload_states_def)

lemma GCF_Init_steps: "steps prog_ok (GCF_Init av) prog_ok"
proof -
  have fields: "steps prog_ok (set_gcf (\<lambda>g. g\<lparr>rxstate := rx_init, startTime := t, maxTime := 0, devCount := 0, task := T_NONE,
       state := ST_Init, substate := ST_Void, argv := av, wp := 0, evAction := False\<rparr>)) prog_ok" for t
    unfolding set_gcf_def
    by (rule steps_upd) (auto simp: holds_def core_ok_def rx_ok_init sub_handlers_def prog_cases upload_states_def)
  have line: "steps prog_ok (zoom (\<lambda>w. uiInputLine (ui (gcf w)))
       (\<lambda>b w. w\<lparr>gcf := (gcf w)\<lparr>ui := (ui (gcf w))\<lparr>uiInputLine := b\<rparr>\<rparr>\<rparr>) (poke 0 0)) prog_ok"
    unfolding steps_def hoare_def by (auto simp: zoom_def holds_def core_ok_def ui_ok_def input_ok_def poke_def nth_list_update)
  show ?thesis
    unfolding GCF_Init_def
    by (rule steps_compound runs_PL_Time runs_Cons [OF fields] runs_Cons [OF steps_set_sniff] runs_Cons [OF steps_ui_set]
        runs_Cons [OF line] ok_intro | simp add: sniff_ok_def ui_ok_def input_ok_def)+
qed

lemmas machine_calls = machine.loop_calls [OF TrueI]
lemmas machine_runs = machine.loop_runs [OF TrueI]

section \<open>Whole runs\<close>

lemma stop_runs: "runs prog_ok (set_pl (\<lambda>q. q\<lparr>running := False\<rparr>)) prog_ok"
  by (rule runs_weaken [OF steps_set_pl]) (simp_all add: core_simps)

lemma poll_ready_keeps:
  assumes F: "AssertFailed \<in> F" and "key_in p \<Longrightarrow> key_codepoint (key_read p) = 0 \<or> Diverges \<in> F \<and> OutOfBounds \<in> F"
  shows "keeps F machine_ok (poll_ready post dev p)"
proof -
  have device: "keeps F machine_ok (if dev then poll_device post p else skip)"
    using runs_keeps [OF machine.poll_device_runs [OF TrueI] F] by (simp add: hoare_skip)
  have keys: "keeps F machine_ok (block [if key_in p
      then if key_read p = [] then set_pl (\<lambda>q. q\<lparr>running := False\<rparr>) else read_keys post (key_read p) else skip])"
    using assms(2) machine.read_keys_keeps [OF TrueI F] runs_keeps [OF stop_runs F] by (simp add: hoare_skip)
  show ?thesis
    unfolding poll_ready_def by (rule hoare_if runs_keeps [OF machine_runs(3) F] hoare_block_Cons [OF device keys])+
qed

text \<open>The loop, poll by poll; the faults other than a failed \<open>Assert\<close> come from typed keys only.\<close>

lemma poll_loop_keeps:
  assumes F: "AssertFailed \<in> F"
    and "\<forall>p\<in>set ps. key_in p \<longrightarrow> key_codepoint (key_read p) = 0 \<or> Diverges \<in> F \<and> OutOfBounds \<in> F"
  shows "keeps F machine_ok (poll_loop post ps)"
  using assms(2)
proof (induction ps)
  case Nil
  show ?case unfolding poll_loop.simps by (rule keeps_cond runs_keeps [OF machine_runs(3) F] hoare_skip | assumption)+
next
  case (Cons p ps)
  note calls = machine_runs(1,3) machine.check_timer_runs [OF TrueI]
  note keeps = calls(1-3) [THEN runs_keeps, OF F] runs_keeps [OF runs_weaken [OF steps_Puts(3)] F]
  have ready: "keeps F machine_ok (poll_ready post dev p)" for dev
    by (rule poll_ready_keeps [OF F]) (use Cons.prems in simp)
  have rest: "keeps F machine_ok (poll_loop post ps)" by (rule Cons.IH) (use Cons.prems in simp)
  show ?case unfolding poll_loop.simps
    by (rule keeps hoare_intro ready rest | simp)+
qed

lemma main_keeps:
  assumes "env_ok e" and F: "AssertFailed \<in> F"
    and "\<forall>p\<in>set ps. key_in p \<longrightarrow> key_codepoint (key_read p) = 0 \<or> Diverges \<in> F \<and> OutOfBounds \<in> F"
  shows "case gcf_main 12 av ps (init_world e) of Inl f \<Rightarrow> f \<in> F | Inr w \<Rightarrow> machine_ok w"
proof -
  have init: "runs prog_ok (GCF_Init av) prog_ok" using GCF_Init_steps by (simp add: steps_def runs_def)
  have start: "runs prog_ok (set_pl (\<lambda>_. init_pl)) prog_ok"
    by (rule runs_weaken [OF steps_set_pl]) (simp_all add: ring_ok_def ring_len_def usub_def init_pl_def)
  have "keeps F machine_ok (gcf_main 12 av ps)"
    unfolding gcf_main_def PL_Loop_def
    by (rule hoare_intro poll_loop_keeps [OF F assms(3)] runs_keeps [OF init F] runs_keeps [OF start F]
        runs_keeps [OF machine_runs(1) F])+
  then show ?thesis using holds_init_world [OF assms(1)] unfolding hoare_def by blast
qed

text \<open>C1: In the debug build on a 64-bit host, no run of the program, whatever the command line, the
  answers of the system and the bytes from the device are, leaves an array, spins for ever or
  exhausts the nesting of event handlers, as long as no key is typed: it stops with a failed
  \<open>Assert\<close>, or every poll is answered and the machine's invariant holds.\<close>

theorem main_safe:
  assumes "env_ok e" and "\<forall>p\<in>set ps. key_in p \<longrightarrow> key_codepoint (key_read p) = 0"
  shows "case gcf_main 12 av ps (init_world e) of Inl f \<Rightarrow> f = AssertFailed | Inr w \<Rightarrow> machine_ok w"
  using main_keeps [OF assms(1), of "{AssertFailed}" ps av] assms(2) by (simp split: sum.splits)

definition sample_polls :: "poll_result list" where
  "sample_polls = [\<lparr>poll_ret = 1, dev_gone = False, dev_in = True, dev_read = [0xC0, 1, 2], key_in = True, key_read = [1]\<rparr>]"

theorem main_safe_witness:
  "case gcf_main 12 [bytes ''gcf'', bytes ''-l''] sample_polls (init_world bare_env) of Inl f \<Rightarrow> f = AssertFailed | Inr w \<Rightarrow> machine_ok w"
  by (rule main_safe [OF bare_env_ok]) (simp add: sample_polls_def key_codepoint_def)

text \<open>C2: Every state the main loop reaches satisfies the machine's invariant: whatever the command line,
  the answers of the system, the bytes from the device and the keys typed are, when the polls so far
  have been answered, all arrays have their sizes and all indices point into them, strings are
  terminated, the ring buffer holds at most 2047 bytes, and in every state that uploads the header of
  the firmware file accounts for all its bytes; or the program has stopped before with a failed
  \<open>Assert\<close>, an access outside an array or an endless loop, but never because the fuel of the dispatcher was
  used up.\<close>

theorem reachable_invariant:
  assumes "env_ok e"
  shows "case gcf_main 12 av ps (init_world e) of Inl f \<Rightarrow> f \<in> {AssertFailed, Diverges, OutOfBounds} | Inr w \<Rightarrow> machine_ok w"
  by (rule main_keeps [OF assms]) simp_all

definition typed_polls :: "poll_result list" where
  "typed_polls = map (\<lambda>ks. \<lparr>poll_ret = 1, dev_gone = False, dev_in = True, dev_read = [0xC0], key_in = True, key_read = ks\<rparr>)
     [bytes ''r'', bytes ''p'', [0x1B, 0x5B, 0x44], [0x0A]]"

theorem reachable_invariant_witness:
  "case gcf_main 12 [bytes ''gcf'', bytes ''-c''] typed_polls (init_world bare_env) of
     Inl f \<Rightarrow> f \<in> {AssertFailed, Diverges, OutOfBounds} | Inr w \<Rightarrow> machine_ok w"
  by (rule reachable_invariant [OF bare_env_ok])

text \<open>C3: One event: from every state of the invariant the nested calls of the handlers end after at
  most 11 levels, with the invariant or a failed \<open>Assert\<close>; more fuel is never needed.\<close>

theorem dispatch_ends:
  assumes "machine_ok w" and "11 \<le> n"
  shows "case GCF_HandleEvent n ev w of Inl f \<Rightarrow> f = AssertFailed | Inr w' \<Rightarrow> machine_ok w'"
proof -
  have "steps prog_ok (GCF_HandleEvent n ev) prog_ok"
    by (rule calls_okD [OF GCF_HandleEvent_calls [OF assms(2)]]) simp_all
  then have "runs prog_ok (GCF_HandleEvent n ev) prog_ok" by (simp add: steps_def runs_def)
  then show ?thesis using assms(1) by (rule runsD)
qed

theorem dispatch_ends_witness:
  "case GCF_HandleEvent 11 EV_TIMEOUT (init_world bare_env) of Inl f \<Rightarrow> f = AssertFailed | Inr w' \<Rightarrow> machine_ok w'"
  by (rule dispatch_ends [OF holds_init_world [OF bare_env_ok]]) simp

end
