(* ===== verification/Gcf_Lines.thy ===== *)
theory Gcf_Lines
  imports Gcf_Run
begin

text \<open>
  Properties of the interactive input: the editor refines a string with a cursor, commands are
  read back as they are printed, and the two limits of the input line.
\<close>

section \<open>The editor\<close>

text \<open>C17: The line editor refines editing an abstract string at a cursor: any sequence of keys that
  leaves the line below 1023 characters succeeds, and the line and the cursor it leaves are those the
  abstract editor computes.\<close>

theorem editor_refines:
  assumes "input_ok u" and "uiInputSize u + int (length ks) \<le> 1023"
  shows "\<exists>u'. block (map edit ks) u = Inr u' \<and> input_ok u' \<and> line_of u' = foldl (\<lambda>l k. line_edit k l) (line_of u) ks"
  using assms
proof (induction ks arbitrary: u)
  case (Cons k ks)
  from Cons.prems have "uiInputSize u < 1023 \<or> (\<forall>c. k \<noteq> KeyChar c)" by simp
  from edit_line [OF Cons.prems(1) this] obtain u1 where u1: "edit k u = Inr u1" "input_ok u1"
    "line_of u1 = line_edit k (line_of u)" "uiInputSize u1 \<le> uiInputSize u + 1" by blast
  with Cons.prems Cons.IH [of u1] show ?case by simp
qed simp

theorem editor_refines_witness:
  "\<exists>u'. block (map edit [KeyChar 0x61, KeyChar 0x63, KeyLeft, KeyChar 0x62]) (ui zero_gcf) = Inr u' \<and> line_of u' = ([0x61, 0x62, 0x63], 2)"
proof -
  have "input_ok (ui zero_gcf)" "uiInputSize (ui zero_gcf) + 4 \<le> 1023" "line_of (ui zero_gcf) = ([], 0)"
    by (simp_all add: zero_gcf_def input_ok_def line_of_def)
  with editor_refines [of "ui zero_gcf" "[KeyChar 0x61, KeyChar 0x63, KeyLeft, KeyChar 0x62]"] show ?thesis by auto
qed

text \<open>C19: Typing is in bounds: with at most 379 characters in the line, any key keeps the invariant of the
  machine (or an \<open>Assert\<close> fails while a command is sent); no array is left and nothing hangs.\<close>

theorem keyboard_in_bounds:
  assumes "machine_ok w" and "uiInputSize (ui (gcf w)) \<le> 379"
  shows "case GCF_KeyboardInput (GCF_HandleEvent 12) cp w of Inl f \<Rightarrow> f = AssertFailed | Inr w' \<Rightarrow> machine_ok w'"
  using machine.KeyboardInput_keeps [OF TrueI assms(1), of "{AssertFailed}" cp] assms(2) by (simp split: sum.splits)

theorem keyboard_in_bounds_witness:
  "case GCF_KeyboardInput (GCF_HandleEvent 12) 0x61 (init_world bare_env) of Inl f \<Rightarrow> f = AssertFailed | Inr w' \<Rightarrow> machine_ok w'"
  by (rule keyboard_in_bounds [OF holds_init_world [OF bare_env_ok]]) (simp add: init_world_def zero_gcf_def)

text \<open>The limit is real: a printable character typed at a full line of 1023 leaves the array.\<close>

lemma full_line_overruns:
  assumes "input_ok u" and "uiInputSize u = 1023" and "32 \<le> c" and "c \<le> 126"
  shows "edit (key_of c) u = Inl OutOfBounds"
proof -
  have "key_of c = KeyChar (of_nat c)" using assms(3,4) by (simp add: key_of_def)
  then show ?thesis using edit_full [OF assms(1,2)] by simp
qed

theorem full_line_overruns_witness:
  "edit (key_of 0x61) ((ui zero_gcf)\<lparr>uiInputSize := 1023, uiInputPos := 1023\<rparr>) = Inl OutOfBounds"
  by (rule full_line_overruns) (simp_all add: zero_gcf_def input_ok_def)

text \<open>C20: Enter on a long line hangs: with 380 or more characters in the line and a window wider than
  three columns, the line does not fit the buffer it is echoed through, so nothing is printed, and the
  loop that pads the echo to the width of the window never ends.\<close>

theorem long_line_hangs:
  assumes "machine_ok w" and "uiInputSize (ui (gcf w)) \<noteq> 0" and "c_string (uiInputLine (ui (gcf w))) = Inr line"
    and "380 \<le> length line" and "3 < unat (fst (os_winsize (env w) (tick w)))"
  shows "GCF_KeyboardInput he 0x0A w = Inl Diverges"
proof -
  have ok: "ui_ok (ui (gcf w))" "input_ok (ui (gcf w))" using assms(1) by (simp_all add: holds_def core_ok_def)
  define w1 where "w1 = w\<lparr>tick := tick w + 1\<rparr>"
  define n where "n = min (unat (fst (os_winsize (env w) (tick w)))) 382"
  have n: "3 < n" using assms(5) by (simp add: n_def)
  let ?ops = "[U_sstream_put_str (0x0A # bytes ''> ''), U_sstream_put_str line, pad_to n, put_line '''']"
  obtain u1 where u1: "UI_StringStream w1 = Inr (w1\<lparr>gcf := (gcf w1)\<lparr>ui := u1\<rparr>\<rparr>)"
      "lbuf 384 0 (uiStringStream u1)" "ss_status (uiStringStream u1) = U_SSTREAM_OK"
    using StringStream_eq [of w1] ok by (auto simp: w1_def)
  define ss where "ss = uiStringStream u1"
  define ss1 where "ss1 = ss_write (0x0A # bytes ''> '') ss"
  have ss: "ss_ok ss" "ss_len ss = 384" "ss_pos ss = 0" using u1(2) by (simp_all add: ss_def lbuf_def)
  have "U_sstream_put_str (0x0A # bytes ''> '') ss = Inr ss1"
    using put_str_eq [OF ss(1)] ss u1(3) by (simp add: ss_def ss1_def)
  moreover have ss1: "ss_ok ss1" "ss_len ss1 = 384" "ss_pos ss1 = 3"
    using ss_write_ok [OF ss(1), of "0x0A # bytes ''> ''"] ss by (simp_all add: ss1_def)
  moreover have "U_sstream_put_str line ss1 = Inr (ss_full ss1)"
    using put_str_eq [OF ss1(1)] ss1 assms(4) u1(3) by (simp add: ss1_def ss_def)
  moreover have "ss_ok (ss_full ss1)" using ss1(1) by (simp add: ss_ok_def ss_full_def)
  then have "pad_to n (ss_full ss1) = Inl Diverges"
    by (rule pad_diverges) (use ss1 n in \<open>simp_all add: ss_full_def\<close>)
  ultimately have "block ?ops ss = Inl Diverges" by simp
  then have "print_line ?ops w1 = Inl Diverges"
    using u1(1) by (simp add: print_line_def on_ss_def zoom_def ss_def)
  then show ?thesis
    using assms(2,3) ok(2)
    by (simp add: GCF_KeyboardInput_def key_of_def GCF_ProcessInput_def gget_def reads_def callv_def UI_GetWinSize_def os_def
        attempt_def w1_def n_def input_ok_def)
qed

definition long_line :: world where
  "long_line = (init_world bare_env)\<lparr>gcf := zero_gcf\<lparr>ui := (ui zero_gcf)\<lparr>uiInputSize := 380, uiInputPos := 380,
     uiInputLine := replicate 380 0x61 @ replicate 644 0\<rparr>\<rparr>\<rparr>"

theorem long_line_hangs_witness: "GCF_KeyboardInput (GCF_HandleEvent 12) 0x0A long_line = Inl Diverges"
proof (rule long_line_hangs)
  show "machine_ok long_line"
    using holds_init_world [OF bare_env_ok]
    by (simp add: long_line_def holds_def core_ok_def init_world_def input_ok_def ui_ok_def nth_append)
  show "c_string (uiInputLine (ui (gcf long_line))) = Inr (replicate 380 0x61)"
    by (simp add: long_line_def c_string_def takeWhile_append)
qed (simp_all add: long_line_def init_world_def bare_env_def)

section \<open>Commands\<close>

text \<open>
  What a read command looks like: its name, the id in decimal and, if there is one, a payload in
  hexadecimal, with capital or with small letters.
\<close>

definition typed_digit :: "bool \<Rightarrow> nat \<Rightarrow> byte" where
  "typed_digit up d = bytes (if up then ''0123456789ABCDEF'' else ''0123456789abcdef'') ! d"

definition typed_byte :: "bool \<Rightarrow> byte \<Rightarrow> byte list" where
  "typed_byte up b = [typed_digit up (unat b div 16), typed_digit up (unat b mod 16)]"

definition typed_payload :: "bool \<Rightarrow> byte list option \<Rightarrow> byte list" where
  "typed_payload up arg = (case arg of None \<Rightarrow> [] | Some bs \<Rightarrow> bytes '' 0x'' @ concat (map (typed_byte up) bs))"

definition read_line :: "string \<Rightarrow> int \<Rightarrow> bool \<Rightarrow> byte list option \<Rightarrow> byte list" where
  "read_line name n up arg = bytes name @ 0x20 # long_text n @ typed_payload up arg"

lemma hex_value_typed: "n < 16 \<Longrightarrow> hex_value (typed_digit up n) = Some n"
proof -
  assume "n < 16"
  then have "n \<in> {0, 1, 2, 3, 4, 5, 6, 7, 8, 9, 10, 11, 12, 13, 14, 15}" by (simp, arith)
  then show ?thesis by (cases up) (auto simp: hex_value_def typed_digit_def bytes_def)
qed

lemma typed_nibbles: "push_bit 4 (of_nat (unat b div 16)) + of_nat (unat b mod 16) = (b :: byte)"
proof -
  have "push_bit 4 (of_nat h) + of_nat l = (of_nat (16 * h + l) :: byte)" for h l by (simp add: push_bit_eq_mult)
  from this [of "unat b div 16" "unat b mod 16"] show ?thesis by (simp only: mult_div_mod_eq) simp
qed

lemma length_typed: "length (concat (map (typed_byte up) bs)) = 2 * length bs"
  by (induction bs) (simp_all add: typed_byte_def)

lemma get_hexbyte_eq:
  assumes "ss_status ss = U_SSTREAM_OK" and "drop (ss_pos ss) (ss_str ss) = typed_byte up b @ rest" and "ss_pos ss + 2 \<le> ss_len ss"
  shows "GCF_sstream_get_hexbyte ss = Inr (Some b, ss\<lparr>ss_pos := ss_pos ss + 2\<rparr>)"
proof -
  have d: "ss_pos ss + 1 < length (ss_str ss)" "ss_str ss ! ss_pos ss = typed_digit up (unat b div 16)"
    "ss_str ss ! (ss_pos ss + 1) = typed_digit up (unat b mod 16)"
    using arg_cong [OF assms(2), of length] arg_cong [OF assms(2), of "\<lambda>l. l ! 0"] arg_cong [OF assms(2), of "\<lambda>l. l ! 1"]
    by (auto simp: typed_byte_def)
  have "unat b div 16 < 16" using unsigned_less [of b, where ?'a = nat] by (simp add: less_mult_imp_div_less)
  then show ?thesis
    using assms(1,3) d by (simp add: GCF_sstream_get_hexbyte_def hex_value_typed typed_nibbles)
qed

lemma hex_args_eq:
  assumes "ss_status ss = U_SSTREAM_OK" and "drop (ss_pos ss) (ss_str ss) = concat (map (typed_byte up) bs) @ rest"
    and "ss_len ss = ss_pos ss + 2 * length bs" and "length bs \<le> n"
  shows "hex_args n ss = Inr bs"
  using assms
proof (induction bs arbitrary: n ss)
  case Nil
  then show ?case by (cases n) (simp_all add: GCF_sstream_get_hexbyte_def)
next
  case (Cons b bs)
  then obtain m where n: "n = Suc m" by (cases n) auto
  have g: "GCF_sstream_get_hexbyte ss = Inr (Some b, ss\<lparr>ss_pos := ss_pos ss + 2\<rparr>)"
    using Cons.prems by (intro get_hexbyte_eq [where rest = "concat (map (typed_byte up) bs) @ rest"]) simp_all
  have "drop (ss_pos ss + 2) (ss_str ss) = concat (map (typed_byte up) bs) @ rest"
    using arg_cong [OF Cons.prems(2), of "drop 2"] by (simp add: add.commute typed_byte_def [of up b])
  then have "hex_args m (ss\<lparr>ss_pos := ss_pos ss + 2\<rparr>) = Inr bs"
    using Cons.prems n by (intro Cons.IH) simp_all
  then show ?case by (simp add: n g)
qed

lemma long_text_first: "\<exists>c cs. long_text n = c # cs \<and> (c = 0x2D \<or> is_digit c)"
proof (cases "n < 0")
  case False
  obtain c cs where c: "rev (long_digits n) = c # cs" by (cases "rev (long_digits n)") auto
  then have "c \<in> set (long_digits n)" by (metis list.set_intros(1) set_rev)
  then have "is_digit c" using long_digits_value by blast
  then show ?thesis using False c by (simp add: long_text_def)
qed (simp add: long_text_def)

lemma skip_one:
  assumes "drop (ss_pos ss) (ss_str ss) = 0x20 # c # rest" and "ss_pos ss + 1 < ss_len ss" and "c \<notin> {0x20, 0x09, 0x0A, 0x0D}"
  shows "U_sstream_skip_whitespace ss = Inr (ss\<lparr>ss_pos := ss_pos ss + 1\<rparr>)"
proof -
  have "ss_pos ss + 1 < length (ss_str ss)" "ss_str ss ! ss_pos ss = 0x20" "ss_str ss ! (ss_pos ss + 1) = c"
    using arg_cong [OF assms(1), of length] arg_cong [OF assms(1), of "\<lambda>l. l ! 0"] arg_cong [OF assms(1), of "\<lambda>l. l ! 1"] by auto
  with assms(2,3) show ?thesis
    by (subst U_sstream_skip_whitespace.simps, simp, subst U_sstream_skip_whitespace.simps, simp)
qed

text \<open>The first blank of a line ends its first word.\<close>

lemma find_blank:
  assumes "ss_str ss = word @ 0x20 # others" and "0x20 \<notin> set word" and "ss_pos ss = 0"
    and "length word < ss_len ss" and "ss_len ss \<le> length (ss_str ss)"
  shows "U_sstream_find (bytes '' '') ss = Inr (True, ss\<lparr>ss_pos := length word\<rparr>)"
proof -
  have blank: "occurs_at (ss_str ss) (ss_len ss) [0x20] p \<longleftrightarrow> p < ss_len ss \<and> ss_str ss ! p = 0x20" for p
    using assms(5) by (cases "drop p (ss_str ss)") (auto simp: occurs_at_def nth_via_drop)
  have here: "occurs_at (ss_str ss) (ss_len ss) [0x20] (length word)" unfolding blank using assms(1,4) by simp
  have before: "\<not> occurs_at (ss_str ss) (ss_len ss) [0x20] p" if "p < length word" for p
  proof -
    have "ss_str ss ! p \<in> set word" using that by (simp add: assms(1) nth_append)
    with assms(2) show ?thesis unfolding blank by metis
  qed
  obtain q where q: "find_loop (ss_str ss) (ss_len ss) [0x20] 0 = Inr (Some q)" "occurs_at (ss_str ss) (ss_len ss) [0x20] q"
      "\<forall>p. 0 \<le> p \<and> p < q \<longrightarrow> \<not> occurs_at (ss_str ss) (ss_len ss) [0x20] p"
    using find_loop_spec [OF assms(5), of "[0x20]" 0] here by blast
  have "q = length word" using q(2,3) here before [of q] by (metis linorder_neqE_nat zero_le)
  with q(1) assms(3) show ?thesis by (simp add: U_sstream_find_def bytes_def)
qed

text \<open>What follows the first word of a read command, and how it is understood.\<close>

lemma read_command_eq:
  assumes find: "U_sstream_find (bytes '' '') rs = Inr (True, rs\<lparr>ss_pos := p\<rparr>)"
    and line: "drop p (ss_str rs) = 0x20 # long_text n @ typed_payload up arg @ rest"
    and N: "ss_len rs = p + 1 + length (long_text n) + length (typed_payload up arg)" "ss_len rs < 2 ^ 32"
    and ok: "ss_status rs = U_SSTREAM_OK"
    and n: "L \<in> {32, 64}" "- (2 ^ (L - 1)) < n" "n \<le> 255" and arg: "\<And>bs. arg = Some bs \<Longrightarrow> length bs \<le> 32"
  shows "read_command L rs = Inr (IRead n arg)"
proof -
  define m where "m = length (long_text n)"
  define tail where "tail = typed_payload up arg"
  define rs3 where "rs3 = rs\<lparr>ss_pos := p + 1 + m\<rparr>"
  note N' = N [folded m_def tail_def]
  obtain c cs where c: "long_text n = c # cs" "c = 0x2D \<or> is_digit c" using long_text_first by blast
  have ascii: "c \<notin> {0x20, 0x09, 0x0A, 0x0D}" using c(2) by (auto simp: is_digit_def)
  have len: "ss_len rs \<le> length (ss_str rs)"
    using arg_cong [OF line, of length] N by simp
  have skip: "U_sstream_skip_whitespace (rs\<lparr>ss_pos := p\<rparr>) = Inr (rs\<lparr>ss_pos := p + 1\<rparr>)"
    using skip_one [of "rs\<lparr>ss_pos := p\<rparr>", OF _ _ ascii] line N by (simp add: c)
  have d1: "drop (p + 1) (ss_str rs) = long_text n @ tail @ rest"
    using arg_cong [OF line, of tl] by (simp add: tl_drop tail_def drop_Suc [symmetric] flip: drop_Suc)
  have d2: "drop (p + 1 + m) (ss_str rs) = tail @ rest"
    using arg_cong [OF d1, of "drop m"] by (simp add: m_def add.commute)
  have stop: "length tail = 0 \<or> tail @ rest \<noteq> [] \<and> \<not> is_digit (hd (tail @ rest))"
    by (cases arg) (simp_all add: tail_def typed_payload_def bytes_def is_digit_def)
  have "n < 2 ^ (L - 1)" using n by auto
  then have "U_strtol L (drop (p + 1) (ss_str rs)) (m + length tail) = Inr (n, m, 0)"
    unfolding d1 m_def using n stop by (intro strtol_number) auto
  moreover have "m \<noteq> 0" by (simp add: m_def c)
  ultimately have num: "U_sstream_get_long L (rs\<lparr>ss_pos := p + 1\<rparr>) = Inr (n, rs3)"
    using N' by (simp add: U_sstream_get_long_def rs3_def Let_def)
  have rs3: "ss_status rs3 = U_SSTREAM_OK" using ok by (simp add: rs3_def)
  show ?thesis
  proof (cases arg)
    case None
    then have tail: "tail = []" by (simp add: tail_def typed_payload_def)
    have "U_sstream_skip_whitespace rs3 = Inr rs3"
      using N' tail by (subst U_sstream_skip_whitespace.simps) (simp add: rs3_def)
    moreover have "U_sstream_starts_with (bytes ''0x'') rs3 = Inr False"
      using N' tail len by (subst starts_with_eq) (simp_all add: rs3_def bytes_def)
    ultimately show ?thesis
      using n(3) rs3 by (simp add: read_command_def find skip num [simplified] None)
  next
    case (Some bs)
    define hex where "hex = concat (map (typed_byte up) bs)"
    have tail: "tail = 0x20 # 0x30 # 0x78 # hex" by (simp add: tail_def typed_payload_def Some hex_def bytes_def)
    have lt: "length tail = 3 + 2 * length bs" by (simp add: tail hex_def length_typed)
    define rs4 where "rs4 = rs\<lparr>ss_pos := p + 2 + m\<rparr>"
    have skip2: "U_sstream_skip_whitespace rs3 = Inr rs4"
      using skip_one [of rs3 "0x30" "0x78 # hex @ rest"] d2 N' lt by (simp add: rs3_def rs4_def tail)
    have d3: "drop (p + 2 + m) (ss_str rs) = 0x30 # 0x78 # hex @ rest"
      using arg_cong [OF d2, of "drop 1"] by (simp add: tail add.commute)
    have d4: "drop (p + 4 + m) (ss_str rs) = hex @ rest"
      using arg_cong [OF d2, of "drop 3"] by (simp add: tail ac_simps)
    have prefix: "U_sstream_starts_with (bytes ''0x'') rs4 = Inr True"
      using N' lt len d3 by (subst starts_with_eq) (simp_all add: rs4_def bytes_def)
    have "U_sstream_seek (U_sstream_pos rs4 + 2) rs4 = rs\<lparr>ss_pos := p + 4 + m\<rparr>"
      using N' lt by (simp add: rs4_def U_sstream_seek_def U_sstream_pos_def)
    moreover have "hex_args 32 (rs\<lparr>ss_pos := p + 4 + m\<rparr>) = Inr bs"
      by (rule hex_args_eq [where rest = rest and up = up]) (use d4 N' lt arg [OF Some] ok in \<open>simp_all add: hex_def\<close>)
    ultimately have args: "hex_args 32 (U_sstream_seek (U_sstream_pos rs4 + 2) rs4) = Inr bs" by simp
    show ?thesis
      using n(3) rs3 by (simp add: read_command_def find skip num [simplified] skip2 prefix args [simplified] Some)
  qed
qed

text \<open>C18: The command interpreter reads back what a read command is made of: \<open>rp\<close> or \<open>read\<close>, a blank, the
  id in decimal and, if there is a payload, \<open>0x\<close> and its bytes in hexadecimal, with capital or small
  letters, is understood as that id with that payload or with none. The ids are those up to 255; no
  check refuses a negative one, and they too are read back.\<close>

theorem command_round_trip:
  assumes "name \<in> {''rp'', ''read''}" and "L \<in> {32, 64}" and "- (2 ^ (L - 1)) < n" and "n \<le> 255"
    and "\<And>bs. arg = Some bs \<Longrightarrow> length bs \<le> 32"
  shows "parse_input L (read_line name n up arg @ rest) (length (read_line name n up arg)) = Inr (IRead n arg)"
proof -
  define buf where "buf = read_line name n up arg @ rest"
  define N where "N = length (read_line name n up arg)"
  define rs where "rs = U_sstream_init (Some buf) N"
  define tail where "tail = typed_payload up arg"
  have N: "N = length name + 1 + length (long_text n) + length tail" "N \<le> length buf"
    by (simp_all add: N_def buf_def read_line_def tail_def)
  have "length tail \<le> 67" using assms(5) by (cases arg) (simp_all add: tail_def typed_payload_def length_typed)
  moreover have "length (long_text n) \<le> 21" using length_long_text [of n] assms(2-4) by auto
  ultimately have small: "N < 2 ^ 32" using N(1) assms(1) by auto
  have rs: "ss_str rs = buf" "ss_len rs = N" "ss_pos rs = 0" "ss_status rs = U_SSTREAM_OK"
    using N(1) by (simp_all add: rs_def U_sstream_init_def)
  have buf: "buf = bytes name @ 0x20 # long_text n @ tail @ rest" by (simp add: buf_def read_line_def tail_def)
  have starts: "U_sstream_starts_with (bytes ''help'') rs = Inr False" "U_sstream_starts_with (bytes ''read '') rs = Inr (name = ''read'')"
    "U_sstream_starts_with (bytes ''rp '') rs = Inr (name = ''rp'')"
    using N small assms(1) by (auto simp: starts_with_eq rs) (auto simp: buf bytes_def)
  have find: "U_sstream_find (bytes '' '') rs = Inr (True, rs\<lparr>ss_pos := length name\<rparr>)"
    using find_blank [of rs "bytes name"] N assms(1) by (auto simp: rs buf bytes_def)
  have "read_command L rs = Inr (IRead n arg)"
    using N small assms(2-5) by (intro read_command_eq [OF find, where up = up and rest = rest]) (simp_all add: rs buf tail_def)
  then show ?thesis
    using starts assms(1) by (auto simp: parse_input_def Let_def simp flip: N_def buf_def rs_def)
qed

theorem command_round_trip_witness:
  "parse_input 64 (read_line ''rp'' 38 False (Some [0xC0, 1]) @ [0, 7]) (length (read_line ''rp'' 38 False (Some [0xC0, 1])))
    = Inr (IRead 38 (Some [0xC0, 1]))"
  by (rule command_round_trip) simp_all

end
