(* ===== verification/Gcf_Codecs.thy ===== *)
theory Gcf_Codecs
  imports Gcf_Command
begin

text \<open>
  Properties of the helpers the protocol and the user interface are built on: fields and streams
  are read back as they were written, numbers as they were printed, searching finds the first
  occurrence, the checksum sees every changed byte; and one number that is read wrongly.
\<close>

section \<open>Fields and streams\<close>

text \<open>A 32-bit field that was stored in a buffer is read back from its position, modulo its width;
  the position behind it is the same for writer and reader, and no other byte of the buffer changed.\<close>

lemma field_round_trip:
  assumes "put_u32_le p n buf = Inr (q, buf')"
  shows "get_u32_le buf' p = Inr (n mod 2 ^ 32, q) \<and> (\<forall>i. (i < p \<or> q \<le> i) \<and> i < length buf \<longrightarrow> buf' ! i = buf ! i)"
  using le32.put_get [OF assms] le32.put_frame [OF assms] by blast

theorem field_round_trip_witness: "get_u32_le [9, 0xEF, 0xBE, 0xAD, 0xDE, 8] 1 = Inr (0xDEADBEEF, 5)"
  using field_round_trip [of 1 "0xDEADBEEF" "[9, 1, 2, 3, 4, 8]" 5 "[9, 0xEF, 0xBE, 0xAD, 0xDE, 8]"]
  by (simp add: le32.put_spec overwrite_def) (simp add: le32_def drop_bit_eq_div)

text \<open>The values a stream can carry, with their operations.\<close>

datatype stream_value = V8 byte | V16 "16 word" | V32 nat | V32be nat

primrec put_value :: "stream_value \<Rightarrow> U_BStream stmt" where
  "put_value (V8 b) = U_bstream_put_u8 b"
| "put_value (V16 h) = U_bstream_put_u16_le h"
| "put_value (V32 n) = U_bstream_put_u32_le n"
| "put_value (V32be n) = U_bstream_put_u32_be n"

primrec get_value :: "stream_value \<Rightarrow> (U_BStream, nat) op" where
  "get_value (V8 b) = U_bstream_get_u8"
| "get_value (V16 h) = U_bstream_get_u16_le"
| "get_value (V32 n) = U_bstream_get_u32_le"
| "get_value (V32be n) = U_bstream_get_u32_be"

primrec value_bytes :: "stream_value \<Rightarrow> byte list" where
  "value_bytes (V8 b) = [b]"
| "value_bytes (V16 h) = le16 h"
| "value_bytes (V32 n) = le32 n"
| "value_bytes (V32be n) = rev (le32 n)"

primrec value_nat :: "stream_value \<Rightarrow> nat" where
  "value_nat (V8 b) = unat b"
| "value_nat (V16 h) = unat h"
| "value_nat (V32 n) = n mod 2 ^ 32"
| "value_nat (V32be n) = n mod 2 ^ 32"

lemma put_value_appends:
  assumes "bs_ok bs" and "bs_status bs = U_BSTREAM_OK" and "bs_pos bs + length (value_bytes v) \<le> bs_size bs"
  shows "\<exists>bs'. put_value v bs = Inr bs' \<and> bs_ok bs' \<and> bs_written bs' = bs_written bs @ value_bytes v
    \<and> bs_status bs' = U_BSTREAM_OK \<and> bs_size bs' = bs_size bs"
  using assms by (cases v) (simp_all add: w8.put_appends w16.put_appends w32.put_appends w32be.put_appends)

lemma put_values:
  assumes "bs_ok bs" and "bs_status bs = U_BSTREAM_OK" and "bs_pos bs + length (concat (map value_bytes vs)) \<le> bs_size bs"
  shows "\<exists>bs'. block (map put_value vs) bs = Inr bs' \<and> bs_ok bs' \<and> bs_written bs' = bs_written bs @ concat (map value_bytes vs)
    \<and> bs_status bs' = U_BSTREAM_OK \<and> bs_size bs' = bs_size bs"
  using assms
proof (induction vs arbitrary: bs)
  case (Cons v vs)
  obtain bs1 where b: "put_value v bs = Inr bs1" "bs_ok bs1" "bs_written bs1 = bs_written bs @ value_bytes v"
      "bs_status bs1 = U_BSTREAM_OK" "bs_size bs1 = bs_size bs"
    using put_value_appends [of bs v] Cons.prems by auto
  have "bs_pos bs1 = bs_pos bs + length (value_bytes v)"
    using written_pos [OF b(2)] written_pos [OF Cons.prems(1)] b(3) by (metis length_append)
  with Cons.IH [OF b(2,4)] Cons.prems(3) b show ?case by auto
qed simp

lemma unat_le16: "bs_dec [1, 0] (le16 h) = unat h"
proof -
  have "unat h < 2 ^ 16" using unsigned_less [of h] by simp
  then show ?thesis
    by (intro bit_eqI) (auto simp: bs_dec_def le16_def bit_simps nth_append dest: bit_imp_le_length)
qed

lemma get_value_left:
  assumes "bs_ok bs" and "bs_status bs = U_BSTREAM_OK" and "bs_left bs = value_bytes v @ rest"
  shows "\<exists>bs'. get_value v bs = Inr (value_nat v, bs') \<and> bs_left bs' = rest \<and> bs_ok bs' \<and> bs_status bs' = U_BSTREAM_OK"
proof (cases v)
  case (V8 b)
  with assms r8.get_left [OF assms(1,2)] show ?thesis by (simp add: bs_dec_u8)
next
  case (V16 h)
  with assms r16.get_left [OF assms(1,2)] show ?thesis by (simp add: unat_le16 [simplified])
next
  case (V32 n)
  with assms r32.get_left [OF assms(1,2)] show ?thesis by (simp add: bs_dec_le32 [simplified] un_le32_le32)
next
  case (V32be n)
  with assms r32be.get_left [OF assms(1,2)] show ?thesis by (simp add: bs_dec_be32 [simplified] un_le32_le32)
qed

lemma get_values:
  assumes "bs_ok bs" and "bs_status bs = U_BSTREAM_OK" and "bs_left bs = concat (map value_bytes vs) @ rest"
  shows "\<exists>bs'. bs_reads (map get_value vs) bs = Inr (map value_nat vs, bs') \<and> bs_left bs' = rest \<and> bs_status bs' = U_BSTREAM_OK"
  using assms
proof (induction vs arbitrary: bs)
  case (Cons v vs)
  from get_value_left [OF Cons.prems(1,2), of v "concat (map value_bytes vs) @ rest"] Cons.prems(3) obtain bs1 where
    "get_value v bs = Inr (value_nat v, bs1)" "bs_left bs1 = concat (map value_bytes vs) @ rest" "bs_ok bs1"
    "bs_status bs1 = U_BSTREAM_OK" by auto
  moreover obtain bs' where "bs_reads (map get_value vs) bs1 = Inr (map value_nat vs, bs')" "bs_left bs' = rest"
    "bs_status bs' = U_BSTREAM_OK" using Cons.IH [of bs1] calculation by blast
  ultimately show ?case by (simp add: bs_reads.simps)
qed (simp add: bs_reads.simps)

text \<open>C37: A byte stream over a buffer of \<open>n\<close> bytes gives back every sequence of values that fits it, in
  order, with the readers that belong to the writers, and its status stays OK.\<close>

theorem stream_round_trip:
  assumes "length (concat (map value_bytes vs)) \<le> n"
  shows "\<exists>ws rs. block (map put_value vs) (U_bstream_init (Some (replicate n 0)) n) = Inr ws \<and> bs_status ws = U_BSTREAM_OK
    \<and> bs_reads (map get_value vs) (U_bstream_init (bs_data ws) n) = Inr (map value_nat vs, rs) \<and> bs_status rs = U_BSTREAM_OK"
proof -
  obtain ws where ws: "block (map put_value vs) (U_bstream_init (Some (replicate n 0)) n) = Inr ws" "bs_ok ws"
      "bs_written ws = concat (map value_bytes vs)" "bs_status ws = U_BSTREAM_OK" "bs_size ws = n"
    using put_values [of "U_bstream_init (Some (replicate n 0)) n" vs] bs_ok_init [of n "replicate n 0"] assms by auto
  obtain d where d: "bs_data ws = Some d" "n \<le> length d" "bs_pos ws \<le> n"
    using ws(2,5) by (auto simp: bs_ok_def split: option.splits)
  have "bs_left (U_bstream_init (Some d) n) = take n d" by (simp add: bs_left_def bs_buf_def)
  also have "\<dots> = take (bs_pos ws) d @ take (n - bs_pos ws) (drop (bs_pos ws) d)"
    using d(3) by (metis le_add_diff_inverse take_add)
  finally have "bs_left (U_bstream_init (Some d) n) = concat (map value_bytes vs) @ take (n - bs_pos ws) (drop (bs_pos ws) d)"
    using ws(3) d(1) by (simp add: bs_written_def bs_buf_def)
  from get_values [OF _ _ this] bs_ok_init [OF d(2)] ws d(1) show ?thesis by auto
qed

theorem stream_round_trip_witness:
  "\<exists>ws rs. block (map put_value [V8 7, V32 0xCAFEFEED, V16 513]) (U_bstream_init (Some (replicate 8 0)) 8) = Inr ws
    \<and> bs_reads (map get_value [V8 7, V32 0xCAFEFEED, V16 513]) (U_bstream_init (bs_data ws) 8) = Inr ([7, 0xCAFEFEED, 513], rs)"
  using stream_round_trip [of "[V8 7, V32 0xCAFEFEED, V16 513]" 8] by auto

section \<open>Numbers and text\<close>

text \<open>C38: \<open>U_strtol\<close> reads back what \<open>U_sstream_put_long\<close> prints, for every number that both accept: the
  range of \<open>long\<close>, in 32 and in 64 bits, without its least number, which the comment of
  \<open>U_sstream_put_long\<close> excludes and whose negation in \<open>U_strtol\<close> C leaves undefined.\<close>

theorem number_round_trip:
  assumes "ss_ok ss" and "ss_status ss = U_SSTREAM_OK" and "ss_pos ss + 21 < ss_len ss" and "L \<in> {32, 64}"
    and "- (2 ^ (L - 1)) < n" and "n < 2 ^ (L - 1)"
  shows "\<exists>ss'. U_sstream_put_long n ss = Inr ss'
    \<and> U_strtol L (drop (ss_pos ss) (ss_str ss')) (ss_pos ss' - ss_pos ss) = Inr (n, ss_pos ss' - ss_pos ss, 0)"
proof -
  have "\<bar>n\<bar> < 2 ^ 64" using assms(4-6) by auto
  then have p: "U_sstream_put_long n ss = Inr (ss_write (long_text n) ss)" "length (long_text n) \<le> 21"
    using put_long_eq [OF assms(1)] assms(2,3) by (simp_all add: length_long_text)
  have "drop (ss_pos ss) (ss_str (ss_write (long_text n) ss))
      = long_text n @ 0 # drop (ss_pos ss + length (long_text n) + 1) (ss_str ss)"
    using assms(1,3) p(2) by (simp add: ss_write_def overwrite_def ss_ok_def)
  then show ?thesis
    using strtol_number [of L n 0] assms(4-6) p(1) by auto
qed

theorem number_round_trip_witness:
  "\<exists>ss'. U_sstream_put_long (- 120) (U_sstream_init (Some (replicate 40 0)) 40) = Inr ss'
    \<and> U_strtol 64 (drop 0 (ss_str ss')) (ss_pos ss' - 0) = Inr (- 120, ss_pos ss' - 0, 0)"
  using number_round_trip [of "U_sstream_init (Some (replicate 40 0)) 40" 64 "- 120"]
  by (simp add: U_sstream_init_def ss_ok_def)

text \<open>The overflow check of \<open>U_strtol\<close> is not sound: on a 64-bit host it reads a number that is too
  big as another, positive number and reports no error.\<close>

lemma strtol_misses_overflow:
  "U_strtol 64 (bytes ''25000000000000000000'') 20 = Inr (6553255926290448384, 20, 0)"
proof -
  define ds :: "byte list" where "ds = [0x32, 0x35, 0x30, 0x30, 0x30, 0x30, 0x30, 0x30, 0x30, 0x30, 0x30, 0x30, 0x30, 0x30, 0x30, 0x30, 0x30, 0x30, 0x30]"
  have s: "bytes ''25000000000000000000'' = ds @ [0x30]" by (simp add: ds_def bytes_def)
  have d: "\<forall>c\<in>set ds. is_digit c" "foldl digit_step 0 ds = 2500000000000000000" "length ds = 19"
    by (simp_all add: ds_def is_digit_def digit_step_def)
  have "strtol_digits 64 (ds @ [0x30]) 0 20 0 0 = strtol_digits 64 [0x30] 19 1 2500000000000000000 0"
    using strtol_digits_run [of ds 0 64 "[0x30]" 0 1 0] d by simp
  also have "\<dots> = Inr (20, 6553255926290448384, 0)" by (simp add: Let_def)
  finally have "strtol_digits 64 (ds @ [0x30]) 0 20 0 0 = Inr (20, 6553255926290448384, 0)" .
  moreover have "skip_blanks (ds @ [0x30]) 20 = Inr (ds @ [0x30], 20)" "peek (ds @ [0x30]) 0 = Inr 0x32"
    by (simp_all add: ds_def skip_blanks_none)
  ultimately show ?thesis unfolding s by (simp add: U_strtol_def Let_def to_long_def)
qed

text \<open>\<open>U_sstream_find\<close> finds the first occurrence at or behind the position of the stream and moves
  there; when there is none it says so and leaves the stream as it was.\<close>

lemma find_first:
  assumes "ss_len ss \<le> length (ss_str ss)"
  shows "\<exists>found ss'. U_sstream_find s ss = Inr (found, ss') \<and>
    (if found then ss_pos ss \<le> ss_pos ss' \<and> ss' = ss\<lparr>ss_pos := ss_pos ss'\<rparr> \<and> occurs_at (ss_str ss) (ss_len ss) s (ss_pos ss')
         \<and> (\<forall>p. ss_pos ss \<le> p \<and> p < ss_pos ss' \<longrightarrow> \<not> occurs_at (ss_str ss) (ss_len ss) s p)
     else ss' = ss \<and> (\<forall>p\<ge>ss_pos ss. \<not> occurs_at (ss_str ss) (ss_len ss) s p))"
  using find_loop_spec [OF assms, of s "ss_pos ss"] by (auto simp: U_sstream_find_def)

theorem find_first_witness:
  "\<exists>found ss'. U_sstream_find [0x42, 0x6F] \<lparr>ss_str = [0x33, 0x20, 0x42, 0x6F, 0], ss_pos = 1, ss_len = 5, ss_status = U_SSTREAM_OK\<rparr>
      = Inr (found, ss') \<and>
    (if found then 1 \<le> ss_pos ss' \<and> ss' = \<lparr>ss_str = [0x33, 0x20, 0x42, 0x6F, 0], ss_pos = ss_pos ss', ss_len = 5, ss_status = U_SSTREAM_OK\<rparr>
         \<and> occurs_at [0x33, 0x20, 0x42, 0x6F, 0] 5 [0x42, 0x6F] (ss_pos ss')
         \<and> (\<forall>p. 1 \<le> p \<and> p < ss_pos ss' \<longrightarrow> \<not> occurs_at [0x33, 0x20, 0x42, 0x6F, 0] 5 [0x42, 0x6F] p)
     else ss' = \<lparr>ss_str = [0x33, 0x20, 0x42, 0x6F, 0], ss_pos = 1, ss_len = 5, ss_status = U_SSTREAM_OK\<rparr>
         \<and> (\<forall>p\<ge>1. \<not> occurs_at [0x33, 0x20, 0x42, 0x6F, 0] 5 [0x42, 0x6F] p))"
  using find_first [of "\<lparr>ss_str = [0x33, 0x20, 0x42, 0x6F, 0], ss_pos = 1, ss_len = 5, ss_status = U_SSTREAM_OK\<rparr>" "[0x42, 0x6F]"]
  by (simp cong: if_cong)

section \<open>The checksum\<close>

lemma crc_step_inj:
  "(if a AND 0x80 \<noteq> 0 then push_bit 1 a XOR 0x31 else push_bit 1 a)
    = (if b AND 0x80 \<noteq> 0 then push_bit 1 b XOR 0x31 else push_bit 1 b) \<Longrightarrow> a = (b :: byte)"
proof (rule bit_word_eqI)
  fix n
  assume eq: "(if a AND 0x80 \<noteq> 0 then push_bit 1 a XOR 0x31 else push_bit 1 a)
      = (if b AND 0x80 \<noteq> 0 then push_bit 1 b XOR 0x31 else push_bit 1 b)" and n: "n < LENGTH(8)"
  have msb: "c AND 0x80 \<noteq> 0 \<longleftrightarrow> bit c 7" for c :: byte
    by (simp add: bit_iff_and_push_bit_not_eq_0)
  have step: "bit (if c AND 0x80 \<noteq> 0 then push_bit 1 c XOR 0x31 else push_bit 1 c) k
      \<longleftrightarrow> (k \<noteq> 0 \<and> bit c (k - 1)) \<noteq> (bit c 7 \<and> bit (0x31 :: byte) k)" if "k < 8" for c :: byte and k
  proof -
    have "bit (push_bit 1 c) k \<longleftrightarrow> k \<noteq> 0 \<and> bit c (k - 1)"
      by (simp only: bit_push_bit_iff) (use that in auto)
    then show ?thesis unfolding msb by (auto simp: bit_xor_iff)
  qed
  have top: "bit a 7 = bit b 7"
    using arg_cong [OF eq, of "\<lambda>c. bit c 0"] by (simp add: step)
  show "bit a n = bit b n"
  proof (cases "n = 7")
    case False
    with n arg_cong [OF eq, of "\<lambda>c. bit c (Suc n)"] top show ?thesis by (simp add: step) blast
  qed (use top in simp)
qed

lemma crc8_bits_inj: "crc8_bits n a = crc8_bits n b \<Longrightarrow> a = b"
  by (induction n arbitrary: a b) (auto dest: crc_step_inj simp del: if_split_asm split del: if_split)

text \<open>The CRC-8 of a raw firmware file sees every change of a single byte, wherever it is.\<close>

lemma crc8_sees_byte:
  assumes "CRC8_Dallas crc (xs @ a # ys) = CRC8_Dallas crc (xs @ b # ys)"
  shows "a = b"
proof -
  have inj: "CRC8_Dallas c ys = CRC8_Dallas d ys \<Longrightarrow> c = d" for c d ys
  proof (induction ys arbitrary: c d)
    case (Cons y ys)
    then have "c XOR y = d XOR y" by (auto dest: crc8_bits_inj)
    then show ?case by (metis bit.xor_left_self xor.commute)
  qed simp
  have split: "CRC8_Dallas c (us @ vs) = CRC8_Dallas (CRC8_Dallas c us) vs" for c us vs
    by (induction us arbitrary: c) simp_all
  from assms have "crc8_bits 8 (CRC8_Dallas crc xs XOR a) = crc8_bits 8 (CRC8_Dallas crc xs XOR b)"
    by (simp add: split) (erule inj)
  then have "CRC8_Dallas crc xs XOR a = CRC8_Dallas crc xs XOR b" by (rule crc8_bits_inj)
  then show ?thesis by (metis bit.xor_left_self)
qed

theorem crc8_sees_byte_witness: "CRC8_Dallas 0 ([1, 2] @ 3 # [4]) \<noteq> CRC8_Dallas 0 ([1, 2] @ 5 # [4])"
  using crc8_sees_byte [of 0 "[1, 2]" 3 "[4]" 5] by auto

end
