(* ===== verification/Linux_Devices.thy ===== *)
theory Linux_Devices
  imports Gcf_Cmdline
begin

text \<open>
  The device enumeration behind \<open>PL_GetDevices\<close> on Linux: \<open>linux_get_usb_devices.c\<close>, which
  asks \<open>udevadm\<close> about every character device, falls back to the links of
  \<open>/dev/serial/by-id\<close> and, without any USB device, looks at \<open>/dev/serial0\<close>.

  What the C library and the kernel return is the record \<open>linux_sys\<close>. An array of devices is
  the list of the \<open>room\<close> elements from \<open>dev\<close> to \<open>end\<close>, a \<open>Device *\<close> an index into it.
\<close>

section \<open>What the system answers\<close>

text \<open>
  \<open>popen_version\<close> and \<open>popen_info\<close>: what a command prints, \<open>None\<close> where \<open>popen\<close> fails;
  \<open>dev_dir\<close>: the entries of \<open>/dev\<close> with \<open>d_type == DT_CHR\<close> and the name; \<open>stat_rdev\<close>:
  \<open>st_rdev\<close> of a path; \<open>lstat_serial0\<close>: whether \<open>/dev/serial0\<close> is a link;
  \<open>serial0_target\<close>: the whole target of that link.
\<close>

record linux_sys =
  popen_version :: "byte list option"
  dev_dir :: "(bool \<times> byte list) list option"
  stat_rdev :: "byte list \<Rightarrow> nat option"
  popen_info :: "byte list \<Rightarrow> byte list option"
  by_id_dir :: "byte list list option"
  real_path :: "byte list \<Rightarrow> byte list option"
  lstat_serial0 :: "bool option"
  serial0_target :: "byte list option"

section \<open>\<open>query_udevadm\<close>\<close>

text \<open>The output buffer of 16384 bytes: what \<open>fread\<close> stored and the NUL behind it.\<close>

definition read_output :: "byte list \<Rightarrow> byte list" where
  "read_output out = take 16383 out"

definition udevadm_version :: "nat \<Rightarrow> linux_sys \<Rightarrow> fault + int" where
  "udevadm_version L sys = (case popen_version sys of None \<Rightarrow> Inr 0
     | Some out \<Rightarrow> (let buf = read_output out; n = length buf in
         if n > 0 \<and> n < 10
         then andthen (U_sstream_get_long L (U_sstream_init (Some (buf @ [0])) n)) (\<lambda>(v, ss).
           Inr (if ss_status ss \<noteq> U_SSTREAM_OK then 0 else v))
         else Inr 0))"

text \<open>\<open>U_sstream_starts_with(&ss, KEY) && U_sstream_find(&ss, "=")\<close>\<close>

definition at_key :: "string \<Rightarrow> (U_SStream, bool) op" where
  "at_key key ss = andthen (U_sstream_starts_with (bytes key) ss) (\<lambda>b.
     if b then U_sstream_find (bytes ''='') ss else Inr (False, ss))"

definition alnum :: "byte \<Rightarrow> bool" where
  "alnum ch \<longleftrightarrow> (0x41 \<le> ch \<and> ch \<le> 0x5A) \<or> (0x61 \<le> ch \<and> ch \<le> 0x7A) \<or> (0x30 \<le> ch \<and> ch \<le> 0x39)"

text \<open>
  The two copy loops; \<open>keep\<close> are the characters they store, \<open>ignore\<close> those they step over, \<open>n\<close>
  is the size of the array. The result is \<open>i\<close> and the array.
\<close>

function copy_chars :: "(byte \<Rightarrow> bool) \<Rightarrow> (byte \<Rightarrow> bool) \<Rightarrow> nat \<Rightarrow> nat \<Rightarrow> byte list \<Rightarrow> (U_SStream, nat \<times> byte list) op" where
  "copy_chars keep ignore n i buf ss =
     (if ss_pos ss < ss_len ss \<and> i + 1 < n
      then andthen (U_sstream_peek_char ss) (\<lambda>ch.
        if keep ch
        then andthen (block [poke i ch, poke (i + 1) 0] buf) (\<lambda>buf'.
          copy_chars keep ignore n (i + 1) buf' (ss\<lparr>ss_pos := ss_pos ss + 1\<rparr>))
        else if ignore ch then copy_chars keep ignore n i buf (ss\<lparr>ss_pos := ss_pos ss + 1\<rparr>)
        else Inr ((i, buf), ss))
      else Inr ((i, buf), ss))"
  by pat_completeness auto
termination
  by (relation "measure (\<lambda>(keep, ignore, n, i, buf, ss). ss_len ss - ss_pos ss)") auto

declare copy_chars.simps [simp del]

definition udev_vendor :: "nat \<Rightarrow> U_SStream \<Rightarrow> fault + nat" where
  "udev_vendor v ss =
     andthen (U_sstream_starts_with (bytes ''1cf1'') ss) (\<lambda>b. if b then Inr 0x1CF1
     else andthen (U_sstream_starts_with (bytes ''0403'') ss) (\<lambda>b. if b then Inr 0x0403
     else andthen (U_sstream_starts_with (bytes ''1a86'') ss) (\<lambda>b. if b then Inr 0x1A86
     else andthen (U_sstream_starts_with (bytes ''303a'') ss) (\<lambda>b. if b then Inr 0x303A
     else Inr v))))"

definition model_baudrate :: "nat \<Rightarrow> Device \<Rightarrow> fault + Device" where
  "model_baudrate i d = (let s2 = U_sstream_init (Some (dev_name d)) i; fast = d\<lparr>dev_baudrate := PL_BAUDRATE_115200\<rparr> in
     andthen (U_sstream_starts_with (bytes ''ConBee_III'') s2) (\<lambda>b. if b then Inr fast
     else andthen (U_sstream_starts_with (bytes ''ConBee_II'') s2) (\<lambda>b. if b then Inr fast
     else andthen (U_sstream_starts_with (bytes ''USB_JTAG_serial_debug_unit'') s2) (\<lambda>b. if b then Inr fast
     else Inr d))))"

definition clear_first :: "byte list \<Rightarrow> fault + byte list" where
  "clear_first buf = poke 0 0 buf"

text \<open>The copies of the serial number and of the model name, from the character behind the \<open>=\<close>.\<close>

definition udev_serial :: "Device \<Rightarrow> (U_SStream, Device) op" where
  "udev_serial d ss = andthen (clear_first (dev_serial d)) (\<lambda>buf.
     andthen (copy_chars alnum (\<lambda>ch. ch = 0x3A) MAX_DEV_SERIALNR_LENGTH 0 buf ss) (\<lambda>((i, buf'), ss').
       Inr (d\<lparr>dev_serial := buf'\<rparr>, ss')))"

definition udev_model :: "Device \<Rightarrow> (U_SStream, Device) op" where
  "udev_model d ss = andthen (clear_first (dev_name d)) (\<lambda>buf.
     andthen (copy_chars (\<lambda>ch. ch = 0x20 \<or> ch = 0x5F \<or> alnum ch) (\<lambda>_. False) 32 0 buf ss) (\<lambda>((i, buf'), ss').
       andthen (model_baudrate i (d\<lparr>dev_name := buf'\<rparr>)) (\<lambda>d'. Inr (d', ss'))))"

text \<open>The body of the loop, behind \<open>ss.pos += 3\<close>.\<close>

definition udev_property :: "nat \<times> Device \<Rightarrow> (U_SStream, nat \<times> Device) op" where
  "udev_property = (\<lambda>(vendor, d) ss.
     andthen (at_key ''ID_USB_VENDOR_ID='' ss) (\<lambda>(b, ss). let ss1 = ss\<lparr>ss_pos := ss_pos ss + 1\<rparr> in
     if b then andthen (udev_vendor vendor ss1) (\<lambda>v. Inr ((v, d), ss1))
     else andthen (at_key ''ID_USB_SERIAL_SHORT='' ss) (\<lambda>(b, ss). let ss1 = ss\<lparr>ss_pos := ss_pos ss + 1\<rparr> in
     if b then andthen (udev_serial d ss1) (\<lambda>(d', ss'). Inr ((vendor, d'), ss'))
     else andthen (at_key ''ID_USB_MODEL='' ss) (\<lambda>(b, ss). let ss1 = ss\<lparr>ss_pos := ss_pos ss + 1\<rparr> in
     if b then andthen (udev_model d ss1) (\<lambda>(d', ss'). Inr ((vendor, d'), ss'))
     else Inr ((vendor, d), ss)))))"

text \<open>A parser only moves forward in its text.\<close>

definition moves :: "U_SStream \<Rightarrow> U_SStream \<Rightarrow> bool" where
  "moves ss ss' \<longleftrightarrow> ss_pos ss \<le> ss_pos ss' \<and> ss_len ss' = ss_len ss \<and> ss_str ss' = ss_str ss \<and> ss_status ss' = ss_status ss"

lemma find_loop_found: "find_loop buf len s pos = Inr (Some q) \<Longrightarrow> pos \<le> q \<and> q < len"
proof (induction buf len s pos rule: find_loop.induct)
  case (1 buf len s pos)
  from 1(2) show ?case
    by (simp add: find_loop.simps [of buf len s pos] split: if_splits sum.splits) (use 1(1) in force)
qed

lemma find_moves: "U_sstream_find s ss = Inr (b, ss') \<Longrightarrow> moves ss ss' \<and> (b \<longrightarrow> ss_pos ss' < ss_len ss)"
  by (auto simp: U_sstream_find_def moves_def split: sum.splits option.splits dest: find_loop_found)

lemma moves_refl [simp]: "moves ss ss"
  by (simp add: moves_def)

lemma moves_trans: "moves ss ss1 \<Longrightarrow> moves ss1 ss2 \<Longrightarrow> moves ss ss2"
  by (simp add: moves_def)

lemma moves_skip: "moves ss ss1 \<Longrightarrow> moves (ss1\<lparr>ss_pos := ss_pos ss1 + n\<rparr>) ss2 \<Longrightarrow> moves ss ss2"
  by (simp add: moves_def)

lemma at_key_moves: "at_key key ss = Inr (b, ss') \<Longrightarrow> moves ss ss'"
  by (auto simp: at_key_def andthen_Inr split: if_splits dest: find_moves)

lemma copy_chars_moves: "copy_chars keep ignore n i buf ss = Inr ((j, buf'), ss') \<Longrightarrow> moves ss ss'"
proof (induction keep ignore n i buf ss rule: copy_chars.induct)
  case (1 keep ignore n i buf ss)
  from 1(3) show ?case
    by (simp add: copy_chars.simps [of _ _ _ _ _ ss] andthen_Inr split: if_splits)
      (use 1(1,2) in \<open>fastforce simp: moves_def\<close>)+
qed

lemma udev_serial_moves: "udev_serial d ss = Inr (d', ss') \<Longrightarrow> moves ss ss'"
  by (auto simp: udev_serial_def andthen_Inr dest: copy_chars_moves)

lemma udev_model_moves: "udev_model d ss = Inr (d', ss') \<Longrightarrow> moves ss ss'"
  by (auto simp: udev_model_def andthen_Inr dest: copy_chars_moves)

lemma udev_property_moves: "udev_property r ss = Inr (r', ss') \<Longrightarrow> moves ss ss'"
  unfolding udev_property_def
  by (auto simp: andthen_Inr Let_def split: if_splits prod.splits dest!: at_key_moves udev_serial_moves udev_model_moves)
     (auto simp: moves_def)

text \<open>\<open>while (U_sstream_find(&ss, "E: ") && U_sstream_remaining(&ss) > 8)\<close>\<close>

function udev_properties :: "nat \<times> Device \<Rightarrow> U_SStream \<Rightarrow> fault + (nat \<times> Device)" where
  "udev_properties r ss =
     andthen (U_sstream_find (bytes ''E: '') ss) (\<lambda>(b, ss1). if b \<and> U_sstream_remaining ss1 > 8
       then andthen (udev_property r (ss1\<lparr>ss_pos := ss_pos ss1 + 3\<rparr>)) (\<lambda>(r', ss2). udev_properties r' ss2)
       else Inr r)"
  by pat_completeness auto
termination
  by (relation "measure (\<lambda>(r, ss). ss_len ss - ss_pos ss)")
     (auto simp: moves_def dest!: find_moves udev_property_moves intro!: diff_less_mono2)

declare udev_properties.simps [simp del]

text \<open>The path in the device, and the command; the stream of the command has 16384 bytes.\<close>

definition dev_path_stream :: "byte list \<Rightarrow> Device \<Rightarrow> fault + U_SStream" where
  "dev_path_stream name d = block [U_sstream_put_str (bytes ''/dev/''), U_sstream_put_str name]
     (U_sstream_init (Some (dev_path d)) MAX_DEV_PATH_LENGTH)"

definition udev_command :: "byte list \<Rightarrow> byte list" where
  "udev_command name = bytes ''udevadm info --name='' @ bytes ''/dev/'' @ (if 25 + length name + 1 < 16384 then name else [])"

text \<open>Behind the loop: the special vendors, and whether the entry counts.\<close>

definition udev_finish :: "nat \<times> Device \<Rightarrow> fault + (bool \<times> Device)" where
  "udev_finish = (\<lambda>(vendor, d).
     andthen (if vendor = 0x1A86
       then andthen (peek (dev_serial d) 0) (\<lambda>c. let d1 = d\<lparr>dev_baudrate := PL_BAUDRATE_115200\<rparr> in
         if c = 0 then andthen (block [poke 0 0x31, poke 1 0] (dev_serial d)) (\<lambda>s. Inr (d1\<lparr>dev_serial := s\<rparr>)) else Inr d1)
       else if vendor = 0x303A
       then andthen (U_sstream_put_str (bytes ''Espressif'') (U_sstream_init (Some (dev_name d)) 32)) (\<lambda>ss. Inr (d\<lparr>dev_name := ss_str ss\<rparr>))
       else Inr d) (\<lambda>d.
     andthen (peek (dev_serial d) 0) (\<lambda>c. andthen (peek (dev_name d) 0) (\<lambda>m.
       if vendor \<noteq> 0 \<and> c \<noteq> 0 \<and> m \<noteq> 0
       then andthen (U_memcpy 0 (dev_path d) 0 MAX_DEV_PATH_LENGTH (dev_stablepath d)) (\<lambda>s. Inr (True, d\<lparr>dev_stablepath := s\<rparr>))
       else Inr (False, d)))))"

text \<open>One entry of \<open>/dev\<close> that is a character device, from \<open>U_bzero\<close> on: whether \<open>dev_cur\<close> advances.\<close>

definition udev_entry :: "linux_sys \<Rightarrow> byte list \<Rightarrow> fault + (bool \<times> Device)" where
  "udev_entry sys name = andthen (dev_path_stream name zero_device) (\<lambda>ss.
     let d = zero_device\<lparr>dev_path := ss_str ss\<rparr> in
     andthen (c_string (ss_str ss)) (\<lambda>path. case stat_rdev sys path of None \<Rightarrow> Inr (False, d)
     | Some rdev \<Rightarrow> (let major = (rdev div 256) mod 2 ^ 32 in
        if major \<noteq> 166 \<and> major \<noteq> 188 then Inr (False, d)
        else (case popen_info sys (udev_command name) of None \<Rightarrow> Inr (False, d)
        | Some out \<Rightarrow> (let buf = read_output out; n = length buf in
            andthen (if n > 0 \<and> n < 16383 then udev_properties (0, d) (U_sstream_init (Some (buf @ [0])) n) else Inr (0, d))
              udev_finish)))))"

fun udev_scan :: "linux_sys \<Rightarrow> nat \<Rightarrow> (bool \<times> byte list) list \<Rightarrow> nat \<Rightarrow> (Device list, nat) op" where
  "udev_scan sys room [] cur devs = Inr (cur, devs)"
| "udev_scan sys room ((chr, name) # es) cur devs =
     (if \<not> chr then udev_scan sys room es cur devs
      else if cur = room then Inr (cur, devs)
      else andthen (udev_entry sys name) (\<lambda>(found, d). andthen (poke cur d devs) (\<lambda>devs'.
        udev_scan sys room es (if found then cur + 1 else cur) devs')))"

definition query_udevadm :: "nat \<Rightarrow> linux_sys \<Rightarrow> nat \<Rightarrow> (Device list, nat) op" where
  "query_udevadm L sys room devs = andthen (udevadm_version L sys) (\<lambda>v.
     if v = 0 then Inr (0, devs)
     else (case dev_dir sys of None \<Rightarrow> Inr (0, devs) | Some es \<Rightarrow> udev_scan sys room es 0 devs))"

section \<open>\<open>plGetLinuxUSBDevices\<close>\<close>

definition strstr :: "byte list \<Rightarrow> byte list \<Rightarrow> nat option" where
  "strstr s t = List.find (\<lambda>i. take (length t) (drop i s) = t) [0..<length s + 1]"

definition strchr :: "byte list \<Rightarrow> byte \<Rightarrow> nat option" where
  "strchr s c = List.find (\<lambda>i. s ! i = c) [0..<length s]"

definition strcpy :: "byte list \<Rightarrow> byte list \<Rightarrow> fault + byte list" where
  "strcpy buf s = U_memcpy 0 (s @ [0]) 0 (length s + 1) buf"

text \<open>The chain of \<open>strstr\<close> calls, in its order: what is searched, the name and the baudrate it stands for.\<close>

definition by_id_models :: "(string \<times> string \<times> baudrate) list" where
  "by_id_models = [
     (''ConBee_II'', ''ConBee_II'', PL_BAUDRATE_115200),
     (''ConBee_III'', ''ConBee_III'', PL_BAUDRATE_115200),
     (''FT230X_Basic_UART'', ''ConBee'', PL_BAUDRATE_38400),
     (''Espressif_USB_JTAG_serial_debug_unit'', ''Espressif'', PL_BAUDRATE_115200)]"

fun by_id_model :: "(string \<times> string \<times> baudrate) list \<Rightarrow> byte list \<Rightarrow> (byte list \<times> nat \<times> baudrate) option" where
  "by_id_model [] name = None"
| "by_id_model ((pat, nm, baud) # ms) name = (case strstr name (bytes pat) of
     Some i \<Rightarrow> Some (bytes nm, i + length pat + 1, baud) | None \<Rightarrow> by_id_model ms name)"

text \<open>
  The copy of the serial number that starts at \<open>name[i]\<close>. When the searched text ends the
  name, \<open>i\<close> is behind the NUL, and \<open>strchr\<close> reads outside the string.
\<close>

definition by_id_serial :: "bool \<Rightarrow> byte list \<Rightarrow> nat \<Rightarrow> byte list \<Rightarrow> fault + byte list" where
  "by_id_serial nd name i buf = andthen (clear_first buf) (\<lambda>buf.
     if i > length name then Inl OutOfBounds
     else (let p = strchr (drop i name) 0x2D in
       if \<not> nd \<and> p = Some 0 then Inl AssertFailed
       else (let len = (case p of None \<Rightarrow> 0 | Some k \<Rightarrow> k) in
         if len > 0 \<and> len < MAX_DEV_SERIALNR_LENGTH
         then block [U_memcpy 0 name i len, poke len 0] buf else Inr buf)))"

text \<open>\<open>Assert(!"..."); continue;\<close>\<close>

definition give_up :: "bool \<Rightarrow> 'a \<Rightarrow> fault + (bool \<times> 'a)" where
  "give_up nd d = (if nd then Inr (False, d) else Inl AssertFailed)"

definition by_id_entry :: "bool \<Rightarrow> linux_sys \<Rightarrow> byte list \<Rightarrow> Device \<Rightarrow> fault + (bool \<times> Device)" where
  "by_id_entry nd sys name d =
     (if name \<noteq> [] \<and> hd name = 0x2E then Inr (False, d)
      else case by_id_model by_id_models name of None \<Rightarrow> Inr (False, d\<lparr>dev_baudrate := PL_BAUDRATE_UNKNOWN\<rparr>)
      | Some (nm, i, baud) \<Rightarrow> (let d = d\<lparr>dev_baudrate := baud\<rparr> in
          if length nm \<ge> 32 then give_up nd d
          else andthen (strcpy (dev_name d) nm) (\<lambda>nbuf.
            andthen (by_id_serial nd name i (dev_serial d)) (\<lambda>sbuf.
              let d = d\<lparr>dev_name := nbuf, dev_serial := sbuf\<rparr>; link = bytes ''/dev/serial/by-id/'' @ name in
              if length link \<ge> MAX_DEV_PATH_LENGTH then give_up nd d
              else andthen (strcpy (dev_stablepath d) link) (\<lambda>lbuf. let d = d\<lparr>dev_stablepath := lbuf\<rparr> in
                case real_path sys link of None \<Rightarrow> give_up nd d
                | Some p \<Rightarrow> if length p + 1 < MAX_DEV_PATH_LENGTH
                    then andthen (strcpy (dev_path d) p) (\<lambda>pbuf. Inr (True, d\<lparr>dev_path := pbuf\<rparr>)) else Inr (True, d))))))"

fun by_id_scan :: "bool \<Rightarrow> linux_sys \<Rightarrow> nat \<Rightarrow> byte list list \<Rightarrow> nat \<Rightarrow> (Device list, nat) op" where
  "by_id_scan nd sys room [] cur devs = Inr (cur, devs)"
| "by_id_scan nd sys room (name # es) cur devs =
     (if cur = room then Inr (cur, devs)
      else andthen (peek devs cur) (\<lambda>d. andthen (by_id_entry nd sys name d) (\<lambda>(found, d').
        andthen (poke cur d' devs) (\<lambda>devs'. by_id_scan nd sys room es (if found then cur + 1 else cur) devs'))))"

definition plGetLinuxUSBDevices :: "bool \<Rightarrow> nat \<Rightarrow> linux_sys \<Rightarrow> nat \<Rightarrow> (Device list, nat) op" where
  "plGetLinuxUSBDevices nd L sys room devs =
     (if \<not> nd \<and> \<not> 0 < room then Inl AssertFailed
      else andthen (query_udevadm L sys room devs) (\<lambda>(n, devs).
        if n > 0 then Inr (n, devs)
        else (case by_id_dir sys of None \<Rightarrow> Inr (0, devs) | Some es \<Rightarrow> by_id_scan nd sys room es 0 devs)))"

section \<open>\<open>plGetLinuxSerialDevices\<close> and \<open>PL_GetDevices\<close>\<close>

text \<open>\<open>readlink\<close> stores at most \<open>sizeof(lnkpath) - 1\<close> bytes.\<close>

definition plGetLinuxSerialDevices :: "linux_sys \<Rightarrow> nat \<Rightarrow> (Device list, nat) op" where
  "plGetLinuxSerialDevices sys room devs =
     (if 0 \<ge> room then Inr (0, devs)
      else case (lstat_serial0 sys, serial0_target sys) of
        (Some True, Some target) \<Rightarrow> (let lnkpath = take 254 target; sz = length lnkpath in
          if sz > 0 \<and> sz < 254
          then andthen (peek devs 0) (\<lambda>d. andthen (clear_first (dev_serial d)) (\<lambda>sbuf.
            andthen (strcpy (dev_name d) (bytes ''RaspBee'')) (\<lambda>nbuf.
            andthen (block [
                if hd lnkpath \<noteq> 0x2F then U_sstream_put_str (bytes ''/dev/'') else skip,
                U_sstream_put_str lnkpath] (U_sstream_init (Some (dev_path d)) MAX_DEV_PATH_LENGTH)) (\<lambda>ss.
            andthen (strcpy (dev_stablepath d) (bytes ''/dev/serial0'')) (\<lambda>lbuf.
            andthen (poke 0 (d\<lparr>dev_serial := sbuf, dev_name := nbuf, dev_baudrate := PL_BAUDRATE_38400,
                dev_path := ss_str ss, dev_stablepath := lbuf\<rparr>) devs) (\<lambda>devs'. Inr (1, devs')))))))
          else Inr (0, devs))
        | _ \<Rightarrow> Inr (0, devs))"

definition PL_GetDevices_linux :: "bool \<Rightarrow> nat \<Rightarrow> linux_sys \<Rightarrow> nat \<Rightarrow> fault + (int \<times> Device list)" where
  "PL_GetDevices_linux nd L sys room =
     andthen (plGetLinuxUSBDevices nd L sys room (replicate room zero_device)) (\<lambda>(n, devs).
       andthen (if n = 0 then plGetLinuxSerialDevices sys room devs else Inr (0, devs)) (\<lambda>(m, devs).
         Inr (int (n + m), devs)))"

end
