(* ===== verification/Device_Array.thy ===== *)
theory Device_Array
  imports Gcf_Run Linux_Devices
begin

text \<open>
  What the enumerations of Linux, macOS and Windows share: streams that are read, streams over
  a field of a device, and arrays of devices whose strings are terminated (\<open>device_ok\<close>, the
  assumption of the safety theorem about \<open>PL_GetDevices\<close>).
\<close>

section \<open>Streams\<close>

text \<open>A stream that is read: its size is at most that of its array, its position at most its size.\<close>

definition readable :: "U_SStream \<Rightarrow> bool" where
  "readable ss \<longleftrightarrow> ss_len ss \<le> length (ss_str ss) \<and> ss_len ss < 2 ^ 32 \<and> ss_pos ss \<le> ss_len ss"

lemma readable_next: "readable ss \<Longrightarrow> ss_pos ss + n \<le> ss_len ss \<Longrightarrow> readable (ss\<lparr>ss_pos := ss_pos ss + n\<rparr>)"
  by (simp add: readable_def)

lemma starts_with_total: "readable ss \<Longrightarrow> yields {} (U_sstream_starts_with s ss) (\<lambda>_. True)"
  by (simp add: readable_def starts_with_eq)

lemma find_keeps_readable:
  "readable ss \<Longrightarrow> yields {} (U_sstream_find s ss) (\<lambda>(b, ss'). readable ss' \<and> (b \<longrightarrow> ss_pos ss' < ss_len ss'))"
  using find_loop_spec [of "ss_len ss" "ss_str ss" s "ss_pos ss"]
  by (auto simp: readable_def U_sstream_find_def occurs_at_def)

text \<open>A stream over a whole array that holds a NUL; printing keeps the NUL or sets a new one.\<close>

definition over :: "nat \<Rightarrow> U_SStream \<Rightarrow> bool" where
  "over n ss \<longleftrightarrow> nul_in n (ss_str ss) \<and> ss_len ss \<le> n"

lemma over_init: "nul_in n buf \<Longrightarrow> over n (U_sstream_init (Some buf) n)"
  by (simp add: over_def U_sstream_init_def)

lemma put_str_over: "keeps {} (over n) (U_sstream_put_str s)"
proof (rule hoareI)
  fix ss ss'
  assume "over n ss" "U_sstream_put_str s ss = Inr ss'"
  then show "over n ss'"
    by (auto simp: over_def nul_in_def U_sstream_put_str_def stmt_defs puts_close_eq [unfolded reads_def] ss_write_def overwrite_def
        simp del: block.simps split: if_splits)
next
  fix ss f
  assume "over n ss" "U_sstream_put_str s ss = Inl f"
  then show "f \<in> {}"
    by (auto simp: over_def nul_in_def U_sstream_put_str_def stmt_defs puts_close_eq
        simp del: block.simps split: if_splits)
qed

section \<open>Devices\<close>

lemma device_parts:
  "device_ok d \<Longrightarrow> nul_in 18 (dev_serial d)" "device_ok d \<Longrightarrow> nul_in 32 (dev_name d)"
  "device_ok d \<Longrightarrow> nul_in 255 (dev_path d)" "device_ok d \<Longrightarrow> nul_in 255 (dev_stablepath d)"
  by (simp_all add: device_ok_def)

lemma device_updates:
  "device_ok d \<Longrightarrow> nul_in 18 s \<Longrightarrow> device_ok (d\<lparr>dev_serial := s\<rparr>)"
  "device_ok d \<Longrightarrow> nul_in 32 s \<Longrightarrow> device_ok (d\<lparr>dev_name := s\<rparr>)"
  "device_ok d \<Longrightarrow> nul_in 255 s \<Longrightarrow> device_ok (d\<lparr>dev_path := s\<rparr>)"
  "device_ok d \<Longrightarrow> nul_in 255 s \<Longrightarrow> device_ok (d\<lparr>dev_stablepath := s\<rparr>)"
  "device_ok d \<Longrightarrow> device_ok (d\<lparr>dev_baudrate := b\<rparr>)"
  by (simp_all add: device_ok_def)

lemma zero_device_ok [simp]: "device_ok zero_device"
  by (simp add: device_ok_def zero_device_def nul_in_def)

lemma first_byte: "nul_in n buf \<Longrightarrow> 0 < n \<Longrightarrow> peek buf 0 = Inr (buf ! 0)"
  by (simp add: nul_in_def)

lemma clear_first_ok: "nul_in n buf \<Longrightarrow> 0 < n \<Longrightarrow> yields {} (clear_first buf) (\<lambda>buf'. length buf' = n \<and> buf' ! 0 = 0)"
  by (auto simp: nul_in_def clear_first_def)

lemma clear_first_nul: "nul_in n buf \<Longrightarrow> 0 < n \<Longrightarrow> yields {} (clear_first buf) (nul_in n)"
  by (auto simp: nul_in_def clear_first_def set_update_memI)

lemma strcpy_ok: "length buf = n \<Longrightarrow> length s < n \<Longrightarrow> yields {} (strcpy buf s) (\<lambda>b. b = overwrite 0 (s @ [0]) buf \<and> nul_in n b)"
  by (auto simp: strcpy_def U_memcpy_eq nul_in_def overwrite_def)

section \<open>Arrays of devices\<close>

definition devices_array :: "nat \<Rightarrow> Device list \<Rightarrow> bool" where
  "devices_array n devs \<longleftrightarrow> length devs = n \<and> (\<forall>d\<in>set devs. device_ok d)"

lemma devices_array_update: "devices_array n devs \<Longrightarrow> device_ok d \<Longrightarrow> devices_array n (devs[i := d])"
  by (auto simp: devices_array_def Ball_def dest!: set_update_subset_insert [THEN subsetD])

lemma devices_array_poke: "devices_array n devs \<Longrightarrow> device_ok d \<Longrightarrow> i < n \<Longrightarrow> yields {} (poke i d devs) (devices_array n)"
  using devices_array_update [of n devs d i] by (simp add: devices_array_def)

end
