(* ===== verification/Gcf_Linux.thy ===== *)
theory Gcf_Linux
  imports Device_Array
begin

text \<open>
  The device enumeration of Linux keeps to its arrays whatever the system answers, and what it
  returns is what the program assumes of \<open>PL_GetDevices\<close> (\<open>devices_ok\<close>): that assumption of
  the safety theorem is discharged for Linux. The links of \<open>/dev/serial/by-id\<close> are read as the
  comments of the source describe them, except those of a ConBee III.
\<close>

section \<open>Parsing what udevadm prints\<close>

lemma udevadm_version_total: "yields {} (udevadm_version L sys) (\<lambda>_. True)"
proof -
  have "yields {} (U_sstream_get_long L (U_sstream_init (Some (buf @ [0])) (length buf))) (\<lambda>_. True)" for buf
    using strtol_total [of "length buf" "buf @ [0]" L]
    by (auto simp: U_sstream_get_long_def U_sstream_init_def Let_def split: prod.splits)
  then show ?thesis
    by (auto simp: udevadm_version_def Let_def split: option.splits intro!: yields_andthen)
qed

lemma at_key_readable:
  assumes "readable ss"
  shows "yields {} (at_key key ss) (\<lambda>(b, ss'). readable ss' \<and> (b \<longrightarrow> ss_pos ss' < ss_len ss'))"
  unfolding at_key_def using assms
  by (auto intro!: yields_andthen [OF starts_with_total] find_keeps_readable)

lemma copy_chars_fills:
  assumes "readable ss" and "length buf = n" and "i < n" and "buf ! i = 0"
  shows "yields {} (copy_chars keep ignore n i buf ss) (\<lambda>((j, buf'), ss'). nul_in n buf' \<and> readable ss')"
  using assms
proof (induction keep ignore n i buf ss rule: copy_chars.induct)
  case (1 keep ignore n i buf ss)
  show ?case
  proof (cases "ss_pos ss < ss_len ss \<and> i + 1 < n")
    case False
    with 1(3-) show ?thesis by (subst copy_chars.simps) (auto simp: nul_in_def in_set_conv_nth)
  next
    case True
    then have p: "U_sstream_peek_char ss = Inr (ss_str ss ! ss_pos ss)" "readable (ss\<lparr>ss_pos := ss_pos ss + 1\<rparr>)"
      using 1(3) by (auto simp: U_sstream_peek_char_def readable_def)
    have b: "block [poke i c, poke (i + 1) 0] buf = Inr (buf[i := c, i + 1 := 0])" for c
      using True 1(4) by simp
    show ?thesis
      unfolding copy_chars.simps [of keep ignore n i buf ss]
      using True 1(1) [OF True p(1)] 1(2) [OF True p(1)] 1(3-) p b
      by (auto simp: nul_in_def in_set_conv_nth intro: exI [of _ i])
  qed
qed

lemma model_baudrate_ok:
  assumes "device_ok d" and "i \<le> 32"
  shows "yields {} (model_baudrate i d) device_ok"
proof -
  have "readable (U_sstream_init (Some (dev_name d)) i)" and "device_ok (d\<lparr>dev_baudrate := PL_BAUDRATE_115200\<rparr>)"
    using assms by (auto simp: readable_def U_sstream_init_def device_ok_def nul_in_def)
  then show ?thesis
    unfolding model_baudrate_def Let_def using assms(1)
    by (auto intro!: yields_andthen [OF starts_with_total])
qed

lemma udev_serial_ok:
  "readable ss \<Longrightarrow> device_ok d \<Longrightarrow> yields {} (udev_serial d ss) (\<lambda>(d', ss'). device_ok d' \<and> readable ss')"
  unfolding udev_serial_def
  by (rule yields_andthen [OF clear_first_ok [OF device_parts(1)]]; (rule yields_andthen [OF copy_chars_fills])?)
     (auto simp: device_updates)

lemma udev_model_ok:
  assumes "readable ss" and "device_ok d"
  shows "yields {} (udev_model d ss) (\<lambda>(d', ss'). device_ok d' \<and> readable ss')"
proof -
  have "j \<le> n" if "copy_chars keep ignore n i buf ss = Inr ((j, buf'), ss')" "i \<le> n" for keep ignore n i buf ss j buf' ss'
    using that
  proof (induction keep ignore n i buf ss rule: copy_chars.induct)
    case (1 keep ignore n i buf ss)
    from 1(3,4) show ?case
      by (simp add: copy_chars.simps [of _ _ _ _ _ ss] andthen_Inr split: if_splits) (use 1(1,2) in fastforce)+
  qed
  then have c: "yields {} (copy_chars keep ignore 32 0 buf ss) (\<lambda>((j, buf'), ss'). nul_in 32 buf' \<and> readable ss' \<and> j \<le> 32)"
    if "length buf = 32" "buf ! 0 = 0" for keep ignore buf
    using copy_chars_fills [OF assms(1) that(1), of 0 keep ignore] that(2)
    by (auto simp: yields_def split: sum.splits)
  show ?thesis
    unfolding udev_model_def
    by (rule yields_andthen [OF clear_first_ok [OF device_parts(2) [OF assms(2)]]], simp, rule yields_andthen [OF c])
       (auto simp: device_updates assms(2) intro!: yields_andthen [OF model_baudrate_ok])
qed

lemma udev_vendor_total: "readable ss \<Longrightarrow> yields {} (udev_vendor v ss) (\<lambda>_. True)"
  unfolding udev_vendor_def by (auto intro!: yields_andthen [OF starts_with_total])

lemma udev_property_ok:
  assumes "readable ss" and "device_ok d"
  shows "yields {} (udev_property (v, d) ss) (\<lambda>((v', d'), ss'). device_ok d' \<and> readable ss')"
proof -
  have n: "readable (ss\<lparr>ss_pos := ss_pos ss + 1\<rparr>)"
    if "readable ss \<and> (b \<longrightarrow> ss_pos ss < ss_len ss)" "b" for ss b
    using readable_next [of ss 1] that by simp
  show ?thesis
    unfolding udev_property_def prod.case Let_def
    apply (rule yields_pair [OF at_key_readable [OF assms(1)]])
    apply (rule yields_if)
     apply (rule yields_andthen [OF udev_vendor_total])
      apply (erule (1) n)
     apply (drule (1) n, simp add: assms)
    apply (rule yields_pair [OF at_key_readable])
     apply simp
    apply (rule yields_if)
     apply (rule yields_pair [OF udev_serial_ok [OF _ assms(2)]])
      apply (erule (1) n)
     apply simp
    apply (rule yields_pair [OF at_key_readable])
     apply simp
    apply (rule yields_if)
     apply (rule yields_pair [OF udev_model_ok [OF _ assms(2)]])
      apply (erule (1) n)
     apply simp
    apply (simp add: assms)
    done
qed

lemma udev_properties_ok:
  "readable ss \<Longrightarrow> device_ok (snd r) \<Longrightarrow> yields {} (udev_properties r ss) (\<lambda>(v, d). device_ok d)"
proof (induction r ss rule: udev_properties.induct)
  case (1 r ss)
  show ?case
    unfolding udev_properties.simps [of r ss]
  proof (rule yields_pair)
    show "yields {} (U_sstream_find (bytes ''E: '') ss) (\<lambda>(b, ss1). U_sstream_find (bytes ''E: '') ss = Inr (b, ss1) \<and> readable ss1)"
      using find_keeps_readable [OF 1(2), of "bytes ''E: ''"] by (auto simp: yields_def split: sum.splits)
    fix b ss1
    assume f: "U_sstream_find (bytes ''E: '') ss = Inr (b, ss1) \<and> readable ss1"
    show "yields {} (if b \<and> U_sstream_remaining ss1 > 8
       then andthen (udev_property r (ss1\<lparr>ss_pos := ss_pos ss1 + 3\<rparr>)) (\<lambda>(r', ss2). udev_properties r' ss2)
       else Inr r) (\<lambda>(v, d). device_ok d)"
    proof (rule yields_if)
      assume b: "b \<and> U_sstream_remaining ss1 > 8"
      then have "readable (ss1\<lparr>ss_pos := ss_pos ss1 + 3\<rparr>)"
        using f by (intro readable_next) (auto simp: U_sstream_remaining_def split: if_splits)
      from udev_property_ok [OF this 1(3), of "fst r"]
      obtain r' ss2 where p: "udev_property r (ss1\<lparr>ss_pos := ss_pos ss1 + 3\<rparr>) = Inr (r', ss2)" "device_ok (snd r')" "readable ss2"
        by (auto simp: yields_def split: sum.splits)
      then show "yields {} (andthen (udev_property r (ss1\<lparr>ss_pos := ss_pos ss1 + 3\<rparr>)) (\<lambda>(r', ss2). udev_properties r' ss2))
        (\<lambda>(v, d). device_ok d)"
        using 1(1) [of "(b, ss1)" b ss1 "(r', ss2)" r' ss2] f b by simp
    qed (use 1(3) in \<open>auto split: prod.splits\<close>)
  qed
qed

section \<open>The entries of /dev\<close>

lemma dev_path_stream_ok: "yields {} (dev_path_stream name zero_device) (\<lambda>ss. nul_in 255 (ss_str ss))"
proof -
  have "hoare {} (over 255) (block [U_sstream_put_str (bytes ''/dev/''), U_sstream_put_str name]) (over 255)"
    by (intro hoare_block_Cons [OF put_str_over] hoare_block_single put_str_over)
  moreover have "over 255 (U_sstream_init (Some (dev_path zero_device)) 255)"
    by (intro over_init) (simp add: zero_device_def nul_in_def)
  ultimately show ?thesis
    unfolding dev_path_stream_def by (rule yields_all [OF yields_hoare]) (simp add: over_def)
qed

lemma udev_finish_ok:
  assumes "device_ok d"
  shows "yields {} (udev_finish (v, d)) (\<lambda>(b, d'). device_ok d')"
proof -
  have stop: "yields {} (block [poke 0 c, poke 1 0] buf) (nul_in 18)" if "nul_in 18 buf" for c buf
    using that by (auto simp: nul_in_def in_set_conv_nth intro!: exI [of _ 1])
  have name: "yields {} (U_sstream_put_str s (U_sstream_init (Some (dev_name d)) 32)) (over 32)" for s
    using yields_hoare [OF put_str_over over_init] assms by (simp add: device_ok_def)
  have path: "yields {} (U_memcpy 0 (dev_path d') 0 255 (dev_stablepath d')) (nul_in 255)" if "device_ok d'" for d'
    using that U_memcpy_whole [of "dev_path d'" "dev_stablepath d'"] by (simp add: device_ok_def nul_in_def)
  show ?thesis
    unfolding udev_finish_def prod.case
  proof (rule yields_andthen)
    show "yields {} (if v = 0x1A86
       then andthen (peek (dev_serial d) 0) (\<lambda>c. let d1 = d\<lparr>dev_baudrate := PL_BAUDRATE_115200\<rparr> in
         if c = 0 then andthen (block [poke 0 0x31, poke 1 0] (dev_serial d)) (\<lambda>s. Inr (d1\<lparr>dev_serial := s\<rparr>)) else Inr d1)
       else if v = 0x303A
       then andthen (U_sstream_put_str (bytes ''Espressif'') (U_sstream_init (Some (dev_name d)) 32)) (\<lambda>ss. Inr (d\<lparr>dev_name := ss_str ss\<rparr>))
       else Inr d) device_ok"
      using assms by (auto simp: Let_def first_byte [OF device_parts(1) [OF assms]] device_updates over_def
          intro!: yields_andthen [OF stop [unfolded One_nat_def]] yields_andthen [OF name] device_parts simp del: block.simps)
  next
    fix d' assume d': "device_ok d'"
    then show "yields {} (andthen (peek (dev_serial d') 0) (\<lambda>c. andthen (peek (dev_name d') 0) (\<lambda>m.
       if v \<noteq> 0 \<and> c \<noteq> 0 \<and> m \<noteq> 0
       then andthen (U_memcpy 0 (dev_path d') 0 MAX_DEV_PATH_LENGTH (dev_stablepath d')) (\<lambda>s. Inr (True, d'\<lparr>dev_stablepath := s\<rparr>))
       else Inr (False, d')))) (\<lambda>(b, d'). device_ok d')"
      by (auto simp: first_byte [OF device_parts(1)] first_byte [OF device_parts(2)] device_updates intro!: yields_andthen [OF path])
  qed
qed

lemma udev_entry_ok: "yields {} (udev_entry sys name) (\<lambda>(b, d). device_ok d)"
proof -
  have run: "yields {} (if 0 < length buf \<and> length buf < 16383 then udev_properties (0, d) (U_sstream_init (Some (buf @ [0])) (length buf))
      else Inr (0, d)) (\<lambda>(v, d). device_ok d)" if "device_ok d" for buf d
    using that by (auto intro!: udev_properties_ok simp: readable_def U_sstream_init_def)
  show ?thesis
    unfolding udev_entry_def
  proof (rule yields_andthen [OF dev_path_stream_ok])
    fix ss assume ss: "nul_in 255 (ss_str ss)"
    then obtain path where path: "c_string (ss_str ss) = Inr path" by (auto simp: nul_in_def c_string_def)
    have d: "device_ok (zero_device\<lparr>dev_path := ss_str ss\<rparr>)" using ss by (simp add: device_updates)
    show "yields {} (let d = zero_device\<lparr>dev_path := ss_str ss\<rparr> in
     andthen (c_string (ss_str ss)) (\<lambda>path. case stat_rdev sys path of None \<Rightarrow> Inr (False, d)
     | Some rdev \<Rightarrow> (let major = (rdev div 256) mod 2 ^ 32 in
        if major \<noteq> 166 \<and> major \<noteq> 188 then Inr (False, d)
        else (case popen_info sys (udev_command name) of None \<Rightarrow> Inr (False, d)
        | Some out \<Rightarrow> (let buf = read_output out; n = length buf in
            andthen (if n > 0 \<and> n < 16383 then udev_properties (0, d) (U_sstream_init (Some (buf @ [0])) n) else Inr (0, d))
              udev_finish))))) (\<lambda>(b, d). device_ok d)"
      using d by (auto simp: Let_def path split: option.splits
          intro!: yields_andthen [OF udev_properties_ok] udev_finish_ok simp: readable_def U_sstream_init_def)
  qed
qed

section \<open>The whole enumeration\<close>

lemma udev_scan_ok:
  "devices_array room devs \<Longrightarrow> cur \<le> room \<Longrightarrow> yields {} (udev_scan sys room es cur devs) (\<lambda>(n, devs'). n \<le> room \<and> devices_array room devs')"
proof (induction es arbitrary: cur devs)
  case (Cons e es)
  then show ?case
    by (cases e) (auto intro!: yields_pair [OF udev_entry_ok] yields_andthen [OF devices_array_poke])
qed simp

lemma query_udevadm_ok:
  "devices_array room devs \<Longrightarrow> yields {} (query_udevadm L sys room devs) (\<lambda>(n, devs'). n \<le> room \<and> devices_array room devs')"
  unfolding query_udevadm_def
  by (auto intro!: yields_andthen [OF udevadm_version_total] udev_scan_ok split: option.splits)

text \<open>The text that names the model does not end the name of a link.\<close>

definition links_ok :: "linux_sys \<Rightarrow> bool" where
  "links_ok sys \<longleftrightarrow> (\<forall>es. by_id_dir sys = Some es \<longrightarrow>
     (\<forall>name\<in>set es. \<forall>nm i baud. by_id_model by_id_models name = Some (nm, i, baud) \<longrightarrow> i \<le> length name))"

lemma find_index: "List.find P [0..<n] = Some i \<Longrightarrow> i < n \<and> P i"
  by (auto simp: find_Some_iff)

lemma by_id_serial_ok:
  assumes "nul_in 18 buf" and F: "AssertFailed \<in> F" and bound: "length name < i \<Longrightarrow> OutOfBounds \<in> F"
  shows "yields F (by_id_serial nd name i buf) (nul_in 18)"
proof -
  have "yields {} (block [U_memcpy 0 name i len, poke len 0] b) (nul_in 18)"
    if "strchr (drop i name) 0x2D = Some len" "len < 18" "length b = 18" for len b
  proof -
    have "i + len \<le> length name"
      using find_index [OF that(1) [unfolded strchr_def]] by auto
    then show ?thesis using that(2,3) by (auto simp: U_memcpy_eq nul_in_def in_set_conv_nth intro!: exI [of _ len])
  qed
  then have copy: "yields F (block [U_memcpy 0 name i len, poke len 0] b) (nul_in 18)"
    if "strchr (drop i name) 0x2D = Some len" "len < 18" "length b = 18" for len b
    using yields_all that by blast
  show ?thesis
    unfolding by_id_serial_def
  proof (rule yields_andthen [OF yields_all [OF clear_first_ok [OF assms(1)]]])
    fix b :: "byte list"
    assume b: "length b = 18 \<and> b ! 0 = 0"
    then have "nul_in 18 b" by (auto simp: nul_in_def in_set_conv_nth intro!: exI [of _ 0])
    with b copy F bound show "yields F (if i > length name then Inl OutOfBounds
     else (let p = strchr (drop i name) 0x2D in
       if \<not> nd \<and> p = Some 0 then Inl AssertFailed
       else (let len = (case p of None \<Rightarrow> 0 | Some k \<Rightarrow> k) in
         if len > 0 \<and> len < MAX_DEV_SERIALNR_LENGTH
         then block [U_memcpy 0 name i len, poke len 0] b else Inr b))) (nul_in 18)"
      by (cases "strchr (drop i name) 0x2D") (simp_all add: Let_def del: block.simps)
  qed simp_all
qed

lemma by_id_names: "by_id_model by_id_models name = Some (nm, i, baud) \<Longrightarrow> length nm < 32"
  by (auto simp: by_id_models_def split: option.splits)

lemma by_id_entry_ok:
  assumes "device_ok d" and F: "AssertFailed \<in> F"
    and bound: "\<And>nm i baud. by_id_model by_id_models name = Some (nm, i, baud) \<Longrightarrow> i \<le> length name \<or> OutOfBounds \<in> F"
  shows "yields F (by_id_entry nd sys name d) (\<lambda>(b, d'). device_ok d')"
proof (cases "by_id_model by_id_models name")
  case (Some m)
  obtain nm i baud where m: "m = (nm, i, baud)" by (cases m)
  have len: "length (dev_name d) = 32" "length (dev_stablepath d) = 255" "length (dev_path d) = 255"
    using assms(1) by (simp_all add: device_ok_def nul_in_def)
  have name: "yields F (strcpy (dev_name d) nm) (nul_in 32)"
    using strcpy_ok [OF len(1)] by_id_names [of name] Some m by (auto intro: yields_all)
  have serial: "yields F (by_id_serial nd name i (dev_serial d)) (nul_in 18)"
    using by_id_serial_ok [OF device_parts(1) [OF assms(1)] F] bound Some m by force
  have link: "yields F (strcpy (dev_stablepath d) s) (nul_in 255)" if "length s < 255" for s
    using strcpy_ok [OF len(2) that] by (auto intro: yields_all)
  have path: "yields F (strcpy (dev_path d) s) (nul_in 255)" if "length s < 254" for s
    using strcpy_ok [OF len(3), of s] that by (auto intro: yields_all)
  have stop: "device_ok d' \<Longrightarrow> yields F (give_up nd d') (\<lambda>(b, d'). device_ok d')" for d'
    by (simp add: give_up_def F)
  define dot where "dot \<longleftrightarrow> name \<noteq> [] \<and> hd name = 0x2E"
  show ?thesis
    unfolding by_id_entry_def Some m option.case prod.case Let_def dot_def [symmetric]
    using assms(1)
    by (auto simp: device_updates split: option.splits
        intro!: stop yields_andthen [OF name] yields_andthen [OF serial] yields_andthen [OF link] yields_andthen [OF path])
qed (use assms(1) in \<open>simp add: by_id_entry_def device_updates\<close>)

lemma by_id_scan_ok:
  "AssertFailed \<in> F \<Longrightarrow> devices_array room devs \<Longrightarrow> cur \<le> room \<Longrightarrow>
   (\<And>name nm i baud. name \<in> set es \<Longrightarrow> by_id_model by_id_models name = Some (nm, i, baud) \<Longrightarrow> i \<le> length name \<or> OutOfBounds \<in> F) \<Longrightarrow>
   yields F (by_id_scan nd sys room es cur devs) (\<lambda>(n, devs'). n \<le> room \<and> devices_array room devs')"
proof (induction es arbitrary: cur devs)
  case (Cons name es)
  show ?case
  proof (cases "cur = room")
    case False
    then have p: "peek devs cur = Inr (devs ! cur)" "device_ok (devs ! cur)" "cur < room"
      using Cons.prems(2,3) by (auto simp: devices_array_def)
    have e: "yields F (by_id_entry nd sys name (devs ! cur)) (\<lambda>(b, d'). device_ok d')"
      using by_id_entry_ok [OF p(2) Cons.prems(1)] Cons.prems(4) by (meson list.set_intros(1))
    have w: "yields F (poke cur d devs) (devices_array room)" if "device_ok d" for d
      using yields_all [OF devices_array_poke [OF Cons.prems(2) that p(3)]] .
    have "yields F (by_id_scan nd sys room es cur' devs') (\<lambda>(n, devs'). n \<le> room \<and> devices_array room devs')"
      if "devices_array room devs'" "cur' \<le> room" for cur' devs'
      using that Cons.prems(1,4) by (intro Cons.IH) auto
    then show ?thesis
      using p False by (auto intro!: yields_pair [OF e] yields_andthen [OF w])
  qed (use Cons.prems(2,3) in simp)
qed simp

lemma serial_devices_ok:
  assumes "devices_array room devs"
  shows "yields {} (plGetLinuxSerialDevices sys room devs) (\<lambda>(n, devs'). n \<le> room \<and> n \<le> 1 \<and> devices_array room devs')"
proof (cases "0 < room")
  case True
  with assms have p: "peek devs 0 = Inr (devs ! 0)" "device_ok (devs ! 0)" by (auto simp: devices_array_def)
  define d where "d = devs ! 0"
  have len: "length (dev_name d) = 32" "length (dev_stablepath d) = 255"
    using p(2) by (simp_all add: d_def device_ok_def nul_in_def)
  have serial: "yields {} (clear_first (dev_serial d)) (nul_in 18)"
    using clear_first_nul [OF device_parts(1)] p(2) by (simp add: d_def)
  have name: "yields {} (strcpy (dev_name d) (bytes ''RaspBee'')) (nul_in 32)"
    using yields_all [OF strcpy_ok [OF len(1)]] by simp
  have stable: "yields {} (strcpy (dev_stablepath d) (bytes ''/dev/serial0'')) (nul_in 255)"
    using yields_all [OF strcpy_ok [OF len(2)]] by simp
  have path: "yields {} (block [s, U_sstream_put_str l] (U_sstream_init (Some (dev_path d)) 255)) (over 255)"
    if "s = skip \<or> s = U_sstream_put_str (bytes ''/dev/'')" for s l
  proof (rule yields_hoare)
    show "hoare {} (over 255) (block [s, U_sstream_put_str l]) (over 255)"
      using that by (auto intro!: hoare_block_Cons [of _ _ _ "over 255"] hoare_block_single put_str_over hoare_skip simp del: block.simps block_one)
    show "over 255 (U_sstream_init (Some (dev_path d)) 255)"
      using p(2) by (simp add: d_def over_init device_ok_def)
  qed
  show ?thesis
    unfolding plGetLinuxSerialDevices_def
    using True assms p
    by (auto simp: Let_def d_def [symmetric] device_updates over_def split: option.splits bool.splits
        intro!: yields_andthen [OF serial] yields_andthen [OF name] yields_andthen [OF path] yields_andthen [OF stable]
          yields_andthen [OF devices_array_poke] simp del: block.simps)
qed (use assms in \<open>simp add: plGetLinuxSerialDevices_def\<close>)

lemma linux_devices_yield:
  assumes F: "AssertFailed \<in> F" and links: "links_ok sys \<or> OutOfBounds \<in> F"
  shows "yields F (PL_GetDevices_linux nd L sys room)
    (\<lambda>(n, devs). 0 \<le> n \<and> n \<le> int room \<and> devices_array room devs)"
proof -
  have start: "devices_array room (replicate room zero_device)" by (simp add: devices_array_def)
  have query: "yields F (query_udevadm L sys room (replicate room zero_device)) (\<lambda>(n, devs). n \<le> room \<and> devices_array room devs)"
    by (rule yields_all [OF query_udevadm_ok [OF start]])
  have usb: "yields F (plGetLinuxUSBDevices nd L sys room (replicate room zero_device))
      (\<lambda>(n, devs). n \<le> room \<and> devices_array room devs)"
    unfolding plGetLinuxUSBDevices_def using links
    by (auto simp: F links_ok_def split: option.splits intro!: yields_pair [OF query] by_id_scan_ok)
  have serial: "yields F (if n = 0 then plGetLinuxSerialDevices sys room devs else Inr (0, devs))
      (\<lambda>(m, devs'). n + m \<le> room \<and> devices_array room devs')" if "n \<le> room \<and> devices_array room devs" for n devs
    using that by (auto intro!: yields_all [OF serial_devices_ok])
  show ?thesis
    unfolding PL_GetDevices_linux_def
    by (rule yields_pair [OF usb], rule yields_pair [OF serial]) auto
qed

section \<open>Properties\<close>

text \<open>C21: Whatever \<open>udevadm\<close>, the device directories and the links say, the enumeration of Linux returns at most
  as many devices as there is room, with every string of every device terminated inside its array, or an
  \<open>Assert\<close> fails. It leaves an array only where a link of \<open>/dev/serial/by-id\<close> ends with the name of a model,
  so that no serial number can follow.\<close>

theorem linux_devices_in_bounds:
  "case PL_GetDevices_linux nd L sys room of Inl f \<Rightarrow> f = AssertFailed \<or> f = OutOfBounds \<and> \<not> links_ok sys
    | Inr (n, devs) \<Rightarrow> 0 \<le> n \<and> n \<le> int room \<and> length devs = room \<and> (\<forall>d\<in>set devs. device_ok d)"
proof (cases "links_ok sys")
  case True
  then show ?thesis
    using linux_devices_yield [of "{AssertFailed}" sys nd L room]
    by (simp add: yields_def devices_array_def split: sum.splits prod.splits)
next
  case False
  then show ?thesis
    using linux_devices_yield [of "{AssertFailed, OutOfBounds}" sys nd L room]
    by (simp add: yields_def devices_array_def split: sum.splits prod.splits)
qed

text \<open>A system with two links and without \<open>udevadm\<close>.\<close>

definition two_links :: linux_sys where
  "two_links = \<lparr>popen_version = None, dev_dir = None, stat_rdev = (\<lambda>_. None), popen_info = (\<lambda>_. None),
     by_id_dir = Some [bytes ''.'', bytes ''ConBee_II_DE1948474-if00''],
     real_path = (\<lambda>_. Some (bytes ''/dev/ttyACM0'')), lstat_serial0 = None, serial0_target = None\<rparr>"

lemma two_links_ok: "links_ok two_links"
  by (simp add: links_ok_def two_links_def by_id_models_def strstr_def bytes_def split: option.splits)

theorem linux_devices_in_bounds_witness:
  "case PL_GetDevices_linux False 64 two_links 4 of Inl f \<Rightarrow> f = AssertFailed
    | Inr (n, devs) \<Rightarrow> 0 \<le> n \<and> n \<le> int 4 \<and> length devs = 4 \<and> (\<forall>d\<in>set devs. device_ok d)"
  using linux_devices_in_bounds [where nd = False and L = 64 and sys = two_links and room = 4] two_links_ok by (simp split: sum.splits prod.splits)

text \<open>The exception is real: a link that ends with the name of its model makes \<open>strchr\<close> start behind the
  NUL of the name.\<close>

lemma link_end_overruns:
  assumes "device_ok d" and "name \<noteq> []" and "hd name \<noteq> 0x2E"
    and "by_id_model by_id_models name = Some (nm, i, baud)" and "length name < i"
  shows "by_id_entry nd sys name d = Inl OutOfBounds"
proof -
  have "length (dev_name d) = 32" using assms(1) by (simp add: device_ok_def nul_in_def)
  then have "strcpy (dev_name d) nm = Inr (overwrite 0 (nm @ [0]) (dev_name d))"
    using by_id_names [OF assms(4)] by (simp add: strcpy_def U_memcpy_eq)
  moreover have "0 < length (dev_serial d)" using device_parts(1) [OF assms(1)] by (auto simp: nul_in_def)
  ultimately show ?thesis
    using assms(2-5) by_id_names [OF assms(4)] by (simp add: by_id_entry_def by_id_serial_def clear_first_def Let_def)
qed

section \<open>Reading a link\<close>

lemma strstr_Nil: "strstr [] t = (if t = [] then Some 0 else None)"
  by (simp add: strstr_def)

lemma find_map_option: "List.find P (map f xs) = map_option f (List.find (P \<circ> f) xs)"
  by (induction xs) auto

lemma strstr_Cons: "strstr (c # cs) t = (if take (length t) (c # cs) = t then Some 0 else map_option Suc (strstr cs t))"
proof -
  have "[0..<length (c # cs) + 1] = 0 # map Suc [0..<length cs + 1]"
    by (simp add: map_Suc_upt upt_conv_Cons del: upt_Suc)
  then show ?thesis
    by (simp add: strstr_def find_map_option o_def del: upt_Suc)
qed

lemma strchr_Nil: "strchr [] c = None"
  by (simp add: strchr_def)

lemma strchr_Cons: "strchr (b # bs) c = (if b = c then Some 0 else map_option Suc (strchr bs c))"
proof -
  have "[0..<length (b # bs)] = 0 # map Suc [0..<length bs]"
    by (simp add: map_Suc_upt upt_conv_Cons del: upt_Suc)
  then show ?thesis
    by (simp add: strchr_def find_map_option o_def del: upt_Suc)
qed

lemma strchr_first: "c \<notin> set s \<Longrightarrow> strchr (s @ c # rest) c = Some (length s)"
  by (induction s) (auto simp: strchr_Cons)

text \<open>A link whose model is found, whose serial number ends at a dash and whose target exists.\<close>

lemma by_id_entry_found:
  assumes "device_ok d" and "name \<noteq> []" and "hd name \<noteq> 0x2E"
    and "by_id_model by_id_models name = Some (nm, i, baud)" and "drop i name = serial @ 0x2D # rest"
    and "0x2D \<notin> set serial" and "0 < length serial" and "length serial < 18"
    and "length name + 18 < 255" and "real_path sys (bytes ''/dev/serial/by-id/'' @ name) = Some p" and "length p < 254"
  shows "by_id_entry nd sys name d = Inr (True, d\<lparr>dev_baudrate := baud, dev_name := overwrite 0 (nm @ [0]) (dev_name d),
    dev_path := overwrite 0 (p @ [0]) (dev_path d),
    dev_serial := overwrite 0 (serial @ [0]) ((dev_serial d)[0 := 0]),
    dev_stablepath := overwrite 0 (bytes ''/dev/serial/by-id/'' @ name @ [0]) (dev_stablepath d)\<rparr>)"
proof -
  have len: "length (dev_name d) = 32" "length (dev_path d) = 255" "length (dev_serial d) = 18" "length (dev_stablepath d) = 255"
    using assms(1) by (simp_all add: device_ok_def nul_in_def)
  have i: "i \<le> length name" "take (length serial) (drop i name) = serial" "i + length serial \<le> length name"
    using assms(5) by (auto dest!: arg_cong [of _ _ length])
  have copy: "strcpy buf s = Inr (overwrite 0 (s @ [0]) buf)" if "length s < length buf" for buf s
    using that by (simp add: strcpy_def U_memcpy_eq)
  have serial: "by_id_serial nd name i (dev_serial d) = Inr (overwrite 0 (serial @ [0]) ((dev_serial d)[0 := 0]))"
    using assms(5-8) i len(3)
    by (simp add: by_id_serial_def clear_first_def strchr_first Let_def U_memcpy_eq overwrite_snoc [of 0, simplified])
  show ?thesis
    using assms(2-4,9-11) by_id_names [OF assms(4)]
    by (simp add: by_id_entry_def Let_def copy len serial)
qed

lemma c_string_overwrite: "0 \<notin> set s \<Longrightarrow> c_string (overwrite 0 (s @ [0]) buf) = Inr s"
proof -
  assume s: "0 \<notin> set s"
  have "takeWhile (\<lambda>b. b \<noteq> 0) (s @ 0 # r) = s" for r :: "byte list" using s by (induction s) auto
  then show ?thesis by (simp add: c_string_def overwrite_def)
qed

text \<open>What the source expects of the links (its comments show one of each kind).\<close>

definition known_links :: "(string \<times> string \<times> baudrate) set" where
  "known_links = {
     (''usb-dresden_elektronik_ingenieurtechnik_GmbH_ConBee_II_'', ''ConBee_II'', PL_BAUDRATE_115200),
     (''usb-FTDI_FT230X_Basic_UART_'', ''ConBee'', PL_BAUDRATE_38400),
     (''usb-Espressif_USB_JTAG_serial_debug_unit_'', ''Espressif'', PL_BAUDRATE_115200)}"

lemma known_link_model:
  assumes "(prefix, nm, baud) \<in> known_links" and "\<forall>(pat, _, _)\<in>set by_id_models. strstr s (bytes pat) = None"
  shows "by_id_model by_id_models (bytes prefix @ s) = Some (bytes nm, length prefix, baud)"
    and "bytes prefix \<noteq> []" and "hd (bytes prefix) \<noteq> 0x2E" and "0 \<notin> set (bytes prefix)" and "0 \<notin> set (bytes nm)"
  using assms by (auto simp: known_links_def by_id_models_def bytes_def strstr_Cons)

lemma conbee3_model:
  "by_id_model by_id_models (bytes ''usb-dresden_elektronik_ConBee_III_'' @ s)
    = Some (bytes ''ConBee_II'', length ''usb-dresden_elektronik_ConBee_III_'' - 1, PL_BAUDRATE_115200)"
  by (simp add: by_id_models_def bytes_def strstr_Cons)

text \<open>A link in \<open>/dev/serial/by-id\<close> of a ConBee II, of an FTDI adapter or of an Espressif module is
  read as the comments of the source say: the device gets the name and the baudrate of its kind, the serial
  number in front of the dash, the link as its stable path and the target of the link as its path.\<close>

lemma by_id_link_read:
  assumes "(prefix, nm, baud) \<in> known_links" and "device_ok d"
    and "\<forall>(pat, _, _)\<in>set by_id_models. strstr (serial @ 0x2D # rest) (bytes pat) = None"
    and "0x2D \<notin> set serial" and "0 < length serial" and "length serial < 18" and "0 \<notin> set serial \<union> set rest \<union> set p"
    and "name = bytes prefix @ serial @ 0x2D # rest" and "length name + 18 < 255"
    and "real_path sys (bytes ''/dev/serial/by-id/'' @ name) = Some p" and "length p < 254"
  shows "\<exists>d'. by_id_entry nd sys name d = Inr (True, d') \<and> dev_baudrate d' = baud \<and> c_string (dev_name d') = Inr (bytes nm)
    \<and> c_string (dev_serial d') = Inr serial \<and> c_string (dev_path d') = Inr p
    \<and> c_string (dev_stablepath d') = Inr (bytes ''/dev/serial/by-id/'' @ name)"
proof -
  note m = known_link_model [OF assms(1,3)]
  have name: "name \<noteq> []" "hd name \<noteq> 0x2E" "drop (length prefix) name = serial @ 0x2D # rest"
    using m(2,3) assms(8) by simp_all
  have nul: "0 \<notin> set (bytes ''/dev/serial/by-id/'' @ name)"
    using m(4) assms(7,8) by (simp add: bytes_def)
  show ?thesis
    using by_id_entry_found [OF assms(2) name(1,2) m(1) [folded assms(8)] name(3) assms(4-6,9-11), of nd]
      c_string_overwrite [OF nul] c_string_overwrite m(5) assms(7) by auto
qed

theorem by_id_link_read_witness:
  "\<exists>d'. by_id_entry False two_links (bytes ''usb-FTDI_FT230X_Basic_UART_'' @ bytes ''DJ00QBWE'' @ 0x2D # bytes ''if00-port0'') zero_device = Inr (True, d')
    \<and> dev_baudrate d' = PL_BAUDRATE_38400 \<and> c_string (dev_name d') = Inr (bytes ''ConBee'')
    \<and> c_string (dev_serial d') = Inr (bytes ''DJ00QBWE'') \<and> c_string (dev_path d') = Inr (bytes ''/dev/ttyACM0'')"
proof -
  have "\<forall>(pat, _, _)\<in>set by_id_models. strstr (bytes ''DJ00QBWE'' @ 0x2D # bytes ''if00-port0'') (bytes pat) = None"
    by (simp add: by_id_models_def bytes_def strstr_Cons strstr_Nil)
  then show ?thesis
    using by_id_link_read [of "''usb-FTDI_FT230X_Basic_UART_''" "''ConBee''" PL_BAUDRATE_38400 zero_device "bytes ''DJ00QBWE''"
        "bytes ''if00-port0''" "bytes ''/dev/ttyACM0''" _ two_links False, OF _ _ _ _ _ _ _ refl]
    by (simp add: known_links_def two_links_def bytes_def) blast
qed

text \<open>C23: A ConBee III is taken for a ConBee II: its name contains the one that is searched first, so that the
  branch for \<open>ConBee_III\<close> is never reached, the device is called \<open>ConBee_II\<close> and its serial number starts
  with the underscore in front of the number.\<close>

theorem conbee3_misread:
  assumes "device_ok d" and "0x2D \<notin> set serial" and "length serial < 17" and "0 \<notin> set serial"
    and "name = bytes ''usb-dresden_elektronik_ConBee_III_'' @ serial @ 0x2D # rest" and "length name + 18 < 255"
    and "real_path sys (bytes ''/dev/serial/by-id/'' @ name) = Some p" and "length p < 254"
  shows "\<exists>d'. by_id_entry nd sys name d = Inr (True, d') \<and> c_string (dev_name d') = Inr (bytes ''ConBee_II'')
    \<and> c_string (dev_serial d') = Inr (0x5F # serial)"
proof -
  have name: "name \<noteq> []" "hd name \<noteq> 0x2E"
    "drop (length ''usb-dresden_elektronik_ConBee_III_'' - 1) name = (0x5F # serial) @ 0x2D # rest"
    using assms(5) by (simp_all add: bytes_def)
  have m: "by_id_model by_id_models name
    = Some (bytes ''ConBee_II'', length ''usb-dresden_elektronik_ConBee_III_'' - 1, PL_BAUDRATE_115200)"
    unfolding assms(5) by (rule conbee3_model)
  have nul: "0 \<notin> set (bytes ''ConBee_II'')" "0 \<notin> set (0x5F # serial)"
    using assms(4) by (simp_all add: bytes_def)
  show ?thesis
    using by_id_entry_found [OF assms(1) name(1,2) m name(3) _ _ _ assms(6-8), of nd] assms(2,3)
      c_string_overwrite [OF nul(1)] c_string_overwrite [OF nul(2)] by auto
qed

theorem conbee3_misread_witness:
  "\<exists>d'. by_id_entry False two_links (bytes ''usb-dresden_elektronik_ConBee_III_'' @ bytes ''DEDEADAFFE'' @ 0x2D # bytes ''if00-port0'') zero_device
      = Inr (True, d') \<and> c_string (dev_name d') = Inr (bytes ''ConBee_II'') \<and> c_string (dev_serial d') = Inr (0x5F # bytes ''DEDEADAFFE'')"
  by (rule conbee3_misread [OF zero_device_ok, where p = "bytes ''/dev/ttyACM0''"]) (simp_all add: two_links_def bytes_def)

lemma model_named_link_overruns:
  "PL_GetDevices_linux nd L (two_links\<lparr>by_id_dir := Some [bytes ''usb-FTDI_FT230X_Basic_UART'']\<rparr>) 4 = Inl OutOfBounds"
proof -
  define name where "name = bytes ''usb-FTDI_FT230X_Basic_UART''"
  define sys where "sys = two_links\<lparr>by_id_dir := Some [name]\<rparr>"
  have "by_id_model by_id_models name = Some (bytes ''ConBee'', length name + 1, PL_BAUDRATE_38400)"
    by (simp add: name_def by_id_models_def bytes_def strstr_Cons strstr_Nil)
  then have "by_id_entry nd sys name zero_device = Inl OutOfBounds"
    by (rule link_end_overruns [OF zero_device_ok, rotated 2]) (simp_all add: name_def bytes_def)
  moreover have "query_udevadm L sys 4 (replicate 4 zero_device) = Inr (0, replicate 4 zero_device)"
    by (simp add: query_udevadm_def udevadm_version_def sys_def two_links_def)
  ultimately show ?thesis
    by (simp add: PL_GetDevices_linux_def plGetLinuxUSBDevices_def numeral_eq_Suc flip: name_def sys_def) (simp add: sys_def)
qed

section \<open>The device list of the program\<close>




end
