(* ===== verification/Macos_Devices.thy ===== *)
theory Macos_Devices
  imports Linux_Devices
begin

text \<open>
  The device enumeration of macOS, \<open>macos_get_usb_devices.c\<close>: it reads the devices from the text
  of \<open>system_profiler\<close> line by line, and looks for the path of a device among the entries of \<open>/dev\<close>.

  As in \<open>Linux_Devices\<close> an array of devices is the list of the \<open>room\<close> elements up to \<open>end\<close>.
  The static buffer of 262144 bytes is an argument, as it was left by the last call.
\<close>

text \<open>What the command prints, \<open>None\<close> where \<open>popen\<close> fails, and the names of the entries of \<open>/dev\<close>.\<close>

record mac_sys =
  profiler :: "byte list option"
  mac_dev_dir :: "byte list list option"

section \<open>Lines\<close>

text \<open>The loop of \<open>next_line\<close> over the \<open>k\<close> bytes that are left: \<open>line->len\<close>.\<close>

fun line_length :: "byte list \<Rightarrow> nat \<Rightarrow> fault + nat" where
  "line_length s 0 = Inr 0"
| "line_length [] (Suc k) = Inl OutOfBounds"
| "line_length (c # cs) (Suc k) = (if c = 0x0A then Inr 1 else andthen (line_length cs k) (\<lambda>n. Inr (n + 1)))"

definition next_line :: "(U_SStream, U_SStream option) op" where
  "next_line ss = (if ss_status ss \<noteq> U_SSTREAM_OK then Inr (None, ss)
     else andthen (line_length (drop (ss_pos ss) (ss_str ss)) (ss_len ss - ss_pos ss)) (\<lambda>n.
       Inr (if n \<noteq> 0 then Some \<lparr>ss_str = drop (ss_pos ss) (ss_str ss), ss_pos = 0, ss_len = n, ss_status = U_SSTREAM_OK\<rparr> else None,
         ss\<lparr>ss_pos := ss_pos ss + n\<rparr>)))"

section \<open>The path\<close>

text \<open>The path and its stable copy; the entries from the current one on.\<close>

fun find_entry :: "byte list list \<Rightarrow> Device \<Rightarrow> fault + Device" where
  "find_entry [] d = Inr d"
| "find_entry (name # es) d =
     (let ss = U_sstream_init (Some (name @ [0])) (length name)
      in andthen (U_sstream_starts_with (bytes ''cu.'') ss) (\<lambda>b. if \<not> b then find_entry es d
      else andthen (c_string (dev_serial d)) (\<lambda>serial. andthen (U_sstream_find serial ss) (\<lambda>(b, _). if \<not> b then find_entry es d
      else andthen (block [U_sstream_put_str (bytes ''/dev/''), U_sstream_put_str name] (U_sstream_init (Some (dev_path d)) MAX_DEV_PATH_LENGTH)) (\<lambda>p.
        andthen (U_memcpy 0 (ss_str p) 0 MAX_DEV_PATH_LENGTH (dev_stablepath d)) (\<lambda>q.
          Inr (d\<lparr>dev_path := ss_str p, dev_stablepath := q\<rparr>)))))))"

definition getDevicePath :: "mac_sys \<Rightarrow> Device \<Rightarrow> fault + (bool \<times> Device)" where
  "getDevicePath sys d = (case mac_dev_dir sys of None \<Rightarrow> Inr (False, d)
     | Some es \<Rightarrow> andthen (clear_first (dev_path d)) (\<lambda>p. andthen (find_entry es (d\<lparr>dev_path := p\<rparr>)) (\<lambda>d.
         andthen (peek (dev_path d) 0) (\<lambda>c. Inr (c \<noteq> 0, d)))))"

section \<open>\<open>queryFromSystemProfiler\<close>\<close>

datatype query_state = SP_STATE_INIT | SP_STATE_DEVICE

text \<open>The copy of the name up to the colon, from \<open>line.str[line.pos]\<close> on; nothing else ends it.\<close>

fun copy_to_colon :: "nat \<Rightarrow> byte list \<Rightarrow> byte list \<Rightarrow> fault + byte list" where
  "copy_to_colon i [] buf = Inl OutOfBounds"
| "copy_to_colon i (c # cs) buf = (if c = 0x3A then poke i 0 buf else andthen (poke i c buf) (copy_to_colon (i + 1) cs))"

text \<open>The copy of the \<open>k\<close> bytes that are left of the line, up to its end or a newline.\<close>

fun copy_to_newline :: "nat \<Rightarrow> byte list \<Rightarrow> nat \<Rightarrow> byte list \<Rightarrow> fault + byte list" where
  "copy_to_newline i s 0 buf = poke i 0 buf"
| "copy_to_newline i [] (Suc k) buf = Inl OutOfBounds"
| "copy_to_newline i (c # cs) (Suc k) buf = (if c = 0x0A then poke i 0 buf
     else andthen (poke i c buf) (copy_to_newline (i + 1) cs k))"

text \<open>\<open>for (;line.pos < line.len; line.pos++) if (line.str[line.pos - 1] == ':') break;\<close>\<close>

function behind_colon :: "U_SStream \<Rightarrow> fault + U_SStream" where
  "behind_colon line = (if ss_pos line < ss_len line
     then andthen (peek (ss_str line) (u32_sub (ss_pos line) 1)) (\<lambda>c. if c = 0x3A then Inr line
       else behind_colon (line\<lparr>ss_pos := ss_pos line + 1\<rparr>))
     else Inr line)"
  by pat_completeness auto
termination by (relation "measure (\<lambda>line. ss_len line - ss_pos line)") auto

declare behind_colon.simps [simp del]

text \<open>The baudrate for the line that names a device.\<close>

definition mac_model :: "U_SStream \<Rightarrow> fault + baudrate option" where
  "mac_model line =
     andthen (U_sstream_starts_with (bytes ''ConBee II:'') line) (\<lambda>b. if b then Inr (Some PL_BAUDRATE_115200)
     else andthen (U_sstream_starts_with (bytes ''ConBee III:'') line) (\<lambda>b. if b then Inr (Some PL_BAUDRATE_115200)
     else andthen (U_sstream_starts_with (bytes ''FT230X Basic UART'') line) (\<lambda>b. if b then Inr (Some PL_BAUDRATE_38400)
     else Inr None)))"

text \<open>The two branches of the loop; the result says whether \<open>dev\<close> advances.\<close>

definition mac_name :: "U_SStream \<Rightarrow> Device \<Rightarrow> fault + (query_state \<times> Device)" where
  "mac_name line d = andthen (mac_model line) (\<lambda>m. case m of None \<Rightarrow> Inr (SP_STATE_INIT, d)
     | Some baud \<Rightarrow> (let d = d\<lparr>dev_baudrate := baud\<rparr> in
         if u32_sub (ss_len line) (ss_pos line) > 32 then Inr (SP_STATE_INIT, d)
         else andthen (copy_to_colon 0 (drop (ss_pos line) (ss_str line)) (dev_name d)) (\<lambda>n. Inr (SP_STATE_DEVICE, d\<lparr>dev_name := n\<rparr>))))"

definition mac_serial :: "mac_sys \<Rightarrow> U_SStream \<Rightarrow> Device \<Rightarrow> fault + (query_state \<times> bool \<times> Device)" where
  "mac_serial sys line d = andthen (U_sstream_starts_with (bytes ''Serial Number:'') line) (\<lambda>b. if \<not> b then Inr (SP_STATE_DEVICE, False, d)
     else andthen (behind_colon line) (\<lambda>line. andthen (U_sstream_skip_whitespace line) (\<lambda>line.
       if u32_sub (ss_len line) (ss_pos line) > MAX_DEV_SERIALNR_LENGTH then Inr (SP_STATE_INIT, False, d)
       else andthen (copy_to_newline 0 (drop (ss_pos line) (ss_str line)) (ss_len line - ss_pos line) (dev_serial d)) (\<lambda>s.
         andthen (getDevicePath sys (d\<lparr>dev_serial := s\<rparr>)) (\<lambda>(found, d). Inr (SP_STATE_INIT, found, d))))))"

text \<open>One line, with the state, \<open>dev\<close> as an index and the array.\<close>

definition mac_line :: "mac_sys \<Rightarrow> U_SStream \<Rightarrow> query_state \<times> nat \<times> Device list \<Rightarrow> fault + (query_state \<times> nat \<times> Device list)" where
  "mac_line sys line = (\<lambda>(st, cur, devs). andthen (U_sstream_skip_whitespace line) (\<lambda>line. andthen (peek devs cur) (\<lambda>d.
     case st of
       SP_STATE_INIT \<Rightarrow> andthen (mac_name line d) (\<lambda>(st, d). andthen (poke cur d devs) (\<lambda>devs. Inr (st, cur, devs)))
     | SP_STATE_DEVICE \<Rightarrow> andthen (mac_serial sys line d) (\<lambda>(st, found, d). andthen (poke cur d devs) (\<lambda>devs.
         Inr (st, if found then cur + 1 else cur, devs))))))"

lemma next_line_moves:
  "next_line ss = Inr (Some line, ss') \<Longrightarrow> ss_pos ss < ss_pos ss' \<and> ss_len ss' = ss_len ss \<and> ss_pos ss < ss_len ss"
  by (cases "ss_len ss - ss_pos ss") (auto simp: next_line_def andthen_Inr split: if_splits)

function mac_lines :: "mac_sys \<Rightarrow> nat \<Rightarrow> U_SStream \<Rightarrow> query_state \<times> nat \<times> Device list \<Rightarrow> fault + (query_state \<times> nat \<times> Device list)" where
  "mac_lines sys room ss st =
     (if fst (snd st) \<ge> room then Inr st
      else andthen (next_line ss) (\<lambda>(line, ss'). case line of None \<Rightarrow> Inr st
        | Some line \<Rightarrow> andthen (mac_line sys line st) (\<lambda>st'. mac_lines sys room ss' st')))"
  by pat_completeness auto
termination
  by (relation "measure (\<lambda>(sys, room, ss, st). ss_len ss - ss_pos ss)") (auto dest!: next_line_moves)

declare mac_lines.simps [simp del]

text \<open>The size of \<open>buf\<close> is \<open>4096 * 64\<close>. The devices that were found come first.\<close>

definition queryFromSystemProfiler :: "mac_sys \<Rightarrow> byte list \<Rightarrow> nat \<Rightarrow> Device list \<Rightarrow> fault + (nat \<times> Device list)" where
  "queryFromSystemProfiler sys buf room devs = (case profiler sys of None \<Rightarrow> Inr (0, devs)
     | Some out \<Rightarrow> (let text = take 262143 out; n = length text in
         if n = 0 then Inr (0, devs)
         else andthen (U_memcpy 0 (text @ [0]) 0 (n + 1) buf) (\<lambda>buf.
           andthen (mac_lines sys room (U_sstream_init (Some buf) n) (SP_STATE_INIT, 0, devs)) (\<lambda>(_, result, devs). Inr (result, devs)))))"

definition plGetMacOSUSBDevices :: "mac_sys \<Rightarrow> byte list \<Rightarrow> nat \<Rightarrow> Device list \<Rightarrow> fault + (nat \<times> Device list)" where
  "plGetMacOSUSBDevices sys buf room devs = queryFromSystemProfiler sys buf room devs"

definition PL_GetDevices_mac :: "mac_sys \<Rightarrow> byte list \<Rightarrow> nat \<Rightarrow> fault + (int \<times> Device list)" where
  "PL_GetDevices_mac sys buf room = andthen (plGetMacOSUSBDevices sys buf room (replicate room zero_device)) (\<lambda>(n, devs). Inr (int n, devs))"

end
