(* ===== verification/Gcf_Macos.thy ===== *)
theory Gcf_Macos
  imports Device_Array Macos_Devices
begin

text \<open>
  The device enumeration of macOS stays inside its arrays as long as the text of \<open>system_profiler\<close>
  has the form the source expects: every line ends with a newline, the line of an FTDI
  device has a colon, and the line of a serial number is indented. Without the last newline a serial
  number of 18 characters is terminated behind its array.
\<close>

section \<open>The path\<close>

lemma find_entry_ok:
  "\<forall>name\<in>set es. length name < 2 ^ 32 \<Longrightarrow> device_ok d \<Longrightarrow> yields {} (find_entry es d) device_ok"
proof (induction es)
  case (Cons name es)
  let ?ss = "U_sstream_init (Some (name @ [0])) (length name)"
  have r: "readable ?ss" using Cons.prems(1) by (simp add: readable_def U_sstream_init_def)
  obtain serial where serial: "c_string (dev_serial d) = Inr serial"
    using nul_string [OF device_parts(1) [OF Cons.prems(2)]] by blast
  have put: "yields {} (block [U_sstream_put_str (bytes ''/dev/''), U_sstream_put_str name] (U_sstream_init (Some (dev_path d)) 255)) (over 255)"
  proof (rule yields_hoare)
    show "hoare {} (over 255) (block [U_sstream_put_str (bytes ''/dev/''), U_sstream_put_str name]) (over 255)"
      by (intro hoare_block_Cons [OF put_str_over] hoare_block_single put_str_over)
  qed (rule over_init [OF device_parts(3) [OF Cons.prems(2)]])
  have whole: "U_memcpy 0 s 0 255 (dev_stablepath d) = Inr s" if "nul_in 255 s" for s
    using that Cons.prems(2) U_memcpy_whole [of s "dev_stablepath d"] by (simp add: device_ok_def nul_in_def)
  have copy: "yields {} (andthen (block [U_sstream_put_str (bytes ''/dev/''), U_sstream_put_str name] (U_sstream_init (Some (dev_path d)) 255)) (\<lambda>p.
      andthen (U_memcpy 0 (ss_str p) 0 255 (dev_stablepath d)) (\<lambda>q. Inr (d\<lparr>dev_path := ss_str p, dev_stablepath := q\<rparr>)))) device_ok"
    by (rule yields_andthen [OF put]) (use Cons.prems(2) in \<open>auto simp: over_def whole device_updates\<close>)
  have rest: "yields {} (find_entry es d) device_ok" using Cons by simp
  show ?case
    unfolding find_entry.simps Let_def serial andthen_simps
    by (intro yields_andthen [OF starts_with_total [OF r]] yields_if rest yields_pair [OF find_keeps_readable [OF r]] copy)
qed simp

definition names_ok :: "mac_sys \<Rightarrow> bool" where
  "names_ok sys \<longleftrightarrow> (\<forall>es. mac_dev_dir sys = Some es \<longrightarrow> (\<forall>name\<in>set es. length name < 2 ^ 32))"

lemma getDevicePath_ok:
  assumes "names_ok sys" and "device_ok d"
  shows "yields {} (getDevicePath sys d) (\<lambda>(_, d'). device_ok d')"
proof -
  have "yields {} (andthen (clear_first (dev_path d)) (\<lambda>p. andthen (find_entry es (d\<lparr>dev_path := p\<rparr>)) (\<lambda>d.
         andthen (peek (dev_path d) 0) (\<lambda>c. Inr (c \<noteq> 0, d))))) (\<lambda>(_, d'). device_ok d')" if "mac_dev_dir sys = Some es" for es
    by (rule yields_andthen [OF clear_first_nul [OF device_parts(3) [OF assms(2)]]], simp,
        rule yields_andthen [OF find_entry_ok])
       (use assms that in \<open>auto simp: names_ok_def device_updates first_byte [OF device_parts(3)]\<close>)
  then show ?thesis
    using assms(2) by (auto simp: getDevicePath_def split: option.splits)
qed

section \<open>Lines\<close>

fun text_lines :: "byte list \<Rightarrow> byte list list" where
  "text_lines [] = []"
| "text_lines (c # cs) = (if c = 0x0A then [c] # text_lines cs
     else (case text_lines cs of [] \<Rightarrow> [[c]] | l # ls \<Rightarrow> (c # l) # ls))"

lemma text_lines_Nil: "text_lines s = [] \<longleftrightarrow> s = []"
  by (cases s) (auto split: list.splits)

text \<open>\<open>next_line\<close> cuts off the first line.\<close>

lemma line_length_first:
  "line_length (s @ r) (length s) = Inr (case text_lines s of [] \<Rightarrow> 0 | l # ls \<Rightarrow> length l)"
  by (induction s) (auto split: list.splits)

lemma first_line:
  "text_lines s = l # ls \<Longrightarrow> \<exists>s'. s = l @ s' \<and> l \<noteq> [] \<and> text_lines s' = ls"
proof (induction s arbitrary: l ls)
  case (Cons c cs)
  show ?case
  proof (cases "c = 0x0A \<or> cs = []")
    case True
    with Cons.prems show ?thesis by (auto simp: text_lines_Nil split: if_splits list.splits)
  next
    case False
    then obtain l' ls' where l': "text_lines cs = l' # ls'" by (cases "text_lines cs") (auto simp: text_lines_Nil)
    from Cons.IH [OF this] obtain s' where "cs = l' @ s'" "text_lines s' = ls'" by auto
    moreover from Cons.prems False l' have "l = c # l'" "ls = ls'" by auto
    ultimately show ?thesis by auto
  qed
qed simp

definition blank :: "byte \<Rightarrow> bool" where
  "blank c \<longleftrightarrow> c = 0x20 \<or> c = 0x09 \<or> c = 0x0A \<or> c = 0x0D"

lemma skip_whitespace_at:
  assumes "drop (ss_pos ss) (ss_str ss) = t @ r" and "ss_len ss = ss_pos ss + length t"
  shows "U_sstream_skip_whitespace ss = Inr (ss\<lparr>ss_pos := ss_len ss - length (dropWhile blank t)\<rparr>)"
  using assms
proof (induction t arbitrary: ss)
  case Nil
  then show ?case by (subst U_sstream_skip_whitespace.simps) simp
next
  case (Cons c t)
  have p: "ss_pos ss < length (ss_str ss)" using Cons.prems(1) by (metis append_Cons drop_all list.discI not_le_imp_less)
  have c: "ss_str ss ! ss_pos ss = c" and d: "drop (Suc (ss_pos ss)) (ss_str ss) = t @ r"
    using Cons.prems(1) Cons_nth_drop_Suc [OF p] by simp_all
  show ?case
  proof (cases "blank c")
    case True
    then have "U_sstream_skip_whitespace ss = U_sstream_skip_whitespace (ss\<lparr>ss_pos := ss_pos ss + 1\<rparr>)"
      using p c Cons.prems(2) by (subst U_sstream_skip_whitespace.simps) (simp add: blank_def)
    with True d Cons.prems(2) Cons.IH [of "ss\<lparr>ss_pos := ss_pos ss + 1\<rparr>"] show ?thesis by simp
  next
    case False
    with p c Cons.prems(2) show ?thesis by (subst U_sstream_skip_whitespace.simps) (simp add: blank_def)
  qed
qed

section \<open>Names and serial numbers\<close>

lemma copy_to_colon_ok:
  "length buf = 32 \<Longrightarrow> i < 32 \<Longrightarrow> 0x3A \<in> set (take (32 - i) cs) \<Longrightarrow> yields {} (copy_to_colon i cs buf) (nul_in 32)"
proof (induction i cs buf rule: copy_to_colon.induct)
  case (2 i c cs buf)
  show ?case
  proof (cases "c = 0x3A")
    case False
    from "2.prems"(2) have k: "32 - i = Suc (32 - (i + 1))" by simp
    with "2.prems"(3) False have cs: "0x3A \<in> set (take (32 - (i + 1)) cs)" by simp
    then have "i + 1 < 32" by (cases "i + 1 < 32") auto
    with False "2.prems" "2.IH" [of "buf[i := c]"] cs show ?thesis by simp
  qed (use "2.prems" in \<open>auto simp: nul_in_def set_update_memI\<close>)
qed simp

lemma copy_to_newline_ok:
  "length buf = 18 \<Longrightarrow> i + k < 18 \<or> i + k = 18 \<and> 0x0A \<in> set (take k s) \<Longrightarrow> k \<le> length s \<Longrightarrow>
   yields {} (copy_to_newline i s k buf) (nul_in 18)"
proof (induction i s k buf rule: copy_to_newline.induct)
  case (3 i c cs k buf)
  show ?case
  proof (cases "c = 0x0A")
    case False
    with "3.prems" "3.IH" [of "buf[i := c]"] show ?thesis by auto
  qed (use "3.prems" in \<open>auto simp: nul_in_def set_update_memI\<close>)
qed (auto simp: nul_in_def set_update_memI)

lemma behind_colon_ok:
  "0 < ss_pos ss \<Longrightarrow> ss_pos ss \<le> ss_len ss \<Longrightarrow> ss_len ss \<le> length (ss_str ss) \<Longrightarrow> ss_len ss < 2 ^ 32 \<Longrightarrow>
   yields {} (behind_colon ss) (\<lambda>ss'. ss' = ss\<lparr>ss_pos := ss_pos ss'\<rparr> \<and> ss_pos ss \<le> ss_pos ss' \<and> ss_pos ss' \<le> ss_len ss)"
proof (induction ss rule: behind_colon.induct)
  case (1 ss)
  show ?case
  proof (cases "ss_pos ss < ss_len ss")
    case True
    have c: "peek (ss_str ss) (u32_sub (ss_pos ss) 1) = Inr (ss_str ss ! (ss_pos ss - 1))"
      using "1.prems" by (simp add: c_arith)
    note ih = "1.IH" [OF True c]
    show ?thesis
    proof (cases "ss_str ss ! (ss_pos ss - 1) = 0x3A")
      case False
      then have "yields {} (behind_colon (ss\<lparr>ss_pos := ss_pos ss + 1\<rparr>)) (\<lambda>ss'. ss' = ss\<lparr>ss_pos := ss_pos ss + 1\<rparr>\<lparr>ss_pos := ss_pos ss'\<rparr> \<and> ss_pos ss + 1 \<le> ss_pos ss' \<and> ss_pos ss' \<le> ss_len ss)"
        using ih True "1.prems" by simp
      then show ?thesis
        using True c False by (subst behind_colon.simps) (auto elim!: yields_mono)
    qed (use True c "1.prems" in \<open>subst behind_colon.simps, simp\<close>)
  qed (use "1.prems" in \<open>subst behind_colon.simps, simp\<close>)
qed

section \<open>One line\<close>

definition strip :: "byte list \<Rightarrow> byte list" where
  "strip l = dropWhile blank l"

definition line_ok :: "byte list \<Rightarrow> bool" where
  "line_ok l \<longleftrightarrow> l \<noteq> [] \<and> last l = 0x0A
     \<and> (take 17 (strip l) = bytes ''FT230X Basic UART'' \<longrightarrow> 0x3A \<in> set (strip l))
     \<and> (take 14 (strip l) = bytes ''Serial Number:'' \<longrightarrow> strip l \<noteq> l)"

text \<open>A line behind its first blanks: \<open>D\<close> is the rest of the line, \<open>p\<close> and \<open>r\<close> are what surrounds it.\<close>

definition on_line :: "byte list \<Rightarrow> byte list \<Rightarrow> byte list \<Rightarrow> U_SStream \<Rightarrow> bool" where
  "on_line p D r ss \<longleftrightarrow> ss_str ss = p @ D @ r \<and> ss_pos ss = length p \<and> ss_len ss = length p + length D \<and> ss_len ss < 2 ^ 32"

lemma on_line_starts:
  "on_line p D r ss \<Longrightarrow> U_sstream_starts_with s ss = Inr (take (length s) D = s)"
proof -
  have "length (take (length s) D) \<le> length D" by simp
  then have "take (length s) D = s \<Longrightarrow> length s \<le> length D" by (simp only:)
  then show "on_line p D r ss \<Longrightarrow> U_sstream_starts_with s ss = Inr (take (length s) D = s)"
    by (auto simp: on_line_def starts_with_eq)
qed

lemma mac_model_ok:
  assumes "on_line p D r ss" and "take 17 D = bytes ''FT230X Basic UART'' \<longrightarrow> 0x3A \<in> set D"
  shows "yields {} (mac_model ss) (\<lambda>m. m \<noteq> None \<longrightarrow> 0x3A \<in> set D)"
proof -
  have in_D: "0x3A \<in> set D" if "take (length (bytes s)) D = bytes s" "CHR '':'' \<in> set s" for s
  proof -
    have "0x3A \<in> set (bytes s)" using that(2) by (force simp: bytes_def)
    with that(1) show ?thesis by (metis in_set_takeD)
  qed
  have len: "length (bytes ''ConBee II:'') = 10" "length (bytes ''ConBee III:'') = 11" "length (bytes ''FT230X Basic UART'') = 17"
    by (simp_all add: bytes_def)
  have "take 10 D = bytes ''ConBee II:'' \<Longrightarrow> 0x3A \<in> set D" "take 11 D = bytes ''ConBee III:'' \<Longrightarrow> 0x3A \<in> set D"
    using in_D [of "''ConBee II:''"] in_D [of "''ConBee III:''"] unfolding len by simp_all
  then show ?thesis
    using assms(2) unfolding mac_model_def on_line_starts [OF assms(1)] len andthen_simps by auto
qed

lemma mac_name_ok:
  assumes "on_line p D r ss" and "take 17 D = bytes ''FT230X Basic UART'' \<longrightarrow> 0x3A \<in> set D" and "device_ok d"
  shows "yields {} (mac_name ss d) (\<lambda>(_, d'). device_ok d')"
proof -
  have n: "length (dev_name d) = 32" using assms(3) by (simp add: device_ok_def nul_in_def)
  have rest: "drop (ss_pos ss) (ss_str ss) = D @ r" "u32_sub (ss_len ss) (ss_pos ss) = length D"
    using assms(1) by (simp_all add: on_line_def c_arith)
  have copy: "yields {} (andthen (copy_to_colon 0 (D @ r) (dev_name d)) (\<lambda>n. Inr (SP_STATE_DEVICE, d\<lparr>dev_baudrate := b, dev_name := n\<rparr>)))
      (\<lambda>(_, d'). device_ok d')" if "0x3A \<in> set D" "\<not> length D > 32" for b
    by (rule yields_andthen [OF copy_to_colon_ok [OF n]]) (use that assms(3) in \<open>auto simp: device_updates\<close>)
  show ?thesis
    unfolding mac_name_def rest
    by (rule yields_andthen [OF mac_model_ok [OF assms(1,2)]])
       (use assms(3) copy in \<open>auto simp: Let_def device_updates split: option.splits\<close>)
qed

lemma copy_serial_ok:
  assumes line: "on_line p D r ss" and newline: "D \<noteq> [] \<Longrightarrow> last D = 0x0A"
    and q: "ss_pos ss \<le> q" "q \<le> ss_len ss" "ss_len ss - q \<le> 18" and n: "length buf = 18"
  shows "yields {} (copy_to_newline 0 (drop q (ss_str ss)) (ss_len ss - q) buf) (nul_in 18)"
proof (rule copy_to_newline_ok [OF n])
  have "0x0A \<in> set (take (ss_len ss - q) (drop q (ss_str ss)))" if "q < ss_len ss"
  proof -
    obtain j where j: "q = length p + j" using q(1) line by (metis le_Suc_ex on_line_def)
    with that line have "j < length D" by (simp add: on_line_def)
    then have "last D \<in> set (drop j D)" by (metis last_drop last_in_set drop_eq_Nil not_le)
    moreover have "D \<noteq> []" using \<open>j < length D\<close> by auto
    moreover have "take (ss_len ss - q) (drop q (ss_str ss)) = drop j D" using line j by (simp add: on_line_def)
    ultimately show ?thesis using newline by simp
  qed
  then show "0 + (ss_len ss - q) < 18 \<or> 0 + (ss_len ss - q) = 18 \<and> 0x0A \<in> set (take (ss_len ss - q) (drop q (ss_str ss)))"
    using q(3) by (cases "q < ss_len ss") auto
qed (use line in \<open>simp add: on_line_def\<close>)

lemma mac_serial_ok:
  assumes line: "on_line p D r ss" and newline: "D \<noteq> [] \<Longrightarrow> last D = 0x0A"
    and indent: "take 14 D = bytes ''Serial Number:'' \<longrightarrow> p \<noteq> []" and sys: "names_ok sys" and d: "device_ok d"
  shows "yields {} (mac_serial sys ss d) (\<lambda>(_, _, d'). device_ok d')"
proof -
  have n: "length (dev_serial d) = 18" using d by (simp add: device_ok_def nul_in_def)
  have len: "ss_len ss \<le> length (ss_str ss)" "ss_len ss < 2 ^ 32" using line by (simp_all add: on_line_def)
  have at: "length (bytes ''Serial Number:'') = 14" by (simp add: bytes_def)
  note copy = copy_serial_ok [OF line newline _ _ _ n]
  show ?thesis
    unfolding mac_serial_def on_line_starts [OF line] at andthen_simps
  proof (rule yields_if)
    assume "\<not> \<not> take 14 D = bytes ''Serial Number:''"
    with indent line have "0 < ss_pos ss" "ss_pos ss \<le> ss_len ss" by (auto simp: on_line_def)
    note colon = behind_colon_ok [OF this len]
    show "yields {} (andthen (behind_colon ss) (\<lambda>line. andthen (U_sstream_skip_whitespace line) (\<lambda>line.
       if u32_sub (ss_len line) (ss_pos line) > 18 then Inr (SP_STATE_INIT, False, d)
       else andthen (copy_to_newline 0 (drop (ss_pos line) (ss_str line)) (ss_len line - ss_pos line) (dev_serial d)) (\<lambda>s.
         andthen (getDevicePath sys (d\<lparr>dev_serial := s\<rparr>)) (\<lambda>(found, d). Inr (SP_STATE_INIT, found, d)))))) (\<lambda>(_, _, d'). device_ok d')"
    proof (rule yields_andthen [OF colon])
      fix s1 assume s1: "s1 = ss\<lparr>ss_pos := ss_pos s1\<rparr> \<and> ss_pos ss \<le> ss_pos s1 \<and> ss_pos s1 \<le> ss_len ss"
      then have l1: "ss_len s1 = ss_len ss" "ss_str s1 = ss_str ss" by (metis U_SStream.select_convs U_SStream.surjective U_SStream.update_convs(2))+
      with s1 len obtain q where q: "U_sstream_skip_whitespace s1 = Inr (s1\<lparr>ss_pos := q\<rparr>)" "ss_pos s1 \<le> q" "q \<le> ss_len ss"
        using skip_whitespace_total [of s1] by auto
      have l2: "ss_len (s1\<lparr>ss_pos := q\<rparr>) = ss_len ss" "ss_pos (s1\<lparr>ss_pos := q\<rparr>) = q" "ss_str (s1\<lparr>ss_pos := q\<rparr>) = ss_str ss"
        using l1 by simp_all
      have sub: "u32_sub (ss_len ss) q = ss_len ss - q" using q(3) len(2) by (simp add: c_arith)
      show "yields {} (andthen (U_sstream_skip_whitespace s1) (\<lambda>line.
       if u32_sub (ss_len line) (ss_pos line) > 18 then Inr (SP_STATE_INIT, False, d)
       else andthen (copy_to_newline 0 (drop (ss_pos line) (ss_str line)) (ss_len line - ss_pos line) (dev_serial d)) (\<lambda>s.
         andthen (getDevicePath sys (d\<lparr>dev_serial := s\<rparr>)) (\<lambda>(found, d). Inr (SP_STATE_INIT, found, d))))) (\<lambda>(_, _, d'). device_ok d')"
        unfolding q(1) andthen_simps l2 sub
      proof (rule yields_if)
        assume "\<not> ss_len ss - q > 18"
        then have "yields {} (copy_to_newline 0 (drop q (ss_str ss)) (ss_len ss - q) (dev_serial d)) (nul_in 18)"
          using copy s1 q(2,3) by simp
        then show "yields {} (andthen (copy_to_newline 0 (drop q (ss_str ss)) (ss_len ss - q) (dev_serial d)) (\<lambda>s.
           andthen (getDevicePath sys (d\<lparr>dev_serial := s\<rparr>)) (\<lambda>(found, d). Inr (SP_STATE_INIT, found, d)))) (\<lambda>(_, _, d'). device_ok d')"
          by (rule yields_andthen) (auto intro!: yields_pair [OF getDevicePath_ok [OF sys]] device_updates d)
      qed (use d in simp)
    qed
  qed (use d in simp)
qed

section \<open>The whole text\<close>

lemma mac_line_ok:
  assumes line: "line_ok l" and len: "length l < 2 ^ 32" and sys: "names_ok sys"
    and devs: "devices_array room devs" and cur: "cur < room"
  shows "yields {} (mac_line sys \<lparr>ss_str = l @ r, ss_pos = 0, ss_len = length l, ss_status = U_SSTREAM_OK\<rparr> (st, cur, devs))
    (\<lambda>(_, cur', devs'). cur' \<le> room \<and> devices_array room devs')"
proof -
  define p D where "p = takeWhile blank l" and "D = strip l"
  then have l: "l = p @ D" by (simp add: strip_def)
  let ?line = "\<lparr>ss_str = l @ r, ss_pos = length p, ss_len = length l, ss_status = U_SSTREAM_OK\<rparr>"
  have skip: "U_sstream_skip_whitespace \<lparr>ss_str = l @ r, ss_pos = 0, ss_len = length l, ss_status = U_SSTREAM_OK\<rparr> = Inr ?line"
  proof -
    have "length l = length p + length D" by (subst l) simp
    moreover have "dropWhile blank l = D" by (simp add: D_def strip_def)
    ultimately have "length l - length (dropWhile blank l) = length p" by simp
    then show ?thesis by (subst skip_whitespace_at [where t = l and r = r]) simp_all
  qed
  have on: "on_line p D r ?line" using l len by (simp add: on_line_def)
  have d: "peek devs cur = Inr (devs ! cur)" "device_ok (devs ! cur)" using devs cur by (simp_all add: devices_array_def)
  have name: "yields {} (mac_name ?line (devs ! cur)) (\<lambda>(_, d'). device_ok d')"
    using line by (intro mac_name_ok [OF on _ d(2)]) (simp add: line_ok_def D_def)
  have serial: "yields {} (mac_serial sys ?line (devs ! cur)) (\<lambda>(_, _, d'). device_ok d')"
  proof (rule mac_serial_ok [OF on _ _ sys d(2)])
    show "last D = 0x0A" if "D \<noteq> []"
      using line that l by (simp add: line_ok_def)
    have "take 14 D = bytes ''Serial Number:'' \<Longrightarrow> D \<noteq> l" using line by (simp add: line_ok_def D_def)
    then show "take 14 D = bytes ''Serial Number:'' \<longrightarrow> p \<noteq> []" using l by auto
  qed
  show ?thesis
    unfolding mac_line_def prod.case skip andthen_simps d(1)
  proof (cases st)
    case SP_STATE_INIT
    show "yields {} (case st of
       SP_STATE_INIT \<Rightarrow> andthen (mac_name ?line (devs ! cur)) (\<lambda>(st, d). andthen (poke cur d devs) (\<lambda>devs. Inr (st, cur, devs)))
     | SP_STATE_DEVICE \<Rightarrow> andthen (mac_serial sys ?line (devs ! cur)) (\<lambda>(st, found, d). andthen (poke cur d devs) (\<lambda>devs.
         Inr (st, if found then cur + 1 else cur, devs)))) (\<lambda>(_, cur', devs'). cur' \<le> room \<and> devices_array room devs')"
      unfolding SP_STATE_INIT query_state.case
      by (rule yields_andthen [OF name]) (use cur in \<open>auto intro!: yields_andthen [OF devices_array_poke [OF devs]]\<close>)
  next
    case SP_STATE_DEVICE
    show "yields {} (case st of
       SP_STATE_INIT \<Rightarrow> andthen (mac_name ?line (devs ! cur)) (\<lambda>(st, d). andthen (poke cur d devs) (\<lambda>devs. Inr (st, cur, devs)))
     | SP_STATE_DEVICE \<Rightarrow> andthen (mac_serial sys ?line (devs ! cur)) (\<lambda>(st, found, d). andthen (poke cur d devs) (\<lambda>devs.
         Inr (st, if found then cur + 1 else cur, devs)))) (\<lambda>(_, cur', devs'). cur' \<le> room \<and> devices_array room devs')"
      unfolding SP_STATE_DEVICE query_state.case
      by (rule yields_andthen [OF serial]) (use cur in \<open>auto intro!: yields_andthen [OF devices_array_poke [OF devs]]\<close>)
  qed
qed

text \<open>The text from the current position on is \<open>t\<close>.\<close>

lemma next_line_first:
  assumes "ss_status ss = U_SSTREAM_OK" and "drop (ss_pos ss) (ss_str ss) = t @ r" and "ss_len ss = ss_pos ss + length t"
  shows "next_line ss = Inr (case text_lines t of [] \<Rightarrow> (None, ss)
    | l # ls \<Rightarrow> (Some \<lparr>ss_str = t @ r, ss_pos = 0, ss_len = length l, ss_status = U_SSTREAM_OK\<rparr>, ss\<lparr>ss_pos := ss_pos ss + length l\<rparr>))"
proof (cases "text_lines t")
  case Nil
  with assms show ?thesis by (simp add: next_line_def line_length_first)
next
  case (Cons l ls)
  with first_line [OF Cons] assms show ?thesis by (auto simp: next_line_def line_length_first)
qed

lemma mac_lines_ok:
  assumes "names_ok sys"
  shows "ss_status ss = U_SSTREAM_OK \<Longrightarrow> drop (ss_pos ss) (ss_str ss) = t @ r \<Longrightarrow> ss_len ss = ss_pos ss + length t \<Longrightarrow> length t < 2 ^ 32 \<Longrightarrow>
    \<forall>l\<in>set (text_lines t). line_ok l \<Longrightarrow> devices_array room devs \<Longrightarrow> cur \<le> room \<Longrightarrow>
    yields {} (mac_lines sys room ss (st, cur, devs)) (\<lambda>(_, cur', devs'). cur' \<le> room \<and> devices_array room devs')"
proof (induction "text_lines t" arbitrary: t ss st cur devs)
  case Nil
  then show ?case using next_line_first [OF Nil(2,3,4)] by (subst mac_lines.simps) auto
next
  case (Cons l ls)
  obtain t' where t: "t = l @ t'" "text_lines t' = ls" using first_line [OF Cons(2) [symmetric]] by auto
  have n: "next_line ss = Inr (Some \<lparr>ss_str = l @ t' @ r, ss_pos = 0, ss_len = length l, ss_status = U_SSTREAM_OK\<rparr>, ss\<lparr>ss_pos := ss_pos ss + length l\<rparr>)"
    using next_line_first [OF Cons(3,4,5)] Cons(2) [symmetric] t by simp
  have rest: "drop (ss_pos ss + length l) (ss_str ss) = t' @ r"
    using Cons(4) t(1) by (metis append.assoc append_eq_conv_conj drop_drop add.commute)
  show ?case
  proof (cases "cur < room")
    case True
    have "line_ok l" "length l < 2 ^ 32" using Cons(2) [symmetric] Cons(6,7) t(1) by simp_all
    note step = mac_line_ok [OF this assms Cons(8) True, of "t' @ r" st]
    have "yields {} (andthen (mac_line sys \<lparr>ss_str = l @ t' @ r, ss_pos = 0, ss_len = length l, ss_status = U_SSTREAM_OK\<rparr> (st, cur, devs))
        (mac_lines sys room (ss\<lparr>ss_pos := ss_pos ss + length l\<rparr>))) (\<lambda>(_, cur', devs'). cur' \<le> room \<and> devices_array room devs')"
    proof (rule yields_andthen [OF step], clarify)
      fix st' cur' devs'
      assume "cur' \<le> room" "devices_array room devs'"
      then show "yields {} (mac_lines sys room (ss\<lparr>ss_pos := ss_pos ss + length l\<rparr>) (st', cur', devs')) (\<lambda>(_, cur', devs'). cur' \<le> room \<and> devices_array room devs')"
        using Cons(2) [symmetric] Cons(3,5-7) t rest by (intro Cons(1) [of t']) auto
    qed
    with True n show ?thesis by (subst mac_lines.simps) simp
  next
    case False
    with Cons(8,9) show ?thesis by (subst mac_lines.simps) simp
  qed
qed

text \<open>The text the program keeps of what \<open>system_profiler\<close> prints has the expected form.\<close>

definition text_ok :: "mac_sys \<Rightarrow> bool" where
  "text_ok sys \<longleftrightarrow> (\<forall>out. profiler sys = Some out \<longrightarrow> (\<forall>l\<in>set (text_lines (take 262143 out)). line_ok l))"

text \<open>C36: Whatever devices \<open>system_profiler\<close> lists in a text of the expected form, and whatever the
  names in \<open>/dev\<close> are, \<open>plGetMacOSUSBDevices\<close> ends without a fault, counts at most the devices that
  have room, and leaves in every element terminated strings in fields of their sizes.\<close>

theorem macos_devices_in_bounds:
  assumes "text_ok sys" and "names_ok sys" and "length buf = 262144"
  shows "\<exists>n devs. PL_GetDevices_mac sys buf room = Inr (int n, devs) \<and> n \<le> room \<and> devices_array room devs"
proof -
  have z: "devices_array room (replicate room zero_device)" by (auto simp: devices_array_def)
  have q: "yields {} (plGetMacOSUSBDevices sys buf room (replicate room zero_device)) (\<lambda>(n, devs). n \<le> room \<and> devices_array room devs)"
  proof (cases "profiler sys")
    case (Some out)
    define shown where "shown = take 262143 out"
    have len: "length shown \<le> 262143" by (simp add: shown_def)
    have m: "U_memcpy 0 (shown @ [0]) 0 (length shown + 1) buf = Inr (shown @ 0 # drop (Suc (length shown)) buf)"
      using len assms(3) by (simp add: U_memcpy_eq overwrite_def)
    have "yields {} (mac_lines sys room (U_sstream_init (Some (shown @ 0 # drop (Suc (length shown)) buf)) (length shown)) (SP_STATE_INIT, 0, replicate room zero_device))
        (\<lambda>(_, n, devs). n \<le> room \<and> devices_array room devs)" if "shown \<noteq> []"
      by (rule mac_lines_ok [OF assms(2), where t = shown]) (use len that z assms(1) Some in \<open>auto simp: U_sstream_init_def text_ok_def shown_def\<close>)
    note lines = yields_andthen [OF this]
    show ?thesis
      unfolding plGetMacOSUSBDevices_def queryFromSystemProfiler_def Some option.case Let_def shown_def [symmetric] m andthen_simps
      by (rule yields_if) (auto simp: z intro!: lines)
  qed (simp add: plGetMacOSUSBDevices_def queryFromSystemProfiler_def z)
  show ?thesis
    using q by (auto simp: PL_GetDevices_mac_def yields_def split: sum.splits)
qed

definition one_conbee :: mac_sys where
  "one_conbee = \<lparr>profiler = Some (bytes ''  ConBee II:'' @ 0x0A # bytes ''    Serial Number: DE1'' @ [0x0A]),
     mac_dev_dir = Some [bytes ''cu.usbmodemDE1'']\<rparr>"

lemma macos_devices_in_bounds_witness:
  "\<exists>n devs. PL_GetDevices_mac one_conbee (replicate 262144 0) 4 = Inr (int n, devs) \<and> n \<le> 4 \<and> devices_array 4 devs"
proof (rule macos_devices_in_bounds)
  have "take 262143 (bytes ''  ConBee II:'' @ 0x0A # bytes ''    Serial Number: DE1'' @ [0x0A])
      = bytes ''  ConBee II:'' @ 0x0A # bytes ''    Serial Number: DE1'' @ [0x0A]"
    by (rule take_all) (simp add: bytes_def)
  moreover have "text_lines (bytes ''  ConBee II:'' @ 0x0A # bytes ''    Serial Number: DE1'' @ [0x0A])
      = [bytes ''  ConBee II:'' @ [0x0A], bytes ''    Serial Number: DE1'' @ [0x0A]]"
    by (simp add: bytes_def)
  ultimately show "text_ok one_conbee"
    by (simp add: text_ok_def one_conbee_def) (simp add: line_ok_def strip_def blank_def bytes_def)
qed (simp_all add: names_ok_def one_conbee_def bytes_def)

section \<open>The last line without a newline\<close>

text \<open>A serial number of 18 characters in the last line is copied whole, and terminated behind the 18 bytes of the array.\<close>

lemma copy_to_newline_long:
  "length buf = 18 \<Longrightarrow> i + k = 18 \<Longrightarrow> k \<le> length s \<Longrightarrow> 0x0A \<notin> set (take k s) \<Longrightarrow> copy_to_newline i s k buf = Inl OutOfBounds"
proof (induction i s k buf rule: copy_to_newline.induct)
  case (3 i c cs k buf)
  then show ?case by auto
qed (simp_all add: poke_def)

end
