(* ===== verification/Windows_Devices.thy ===== *)
theory Windows_Devices
  imports Linux_Devices
begin

text \<open>
  The device enumeration of \<open>main_windows.c\<close>: \<open>GetComPort\<close> and \<open>PL_GetDevices\<close>, as built
  with a compiler that has \<open>SetupDiGetDevicePropertyW\<close>.

  What the setup API and the registry answer about one device of an enumerator is the record
  \<open>win_info\<close>; an enumerator has a list of them, or \<open>None\<close> for \<open>INVALID_HANDLE_VALUE\<close>.
\<close>

text \<open>
  \<open>instance_id\<close>: the instance id, empty where the call fails; \<open>bus_desc\<close>: whether the property
  is a string, and the 128 wide characters of \<open>wcbuf\<close>; \<open>hardware_id\<close>: whether the call
  succeeds; \<open>dev_key\<close>: whether the key opens; \<open>port_name\<close>: the 20 bytes of \<open>pszPortName\<close>
  where the value is a \<open>REG_SZ\<close>.
\<close>

record win_info =
  instance_id :: "byte list"
  bus_desc :: "(bool \<times> 16 word list) option"
  hardware_id :: bool
  dev_key :: bool
  port_name :: "byte list option"

type_synonym win_infos = "string \<Rightarrow> win_info list option"

section \<open>The instance id\<close>

text \<open>The chain of conditions, with the values of \<open>vid\<close> and \<open>pid\<close>; a failed pair may have moved the stream.\<close>

definition usb_ids :: "(string \<times> string \<times> nat \<times> nat) list" where
  "usb_ids = [
     (''VID_1CF1'', ''PID_0030'', 0x1CF1, 0x0030),
     (''VID_0403'', ''PID_6015'', 0x0403, 0x6015),
     (''VID_1A86'', ''PID_7523'', 0x1A86, 0x7523),
     (''VID_303A'', ''PID_1001'', 0x303A, 0x1001)]"

fun usb_id :: "(string \<times> string \<times> nat \<times> nat) list \<Rightarrow> (U_SStream, (nat \<times> nat) option) op" where
  "usb_id [] ss = Inr (None, ss)"
| "usb_id ((v, p, vid, pid) # ids) ss =
     andthen (U_sstream_find (bytes v) ss) (\<lambda>(b, ss).
     andthen (if b then U_sstream_find (bytes p) ss else Inr (False, ss)) (\<lambda>(b, ss).
       if b then Inr (Some (vid, pid), ss) else usb_id ids ss))"

text \<open>The copy of the serial number from \<open>ss.pos\<close> on; the result is \<open>i\<close> and the array of 18 bytes.\<close>

function serial_loop :: "nat \<Rightarrow> byte list \<Rightarrow> U_SStream \<Rightarrow> fault + (nat \<times> byte list)" where
  "serial_loop i buf ss =
     (if ss_pos ss < ss_len ss
      then if i + 2 \<ge> MAX_DEV_SERIALNR_LENGTH then Inr (i, buf)
      else andthen (peek (ss_str ss) (ss_pos ss)) (\<lambda>ch.
        if alnum ch then andthen (poke i ch buf) (\<lambda>buf'. serial_loop (i + 1) buf' (ss\<lparr>ss_pos := ss_pos ss + 1\<rparr>))
        else if ch = 0x5C \<and> i \<noteq> 0
        then andthen (peek buf (i - 1)) (\<lambda>c. if c = 0x41 then andthen (poke (i - 1) 0 buf) (\<lambda>buf'. Inr (i, buf')) else Inr (i, buf))
        else Inr (i, buf))
      else Inr (i, buf))"
  by pat_completeness auto
termination by (relation "measure (\<lambda>(i, buf, ss). ss_len ss - ss_pos ss)") auto

declare serial_loop.simps [simp del]

text \<open>\<open>serial\<close> behind the three branches, \<open>None\<close> for \<open>continue\<close>. Behind its NUL the array is not read.\<close>

definition usb_serial :: "nat \<times> nat \<Rightarrow> U_SStream \<Rightarrow> fault + byte list option" where
  "usb_serial ids ss = andthen (U_sstream_peek_char ss) (\<lambda>c.
     if c = 0x2B \<or> c = 0x5C
     then andthen (serial_loop 0 (replicate MAX_DEV_SERIALNR_LENGTH 0) (ss\<lparr>ss_pos := ss_pos ss + 1\<rparr>)) (\<lambda>(i, buf).
       andthen (poke i 0 buf) (\<lambda>buf. Inr (Some buf)))
     else if ids = (0x303A, 0x1001)
     then andthen (U_memcpy 0 (bytes ''unknown'' @ [0]) 0 8 (replicate MAX_DEV_SERIALNR_LENGTH 0)) (\<lambda>buf. Inr (Some buf))
     else Inr None)"

text \<open>The ids and the serial number of a device, \<open>None\<close> where the loop goes on with the next.\<close>

definition usb_device :: "byte list \<Rightarrow> fault + ((nat \<times> nat) \<times> byte list) option" where
  "usb_device iid = (if iid = [] then Inr None
     else andthen (usb_id usb_ids (U_sstream_init (Some (iid @ [0])) (length iid))) (\<lambda>(found, ss). case found of None \<Rightarrow> Inr None
       | Some ids \<Rightarrow> andthen (usb_serial ids (ss\<lparr>ss_pos := ss_pos ss + 8\<rparr>)) (\<lambda>buf. case buf of None \<Rightarrow> Inr None
         | Some buf \<Rightarrow> andthen (c_string buf) (\<lambda>s. Inr (if s = [] then None else Some (ids, s))))))"

section \<open>The slot of the device\<close>

text \<open>The first loop: the index of a device whose serial number starts with this one.\<close>

fun known_slot :: "byte list \<Rightarrow> nat \<Rightarrow> Device list \<Rightarrow> fault + nat option" where
  "known_slot s i [] = Inr None"
| "known_slot s i (d # ds) = andthen (U_strlen (dev_serial d)) (\<lambda>n.
     andthen (U_sstream_starts_with s (U_sstream_init (Some (dev_serial d)) n)) (\<lambda>b.
       if b then Inr (Some i) else known_slot s (i + 1) ds))"

fun free_slot :: "nat \<Rightarrow> Device list \<Rightarrow> fault + nat option" where
  "free_slot i [] = Inr None"
| "free_slot i (d # ds) = andthen (peek (dev_serial d) 0) (\<lambda>c. if c = 0 then Inr (Some i) else free_slot (i + 1) ds)"

text \<open>\<open>dev\<close> as an index, with \<open>devcount\<close> and the array.\<close>

definition find_slot :: "byte list \<Rightarrow> nat \<Rightarrow> Device list \<Rightarrow> fault + (nat option \<times> nat \<times> Device list)" where
  "find_slot s count devs = andthen (known_slot s 0 devs) (\<lambda>j. case j of Some j \<Rightarrow> Inr (Some j, count, devs)
     | None \<Rightarrow> andthen (free_slot 0 devs) (\<lambda>j. case j of None \<Rightarrow> Inr (None, count, devs)
       | Some j \<Rightarrow> andthen (peek devs j) (\<lambda>d.
           andthen (U_sstream_put_str s (U_sstream_init (Some (dev_serial d)) MAX_DEV_SERIALNR_LENGTH)) (\<lambda>ss.
           andthen (poke j (d\<lparr>dev_serial := ss_str ss\<rparr>) devs) (\<lambda>devs'. Inr (Some j, count + 1, devs'))))))"

section \<open>The name\<close>

text \<open>The copy of \<open>wcbuf\<close> into \<open>szBuffer\<close>, and the copy of \<open>szBuffer\<close> into the name.\<close>

fun narrow :: "16 word list \<Rightarrow> fault + byte list" where
  "narrow [] = Inl OutOfBounds"
| "narrow (w # ws) = (if w = 0 then Inr [0] else andthen (narrow ws) (\<lambda>s. Inr (ucast w # s)))"

fun copy_name :: "nat \<Rightarrow> byte list \<Rightarrow> byte list \<Rightarrow> fault + byte list" where
  "copy_name i [] buf = Inl OutOfBounds"
| "copy_name i (c # cs) buf = (if i < 32 \<and> c \<noteq> 0 then andthen (poke i c buf) (copy_name (i + 1) cs) else poke i 0 buf)"

definition set_name :: "string \<Rightarrow> baudrate \<Rightarrow> Device \<Rightarrow> fault + Device" where
  "set_name s baud d = andthen (U_sstream_put_str (bytes s) (U_sstream_init (Some (dev_name d)) 32)) (\<lambda>ss.
     Inr (d\<lparr>dev_name := ss_str ss, dev_baudrate := baud\<rparr>))"

definition name_by_vendor :: "nat \<Rightarrow> Device \<Rightarrow> fault + Device" where
  "name_by_vendor vid d = andthen (U_strlen (dev_name d)) (\<lambda>n.
     andthen (U_sstream_starts_with (bytes ''ConBee'') (U_sstream_init (Some (dev_name d)) n)) (\<lambda>b.
     if b then Inr (d\<lparr>dev_baudrate := PL_BAUDRATE_115200\<rparr>)
     else if vid = 0x0403 then set_name ''Serial FTDI'' PL_BAUDRATE_38400 d
     else if vid = 0x1A86 then set_name ''Serial CH340'' PL_BAUDRATE_115200 d
     else if vid = 0x303A then set_name ''Espressif'' PL_BAUDRATE_115200 d
     else Inr d))"

definition describe :: "win_info \<Rightarrow> nat \<Rightarrow> Device \<Rightarrow> fault + Device" where
  "describe info vid d = (case bus_desc info of
     Some (True, wcbuf) \<Rightarrow> andthen (narrow wcbuf) (\<lambda>sz. andthen (peek (dev_name d) 0) (\<lambda>c.
       if c \<noteq> 0x43 then andthen (copy_name 0 sz (dev_name d)) (\<lambda>nbuf. name_by_vendor vid (d\<lparr>dev_name := nbuf\<rparr>))
       else Inr d))
   | _ \<Rightarrow> Inr d)"

section \<open>The port\<close>

text \<open>The copy of the port name into both paths, from \<open>sz\<close> on.\<close>

fun copy_port :: "nat \<Rightarrow> byte list \<Rightarrow> Device \<Rightarrow> fault + Device" where
  "copy_port sz [] d = Inl OutOfBounds"
| "copy_port sz (c # cs) d =
     (let put = (\<lambda>v. andthen (poke sz v (dev_path d)) (\<lambda>p. andthen (poke sz v (dev_stablepath d)) (\<lambda>q.
        Inr (d\<lparr>dev_path := p, dev_stablepath := q\<rparr>))))
      in if c \<noteq> 0 \<and> sz + 1 < MAX_DEV_PATH_LENGTH then andthen (put c) (copy_port (sz + 1) cs) else put 0)"

definition com_port :: "byte list \<Rightarrow> fault + bool" where
  "com_port name = andthen (match_at name 0 (bytes ''COM'')) (\<lambda>b. if \<not> b then Inr False
     else andthen (peek name 3) (\<lambda>c. Inr (0x30 \<le> c \<and> c \<le> 0x39)))"

definition set_port :: "win_info \<Rightarrow> Device \<Rightarrow> fault + Device" where
  "set_port info d = (case port_name info of
     Some name \<Rightarrow> if hardware_id info \<and> dev_key info
       then andthen (com_port name) (\<lambda>b. if b then copy_port 0 name d else Inr d) else Inr d
   | None \<Rightarrow> Inr d)"

section \<open>\<open>GetComPort\<close> and \<open>PL_GetDevices\<close>\<close>

text \<open>
  One pass of the loop: \<open>devcount\<close>, the array and how often \<open>ALL SLOTS FULL\<close> was printed. The
  test in front of the port reads the name of the first device, \<open>devs->name\<close>.
\<close>

definition com_pass :: "win_info \<Rightarrow> nat \<times> Device list \<times> nat \<Rightarrow> fault + (nat \<times> Device list \<times> nat)" where
  "com_pass info = (\<lambda>(count, devs, full). andthen (usb_device (instance_id info)) (\<lambda>u. case u of None \<Rightarrow> Inr (count, devs, full)
     | Some ((vid, pid), s) \<Rightarrow> andthen (find_slot s count devs) (\<lambda>(j, count, devs). case j of None \<Rightarrow> Inr (count, devs, full + 1)
       | Some j \<Rightarrow> andthen (peek devs j) (\<lambda>d. andthen (describe info vid d) (\<lambda>d. andthen (poke j d devs) (\<lambda>devs.
           andthen (peek devs 0) (\<lambda>d0. andthen (peek (dev_name d0) 0) (\<lambda>c. if c = 0 then Inr (count, devs, full)
             else andthen (set_port info d) (\<lambda>d. andthen (poke j d devs) (\<lambda>devs. Inr (count, devs, full)))))))))))"

fun com_passes :: "nat \<Rightarrow> win_info list \<Rightarrow> nat \<times> Device list \<times> nat \<Rightarrow> fault + (nat \<times> Device list \<times> nat)" where
  "com_passes room [] st = Inr st"
| "com_passes room (info # is) st = (if fst st < room then andthen (com_pass info st) (com_passes room is) else Inr st)"

definition GetComPort :: "win_infos \<Rightarrow> string \<Rightarrow> nat \<Rightarrow> Device list \<times> nat \<Rightarrow> fault + (nat \<times> Device list \<times> nat)" where
  "GetComPort W enumerator room = (\<lambda>(devs, full). if room = 0 then Inr (0, devs, full)
     else case W enumerator of None \<Rightarrow> Inr (0, devs, full) | Some infos \<Rightarrow> com_passes room infos (0, devs, full))"

text \<open>The result of \<open>PL_GetDevices\<close>, the array and the number of messages.\<close>

definition PL_GetDevices_windows :: "win_infos \<Rightarrow> nat \<Rightarrow> fault + (int \<times> Device list \<times> nat)" where
  "PL_GetDevices_windows W room =
     andthen (GetComPort W ''USB'' room (replicate room zero_device, 0)) (\<lambda>(_, st).
     andthen (GetComPort W ''FTDIBUS'' room st) (\<lambda>(_, devs, full).
       Inr (int (length (filter (\<lambda>d. dev_serial d ! 0 \<noteq> 0 \<and> dev_path d ! 0 \<noteq> 0) devs)), devs, full)))"

end
