(* ===== verification/Gcf_Windows_Devices.thy ===== *)
theory Gcf_Windows_Devices
  imports Device_Array Windows_Devices
begin

text \<open>
  The device enumeration of Windows keeps to its arrays as long as no description of a device
  has 32 or more characters and the names of ports are terminated, and then provides the device list
  the safety of the program rests on. The two instance ids of an FTDI device name the same serial number.
  A longer description is written behind the array of the name, and a port name without a NUL is read
  behind its buffer.
\<close>

section \<open>The instance id\<close>

lemma find_end_readable:
  "readable ss \<Longrightarrow> yields {} (U_sstream_find s ss) (\<lambda>(b, ss'). readable ss' \<and> (b \<longrightarrow> ss_pos ss' + length s \<le> ss_len ss'))"
  using find_loop_spec [of "ss_len ss" "ss_str ss" s "ss_pos ss"]
  by (auto simp: readable_def U_sstream_find_def occurs_at_def)

lemma usb_id_ok:
  "readable ss \<Longrightarrow> \<forall>(v, p, x) \<in> set ids. length p = 8 \<Longrightarrow>
   yields {} (usb_id ids ss) (\<lambda>(r, ss'). r \<noteq> None \<longrightarrow> readable (ss'\<lparr>ss_pos := ss_pos ss' + 8\<rparr>))"
proof (induction ids arbitrary: ss)
  case (Cons x ids)
  obtain v p vid pid where x: "x = (v, p, vid, pid)" by (cases x)
  with Cons.prems have p: "length p = 8" and rest: "\<forall>(v, p, x) \<in> set ids. length p = 8" by auto
  have second: "yields {} (if b then U_sstream_find (bytes p) ss1 else Inr (False, ss1))
      (\<lambda>(b, ss'). readable ss' \<and> (b \<longrightarrow> ss_pos ss' + 8 \<le> ss_len ss'))" if "readable ss1" for b ss1
    using find_end_readable [OF that, of "bytes p"] that p by (auto elim: yields_mono)
  show ?case
    unfolding x usb_id.simps
    by (rule yields_pair [OF find_end_readable [OF Cons.prems(1)]], rule yields_pair [OF second], simp, rule yields_if,
        simp add: readable_next, rule Cons.IH [OF _ rest], simp)
qed simp

lemma serial_loop_ok:
  assumes "ss_len ss \<le> length (ss_str ss)" and "length buf = 18" and "i \<le> 16"
  shows "yields {} (serial_loop i buf ss) (\<lambda>(j, buf'). j \<le> 16 \<and> length buf' = 18)"
  using assms
proof (induction i buf ss rule: serial_loop.induct)
  case (1 i buf ss)
  show ?case
  proof (cases "ss_pos ss < ss_len ss \<and> \<not> i + 2 \<ge> 18")
    case False
    with 1(3,4) show ?thesis by (subst serial_loop.simps) auto
  next
    case True
    then have "peek (ss_str ss) (ss_pos ss) = Inr (ss_str ss ! ss_pos ss)" using 1(2) by simp
    with True 1(1) [OF _ _ this] 1(2-) show ?thesis
      by (subst serial_loop.simps) simp
  qed
qed

lemma usb_serial_ok:
  assumes "readable ss"
  shows "yields {} (usb_serial ids ss) (\<lambda>r. \<forall>buf. r = Some buf \<longrightarrow> 0 \<in> set buf)"
proof -
  have c: "yields {} (U_sstream_peek_char ss) (\<lambda>_. True)"
    using assms by (simp add: U_sstream_peek_char_def readable_def)
  have "yields {} (andthen (serial_loop 0 (replicate 18 0) (ss\<lparr>ss_pos := ss_pos ss + 1\<rparr>)) (\<lambda>(i, buf).
       andthen (poke i 0 buf) (\<lambda>buf. Inr (Some buf)))) (\<lambda>r. \<forall>buf. r = Some buf \<longrightarrow> 0 \<in> set buf)"
    by (rule yields_pair [OF serial_loop_ok]) (use assms in \<open>auto simp: readable_def set_update_memI\<close>)
  then show ?thesis
    unfolding usb_serial_def
    by (intro yields_andthen [OF c] yields_if) (auto simp: U_memcpy_eq overwrite_def)
qed

lemma usb_ids_ok: "readable ss \<Longrightarrow> yields {} (usb_id usb_ids ss) (\<lambda>(r, ss'). r \<noteq> None \<longrightarrow> readable (ss'\<lparr>ss_pos := ss_pos ss' + 8\<rparr>))"
  by (rule usb_id_ok) (simp_all add: usb_ids_def)

lemma usb_device_ok:
  assumes "length iid < 2 ^ 32"
  shows "yields {} (usb_device iid) (\<lambda>_. True)"
proof -
  have r: "readable (U_sstream_init (Some (iid @ [0])) (length iid))"
    using assms by (simp add: readable_def U_sstream_init_def)
  show ?thesis
    unfolding usb_device_def
    by (intro yields_if yields_pair [OF usb_ids_ok [OF r]])
       (auto intro!: yields_andthen [OF usb_serial_ok] split: option.splits simp: c_string_def)
qed

section \<open>The slot\<close>

lemma known_slot_ok:
  "\<forall>d\<in>set ds. device_ok d \<Longrightarrow> yields {} (known_slot s i ds) (\<lambda>r. \<forall>j. r = Some j \<longrightarrow> i \<le> j \<and> j < i + length ds)"
proof (induction ds arbitrary: i)
  case (Cons d ds)
  then have d: "device_ok d" by simp
  then obtain n where n: "U_strlen (dev_serial d) = Inr n" "n < 18"
    using nul_string [OF device_parts(1)] by blast
  then have "readable (U_sstream_init (Some (dev_serial d)) n)"
    using device_parts(1) [OF d] by (simp add: readable_def U_sstream_init_def nul_in_def)
  note starts = yields_andthen [OF starts_with_total [OF this]]
  have "yields {} (known_slot s (i + 1) ds) (\<lambda>r. \<forall>j. r = Some j \<longrightarrow> i + 1 \<le> j \<and> j < i + 1 + length ds)"
    using Cons.IH [of "i + 1"] Cons.prems by simp
  then have "yields {} (known_slot s (i + 1) ds) (\<lambda>r. \<forall>j. r = Some j \<longrightarrow> i \<le> j \<and> j < i + length (d # ds))"
    by (rule yields_mono) auto
  then show ?case by (auto simp: n intro!: starts)
qed simp

lemma free_slot_ok:
  "\<forall>d\<in>set ds. device_ok d \<Longrightarrow> yields {} (free_slot i ds) (\<lambda>r. \<forall>j. r = Some j \<longrightarrow> i \<le> j \<and> j < i + length ds)"
proof (induction ds arbitrary: i)
  case (Cons d ds)
  have "yields {} (free_slot (i + 1) ds) (\<lambda>r. \<forall>j. r = Some j \<longrightarrow> i \<le> j \<and> j < i + length (d # ds))"
    using Cons.IH [of "i + 1"] Cons.prems by (auto elim!: yields_mono)
  then show ?case using Cons.prems by (auto simp: first_byte [OF device_parts(1)])
qed simp

lemma find_slot_ok:
  assumes "devices_array n devs"
  shows "yields {} (find_slot s count devs) (\<lambda>(j, count', devs'). devices_array n devs' \<and> (\<forall>k. j = Some k \<longrightarrow> k < n))"
proof -
  have len: "length devs = n" and ok: "\<forall>d\<in>set devs. device_ok d" using assms by (auto simp: devices_array_def)
  have put: "yields {} (andthen (peek devs j) (\<lambda>d.
           andthen (U_sstream_put_str s (U_sstream_init (Some (dev_serial d)) 18)) (\<lambda>ss.
           andthen (poke j (d\<lparr>dev_serial := ss_str ss\<rparr>) devs) (\<lambda>devs'. Inr (Some j, count + 1, devs')))))
      (\<lambda>(j, count', devs'). devices_array n devs' \<and> (\<forall>k. j = Some k \<longrightarrow> k < n))" if "j < n" for j
  proof -
    have d: "peek devs j = Inr (devs ! j)" "device_ok (devs ! j)" using that len ok by simp_all
    have "yields {} (U_sstream_put_str s (U_sstream_init (Some (dev_serial (devs ! j))) 18)) (over 18)"
      by (rule yields_hoare [OF put_str_over over_init [OF device_parts(1) [OF d(2)]]])
    then show ?thesis
      unfolding d(1) andthen_simps
      by (rule yields_andthen)
         (auto intro!: yields_andthen [OF devices_array_poke [OF assms]] device_updates d(2) simp: over_def that)
  qed
  show ?thesis
    unfolding find_slot_def
  proof (rule yields_andthen [OF known_slot_ok [OF ok]], goal_cases)
    case (1 r)
    show ?case
    proof (cases r)
      case None
      show ?thesis
        unfolding None option.case
      proof (rule yields_andthen [OF free_slot_ok [OF ok]], goal_cases)
        case (1 r2)
        show ?case
        proof (cases r2)
          case (Some k)
          with 1 len have "k < n" by simp
          then show ?thesis unfolding Some option.case by (rule put)
        qed (simp add: assms)
      qed
    qed (use 1 len assms in simp)
  qed
qed

section \<open>The name and the port\<close>

lemma narrow_ok: "0 \<in> set (take k ws) \<Longrightarrow> yields {} (narrow ws) (\<lambda>s. 0 \<in> set (take k s))"
proof (induction ws arbitrary: k)
  case (Cons w ws)
  then show ?case by (cases k) (auto elim!: yields_andthen intro!: yields_andthen)
qed simp

lemma copy_name_ok:
  "length buf = 32 \<Longrightarrow> 0 \<in> set (take (32 - i) cs) \<Longrightarrow> i < 32 \<Longrightarrow> yields {} (copy_name i cs buf) (nul_in 32)"
proof (induction i cs buf rule: copy_name.induct)
  case (2 i c cs buf)
  have "0 \<in> set (take (32 - (i + 1)) cs)" if "c \<noteq> 0"
  proof -
    have "32 - i = Suc (32 - (i + 1))" using 2(4) by simp
    then show ?thesis using 2(3) that by (metis set_ConsD take_Suc_Cons)
  qed
  then show ?case using 2 by (cases "i = 31") (auto simp: nul_in_def set_update_memI)
qed simp

lemma set_name_ok: "device_ok d \<Longrightarrow> yields {} (set_name s baud d) device_ok"
  unfolding set_name_def
  by (rule yields_andthen [OF yields_hoare [OF put_str_over over_init [OF device_parts(2)]]])
     (auto simp: over_def device_updates device_parts)

lemma name_by_vendor_ok:
  assumes "device_ok d"
  shows "yields {} (name_by_vendor vid d) device_ok"
proof -
  obtain n where n: "U_strlen (dev_name d) = Inr n" "n < 32"
    using nul_string [OF device_parts(2) [OF assms]] by blast
  then have "readable (U_sstream_init (Some (dev_name d)) n)"
    using device_parts(2) [OF assms] by (simp add: readable_def U_sstream_init_def nul_in_def)
  then show ?thesis
    unfolding name_by_vendor_def using assms
    by (auto simp: n device_updates intro!: yields_andthen [OF starts_with_total] set_name_ok)
qed

text \<open>
  The buffers the system fills: the instance id fits \<open>szBuffer\<close>, a description ends within 32
  characters, the name of a port is terminated.
\<close>

definition info_ok :: "win_info \<Rightarrow> bool" where
  "info_ok info \<longleftrightarrow> length (instance_id info) < 256
     \<and> (\<forall>w. bus_desc info = Some (True, w) \<longrightarrow> 0 \<in> set (take 32 w))
     \<and> (\<forall>p. port_name info = Some p \<longrightarrow> length p = 20 \<and> 0 \<in> set p)"

lemma describe_ok:
  assumes "info_ok info" and "device_ok d"
  shows "yields {} (describe info vid d) device_ok"
proof -
  have c: "peek (dev_name d) 0 = Inr (dev_name d ! 0)" using first_byte [OF device_parts(2) [OF assms(2)]] by simp
  have n: "length (dev_name d) = 32" using device_parts(2) [OF assms(2)] by (simp add: nul_in_def)
  have "yields {} (andthen (narrow w) (\<lambda>sz. andthen (peek (dev_name d) 0) (\<lambda>c.
      if c \<noteq> 0x43 then andthen (copy_name 0 sz (dev_name d)) (\<lambda>nbuf. name_by_vendor vid (d\<lparr>dev_name := nbuf\<rparr>))
      else Inr d))) device_ok" if "0 \<in> set (take 32 w)" for w
    by (rule yields_andthen [OF narrow_ok [OF that]])
       (auto simp: c assms(2) device_updates intro!: yields_andthen [OF copy_name_ok [OF n]] name_by_vendor_ok)
  then show ?thesis
    using assms by (auto simp: describe_def info_ok_def split: option.splits bool.splits)
qed

definition paths_ready :: "Device \<Rightarrow> bool" where
  "paths_ready d \<longleftrightarrow> nul_in 32 (dev_name d) \<and> nul_in 18 (dev_serial d) \<and> length (dev_path d) = 255 \<and> length (dev_stablepath d) = 255"

lemma copy_port_ok: "0 \<in> set cs \<Longrightarrow> sz < 255 \<Longrightarrow> paths_ready d \<Longrightarrow> yields {} (copy_port sz cs d) device_ok"
proof (induction sz cs d rule: copy_port.induct)
  case (2 sz c cs d)
  have put: "andthen (poke sz v (dev_path d)) (\<lambda>p. andthen (poke sz v (dev_stablepath d)) (\<lambda>q.
      Inr (d\<lparr>dev_path := p, dev_stablepath := q\<rparr>))) = Inr (d\<lparr>dev_path := (dev_path d)[sz := v], dev_stablepath := (dev_stablepath d)[sz := v]\<rparr>)" for v
    using "2.prems"(2,3) by (simp add: paths_ready_def)
  have "device_ok (d\<lparr>dev_path := (dev_path d)[sz := 0], dev_stablepath := (dev_stablepath d)[sz := 0]\<rparr>)"
    using "2.prems"(2,3) by (simp add: paths_ready_def device_ok_def nul_in_def set_update_memI)
  moreover have "paths_ready (d\<lparr>dev_path := (dev_path d)[sz := c], dev_stablepath := (dev_stablepath d)[sz := c]\<rparr>)"
    using "2.prems"(3) by (simp add: paths_ready_def)
  ultimately show ?case
    using "2.IH" [OF refl] "2.prems" unfolding copy_port.simps Let_def put by auto
qed simp

lemma set_port_ok:
  assumes "info_ok info" and "device_ok d"
  shows "yields {} (set_port info d) device_ok"
proof -
  have "yields {} (com_port p) (\<lambda>_. True)" if "length p = 20" for p
    using that by (auto simp: com_port_def match_at_eq intro!: yields_andthen)
  moreover have "paths_ready d" using assms(2) by (simp add: paths_ready_def device_ok_def nul_in_def)
  ultimately show ?thesis
    using assms by (auto simp: set_port_def info_ok_def intro!: yields_andthen copy_port_ok split: option.splits)
qed

section \<open>The whole enumeration\<close>

lemma com_pass_ok:
  assumes "info_ok info" and "devices_array n devs" and "0 < n"
  shows "yields {} (com_pass info (count, devs, full)) (\<lambda>(_, devs', _). devices_array n devs')"
proof -
  have iid: "length (instance_id info) < 2 ^ 32" using assms(1) by (simp add: info_ok_def)
  have slot: "yields {} (andthen (peek devs j) (\<lambda>d. andthen (describe info vid d) (\<lambda>d. andthen (poke j d devs) (\<lambda>devs.
           andthen (peek devs 0) (\<lambda>d0. andthen (peek (dev_name d0) 0) (\<lambda>c. if c = 0 then Inr (count, devs, full)
             else andthen (set_port info d) (\<lambda>d. andthen (poke j d devs) (\<lambda>devs. Inr (count, devs, full)))))))))
      (\<lambda>(_, devs', _). devices_array n devs')" if "devices_array n devs" "j < n" for count :: nat and devs vid j and full :: nat
  proof -
    have d: "peek devs j = Inr (devs ! j)" "device_ok (devs ! j)" using that by (simp_all add: devices_array_def)
    show ?thesis
      unfolding d(1) andthen_simps
    proof (rule yields_andthen [OF describe_ok [OF assms(1) d(2)]], rule yields_andthen [OF devices_array_poke [OF that(1) _ that(2)]])
      fix d' devs' assume d': "device_ok d'" and devs': "devices_array n devs'"
      then have "peek devs' 0 = Inr (devs' ! 0)" "peek (dev_name (devs' ! 0)) 0 = Inr (dev_name (devs' ! 0) ! 0)"
        using assms(3) first_byte [OF device_parts(2), of "devs' ! 0"] by (auto simp: devices_array_def)
      then show "yields {} (andthen (peek devs' 0) (\<lambda>d0. andthen (peek (dev_name d0) 0) (\<lambda>c. if c = 0 then Inr (count, devs', full)
             else andthen (set_port info d') (\<lambda>d. andthen (poke j d devs') (\<lambda>devs. Inr (count, devs, full))))))
             (\<lambda>(_, devs', _). devices_array n devs')"
        using devs' that(2)
        by (auto intro!: yields_andthen [OF set_port_ok [OF assms(1) d']] yields_andthen [OF devices_array_poke])
    qed
  qed
  show ?thesis
    unfolding com_pass_def prod.case
    by (rule yields_andthen [OF usb_device_ok [OF iid]])
       (auto intro!: yields_andthen [OF find_slot_ok [OF assms(2)]] slot simp: assms(2) split: option.splits)
qed

lemma com_passes_ok:
  "\<forall>info\<in>set infos. info_ok info \<Longrightarrow> devices_array n devs \<Longrightarrow> 0 < n \<Longrightarrow>
   yields {} (com_passes n infos (count, devs, full)) (\<lambda>(_, devs', _). devices_array n devs')"
proof (induction infos arbitrary: count devs full)
  case (Cons info infos)
  then show ?case by (auto intro!: yields_andthen [OF com_pass_ok])
qed simp

definition infos_ok :: "win_infos \<Rightarrow> bool" where
  "infos_ok W \<longleftrightarrow> (\<forall>enumerator infos. W enumerator = Some infos \<longrightarrow> (\<forall>info\<in>set infos. info_ok info))"

lemma GetComPort_ok:
  "infos_ok W \<Longrightarrow> devices_array n devs \<Longrightarrow> yields {} (GetComPort W enumerator n (devs, full)) (\<lambda>(_, devs', _). devices_array n devs')"
  by (auto simp: GetComPort_def infos_ok_def split: option.splits intro!: com_passes_ok)

lemma windows_devices_yield:
  assumes "infos_ok W"
  shows "yields {} (PL_GetDevices_windows W room) (\<lambda>(n, devs, full). 0 \<le> n \<and> n \<le> int room \<and> devices_array room devs)"
  unfolding PL_GetDevices_windows_def
proof (rule yields_andthen [OF GetComPort_ok [OF assms]])
  show "devices_array room (replicate room zero_device)" by (auto simp: devices_array_def)
next
  fix st :: "nat \<times> Device list \<times> nat"
  assume st: "case st of (_, devs', _) \<Rightarrow> devices_array room devs'"
  obtain c devs full where s: "st = (c, devs, full)" by (cases st)
  show "yields {} (case st of (_, st) \<Rightarrow> andthen (GetComPort W ''FTDIBUS'' room st) (\<lambda>(_, devs, full).
      Inr (int (length (filter (\<lambda>d. dev_serial d ! 0 \<noteq> 0 \<and> dev_path d ! 0 \<noteq> 0) devs)), devs, full)))
      (\<lambda>(n, devs, full). 0 \<le> n \<and> n \<le> int room \<and> devices_array room devs)"
    unfolding s prod.case
    by (rule yields_andthen [OF GetComPort_ok [OF assms]])
       (use st s in \<open>auto simp: devices_array_def intro: order_trans [OF length_filter_le]\<close>)
qed

section \<open>The two instance ids of an FTDI device\<close>

lemma find_at:
  assumes "len \<le> length buf" and "occurs_at buf len s q" and "pos \<le> q"
    and "\<And>p. pos \<le> p \<Longrightarrow> occurs_at buf len s p \<Longrightarrow> q \<le> p"
  shows "find_loop buf len s pos = Inr (Some q)"
  using find_loop_spec [OF assms(1), of s pos] assms(2-) by (metis le_neq_implies_less)

lemma find_none:
  assumes "len \<le> length buf" and "\<And>p. pos \<le> p \<Longrightarrow> \<not> occurs_at buf len s p"
  shows "find_loop buf len s pos = Inr None"
  using find_loop_spec [OF assms(1), of s pos] assms(2) by blast

text \<open>An id can only occur where the text has its underscore, and the serial number has none.\<close>

lemma occurs_nth: "occurs_at buf len s p \<Longrightarrow> i < length s \<Longrightarrow> len \<le> length buf \<Longrightarrow> buf ! (p + i) = s ! i"
  using nth_take [of i "length s" "drop p buf"] by (simp add: occurs_at_def)

lemma occurs_underscore:
  assumes "occurs_at (pre @ t @ [0]) (length (pre @ t)) s p" and "3 < length s" and "s ! 3 = 0x5F" and "0x5F \<notin> set t"
  shows "p + 3 \<in> set (filter (\<lambda>i. pre ! i = 0x5F) [0..<length pre])"
proof -
  have at: "(pre @ t @ [0]) ! (p + 3) = 0x5F" "p + 3 < length (pre @ t)"
    using occurs_nth [OF assms(1,2)] assms(1-3) by (auto simp: occurs_at_def)
  have "p + 3 < length pre"
  proof (rule ccontr)
    assume "\<not> p + 3 < length pre"
    with at have "p + 3 - length pre < length t" by simp
    moreover from this \<open>\<not> p + 3 < length pre\<close> at(1) have "t ! (p + 3 - length pre) = 0x5F" by (simp add: nth_append)
    ultimately have "t ! (p + 3 - length pre) = 0x5F" "p + 3 - length pre < length t" by simp_all
    then show False using assms(4) nth_mem by force
  qed
  with at(1) show ?thesis by (simp add: nth_append)
qed

lemma serial_loop_alnum:
  assumes "\<forall>c\<in>set t. alnum c" and "take (length t) (drop (ss_pos ss) (ss_str ss)) = t"
    and "ss_pos ss + length t \<le> ss_len ss" and "ss_len ss \<le> length (ss_str ss)" and "i + length t \<le> 16" and "length buf = 18"
  shows "serial_loop i buf ss = serial_loop (i + length t) (overwrite i t buf) (ss\<lparr>ss_pos := ss_pos ss + length t\<rparr>)"
  using assms
proof (induction t arbitrary: i buf ss)
  case Nil
  then show ?case by (simp add: overwrite_def)
next
  case (Cons c t)
  have p: "ss_pos ss < ss_len ss" "ss_pos ss < length (ss_str ss)" using Cons.prems(3,4) by simp_all
  have d: "drop (ss_pos ss) (ss_str ss) = ss_str ss ! ss_pos ss # drop (Suc (ss_pos ss)) (ss_str ss)"
    using Cons_nth_drop_Suc [OF p(2)] by simp
  with Cons.prems(2) have c: "ss_str ss ! ss_pos ss = c" and t: "take (length t) (drop (Suc (ss_pos ss)) (ss_str ss)) = t" by simp_all
  have "serial_loop i buf ss = serial_loop (i + 1) (buf[i := c]) (ss\<lparr>ss_pos := ss_pos ss + 1\<rparr>)"
    using Cons.prems p c by (subst serial_loop.simps) simp
  also have "\<dots> = serial_loop (i + 1 + length t) (overwrite (i + 1) t (buf[i := c])) (ss\<lparr>ss_pos := ss_pos ss + 1\<rparr>\<lparr>ss_pos := ss_pos ss + 1 + length t\<rparr>)"
    using Cons.prems t by (subst Cons.IH) auto
  also have "overwrite (i + 1) t (buf[i := c]) = overwrite i (c # t) buf"
    using Cons.prems(5,6) by (simp add: overwrite_Cons)
  finally show ?case by simp
qed

lemma usb_id_ftdi:
  assumes pre: "filter (\<lambda>i. pre ! i = 0x5F) [0..<length pre] = [v + 3, v + 12]" "length pre = v + 17"
    and ids: "take 8 (drop v pre) = bytes ''VID_0403''" "take 8 (drop (v + 9) pre) = bytes ''PID_6015''"
    and t: "0x5F \<notin> set t"
  shows "usb_id usb_ids (U_sstream_init (Some (pre @ t @ [0])) (length (pre @ t)))
    = Inr (Some (0x0403, 0x6015), (U_sstream_init (Some (pre @ t @ [0])) (length (pre @ t)))\<lparr>ss_pos := v + 9\<rparr>)"
proof -
  let ?buf = "pre @ t @ [0]" and ?n = "length (pre @ t)"
  have len: "?n \<le> length ?buf" by simp
  have at: "p = v \<or> p = v + 9" if "occurs_at ?buf ?n s p" "length s = 8" "s ! 3 = 0x5F" for s p
    using occurs_underscore [OF that(1) _ that(3) t] that(2) pre(1) by auto
  have len8: "length (bytes ''VID_0403'') = 8" "length (bytes ''PID_6015'') = 8" "length (bytes ''VID_1CF1'') = 8"
    by (simp_all add: bytes_def)
  have here: "occurs_at ?buf ?n (bytes ''VID_0403'') v" "occurs_at ?buf ?n (bytes ''PID_6015'') (v + 9)"
    unfolding occurs_at_def len8 using ids pre(2) by simp_all
  have no: "\<not> occurs_at ?buf ?n (bytes ''VID_1CF1'') p" for p
  proof
    assume o: "occurs_at ?buf ?n (bytes ''VID_1CF1'') p"
    from at [OF this] have "p = v \<or> p = v + 9" by (simp add: bytes_def)
    with o [unfolded occurs_at_def len8] ids pre(2) show False by (auto simp: bytes_def)
  qed
  have "find_loop ?buf ?n (bytes ''VID_1CF1'') 0 = Inr None"
    using find_none [OF len] no by blast
  moreover have "find_loop ?buf ?n (bytes ''VID_0403'') 0 = Inr (Some v)"
  proof (rule find_at [OF len here(1)])
    fix p assume "occurs_at ?buf ?n (bytes ''VID_0403'') p"
    from at [OF this] show "v \<le> p" by (auto simp: bytes_def)
  qed simp
  moreover have "find_loop ?buf ?n (bytes ''PID_6015'') v = Inr (Some (v + 9))"
  proof (rule find_at [OF len here(2)])
    fix p assume "occurs_at ?buf ?n (bytes ''PID_6015'') p"
    moreover have "\<not> occurs_at ?buf ?n (bytes ''PID_6015'') v"
      unfolding occurs_at_def len8 using ids(1) pre(2) by (simp add: bytes_def)
    ultimately show "v + 9 \<le> p" using at [of "bytes ''PID_6015''" p] by (auto simp: bytes_def)
  qed simp
  ultimately show ?thesis
    by (simp add: usb_ids_def U_sstream_init_def U_sstream_find_def del: append_assoc)
qed

text \<open>The serial number behind the separator, up to the end or to what follows an \<open>A\<close>.\<close>

lemma serial_string:
  assumes "\<forall>c\<in>set t. c \<noteq> 0" and "length t < length buf"
  shows "c_string ((overwrite 0 t buf)[length t := 0]) = Inr t"
proof -
  have "(overwrite 0 t buf)[length t := 0] = t @ 0 # drop (Suc (length t)) buf"
    using assms(2) by (simp add: overwrite_def list_update_append Cons_nth_drop_Suc [symmetric])
  with assms(1) show ?thesis by (simp add: c_string_def takeWhile_append)
qed

lemma alnum_not_0: "\<forall>c\<in>set t. alnum c \<Longrightarrow> \<forall>c\<in>set t. c \<noteq> 0"
  by (auto simp: alnum_def)

lemma usb_serial_plain:
  assumes "\<forall>c\<in>set t. alnum c" and "length t \<le> 16" and "sep = 0x2B \<or> sep = 0x5C"
    and "ss_str ss = pre @ sep # t @ [0]" and "ss_pos ss = length pre" and "ss_len ss = length pre + 1 + length t"
  obtains buf where "usb_serial ids ss = Inr (Some buf)" and "c_string buf = Inr t"
proof -
  have p: "U_sstream_peek_char ss = Inr sep" using assms(4-6) by (simp add: U_sstream_peek_char_def)
  have "serial_loop 0 (replicate 18 0) (ss\<lparr>ss_pos := ss_pos ss + 1\<rparr>)
    = serial_loop (0 + length t) (overwrite 0 t (replicate 18 0)) (ss\<lparr>ss_pos := ss_pos ss + 1\<rparr>\<lparr>ss_pos := ss_pos ss + 1 + length t\<rparr>)"
    by (subst serial_loop_alnum [OF assms(1)]) (use assms in simp_all)
  also have "\<dots> = Inr (length t, overwrite 0 t (replicate 18 0))"
    using assms(5,6) by (subst serial_loop.simps) simp
  finally have l: "serial_loop 0 (replicate 18 0) (ss\<lparr>ss_pos := ss_pos ss + 1\<rparr>) = Inr (length t, overwrite 0 t (replicate 18 0))" .
  show ?thesis
  proof
    show "usb_serial ids ss = Inr (Some ((overwrite 0 t (replicate 18 0))[length t := 0]))"
      unfolding usb_serial_def p using l assms(2,3) by auto
    show "c_string ((overwrite 0 t (replicate 18 0))[length t := 0]) = Inr t"
      by (rule serial_string [OF alnum_not_0 [OF assms(1)]]) (use assms(2) in simp)
  qed
qed

lemma serial_loop_strips:
  assumes "ss_pos ss < ss_len ss" and "ss_len ss \<le> length (ss_str ss)" and "ss_str ss ! ss_pos ss = 0x5C"
    and "0 < i" and "i < 16" and "length buf = 18" and "buf ! (i - 1) = 0x41"
  shows "serial_loop i buf ss = Inr (i, buf[i - 1 := 0])"
  using assms by (subst serial_loop.simps) (simp add: alnum_def)

lemma usb_serial_ftdibus:
  assumes "\<forall>c\<in>set t. alnum c" and "length t \<le> 14" and "sep = 0x2B \<or> sep = 0x5C"
    and "ss_str ss = pre @ sep # t @ 0x41 # 0x5C # rest @ [0]" and "ss_pos ss = length pre" and "ss_len ss = length pre + 3 + length t + length rest"
  obtains buf where "usb_serial ids ss = Inr (Some buf)" and "c_string buf = Inr t"
proof -
  define buf where "buf = overwrite 0 (t @ [0x41]) (replicate 18 (0 :: byte))"
  have p: "U_sstream_peek_char ss = Inr sep" using assms(4-6) by (simp add: U_sstream_peek_char_def)
  have a: "\<forall>c\<in>set (t @ [0x41]). alnum c" using assms(1) by (simp add: alnum_def)
  have "serial_loop 0 (replicate 18 0) (ss\<lparr>ss_pos := ss_pos ss + 1\<rparr>)
    = serial_loop (0 + length (t @ [0x41])) buf (ss\<lparr>ss_pos := ss_pos ss + 1\<rparr>\<lparr>ss_pos := ss_pos ss + 1 + length (t @ [0x41])\<rparr>)"
    unfolding buf_def by (subst serial_loop_alnum [OF a]) (use assms in simp_all)
  also have "\<dots> = Inr (length t + 1, buf[length t := 0])"
  proof -
    have b: "length buf = 18" "buf ! length t = 0x41"
      using assms(2) by (simp_all add: buf_def overwrite_def nth_append)
    have n: "(pre @ sep # t @ 0x41 # 0x5C # rest @ [0]) ! (length pre + 1 + length t + 1) = 0x5C"
      by (simp add: nth_append)
    show ?thesis
      by (subst serial_loop_strips) (use assms(2,4-6) b n in simp_all)
  qed
  finally have l: "serial_loop 0 (replicate 18 0) (ss\<lparr>ss_pos := ss_pos ss + 1\<rparr>) = Inr (length t + 1, buf[length t := 0])" .
  show ?thesis
  proof
    show "usb_serial ids ss = Inr (Some (buf[length t := 0, length t + 1 := 0]))"
      unfolding usb_serial_def p using l assms(2,3) by (auto simp: buf_def overwrite_def)
    have "buf[length t := 0, length t + 1 := 0] = t @ 0 # 0 # replicate (16 - length t) 0"
      using assms(2) by (auto simp: buf_def overwrite_def list_eq_iff_nth_eq nth_append nth_list_update nth_Cons')
    with alnum_not_0 [OF assms(1)] show "c_string (buf[length t := 0, length t + 1 := 0]) = Inr t"
      by (simp add: c_string_def takeWhile_append)
  qed
qed

lemma ftdi_device:
  assumes "filter (\<lambda>i. pre ! i = 0x5F) [0..<length pre] = [v + 3, v + 12]" "length pre = v + 17"
    and "take 8 (drop v pre) = bytes ''VID_0403''" "take 8 (drop (v + 9) pre) = bytes ''PID_6015''" "0x5F \<notin> set t"
    and "usb_serial (0x0403, 0x6015) ((U_sstream_init (Some (pre @ t @ [0])) (length (pre @ t)))\<lparr>ss_pos := length pre\<rparr>) = Inr (Some buf)"
    and "c_string buf = Inr s" and "s \<noteq> []"
  shows "usb_device (pre @ t) = Inr (Some ((0x0403, 0x6015), s))"
  using usb_id_ftdi [OF assms(1-5)] assms(2,6-8) by (auto simp: usb_device_def U_sstream_init_def add.commute)

lemma alnum_not_underscore: "\<forall>c\<in>set t. alnum c \<Longrightarrow> 0x5F \<notin> set t"
  by (auto simp: alnum_def)

lemma ftdi_on_usb:
  assumes "\<forall>c\<in>set serial. alnum c" and "serial \<noteq> []" and "length serial \<le> 14"
  shows "usb_device (bytes ''USB'' @ [0x5C] @ bytes ''VID_0403&PID_6015'' @ [0x5C] @ serial) = Inr (Some ((0x0403, 0x6015), serial))"
proof -
  define pre where "pre = bytes ''USB'' @ [0x5C] @ bytes ''VID_0403&PID_6015''"
  define t where "t = 0x5C # serial"
  let ?ss = "(U_sstream_init (Some (pre @ t @ [0])) (length (pre @ t)))\<lparr>ss_pos := length pre\<rparr>"
  obtain buf where b: "usb_serial (0x0403, 0x6015) ?ss = Inr (Some buf)" "c_string buf = Inr serial"
    by (rule usb_serial_plain [where t = serial and sep = "0x5C" and ss = ?ss and pre = pre]) (use assms(1,3) in \<open>auto simp: t_def U_sstream_init_def\<close>)
  have "usb_device (pre @ t) = Inr (Some ((0x0403, 0x6015), serial))"
    by (rule ftdi_device [of _ 4, OF _ _ _ _ _ b assms(2)])
       (use alnum_not_underscore [OF assms(1)] in \<open>simp_all add: pre_def t_def bytes_def upt_rec\<close>)
  then show ?thesis
    by (simp add: pre_def t_def)
qed

lemma ftdi_on_ftdibus:
  assumes "\<forall>c\<in>set serial. alnum c" and "serial \<noteq> []" and "length serial \<le> 14"
  shows "usb_device (bytes ''FTDIBUS'' @ [0x5C] @ bytes ''VID_0403+PID_6015+'' @ serial @ bytes ''A'' @ [0x5C] @ bytes ''0000'')
    = Inr (Some ((0x0403, 0x6015), serial))"
proof -
  define pre where "pre = bytes ''FTDIBUS'' @ [0x5C] @ bytes ''VID_0403+PID_6015''"
  define t where "t = 0x2B # serial @ 0x41 # 0x5C # bytes ''0000''"
  let ?ss = "(U_sstream_init (Some (pre @ t @ [0])) (length (pre @ t)))\<lparr>ss_pos := length pre\<rparr>"
  obtain buf where b: "usb_serial (0x0403, 0x6015) ?ss = Inr (Some buf)" "c_string buf = Inr serial"
    by (rule usb_serial_ftdibus [where t = serial and sep = "0x2B" and ss = ?ss and pre = pre and rest = "bytes ''0000''"])
      (use assms(1,3) in \<open>auto simp: t_def U_sstream_init_def\<close>)
  have "usb_device (pre @ t) = Inr (Some ((0x0403, 0x6015), serial))"
    by (rule ftdi_device [of _ 8, OF _ _ _ _ _ b assms(2)])
       (use alnum_not_underscore [OF assms(1)] in \<open>simp_all add: pre_def t_def bytes_def upt_rec\<close>)
  then show ?thesis
    by (simp add: pre_def t_def bytes_def)
qed

text \<open>C35: A ConBee with an FTDI chip is enumerated twice, by \<open>USB\<close> as
  \<open>USB\VID_0403&PID_6015\<close> and by \<open>FTDIBUS\<close> as \<open>FTDIBUS\VID_0403+PID_6015\<close>, there with \<open>A\0000\<close>
  behind the serial number. Both instance ids give the ids of the vendor and the product and the same
  serial number, for every serial number of 1 to 14 letters and digits: that is what makes the second pass
  find the slot of the first.\<close>

theorem ftdi_serial_agrees:
  assumes "\<forall>c\<in>set serial. alnum c" and "serial \<noteq> []" and "length serial \<le> 14"
  shows "usb_device (bytes ''USB'' @ [0x5C] @ bytes ''VID_0403&PID_6015'' @ [0x5C] @ serial) = Inr (Some ((0x0403, 0x6015), serial))
    \<and> usb_device (bytes ''FTDIBUS'' @ [0x5C] @ bytes ''VID_0403+PID_6015+'' @ serial @ bytes ''A'' @ [0x5C] @ bytes ''0000'')
      = Inr (Some ((0x0403, 0x6015), serial))"
  by (intro conjI ftdi_on_usb ftdi_on_ftdibus assms)

lemma ftdi_serial_agrees_witness:
  "usb_device (bytes ''USB'' @ [0x5C] @ bytes ''VID_0403&PID_6015'' @ [0x5C] @ bytes ''DJ00QBWE'') = Inr (Some ((0x0403, 0x6015), bytes ''DJ00QBWE''))
    \<and> usb_device (bytes ''FTDIBUS'' @ [0x5C] @ bytes ''VID_0403+PID_6015+'' @ bytes ''DJ00QBWE'' @ bytes ''A'' @ [0x5C] @ bytes ''0000'')
      = Inr (Some ((0x0403, 0x6015), bytes ''DJ00QBWE''))"
  by (rule ftdi_serial_agrees) (simp_all add: bytes_def alnum_def)

section \<open>A description of 32 characters\<close>

lemma narrow_fault: "narrow ws = Inl f \<Longrightarrow> f = OutOfBounds"
  by (induction ws) (auto simp: andthen_Inl split: if_splits)

lemma narrow_long: "0 \<notin> (ucast :: 16 word \<Rightarrow> byte) ` set (take k ws) \<Longrightarrow> k \<le> length ws \<Longrightarrow>
   narrow ws = Inl OutOfBounds \<or> (\<exists>s. narrow ws = Inr s \<and> k \<le> length s \<and> 0 \<notin> set (take k (s :: byte list)))"
proof (induction k arbitrary: ws)
  case 0
  then show ?case by (cases "narrow ws") (auto dest: narrow_fault)
next
  case (Suc k)
  then obtain w ws' where w: "ws = w # ws'" by (cases ws) auto
  with Suc.prems have "w \<noteq> 0" "(ucast w :: byte) \<noteq> 0" by auto
  with Suc.IH [of ws'] Suc.prems show ?case by (auto simp: w)
qed

lemma copy_name_long:
  "length buf = 32 \<Longrightarrow> i \<le> 32 \<Longrightarrow> 32 - i \<le> length cs \<Longrightarrow> 0 \<notin> set (take (32 - i) cs) \<Longrightarrow> copy_name i cs buf = Inl OutOfBounds"
proof (induction i cs buf rule: copy_name.induct)
  case (2 i c cs buf)
  show ?case
  proof (cases "i < 32")
    case True
    then have k: "32 - i = Suc (32 - (i + 1))" by simp
    with "2.prems"(4) have c: "c \<noteq> 0" and cs: "0 \<notin> set (take (32 - (i + 1)) cs)" by auto
    moreover have "poke i c buf = Inr (buf[i := c])" using True "2.prems"(1) by simp
    ultimately show ?thesis using True k "2.prems" "2.IH" [of "buf[i := c]"] by simp
  qed (use "2.prems" in \<open>simp add: poke_def\<close>)
qed simp

lemma describe_long:
  assumes "bus_desc info = Some (True, w)" and "32 \<le> length w" and "0 \<notin> (ucast :: 16 word \<Rightarrow> byte) ` set (take 32 w)"
    and "length (dev_name d) = 32" and "dev_name d ! 0 \<noteq> 0x43"
  shows "describe info vid d = Inl OutOfBounds"
  using narrow_long [OF assms(3,2)] assms(1,4,5) copy_name_long [OF assms(4), of 0]
  by (auto simp: describe_def)

lemma usb_device_serial: "usb_device iid = Inr (Some (ids, s)) \<Longrightarrow> s \<noteq> []"
  by (auto simp: usb_device_def andthen_Inr split: if_splits option.splits prod.splits)

lemma zero_serial: "dev_serial zero_device = replicate 18 0"
  by (simp add: zero_device_def)

lemma known_slot_zero: "s \<noteq> [] \<Longrightarrow> known_slot s i (replicate n zero_device) = Inr None"
proof (induction n arbitrary: i)
  case (Suc n)
  have "U_sstream_starts_with s (U_sstream_init (Some (replicate 18 0)) 0) = Inr False"
    using Suc.prems by (simp add: starts_with_eq U_sstream_init_def)
  moreover have "U_strlen (replicate 18 0) = Inr 0" by (simp add: U_strlen_eq numeral_eq_Suc)
  ultimately show ?case using Suc by (simp add: zero_serial)
qed simp

lemma first_slot:
  assumes "s \<noteq> []"
  obtains d where "find_slot s 0 (replicate (Suc n) zero_device) = Inr (Some 0, 1, (replicate (Suc n) zero_device)[0 := zero_device\<lparr>dev_serial := d\<rparr>])"
proof -
  obtain ss where ss: "U_sstream_put_str s (U_sstream_init (Some (dev_serial zero_device)) 18) = Inr ss"
    using yields_hoare [OF put_str_over over_init [OF device_parts(1) [OF zero_device_ok]], of s]
    by (auto simp: yields_def split: sum.splits)
  have "free_slot 0 (replicate (Suc n) zero_device) = Inr (Some 0)"
    by (simp add: zero_serial)
  then have "find_slot s 0 (replicate (Suc n) zero_device)
      = Inr (Some 0, 1, (replicate (Suc n) zero_device)[0 := zero_device\<lparr>dev_serial := ss_str ss\<rparr>])"
    using ss known_slot_zero [OF assms, of 0 "Suc n"] by (simp add: find_slot_def)
  then show ?thesis by (rule that)
qed

text \<open>When the first USB device of the program reports a description of 32 or more characters,
  none of which becomes a NUL, \<open>PL_GetDevices\<close> writes the terminating NUL behind the 32 bytes of the name
  of the device, whatever the serial number, the remaining devices and the number of slots are.\<close>

lemma windows_long_name_overruns:
  assumes "W ''USB'' = Some (info # infos)" and "usb_device (instance_id info) = Inr (Some (ids, s))"
    and "bus_desc info = Some (True, w)" and "32 \<le> length w" and "0 \<notin> (ucast :: 16 word \<Rightarrow> byte) ` set (take 32 w)"
    and "0 < room"
  shows "PL_GetDevices_windows W room = Inl OutOfBounds"
proof -
  obtain n where n: "room = Suc n" using assms(6) by (cases room) auto
  obtain d where d: "find_slot s 0 (replicate (Suc n) zero_device) = Inr (Some 0, 1, (replicate (Suc n) zero_device)[0 := zero_device\<lparr>dev_serial := d\<rparr>])"
    by (rule first_slot [OF usb_device_serial [OF assms(2)]])
  have "describe info vid (zero_device\<lparr>dev_serial := d\<rparr>) = Inl OutOfBounds" for vid
    by (rule describe_long [OF assms(3-5)]) (simp_all add: zero_device_def)
  then have "com_pass info (0, replicate room zero_device, 0) = Inl OutOfBounds"
    using assms(2) d by (simp add: com_pass_def n split: prod.splits)
  then show ?thesis
    using assms(1,6) by (simp add: PL_GetDevices_windows_def GetComPort_def)
qed

definition long_named :: win_info where
  "long_named = \<lparr>instance_id = bytes ''USB'' @ [0x5C] @ bytes ''VID_0403&PID_6015'' @ [0x5C] @ bytes ''DJ00QBWE'',
     bus_desc = Some (True, replicate 32 0x41 @ replicate 96 0), hardware_id = False, dev_key = False, port_name = None\<rparr>"

lemma long_named_overruns: "PL_GetDevices_windows (\<lambda>_. Some [long_named]) 4 = Inl OutOfBounds"
proof (rule windows_long_name_overruns [where w = "replicate 32 0x41 @ replicate 96 0"])
  show "usb_device (instance_id long_named) = Inr (Some ((0x0403, 0x6015), bytes ''DJ00QBWE''))"
    unfolding long_named_def win_info.simps by (rule ftdi_on_usb) (simp_all add: bytes_def alnum_def)
qed (simp_all add: long_named_def)

text \<open>A port name is not always terminated: \<open>RegQueryValueEx\<close> delivers a \<open>REG_SZ\<close> value as it is stored,
  and when the 20 bytes of \<open>pszPortName\<close> hold no NUL the loop that copies them reads on behind them.\<close>

lemma copy_port_overruns:
  "0 \<notin> set cs \<Longrightarrow> sz + length cs < 255 \<Longrightarrow> length (dev_path d) = 255 \<Longrightarrow> length (dev_stablepath d) = 255 \<Longrightarrow>
   copy_port sz cs d = Inl OutOfBounds"
  by (induction cs arbitrary: sz d) auto

lemma windows_port_overruns:
  assumes "port_name info = Some p" and "length p = 20" and "0 \<notin> set p" and "com_port p = Inr True"
    and "hardware_id info" and "dev_key info" and "device_ok d"
  shows "set_port info d = Inl OutOfBounds"
  using assms copy_port_overruns [of p 0 d] by (simp add: set_port_def device_ok_def nul_in_def)

lemma windows_port_overruns_witness:
  "set_port \<lparr>instance_id = [], bus_desc = None, hardware_id = True, dev_key = True, port_name = Some (bytes ''COM'' @ replicate 17 0x31)\<rparr>
     zero_device = Inl OutOfBounds"
  by (rule windows_port_overruns [OF _ _ _ _ _ _ zero_device_ok, where p = "bytes ''COM'' @ replicate 17 0x31"]) (simp_all add: com_port_def match_at_eq bytes_def)

definition conbee3_info :: win_info where
  "conbee3_info = \<lparr>instance_id = bytes ''USB'' @ [0x5C] @ bytes ''VID_0403&PID_6015'' @ [0x5C] @ bytes ''DJ00QBWE'',
     bus_desc = Some (True, map ucast (bytes ''ConBee III'') @ 0 # replicate 117 0), hardware_id = True, dev_key = True,
     port_name = Some (bytes ''COM3'' @ 0 # replicate 15 0)\<rparr>"

lemma conbee3_infos: "infos_ok (\<lambda>_. Some [conbee3_info])"
  by (auto simp: infos_ok_def info_ok_def conbee3_info_def bytes_def)

text \<open>C34: \<open>PL_GetDevices\<close> of Windows keeps to its arrays as long as every description of a device has fewer than
  32 characters and every port name is terminated within its buffer (\<open>infos_ok\<close>): whatever devices
  the system enumerates then, it returns a number of devices between 0 and the room of the array, the array
  keeps its length, and the strings of every entry are terminated in fields of their sizes.\<close>

theorem windows_devices_in_bounds:
  assumes "infos_ok W"
  shows "\<exists>n devs full. PL_GetDevices_windows W room = Inr (n, devs, full)
    \<and> 0 \<le> n \<and> n \<le> int room \<and> length devs = room \<and> (\<forall>d\<in>set devs. device_ok d)"
  using windows_devices_yield [OF assms, of room]
  by (auto simp: yields_def devices_array_def split: sum.splits)

lemma windows_devices_in_bounds_witness:
  "\<exists>n devs full. PL_GetDevices_windows (\<lambda>_. Some [conbee3_info]) 4 = Inr (n, devs, full) \<and> n \<le> 4 \<and> (\<forall>d\<in>set devs. device_ok d)"
  using windows_devices_in_bounds [OF conbee3_infos, of 4] by auto

text \<open>Such a list is one that the safety of the program rests on.\<close>

lemma windows_provides_devices:
  assumes "\<And>t. \<exists>W full. infos_ok W \<and> PL_GetDevices_windows W 4 = Inr (fst (os_devices e t), snd (os_devices e t), full)"
  shows "devices_ok e"
  unfolding devices_ok_def
proof
  fix t
  obtain W full where "infos_ok W" "PL_GetDevices_windows W 4 = Inr (fst (os_devices e t), snd (os_devices e t), full)"
    using assms by blast
  with windows_devices_yield [of W 4]
  show "case os_devices e t of (n, devs) \<Rightarrow> n \<le> 4 \<and> length devs = 4 \<and> (\<forall>d\<in>set devs. device_ok d)"
    by (auto simp: devices_array_def split: prod.splits)
qed

end
