(* ===== verification/Gpiod.thy ===== *)
theory Gpiod
  imports SStream "HOL-Library.Multiset" "HOL-Library.Product_Lexorder"
begin

text \<open>
  The resets over GPIO pins: \<open>linux_libgpiod_v1_reset.c\<close> and \<open>linux_libgpiod_v2_reset.c\<close>,
  which load libgpiod at run time and call it through function pointers.

  The library is a parameter: \<open>A h c\<close> is what call \<open>c\<close> returns after the history \<open>h\<close> of
  calls with their results; a pointer is an integer, \<open>NULL\<close> is 0. \<open>str\<close> reads the string a
  returned pointer points to. A call through a \<open>NULL\<close> pointer is the fault \<open>OutOfBounds\<close>.
\<close>

section \<open>Calls of the library\<close>

datatype gpio_call =
    DlOpen | DlSym string | DlClose int | MSleep nat | DebugPrint string
  | ChipIterNew | ChipIterNext int | ChipIterFree int | ChipName int | ChipLabel int | ChipGetLine int nat
  | LineRequestOutput int int | LineRequestInput int | LineSetValue int int | LineRelease int
  | ApiVersion | ChipOpen "byte list" | ChipClose int | ChipGetInfo int | InfoFree int | InfoGetLabel int
  | ChipRequestLines int int int | LineConfigNew | LineConfigFree int | RequestRelease int
  | SettingsNew | SettingsFree int | SettingsSetDirection int | SettingsSetOutputValue int int
  | LineConfigAddSettings int nat int | RequestConfigNew | RequestConfigFree int
  | RequestConfigSetConsumer int string | RequestSetValue int nat int

type_synonym history = "(gpio_call \<times> int) list"
type_synonym library = "history \<Rightarrow> gpio_call \<Rightarrow> int"

text \<open>The static variables: \<open>lib_gpiod_handle\<close>, the function pointers by name; and the calls made.\<close>

record gpiod =
  lib_handle :: int
  fns :: "string \<Rightarrow> int"
  calls :: history

type_synonym gop = "(gpiod, int) op"

definition ret :: "int \<Rightarrow> gop" where
  "ret r s = Inr (r, s)"

definition ask :: "library \<Rightarrow> gpio_call \<Rightarrow> (int \<Rightarrow> gop) \<Rightarrow> gop" where
  "ask A c k s = (let r = A (calls s) c in k r (s\<lparr>calls := calls s @ [(c, r)]\<rparr>))"

definition via :: "library \<Rightarrow> string \<Rightarrow> gpio_call \<Rightarrow> (int \<Rightarrow> gop) \<Rightarrow> gop" where
  "via A fn c k s = (if fns s fn = 0 then Inl OutOfBounds else ask A c k s)"

definition assuming :: "bool \<Rightarrow> bool \<Rightarrow> gop \<Rightarrow> gop" where
  "assuming nd b k s = (if \<not> nd \<and> \<not> b then Inl AssertFailed else k s)"

definition andop :: "gop \<Rightarrow> (int \<Rightarrow> gop) \<Rightarrow> gop" where
  "andop m k s = (case m s of Inl f \<Rightarrow> Inl f | Inr (r, s') \<Rightarrow> k r s')"

text \<open>\<open>fn = dlsym(lib_gpiod_handle, name)\<close> for each name\<close>

fun dl_syms :: "library \<Rightarrow> string list \<Rightarrow> gop \<Rightarrow> gop" where
  "dl_syms A [] k = k"
| "dl_syms A (n # ns) k = ask A (DlSym n) (\<lambda>p s. dl_syms A ns k (s\<lparr>fns := (fns s)(n := p)\<rparr>))"

text \<open>\<open>dlclose\<close>, and the pointers of \<open>names\<close> are \<open>NULL\<close>.\<close>

definition unload :: "bool \<Rightarrow> library \<Rightarrow> string list \<Rightarrow> gop" where
  "unload nd A names s = assuming nd (lib_handle s \<noteq> 0)
     (if lib_handle s \<noteq> 0
      then ask A (DlClose (lib_handle s)) (\<lambda>_ s. ret 0 (s\<lparr>lib_handle := 0, fns := \<lambda>n. if n \<in> set names then 0 else fns s n\<rparr>))
      else ret (- 1)) s"

section \<open>Version 1\<close>

definition names_v1 :: "string list" where
  "names_v1 = [''gpiod_chip_iter_new'', ''gpiod_chip_iter_next'', ''gpiod_chip_iter_free'', ''gpiod_chip_name'',
     ''gpiod_chip_label'', ''gpiod_chip_get_line'', ''gpiod_line_request_output'', ''gpiod_line_request_input'',
     ''gpiod_line_set_value'', ''gpiod_line_release'']"

definition plUnloadLibGpiod_v1 :: "bool \<Rightarrow> library \<Rightarrow> gop" where
  "plUnloadLibGpiod_v1 nd A = unload nd A names_v1"

definition plLoadLibGpiod_v1 :: "bool \<Rightarrow> library \<Rightarrow> gop" where
  "plLoadLibGpiod_v1 nd A s = assuming nd (lib_handle s = 0)
     (ask A DlOpen (\<lambda>h s. (if h = 0 then ask A (DebugPrint ''failed to open libgpiod.so'') (\<lambda>_. ret (- 1))
        else dl_syms A names_v1 (\<lambda>s.
          if \<exists>n\<in>set names_v1. fns s n = 0
          then andop (plUnloadLibGpiod_v1 nd A) (\<lambda>_. ret (- 1)) s
          else ret 0 s)) (s\<lparr>lib_handle := h\<rparr>))) s"

text \<open>
  The loop over the chips, with a bound on their number; \<open>wanted\<close> is the test of the label,
  \<open>offset\<close> the line, \<open>pulse\<close> what is done with it. After \<open>pulse\<close> the loop ends with 0.
\<close>

primrec chip_loop :: "library \<Rightarrow> (int \<Rightarrow> bool) \<Rightarrow> nat \<Rightarrow> (int \<Rightarrow> gop) \<Rightarrow> int \<Rightarrow> nat \<Rightarrow> gop" where
  "chip_loop A wanted offset pulse iter 0 = (\<lambda>s. Inl NoFuel)"
| "chip_loop A wanted offset pulse iter (Suc n) =
     via A ''gpiod_chip_iter_next'' (ChipIterNext iter) (\<lambda>chip. if chip = 0 then ret (- 1) else
     via A ''gpiod_chip_name'' (ChipName chip) (\<lambda>name.
     via A ''gpiod_chip_label'' (ChipLabel chip) (\<lambda>label.
       if label = 0 \<or> \<not> wanted label then chip_loop A wanted offset pulse iter n else
     via A ''gpiod_chip_get_line'' (ChipGetLine chip offset) (\<lambda>line.
       if line = 0 then chip_loop A wanted offset pulse iter n else
     ask A (DebugPrint ''gpiod chip'') (\<lambda>_. pulse line)))))"

definition set_line :: "bool \<Rightarrow> library \<Rightarrow> int \<Rightarrow> int \<Rightarrow> gop \<Rightarrow> gop" where
  "set_line nd A line v k = via A ''gpiod_line_set_value'' (LineSetValue line v) (\<lambda>r. assuming nd (r \<noteq> - 1) k)"

definition release_line :: "library \<Rightarrow> int \<Rightarrow> gop \<Rightarrow> gop" where
  "release_line A line k = via A ''gpiod_line_release'' (LineRelease line) (\<lambda>_. k)"

definition raspbee_pulse :: "bool \<Rightarrow> library \<Rightarrow> int \<Rightarrow> gop" where
  "raspbee_pulse nd A line =
     via A ''gpiod_line_request_output'' (LineRequestOutput line 1) (\<lambda>r. assuming nd (r \<noteq> - 1) (
     set_line nd A line 0 (
     ask A (MSleep 200) (\<lambda>_.
     set_line nd A line 1 (
     release_line A line (
     via A ''gpiod_line_request_input'' (LineRequestInput line) (\<lambda>r. assuming nd (r \<noteq> - 1) (
     release_line A line (ret 0)))))))))"

definition ftdi_pulse :: "bool \<Rightarrow> library \<Rightarrow> int \<Rightarrow> gop" where
  "ftdi_pulse nd A line =
     via A ''gpiod_line_request_output'' (LineRequestOutput line 0) (\<lambda>r. assuming nd (r \<noteq> - 1) (
     set_line nd A line 1 (
     set_line nd A line 0 (
     set_line nd A line 1 (
     release_line A line (ret 0))))))"

text \<open>What the two resets share: load, search the chips, free the iterator, unload.\<close>

definition reset_v1 :: "bool \<Rightarrow> library \<Rightarrow> (int \<Rightarrow> gop) \<Rightarrow> gop" where
  "reset_v1 nd A search = andop (plLoadLibGpiod_v1 nd A) (\<lambda>r. if r \<noteq> 0 then ret (- 1) else
     via A ''gpiod_chip_iter_new'' ChipIterNew (\<lambda>iter. if iter = 0
       then andop (plUnloadLibGpiod_v1 nd A) (\<lambda>_. ret (- 2))
       else andop (search iter) (\<lambda>r.
         via A ''gpiod_chip_iter_free'' (ChipIterFree iter) (\<lambda>_. andop (plUnloadLibGpiod_v1 nd A) (\<lambda>_. ret r)))))"

definition plResetRaspBeeLibGpiod_v1 :: "bool \<Rightarrow> library \<Rightarrow> (int \<Rightarrow> byte list) \<Rightarrow> nat \<Rightarrow> gop" where
  "plResetRaspBeeLibGpiod_v1 nd A str n =
     reset_v1 nd A (\<lambda>iter. chip_loop A (\<lambda>label. take 8 (str label) = bytes ''pinctrl-'') 17 (raspbee_pulse nd A) iter n)"

definition plResetFtdiLibGpiod_v1 :: "bool \<Rightarrow> library \<Rightarrow> (int \<Rightarrow> byte list) \<Rightarrow> nat \<Rightarrow> gop" where
  "plResetFtdiLibGpiod_v1 nd A str n =
     reset_v1 nd A (\<lambda>iter. chip_loop A (\<lambda>label. str label = bytes ''ftdi-cbus'') 0 (ftdi_pulse nd A) iter n)"

section \<open>Version 2\<close>

definition names_v2 :: "string list" where
  "names_v2 = [''gpiod_chip_open'', ''gpiod_chip_close'', ''gpiod_chip_get_info'', ''gpiod_chip_info_free'',
     ''gpiod_chip_info_get_label'', ''gpiod_chip_request_lines'', ''gpiod_line_config_new'', ''gpiod_line_config_free'',
     ''gpiod_line_request_release'', ''gpiod_line_settings_new'', ''gpiod_line_settings_free'',
     ''gpiod_line_settings_set_direction'', ''gpiod_line_settings_set_output_value'',
     ''gpiod_line_config_add_line_settings'', ''gpiod_request_config_new'', ''gpiod_request_config_free'',
     ''gpiod_request_config_set_consumer'', ''gpiod_line_request_set_value'']"

definition plUnloadLibGpiod_v2 :: "bool \<Rightarrow> library \<Rightarrow> gop" where
  "plUnloadLibGpiod_v2 nd A = unload nd A names_v2"

definition plLoadLibGpiod_v2 :: "bool \<Rightarrow> library \<Rightarrow> gop" where
  "plLoadLibGpiod_v2 nd A s = assuming nd (lib_handle s = 0)
     (ask A DlOpen (\<lambda>h s. (if h = 0 then ask A (DebugPrint ''failed to open libgpiod.so'') (\<lambda>_. ret (- 1))
        else dl_syms A [''gpiod_api_version''] (\<lambda>s.
          if fns s ''gpiod_api_version'' = 0 then ret (- 1) s
          else via A ''gpiod_api_version'' ApiVersion (\<lambda>_. ask A (DebugPrint ''gpiod version'') (\<lambda>_.
            dl_syms A names_v2 (\<lambda>s.
              if \<exists>n\<in>set names_v2. fns s n = 0
              then andop (plUnloadLibGpiod_v2 nd A) (\<lambda>_. ret (- 1)) s
              else ret 0 s))) s)) (s\<lparr>lib_handle := h\<rparr>))) s"

definition chip_path :: "nat \<Rightarrow> fault + byte list" where
  "chip_path i = (case block [U_sstream_put_str (bytes ''/dev/gpiochip''), U_sstream_put_long (int i)]
       (U_sstream_init (Some (replicate 64 0)) 64) of Inl f \<Rightarrow> Inl f | Inr ss \<Rightarrow> c_string (ss_str ss))"

definition label_has :: "byte list \<Rightarrow> byte list \<Rightarrow> fault + bool" where
  "label_has prefix label = (case U_sstream_find prefix (U_sstream_init (Some (label @ [0])) (length label)) of
     Inl f \<Rightarrow> Inl f | Inr (b, ss) \<Rightarrow> Inr b)"

text \<open>\<open>for (i = 0; i < 20; i++)\<close> with \<open>n = 20 - i\<close>\<close>

primrec find_chip :: "library \<Rightarrow> (int \<Rightarrow> byte list) \<Rightarrow> byte list \<Rightarrow> nat \<Rightarrow> gop" where
  "find_chip A str prefix 0 = ret 0"
| "find_chip A str prefix (Suc n) = (case chip_path (20 - Suc n) of Inl f \<Rightarrow> (\<lambda>s. Inl f) | Inr path \<Rightarrow>
     via A ''gpiod_chip_open'' (ChipOpen path) (\<lambda>chip. if chip = 0 then find_chip A str prefix n else
     via A ''gpiod_chip_get_info'' (ChipGetInfo chip) (\<lambda>info. if info = 0
       then via A ''gpiod_chip_close'' (ChipClose chip) (\<lambda>_. find_chip A str prefix n) else
     via A ''gpiod_chip_info_get_label'' (InfoGetLabel info) (\<lambda>label.
     (case if label = 0 then Inr False else label_has prefix (str label) of Inl f \<Rightarrow> (\<lambda>s. Inl f)
      | Inr found \<Rightarrow>
        via A ''gpiod_chip_info_free'' (InfoFree info) (\<lambda>_. if found then ret chip
          else via A ''gpiod_chip_close'' (ChipClose chip) (\<lambda>_. find_chip A str prefix n)))))))"

definition plGetGpiodChip :: "library \<Rightarrow> (int \<Rightarrow> byte list) \<Rightarrow> byte list \<Rightarrow> gop" where
  "plGetGpiodChip A str prefix = find_chip A str prefix 20"

text \<open>The nested blocks of \<open>plRequestOutputLine\<close>, from the inside.\<close>

definition request_lines :: "library \<Rightarrow> int \<Rightarrow> int \<Rightarrow> gop" where
  "request_lines A chip cfg =
     via A ''gpiod_request_config_new'' RequestConfigNew (\<lambda>rc.
     andop (if rc = 0 then ret 0
       else via A ''gpiod_request_config_set_consumer'' (RequestConfigSetConsumer rc ''gcf'') (\<lambda>_. ret 0)) (\<lambda>_.
     via A ''gpiod_chip_request_lines'' (ChipRequestLines chip rc cfg) (\<lambda>req.
       if rc = 0 then ret req else via A ''gpiod_request_config_free'' (RequestConfigFree rc) (\<lambda>_. ret req))))"

definition request_with_config :: "library \<Rightarrow> int \<Rightarrow> nat \<Rightarrow> int \<Rightarrow> gop" where
  "request_with_config A chip offset st =
     via A ''gpiod_line_config_new'' LineConfigNew (\<lambda>cfg. if cfg = 0 then ret 0 else
     via A ''gpiod_line_config_add_line_settings'' (LineConfigAddSettings cfg offset st) (\<lambda>r.
     andop (if r \<noteq> 0 then ret 0 else request_lines A chip cfg) (\<lambda>req.
     via A ''gpiod_line_config_free'' (LineConfigFree cfg) (\<lambda>_. ret req))))"

definition plRequestOutputLine :: "library \<Rightarrow> int \<Rightarrow> nat \<Rightarrow> int \<Rightarrow> gop" where
  "plRequestOutputLine A chip offset v =
     via A ''gpiod_line_settings_new'' SettingsNew (\<lambda>st. if st = 0 then ret 0 else
     via A ''gpiod_line_settings_set_direction'' (SettingsSetDirection st) (\<lambda>_.
     via A ''gpiod_line_settings_set_output_value'' (SettingsSetOutputValue st v) (\<lambda>_.
     andop (request_with_config A chip offset st) (\<lambda>req.
     via A ''gpiod_line_settings_free'' (SettingsFree st) (\<lambda>_. ret req)))))"

fun set_values :: "bool \<Rightarrow> library \<Rightarrow> int \<Rightarrow> int list \<Rightarrow> gop \<Rightarrow> gop" where
  "set_values nd A req [] k = k"
| "set_values nd A req (v # vs) k =
     via A ''gpiod_line_request_set_value'' (RequestSetValue req 0 v) (\<lambda>r. assuming nd (r = 0) (set_values nd A req vs k))"

text \<open>What the two resets share; both set the values at offset 0.\<close>

definition reset_v2 :: "bool \<Rightarrow> library \<Rightarrow> (int \<Rightarrow> byte list) \<Rightarrow> string \<Rightarrow> nat \<Rightarrow> int \<Rightarrow> int list \<Rightarrow> gop" where
  "reset_v2 nd A str prefix offset start values = andop (plLoadLibGpiod_v2 nd A) (\<lambda>r. if r \<noteq> 0 then ret (- 1) else
     andop (plGetGpiodChip A str (bytes prefix)) (\<lambda>chip. if chip = 0
       then andop (plUnloadLibGpiod_v2 nd A) (\<lambda>_. ret (- 2))
       else andop (plRequestOutputLine A chip offset start) (\<lambda>req.
         andop (if req = 0 then ret (- 1) else
           set_values nd A req values (via A ''gpiod_line_request_release'' (RequestRelease req) (\<lambda>_. ret 0))) (\<lambda>r.
         via A ''gpiod_chip_close'' (ChipClose chip) (\<lambda>_. andop (plUnloadLibGpiod_v2 nd A) (\<lambda>_. ret r))))))"

definition plResetRaspBeeLibGpiod_v2 :: "bool \<Rightarrow> library \<Rightarrow> (int \<Rightarrow> byte list) \<Rightarrow> gop" where
  "plResetRaspBeeLibGpiod_v2 nd A str = reset_v2 nd A str ''pinctrl-'' 17 1 [0, 1]"

definition plResetFtdiLibGpiod_v2 :: "bool \<Rightarrow> library \<Rightarrow> (int \<Rightarrow> byte list) \<Rightarrow> gop" where
  "plResetFtdiLibGpiod_v2 nd A str = reset_v2 nd A str ''ftdi-cbus'' 0 0 [1, 0, 1]"

section \<open>What is held\<close>

text \<open>The objects that were obtained and not yet given back, over a history.\<close>

datatype kind = HLib | HIter | HLine | HChip | HInfo | HSettings | HLineConfig | HRequestConfig | HRequest

definition got :: "bool \<Rightarrow> kind \<Rightarrow> int \<Rightarrow> (kind \<times> int) multiset \<Rightarrow> (kind \<times> int) multiset" where
  "got b k r m = (if b then add_mset (k, r) m else m)"

fun effect :: "gpio_call \<Rightarrow> int \<Rightarrow> (kind \<times> int) multiset \<Rightarrow> (kind \<times> int) multiset" where
  "effect DlOpen r m = got (r \<noteq> 0) HLib r m"
| "effect (DlClose h) r m = m - {#(HLib, h)#}"
| "effect ChipIterNew r m = got (r \<noteq> 0) HIter r m"
| "effect (ChipIterFree i) r m = m - {#(HIter, i)#}"
| "effect (LineRequestOutput l v) r m = got (r \<noteq> - 1) HLine l m"
| "effect (LineRequestInput l) r m = got (r \<noteq> - 1) HLine l m"
| "effect (LineRelease l) r m = m - {#(HLine, l)#}"
| "effect (ChipOpen p) r m = got (r \<noteq> 0) HChip r m"
| "effect (ChipClose c) r m = m - {#(HChip, c)#}"
| "effect (ChipGetInfo c) r m = got (r \<noteq> 0) HInfo r m"
| "effect (InfoFree i) r m = m - {#(HInfo, i)#}"
| "effect SettingsNew r m = got (r \<noteq> 0) HSettings r m"
| "effect (SettingsFree i) r m = m - {#(HSettings, i)#}"
| "effect LineConfigNew r m = got (r \<noteq> 0) HLineConfig r m"
| "effect (LineConfigFree i) r m = m - {#(HLineConfig, i)#}"
| "effect RequestConfigNew r m = got (r \<noteq> 0) HRequestConfig r m"
| "effect (RequestConfigFree i) r m = m - {#(HRequestConfig, i)#}"
| "effect (ChipRequestLines c rc cfg) r m = got (r \<noteq> 0) HRequest r m"
| "effect (RequestRelease i) r m = m - {#(HRequest, i)#}"
| "effect _ r m = m"

definition held :: "history \<Rightarrow> (kind \<times> int) multiset" where
  "held h = foldl (\<lambda>m (c, r). effect c r m) {#} h"

lemma held_Nil [simp]: "held [] = {#}"
  by (simp add: held_def)

lemma held_append [simp]: "held (h @ t) = foldl (\<lambda>m (c, r). effect c r m) (held h) t"
  by (simp add: held_def)

text \<open>As a list: the kinds are ordered as they are declared, objects of a kind by their pointer.\<close>

definition kind_rank :: "kind \<Rightarrow> nat" where
  "kind_rank k = (case k of HLib \<Rightarrow> 0 | HIter \<Rightarrow> 1 | HLine \<Rightarrow> 2 | HChip \<Rightarrow> 3 | HInfo \<Rightarrow> 4 | HSettings \<Rightarrow> 5
     | HLineConfig \<Rightarrow> 6 | HRequestConfig \<Rightarrow> 7 | HRequest \<Rightarrow> 8)"

lemma kind_rank_inject: "kind_rank k = kind_rank l \<longleftrightarrow> k = l"
  by (cases k; cases l) (simp_all add: kind_rank_def)

instantiation kind :: linorder
begin

definition less_eq_kind :: "kind \<Rightarrow> kind \<Rightarrow> bool" where
  "less_eq_kind k l \<longleftrightarrow> kind_rank k \<le> kind_rank l"

definition less_kind :: "kind \<Rightarrow> kind \<Rightarrow> bool" where
  "less_kind k l \<longleftrightarrow> kind_rank k < kind_rank l"

instance
  by standard (auto simp: less_eq_kind_def less_kind_def kind_rank_inject)

end

definition leaks :: "history \<Rightarrow> (kind \<times> int) list" where
  "leaks h = sorted_list_of_multiset (held h)"

lemma leaks_none: "leaks h = [] \<longleftrightarrow> held h = {#}"
  by (metis leaks_def mset_sorted_list_of_multiset mset_zero_iff sorted_list_of_multiset_empty)

end
