(* ===== verification/Gcf_Gpio.thy ===== *)
theory Gcf_Gpio
  imports Gpiod
begin

text \<open>
  The GPIO resets give back what they obtain: for version 1 of libgpiod on every path, for
  version 2 unless the library that is found is not a version 2. Two errors of the code for
  version 2 follow from what the library documents.

  The rules for triples (\<open>vhoare\<close> of the prelude) are over the view \<open>at\<close> of a state: the
  handle, the function pointers that are set, what is held, and how often the chip iterator
  was advanced since it was created.
\<close>

named_theorems gpio_intro \<open>rules for the calls of the library\<close>

section \<open>The view\<close>

definition nexts :: "history \<Rightarrow> nat" where
  "nexts h = length (filter (\<lambda>(c, _). \<exists>i. c = ChipIterNext i) (takeWhile (\<lambda>(c, _). c \<noteq> ChipIterNew) (rev h)))"

fun ticks :: "gpio_call \<Rightarrow> nat \<Rightarrow> nat" where
  "ticks ChipIterNew c = 0"
| "ticks (ChipIterNext i) c = Suc c"
| "ticks _ c = c"

lemma nexts_snoc: "nexts (h @ [(c, r)]) = ticks c (nexts h)"
  by (cases c) (simp_all add: nexts_def)

definition at :: "int \<Rightarrow> string list \<Rightarrow> (kind \<times> int) multiset \<Rightarrow> nat \<Rightarrow> gpiod \<Rightarrow> bool" where
  "at h names m c s \<longleftrightarrow> lib_handle s = h \<and> (\<forall>n\<in>set names. fns s n \<noteq> 0) \<and> held (calls s) = m \<and> nexts (calls s) = c"

abbreviation traps :: "fault set" where
  "traps \<equiv> {AssertFailed}"

lemma ask_rule:
  assumes "\<And>r hs. r = A hs C \<Longrightarrow> nexts hs = n \<Longrightarrow> vhoare F (at h names (effect C r m) (ticks C n)) (k r) Q"
  shows "vhoare F (at h names m n) (ask A C k) Q"
  unfolding vhoare_def
proof (intro allI impI)
  fix s assume s: "at h names m n s"
  define r where "r = A (calls s) C"
  have "at h names (effect C r m) (ticks C n) (s\<lparr>calls := calls s @ [(C, r)]\<rparr>)"
    using s by (simp add: at_def nexts_snoc)
  with assms [OF r_def] s show "case ask A C k s of Inl f \<Rightarrow> f \<in> F | Inr (a, s') \<Rightarrow> Q a s'"
    by (auto simp: ask_def r_def [symmetric] Let_def vhoare_def at_def)
qed

lemma ask_intro [gpio_intro]:
  "(\<And>r. vhoare F (at h names (effect C r m) (ticks C n)) (k r) Q) \<Longrightarrow> vhoare F (at h names m n) (ask A C k) Q"
  by (rule ask_rule)

lemma via_ask: "fn \<in> set names \<Longrightarrow> vhoare F (at h names m n) (ask A C k) Q \<Longrightarrow> vhoare F (at h names m n) (via A fn C k) Q"
  by (simp add: vhoare_def via_def at_def)

lemma via_intro [gpio_intro]:
  "fn \<in> set names \<Longrightarrow> (\<And>r. vhoare F (at h names (effect C r m) (ticks C n)) (k r) Q) \<Longrightarrow>
   vhoare F (at h names m n) (via A fn C k) Q"
  by (intro via_ask ask_intro)

lemma ret_intro [gpio_intro]: "(\<And>s. P s \<Longrightarrow> Q r s) \<Longrightarrow> vhoare F P (ret r) Q"
  by (simp add: vhoare_def ret_def)

lemma assuming_intro [gpio_intro]: "(nd \<or> b \<Longrightarrow> vhoare traps P k Q) \<Longrightarrow> vhoare traps P (assuming nd b k) Q"
  by (auto simp: vhoare_def assuming_def)

lemma andop_intro: "vhoare F P m R \<Longrightarrow> (\<And>r. vhoare F (R r) (k r) Q) \<Longrightarrow> vhoare F P (andop m k) Q"
  unfolding vhoare_def andop_def by (fastforce split: sum.splits prod.splits)

lemma gif_intro [gpio_intro]: "(b \<Longrightarrow> vhoare F P m Q) \<Longrightarrow> (\<not> b \<Longrightarrow> vhoare F P k Q) \<Longrightarrow> vhoare F P (if b then m else k) Q"
  by simp

lemma at_eq: "at h names m n s \<Longrightarrow> m = m' \<Longrightarrow> n = n' \<Longrightarrow> at h names m' n' s"
  by simp

lemma unload_rule:
  assumes "h \<noteq> 0"
  shows "vhoare traps (at h names (add_mset (HLib, h) m) n) (unload nd A names) (\<lambda>r s. r = 0 \<and> lib_handle s = 0 \<and> held (calls s) = m)"
  using assms by (simp add: vhoare_def unload_def assuming_def ask_def ret_def at_def Let_def)

section \<open>Version 1\<close>

lemma dl_syms_rule:
  assumes "\<And>s. lib_handle s = h \<Longrightarrow> held (calls s) = m \<Longrightarrow> case k s of Inl f \<Rightarrow> f \<in> F | Inr (r, s') \<Rightarrow> Q r s'"
    and "lib_handle s = h" and "held (calls s) = m"
  shows "case dl_syms A ns k s of Inl f \<Rightarrow> f \<in> F | Inr (r, s') \<Rightarrow> Q r s'"
  using assms(2,3)
proof (induction ns arbitrary: s)
  case Nil
  then show ?case using assms(1) by simp
next
  case (Cons n ns)
  then show ?case by (simp add: ask_def Let_def)
qed

text \<open>Loading either fails and leaves nothing behind, or all function pointers are set.\<close>

lemma load_v1:
  assumes "lib_handle s = 0" and "held (calls s) = m"
  shows "case plLoadLibGpiod_v1 nd A s of Inl f \<Rightarrow> f \<in> traps
    | Inr (r, s') \<Rightarrow> if r = 0 then \<exists>h c. h \<noteq> 0 \<and> at h names_v1 (add_mset (HLib, h) m) c s' else r = - 1 \<and> lib_handle s' = 0 \<and> held (calls s') = m"
proof -
  define h where "h = A (calls s) DlOpen"
  define s1 where "s1 = s\<lparr>calls := calls s @ [(DlOpen, h)], lib_handle := h\<rparr>"
  let ?Q = "\<lambda>r s'. if r = 0 then \<exists>h c. h \<noteq> 0 \<and> at h names_v1 (add_mset (HLib, h) m) c s'
    else r = - 1 \<and> lib_handle s' = 0 \<and> held (calls s') = m"
  have load: "case dl_syms A names_v1 (\<lambda>s. if \<exists>n\<in>set names_v1. fns s n = 0
      then andop (plUnloadLibGpiod_v1 nd A) (\<lambda>_. ret (- 1)) s else ret 0 s) s1 of Inl f \<Rightarrow> f \<in> traps | Inr (r, s') \<Rightarrow> ?Q r s'"
    if "h \<noteq> 0"
  proof (rule dl_syms_rule [where h = h and m = "add_mset (HLib, h) m"])
    fix s2 :: gpiod
    assume s2: "lib_handle s2 = h" "held (calls s2) = add_mset (HLib, h) m"
    show "case if \<exists>n\<in>set names_v1. fns s2 n = 0 then andop (plUnloadLibGpiod_v1 nd A) (\<lambda>_. ret (- 1)) s2 else ret 0 s2 of
        Inl f \<Rightarrow> f \<in> traps | Inr (r, s') \<Rightarrow> ?Q r s'"
    proof (cases "\<exists>n\<in>set names_v1. fns s2 n = 0")
      case True
      then show ?thesis
        using s2 that by (simp add: andop_def plUnloadLibGpiod_v1_def unload_def assuming_def ask_def ret_def Let_def)
    next
      case False
      then show ?thesis using s2 that by (auto simp: ret_def at_def)
    qed
  qed (use assms that in \<open>simp_all add: s1_def got_def\<close>)
  show ?thesis
    using load assms
    by (simp add: plLoadLibGpiod_v1_def assuming_def ask_def Let_def h_def [symmetric] s1_def [symmetric])
       (auto simp: s1_def ret_def got_def)
qed

text \<open>What a reset does once its library is loaded.\<close>

lemma loaded_then:
  assumes "case load s of Inl f \<Rightarrow> f \<in> traps | Inr (r, s') \<Rightarrow>
      if r = 0 then \<exists>h c. h \<noteq> 0 \<and> at h names (add_mset (HLib, h) m) c s' else r = - 1 \<and> lib_handle s' = 0 \<and> held (calls s') = m"
    and "\<And>h c. h \<noteq> 0 \<Longrightarrow> vhoare traps (at h names (add_mset (HLib, h) m) c) body Q"
    and "\<And>s'. lib_handle s' = 0 \<Longrightarrow> held (calls s') = m \<Longrightarrow> Q (- 1) s'"
  shows "case andop load (\<lambda>r. if r \<noteq> 0 then ret (- 1) else body) s of Inl f \<Rightarrow> f \<in> traps | Inr (r, s') \<Rightarrow> Q r s'"
proof (cases "load s")
  case (Inl f)
  with assms(1) show ?thesis by (simp add: andop_def)
next
  case (Inr p)
  obtain r s1 where p: "p = (r, s1)" by (cases p)
  show ?thesis
  proof (cases "r = 0")
    case True
    with assms(1) Inr p obtain h c where "h \<noteq> 0" "at h names (add_mset (HLib, h) m) c s1" by auto
    with assms(2) have "case body s1 of Inl f \<Rightarrow> f \<in> traps | Inr (r, s') \<Rightarrow> Q r s'"
      unfolding vhoare_def by blast
    with True Inr p show ?thesis by (simp add: andop_def)
  next
    case False
    with assms(1,3) Inr p show ?thesis by (simp add: andop_def ret_def)
  qed
qed

text \<open>The library ends its iteration: after \<open>k\<close> chips the iterator returns \<open>NULL\<close>.\<close>

definition chips_end :: "library \<Rightarrow> nat \<Rightarrow> bool" where
  "chips_end A k \<longleftrightarrow> (\<forall>hs i. k \<le> nexts hs \<longrightarrow> A hs (ChipIterNext i) = 0)"

definition no_lines :: "(kind \<times> int) multiset \<Rightarrow> bool" where
  "no_lines m \<longleftrightarrow> (\<forall>l. (HLine, l) \<notin># m)"

lemma no_line [simp]:
  "no_lines m \<Longrightarrow> m - {#(HLine, l)#} = m" "no_lines m \<Longrightarrow> m - {#(HLine, l), (HLine, l')#} = m"
  by (simp_all add: no_lines_def diff_single_trivial add_mset_commute)

lemma raspbee_pulse_rule:
  assumes "no_lines m"
  shows "vhoare traps (at h names_v1 m n) (raspbee_pulse nd A line) (\<lambda>r s. r = 0 \<and> at h names_v1 m n s)"
  unfolding raspbee_pulse_def set_line_def release_line_def
  by (intro gpio_intro; simp add: names_v1_def got_def assms split: if_splits)

lemma ftdi_pulse_rule:
  assumes "no_lines m"
  shows "vhoare traps (at h names_v1 m n) (ftdi_pulse nd A line) (\<lambda>r s. r = 0 \<and> at h names_v1 m n s)"
  unfolding ftdi_pulse_def set_line_def release_line_def
  by (intro gpio_intro; simp add: names_v1_def got_def assms split: if_splits)

lemma chip_loop_rule:
  assumes "chips_end A k" and "n \<le> k" and "k < n + fuel"
    and pulse: "\<And>line c. vhoare traps (at h names_v1 m c) (pulse line) (\<lambda>r s. r = 0 \<and> (\<exists>c. at h names_v1 m c s))"
  shows "vhoare traps (at h names_v1 m n) (chip_loop A wanted offset pulse iter fuel)
    (\<lambda>r s. (r = 0 \<or> r = - 1) \<and> (\<exists>c. at h names_v1 m c s))"
  using assms(2,3)
proof (induction fuel arbitrary: n)
  case (Suc fuel)
  have names: "''gpiod_chip_iter_next'' \<in> set names_v1" "''gpiod_chip_name'' \<in> set names_v1"
    "''gpiod_chip_label'' \<in> set names_v1" "''gpiod_chip_get_line'' \<in> set names_v1"
    by (simp_all add: names_v1_def)
  have found: "vhoare traps (at h names_v1 m c) (pulse line) (\<lambda>r s. (r = 0 \<or> r = - 1) \<and> (\<exists>c. at h names_v1 m c s))" for line c
    using pulse [of c line] by (auto simp: vhoare_def split: sum.splits)
  show ?case
    unfolding chip_loop.simps
  proof (rule via_ask [OF names(1)], rule ask_rule)
    fix chip hs
    assume chip: "chip = A hs (ChipIterNext iter)" "nexts hs = n"
    have more: "Suc n \<le> k" if "chip \<noteq> 0"
      using assms(1) chip that unfolding chips_end_def by (metis Suc_leI linorder_not_less)
    show "vhoare traps (at h names_v1 (effect (ChipIterNext iter) chip m) (ticks (ChipIterNext iter) n))
      (if chip = 0 then ret (- 1) else
       via A ''gpiod_chip_name'' (ChipName chip) (\<lambda>name.
       via A ''gpiod_chip_label'' (ChipLabel chip) (\<lambda>label.
         if label = 0 \<or> \<not> wanted label then chip_loop A wanted offset pulse iter fuel else
       via A ''gpiod_chip_get_line'' (ChipGetLine chip offset) (\<lambda>line.
         if line = 0 then chip_loop A wanted offset pulse iter fuel else
       ask A (DebugPrint ''gpiod chip'') (\<lambda>_. pulse line)))))
      (\<lambda>r s. (r = 0 \<or> r = - 1) \<and> (\<exists>c. at h names_v1 m c s))"
      using Suc.IH [of "Suc n"] Suc.prems more
      by (intro gif_intro ret_intro via_intro ask_intro; simp add: names found; blast?)
  qed
qed simp

lemma reset_v1_rule:
  assumes "lib_handle s = 0" and "no_lines (held (calls s))"
    and search: "\<And>h m iter. no_lines m \<Longrightarrow> vhoare traps (at h names_v1 m 0) (search iter) (\<lambda>r s. (r = 0 \<or> r = - 1) \<and> (\<exists>c. at h names_v1 m c s))"
  shows "case reset_v1 nd A search s of Inl f \<Rightarrow> f = AssertFailed
    | Inr (r, s') \<Rightarrow> r \<in> {- 2, - 1, 0} \<and> lib_handle s' = 0 \<and> held (calls s') = held (calls s)"
proof -
  define m where "m = held (calls s)"
  define Q where "Q r s' \<longleftrightarrow> r \<in> {- 2, - 1, 0} \<and> lib_handle s' = 0 \<and> held (calls s') = m" for r :: int and s' :: gpiod
  have unload: "vhoare traps (at h names_v1 (add_mset (HLib, h) m) c) (andop (plUnloadLibGpiod_v1 nd A) (\<lambda>_. ret r)) Q"
    if "h \<noteq> 0" "r \<in> {- 2, - 1, 0}" for h c r
    unfolding plUnloadLibGpiod_v1_def
    by (rule andop_intro [OF unload_rule [OF that(1)]], rule ret_intro) (use that in \<open>simp add: Q_def\<close>)
  have run: "vhoare traps (at h names_v1 (add_mset (HLib, h) m) c) (via A ''gpiod_chip_iter_new'' ChipIterNew (\<lambda>iter. if iter = 0
       then andop (plUnloadLibGpiod_v1 nd A) (\<lambda>_. ret (- 2))
       else andop (search iter) (\<lambda>r.
         via A ''gpiod_chip_iter_free'' (ChipIterFree iter) (\<lambda>_. andop (plUnloadLibGpiod_v1 nd A) (\<lambda>_. ret r))))) Q"
    if "h \<noteq> 0" for h c
  proof (rule via_intro, simp add: names_v1_def, rule gif_intro)
    fix iter :: int
    assume "iter = 0"
    then show "vhoare traps (at h names_v1 (effect ChipIterNew iter (add_mset (HLib, h) m)) (ticks ChipIterNew c))
      (andop (plUnloadLibGpiod_v1 nd A) (\<lambda>_. ret (- 2))) Q"
      using unload [OF that] by (simp add: got_def)
  next
    fix iter :: int
    assume i: "iter \<noteq> 0"
    have lines: "no_lines (add_mset (HIter, iter) (add_mset (HLib, h) m))"
      using assms(2) by (simp add: no_lines_def m_def)
    have stop: "vhoare traps (\<lambda>s. (r = 0 \<or> r = - 1) \<and> (\<exists>c. at h names_v1 (add_mset (HIter, iter) (add_mset (HLib, h) m)) c s))
      (via A ''gpiod_chip_iter_free'' (ChipIterFree iter) (\<lambda>_. andop (plUnloadLibGpiod_v1 nd A) (\<lambda>_. ret r))) Q" for r
    proof -
      have "vhoare traps (at h names_v1 (add_mset (HIter, iter) (add_mset (HLib, h) m)) c)
        (via A ''gpiod_chip_iter_free'' (ChipIterFree iter) (\<lambda>_. andop (plUnloadLibGpiod_v1 nd A) (\<lambda>_. ret r))) Q" if "r = 0 \<or> r = - 1" for c
        by (rule via_intro, simp add: names_v1_def) (use unload [OF \<open>h \<noteq> 0\<close>, of r] that in auto)
      then show ?thesis by (auto simp: vhoare_def)
    qed
    show "vhoare traps (at h names_v1 (effect ChipIterNew iter (add_mset (HLib, h) m)) (ticks ChipIterNew c))
      (andop (search iter) (\<lambda>r. via A ''gpiod_chip_iter_free'' (ChipIterFree iter) (\<lambda>_. andop (plUnloadLibGpiod_v1 nd A) (\<lambda>_. ret r)))) Q"
      using andop_intro [OF search [OF lines] stop] i by (simp add: got_def)
  qed
  have "case reset_v1 nd A search s of Inl f \<Rightarrow> f \<in> traps | Inr (r, s') \<Rightarrow> Q r s'"
    unfolding reset_v1_def
    by (rule loaded_then [where names = names_v1 and m = m])
      (rule load_v1 [OF assms(1) m_def [symmetric]], erule run, simp_all add: Q_def)
  then show ?thesis by (simp add: Q_def m_def cong: sum.case_cong)
qed

lemma chip_loops_rule:
  assumes "chips_end A k" and "k < fuel" and "no_lines m" and "pulse = raspbee_pulse nd A \<or> pulse = ftdi_pulse nd A"
  shows "vhoare traps (at h names_v1 m 0) (chip_loop A wanted offset pulse iter fuel)
    (\<lambda>r s. (r = 0 \<or> r = - 1) \<and> (\<exists>c. at h names_v1 m c s))"
proof (rule chip_loop_rule [OF assms(1)])
  fix line c
  have "vhoare traps (at h names_v1 m c) (pulse line) (\<lambda>r s. r = 0 \<and> at h names_v1 m c s)"
    using raspbee_pulse_rule [OF assms(3)] ftdi_pulse_rule [OF assms(3)] assms(4) by metis
  then show "vhoare traps (at h names_v1 m c) (pulse line) (\<lambda>r s. r = 0 \<and> (\<exists>c. at h names_v1 m c s))"
    unfolding vhoare_def by (metis (mono_tags, lifting) sum.case_eq_if case_prod_beta)
qed (use assms(2) in simp_all)

text \<open>C24: A reset through version 1 of libgpiod gives back everything it obtained - the library, the chip
  iterator, the line - and leaves the handle \<open>NULL\<close> on every path, whatever the library answers; it returns 0, -1
  or -2, never calls through a \<open>NULL\<close> function pointer, and the search of the chips ends.\<close>

theorem gpiod1_gives_back:
  assumes "lib_handle s = 0" and "held (calls s) = {#}" and "chips_end A k" and "k < n"
    and "reset \<in> {plResetRaspBeeLibGpiod_v1 nd A str n, plResetFtdiLibGpiod_v1 nd A str n}"
  shows "case reset s of Inl f \<Rightarrow> f = AssertFailed
    | Inr (r, s') \<Rightarrow> r \<in> {- 2, - 1, 0} \<and> lib_handle s' = 0 \<and> held (calls s') = {#}"
proof -
  have lines: "no_lines (held (calls s))" using assms(2) by (simp add: no_lines_def)
  have go: "case reset_v1 nd A (\<lambda>iter. chip_loop A wanted offset pulse iter n) s of Inl f \<Rightarrow> f = AssertFailed
      | Inr (r, s') \<Rightarrow> r \<in> {- 2, - 1, 0} \<and> lib_handle s' = 0 \<and> held (calls s') = {#}"
    if "pulse = raspbee_pulse nd A \<or> pulse = ftdi_pulse nd A" for wanted offset pulse
    using reset_v1_rule [OF assms(1) lines chip_loops_rule [OF assms(3,4) _ that, of _ _ wanted offset], of nd A]
    unfolding assms(2) by simp
  show ?thesis
    using assms(5) go unfolding plResetRaspBeeLibGpiod_v1_def plResetFtdiLibGpiod_v1_def by blast
qed

text \<open>A library with one chip whose label is found.\<close>

definition one_chip :: library where
  "one_chip hs c = (case c of ChipIterNext i \<Rightarrow> (if nexts hs = 0 then 7 else 0) | _ \<Rightarrow> 1)"

lemma one_chip_ends: "chips_end one_chip 1"
  by (simp add: chips_end_def one_chip_def)

theorem gpiod1_gives_back_witness:
  "case plResetRaspBeeLibGpiod_v1 False one_chip (\<lambda>_. bytes ''pinctrl-bcm2711'') 2 \<lparr>lib_handle = 0, fns = \<lambda>_. 0, calls = []\<rparr> of
     Inl f \<Rightarrow> f = AssertFailed
   | Inr (r, s') \<Rightarrow> r \<in> {- 2, - 1, 0} \<and> lib_handle s' = 0 \<and> held (calls s') = {#}"
  by (rule gpiod1_gives_back [where k = 1 and A = one_chip and nd = False and n = 2 and str = "\<lambda>_. bytes ''pinctrl-bcm2711''"])
     (simp_all add: one_chip_ends del: One_nat_def)

section \<open>Version 2\<close>

lemma chip_path_total: "n < 20 \<Longrightarrow> \<exists>p. chip_path n = Inr p"
proof -
  assume n: "n < 20"
  define ss where "ss = U_sstream_init (Some (replicate 64 0)) 64"
  have ok: "ss_ok ss" "ss_pos ss = 0" "ss_len ss = 64" "ss_status ss = U_SSTREAM_OK"
    by (simp_all add: ss_def U_sstream_init_def ss_ok_def)
  define s1 where "s1 = ss_write (bytes ''/dev/gpiochip'') ss"
  have s1: "ss_ok s1" "ss_pos s1 = 13" "ss_len s1 = 64" "ss_status s1 = U_SSTREAM_OK"
    using ok by (simp_all add: s1_def ss_write_ok)
  have w: "U_sstream_put_str (bytes ''/dev/gpiochip'') ss = Inr s1"
    using ok by (simp add: put_str_eq s1_def)
  have "length (long_text (int n)) \<le> 21" using n by (intro length_long_text) simp
  with s1 have "ss_ok (ss_write (long_text (int n)) s1)" by (intro ss_write_ok) simp_all
  then show ?thesis
    using w s1 n put_long_eq [OF s1(1), of "int n"] ss_ok_c_string
    by (simp add: chip_path_def ss_def [symmetric])
qed

lemma label_has_total: "\<exists>b. label_has prefix label = Inr b"
  using find_total [of "U_sstream_init (Some (label @ [0])) (length label)" prefix]
  by (auto simp: label_has_def U_sstream_init_def)

lemma names_v2_members:
  "''gpiod_chip_open'' \<in> set names_v2" "''gpiod_chip_close'' \<in> set names_v2" "''gpiod_chip_get_info'' \<in> set names_v2"
  "''gpiod_chip_info_free'' \<in> set names_v2" "''gpiod_chip_info_get_label'' \<in> set names_v2"
  "''gpiod_chip_request_lines'' \<in> set names_v2" "''gpiod_line_config_new'' \<in> set names_v2"
  "''gpiod_line_config_free'' \<in> set names_v2" "''gpiod_line_request_release'' \<in> set names_v2"
  "''gpiod_line_settings_new'' \<in> set names_v2" "''gpiod_line_settings_free'' \<in> set names_v2"
  "''gpiod_line_settings_set_direction'' \<in> set names_v2" "''gpiod_line_settings_set_output_value'' \<in> set names_v2"
  "''gpiod_line_config_add_line_settings'' \<in> set names_v2" "''gpiod_request_config_new'' \<in> set names_v2"
  "''gpiod_request_config_free'' \<in> set names_v2" "''gpiod_request_config_set_consumer'' \<in> set names_v2"
  "''gpiod_line_request_set_value'' \<in> set names_v2"
  by (simp_all add: names_v2_def)

lemma find_chip_rule:
  "i \<le> 20 \<Longrightarrow> vhoare traps (at h names_v2 m n) (find_chip A str prefix i) (\<lambda>r. at h names_v2 (got (r \<noteq> 0) HChip r m) n)"
proof (induction i)
  case 0
  show ?case unfolding find_chip.simps by (rule ret_intro) (simp add: got_def)
next
  case (Suc i)
  have "20 - Suc i < 20" by simp
  then obtain p where p: "chip_path (20 - Suc i) = Inr p" using chip_path_total by blast
  have more: "vhoare traps (at h names_v2 m n) (find_chip A str prefix i) (\<lambda>r. at h names_v2 (got (r \<noteq> 0) HChip r m) n)"
    using Suc by simp
  have label: "\<exists>b. (if l = 0 then Inr False else label_has prefix (str l)) = Inr b" for l
    using label_has_total by (cases "l = 0") auto
  show ?case
    unfolding find_chip.simps p sum.case
  proof (intro via_intro gif_intro names_v2_members, goal_cases)
    case (1 chip)
    then show ?case using more by (simp add: got_def)
  next
    case (2 chip info r)
    then show ?case using more by (simp add: got_def)
  next
    case (3 chip info l)
    obtain b where b: "(if l = 0 then Inr False else label_has prefix (str l)) = Inr b" using label by blast
    show ?case
      unfolding b sum.case
      using more 3 by (intro via_intro gif_intro ret_intro names_v2_members) (simp_all add: got_def add_mset_commute)
  qed
qed

text \<open>An operation that obtains an object of kind \<open>k\<close> when it returns its pointer.\<close>

abbreviation obtains_one :: "kind \<Rightarrow> gop \<Rightarrow> bool" where
  "obtains_one k m \<equiv> \<forall>h held n. vhoare traps (at h names_v2 held n) m (\<lambda>r. at h names_v2 (got (r \<noteq> 0) k r held) n)"

lemma request_lines_rule: "obtains_one HRequest (request_lines A chip cfg)"
proof (intro allI)
  fix h n and m :: "(kind \<times> int) multiset"
  show "vhoare traps (at h names_v2 m n) (request_lines A chip cfg) (\<lambda>r. at h names_v2 (got (r \<noteq> 0) HRequest r m) n)"
    unfolding request_lines_def
  proof (rule via_intro [OF names_v2_members(15)])
    fix rc :: int
    show "vhoare traps (at h names_v2 (effect RequestConfigNew rc m) (ticks RequestConfigNew n))
      (andop (if rc = 0 then ret 0
           else via A ''gpiod_request_config_set_consumer'' (RequestConfigSetConsumer rc ''gcf'') (\<lambda>_. ret 0)) (\<lambda>_.
         via A ''gpiod_chip_request_lines'' (ChipRequestLines chip rc cfg) (\<lambda>req.
           if rc = 0 then ret req else via A ''gpiod_request_config_free'' (RequestConfigFree rc) (\<lambda>_. ret req))))
      (\<lambda>r. at h names_v2 (got (r \<noteq> 0) HRequest r m) n)"
      by (rule andop_intro [where R = "\<lambda>_. at h names_v2 (got (rc \<noteq> 0) HRequestConfig rc m) n"])
        (intro gif_intro via_intro ret_intro names_v2_members; simp add: got_def add_mset_commute split: if_splits)+
  qed
qed

lemma request_with_config_rule: "obtains_one HRequest (request_with_config A chip offset st)"
proof (intro allI)
  fix h n and m :: "(kind \<times> int) multiset"
  show "vhoare traps (at h names_v2 m n) (request_with_config A chip offset st) (\<lambda>r. at h names_v2 (got (r \<noteq> 0) HRequest r m) n)"
    unfolding request_with_config_def
  proof (rule via_intro [OF names_v2_members(7)], rule gif_intro)
    fix cfg :: int
    assume c: "cfg \<noteq> 0"
    show "vhoare traps (at h names_v2 (effect LineConfigNew cfg m) (ticks LineConfigNew n))
      (via A ''gpiod_line_config_add_line_settings'' (LineConfigAddSettings cfg offset st) (\<lambda>r.
       andop (if r \<noteq> 0 then ret 0 else request_lines A chip cfg) (\<lambda>req.
       via A ''gpiod_line_config_free'' (LineConfigFree cfg) (\<lambda>_. ret req))))
      (\<lambda>r. at h names_v2 (got (r \<noteq> 0) HRequest r m) n)"
      using c request_lines_rule
      by (intro via_intro andop_intro [where R = "\<lambda>r. at h names_v2 (got (r \<noteq> 0) HRequest r (add_mset (HLineConfig, cfg) m)) n"]
            gif_intro ret_intro names_v2_members; simp add: got_def add_mset_commute split: if_splits)
  qed (rule ret_intro, simp add: got_def)
qed

lemma request_line_rule: "obtains_one HRequest (plRequestOutputLine A chip offset v)"
proof (intro allI)
  fix h n and m :: "(kind \<times> int) multiset"
  show "vhoare traps (at h names_v2 m n) (plRequestOutputLine A chip offset v) (\<lambda>r. at h names_v2 (got (r \<noteq> 0) HRequest r m) n)"
    unfolding plRequestOutputLine_def
  proof (rule via_intro [OF names_v2_members(10)], rule gif_intro)
    fix st :: int
    assume c: "st \<noteq> 0"
    show "vhoare traps (at h names_v2 (effect SettingsNew st m) (ticks SettingsNew n))
      (via A ''gpiod_line_settings_set_direction'' (SettingsSetDirection st) (\<lambda>_.
       via A ''gpiod_line_settings_set_output_value'' (SettingsSetOutputValue st v) (\<lambda>_.
       andop (request_with_config A chip offset st) (\<lambda>req.
       via A ''gpiod_line_settings_free'' (SettingsFree st) (\<lambda>_. ret req)))))
      (\<lambda>r. at h names_v2 (got (r \<noteq> 0) HRequest r m) n)"
      using c request_with_config_rule
      by (intro via_intro andop_intro [where R = "\<lambda>r. at h names_v2 (got (r \<noteq> 0) HRequest r (add_mset (HSettings, st) m)) n"]
            gif_intro ret_intro names_v2_members; simp add: got_def add_mset_commute split: if_splits)
  qed (rule ret_intro, simp add: got_def)
qed

text \<open>The library found is a version 2: it has \<open>gpiod_api_version\<close>.\<close>

definition version2 :: "library \<Rightarrow> bool" where
  "version2 A \<longleftrightarrow> (\<forall>hs. A hs (DlSym ''gpiod_api_version'') \<noteq> 0)"

lemma load_v2:
  assumes "version2 A" and "lib_handle s = 0" and "held (calls s) = m"
  shows "case plLoadLibGpiod_v2 nd A s of Inl f \<Rightarrow> f \<in> traps
    | Inr (r, s') \<Rightarrow> if r = 0 then \<exists>h c. h \<noteq> 0 \<and> at h names_v2 (add_mset (HLib, h) m) c s' else r = - 1 \<and> lib_handle s' = 0 \<and> held (calls s') = m"
proof -
  define h where "h = A (calls s) DlOpen"
  let ?Q = "\<lambda>r s'. if r = 0 then \<exists>h c. h \<noteq> 0 \<and> at h names_v2 (add_mset (HLib, h) m) c s'
    else r = - 1 \<and> lib_handle s' = 0 \<and> held (calls s') = m"
  have load: "case dl_syms A names_v2 (\<lambda>s. if \<exists>n\<in>set names_v2. fns s n = 0
      then andop (plUnloadLibGpiod_v2 nd A) (\<lambda>_. ret (- 1)) s else ret 0 s) s1 of Inl f \<Rightarrow> f \<in> traps | Inr (r, s') \<Rightarrow> ?Q r s'"
    if "h \<noteq> 0" "lib_handle s1 = h" "held (calls s1) = add_mset (HLib, h) m" for s1
  proof (rule dl_syms_rule [OF _ that(2,3)])
    fix s2 :: gpiod
    assume s2: "lib_handle s2 = h" "held (calls s2) = add_mset (HLib, h) m"
    show "case if \<exists>n\<in>set names_v2. fns s2 n = 0 then andop (plUnloadLibGpiod_v2 nd A) (\<lambda>_. ret (- 1)) s2 else ret 0 s2 of
        Inl f \<Rightarrow> f \<in> traps | Inr (r, s') \<Rightarrow> ?Q r s'"
    proof (cases "\<exists>n\<in>set names_v2. fns s2 n = 0")
      case True
      then show ?thesis
        using s2 that(1) by (simp add: andop_def plUnloadLibGpiod_v2_def unload_def assuming_def ask_def ret_def Let_def)
    next
      case False
      then show ?thesis using s2 that(1) by (auto simp: ret_def at_def)
    qed
  qed
  show ?thesis
  proof (cases "h = 0")
    case True
    with assms show ?thesis
      by (simp add: plLoadLibGpiod_v2_def assuming_def ask_def Let_def h_def [symmetric] ret_def got_def)
  next
    case False
    define p where "p = A (calls s @ [(DlOpen, h)]) (DlSym ''gpiod_api_version'')"
    define c1 where "c1 = (calls s @ [(DlOpen, h)]) @ [(DlSym ''gpiod_api_version'', p)]"
    define c2 where "c2 = c1 @ [(ApiVersion, A c1 ApiVersion)]"
    define s1 where "s1 = s\<lparr>lib_handle := h, fns := (fns s)(''gpiod_api_version'' := p),
      calls := c2 @ [(DebugPrint ''gpiod version'', A c2 (DebugPrint ''gpiod version''))]\<rparr>"
    have s1: "lib_handle s1 = h" "held (calls s1) = add_mset (HLib, h) (held (calls s))"
      "plLoadLibGpiod_v2 nd A s = dl_syms A names_v2 (\<lambda>s. if \<exists>n\<in>set names_v2. fns s n = 0
        then andop (plUnloadLibGpiod_v2 nd A) (\<lambda>_. ret (- 1)) s else ret 0 s) s1"
      using False assms(1,2)
      by (simp_all add: plLoadLibGpiod_v2_def assuming_def ask_def via_def Let_def h_def [symmetric] version2_def got_def
          s1_def c2_def c1_def p_def)
    show ?thesis unfolding s1(3) by (rule load [OF False s1(1)]) (use s1(2) assms(3) in simp)
  qed
qed

lemma set_values_rule:
  assumes "vhoare traps (at h names_v2 m n) k Q"
  shows "vhoare traps (at h names_v2 m n) (set_values nd A req vs k) Q"
  using assms by (induction vs) (auto intro!: via_intro [OF names_v2_members(18)] assuming_intro)

text \<open>What a reset returns, and that nothing is held behind it.\<close>

definition given_back :: "int \<Rightarrow> gpiod \<Rightarrow> bool" where
  "given_back r s \<longleftrightarrow> r \<in> {- 2, - 1, 0} \<and> lib_handle s = 0 \<and> held (calls s) = {#}"

lemma unload_v2_back:
  assumes "h \<noteq> 0" and "r \<in> {- 2, - 1, 0}"
  shows "vhoare traps (at h names_v2 {#(HLib, h)#} c) (andop (plUnloadLibGpiod_v2 nd A) (\<lambda>_. ret r)) given_back"
  unfolding plUnloadLibGpiod_v2_def
  by (rule andop_intro [OF unload_rule [OF assms(1)]], rule ret_intro) (use assms in \<open>simp add: given_back_def\<close>)

lemma close_chip_back:
  assumes "h \<noteq> 0"
  shows "vhoare traps (\<lambda>s. (r = 0 \<or> r = - 1) \<and> at h names_v2 {#(HLib, h), (HChip, chip)#} c s)
    (via A ''gpiod_chip_close'' (ChipClose chip) (\<lambda>_. andop (plUnloadLibGpiod_v2 nd A) (\<lambda>_. ret r))) given_back"
proof -
  have "vhoare traps (at h names_v2 {#(HLib, h), (HChip, chip)#} c)
    (via A ''gpiod_chip_close'' (ChipClose chip) (\<lambda>_. andop (plUnloadLibGpiod_v2 nd A) (\<lambda>_. ret r))) given_back" if "r = 0 \<or> r = - 1"
    by (rule via_intro [OF names_v2_members(2)]) (use unload_v2_back [OF assms, of r c] that in auto)
  then show ?thesis by (auto simp: vhoare_def)
qed

lemma drive_line_rule:
  "vhoare traps (at h names_v2 (got (req \<noteq> 0) HRequest req m) c) (if req = 0 then ret (- 1) else
     set_values nd A req vs (via A ''gpiod_line_request_release'' (RequestRelease req) (\<lambda>_. ret 0)))
     (\<lambda>r s. (r = 0 \<or> r = - 1) \<and> at h names_v2 m c s)"
  by (intro gif_intro ret_intro set_values_rule via_intro names_v2_members; simp add: got_def)

lemma reset_chip_back:
  assumes "h \<noteq> 0"
  shows "vhoare traps (at h names_v2 {#(HLib, h)#} c) (andop (plGetGpiodChip A str prefix) (\<lambda>chip. if chip = 0
       then andop (plUnloadLibGpiod_v2 nd A) (\<lambda>_. ret (- 2))
       else andop (plRequestOutputLine A chip offset start) (\<lambda>req.
         andop (if req = 0 then ret (- 1) else
           set_values nd A req vs (via A ''gpiod_line_request_release'' (RequestRelease req) (\<lambda>_. ret 0))) (\<lambda>r.
         via A ''gpiod_chip_close'' (ChipClose chip) (\<lambda>_. andop (plUnloadLibGpiod_v2 nd A) (\<lambda>_. ret r)))))) given_back"
  unfolding plGetGpiodChip_def
proof (rule andop_intro [OF find_chip_rule], simp, rule gif_intro)
  fix chip :: int
  assume "chip = 0"
  then show "vhoare traps (at h names_v2 (got (chip \<noteq> 0) HChip chip {#(HLib, h)#}) c) (andop (plUnloadLibGpiod_v2 nd A) (\<lambda>_. ret (- 2))) given_back"
    using unload_v2_back [OF assms] by (simp add: got_def)
next
  fix chip :: int
  assume "chip \<noteq> 0"
  then have g: "got (chip \<noteq> 0) HChip chip {#(HLib, h)#} = {#(HLib, h), (HChip, chip)#}" by (simp add: got_def add_mset_commute)
  show "vhoare traps (at h names_v2 (got (chip \<noteq> 0) HChip chip {#(HLib, h)#}) c) (andop (plRequestOutputLine A chip offset start) (\<lambda>req.
       andop (if req = 0 then ret (- 1) else
         set_values nd A req vs (via A ''gpiod_line_request_release'' (RequestRelease req) (\<lambda>_. ret 0))) (\<lambda>r.
       via A ''gpiod_chip_close'' (ChipClose chip) (\<lambda>_. andop (plUnloadLibGpiod_v2 nd A) (\<lambda>_. ret r))))) given_back"
    unfolding g
    by (rule andop_intro [OF request_line_rule [rule_format]], rule andop_intro [OF drive_line_rule close_chip_back [OF assms]])
qed

text \<open>C25: With a library of version 2, a reset gives back the library, the chip, its information, the
  settings and the request, on every path; the handle is \<open>NULL\<close> again, and no function pointer is \<open>NULL\<close> when it
  is called.\<close>

theorem gpiod2_gives_back:
  assumes "version2 A" and "lib_handle s = 0" and "held (calls s) = {#}"
    and "reset \<in> {plResetRaspBeeLibGpiod_v2 nd A str, plResetFtdiLibGpiod_v2 nd A str}"
  shows "case reset s of Inl f \<Rightarrow> f = AssertFailed
    | Inr (r, s') \<Rightarrow> r \<in> {- 2, - 1, 0} \<and> lib_handle s' = 0 \<and> held (calls s') = {#}"
proof -
  have "case reset_v2 nd A str prefix offset start vs s of Inl f \<Rightarrow> f \<in> traps | Inr (r, s') \<Rightarrow> given_back r s'" for prefix offset start vs
    unfolding reset_v2_def
    by (rule loaded_then [where names = names_v2 and m = "{#}"])
      (rule load_v2 [OF assms(1,2,3)], erule reset_chip_back, simp_all add: given_back_def)
  then have "case reset_v2 nd A str prefix offset start vs s of Inl f \<Rightarrow> f = AssertFailed
      | Inr (r, s') \<Rightarrow> r \<in> {- 2, - 1, 0} \<and> lib_handle s' = 0 \<and> held (calls s') = {#}" for prefix offset start vs
    by (simp add: given_back_def cong: sum.case_cong)
  with assms(4) show ?thesis
    unfolding plResetRaspBeeLibGpiod_v2_def plResetFtdiLibGpiod_v2_def by blast
qed

text \<open>A library of version 2 with one chip.\<close>

definition chip_v2 :: library where
  "chip_v2 hs c = (case c of RequestSetValue r l v \<Rightarrow> 0 | LineConfigAddSettings cfg l st \<Rightarrow> 0 | _ \<Rightarrow> 1)"

lemma chip_v2_version: "version2 chip_v2"
  by (simp add: version2_def chip_v2_def)

theorem gpiod2_gives_back_witness:
  "case plResetFtdiLibGpiod_v2 False chip_v2 (\<lambda>_. bytes ''ftdi-cbus'') \<lparr>lib_handle = 0, fns = \<lambda>_. 0, calls = []\<rparr> of
     Inl f \<Rightarrow> f = AssertFailed
   | Inr (r, s') \<Rightarrow> r \<in> {- 2, - 1, 0} \<and> lib_handle s' = 0 \<and> held (calls s') = {#}"
  by (rule gpiod2_gives_back [where nd = False and A = chip_v2 and str = "\<lambda>_. bytes ''ftdi-cbus''"])
     (simp_all add: chip_v2_version)

section \<open>Errors with version 2\<close>

text \<open>When the library found is not a version 2, the first reset returns -1 without closing it, and the
  next one, which every retry makes, stops the program at the \<open>Assert\<close> of \<open>plLoadLibGpiod\<close>.\<close>

lemma gpiod2_second_reset_traps:
  assumes "lib_handle s = 0" and "\<forall>hs. A hs DlOpen \<noteq> 0" and "\<forall>hs. A hs (DlSym ''gpiod_api_version'') = 0"
  shows "\<exists>s'. plResetFtdiLibGpiod_v2 False A str s = Inr (- 1, s') \<and> held (calls s') \<noteq> held (calls s)
    \<and> plResetFtdiLibGpiod_v2 False A str s' = Inl AssertFailed"
  using assms
  by (simp add: plResetFtdiLibGpiod_v2_def reset_v2_def andop_def plLoadLibGpiod_v2_def assuming_def ask_def ret_def Let_def got_def)

theorem gpiod2_second_reset_traps_witness:
  "\<exists>s'. plResetFtdiLibGpiod_v2 False (\<lambda>hs c. if c = DlOpen then 1 else 0) (\<lambda>_. []) \<lparr>lib_handle = 0, fns = \<lambda>_. 0, calls = []\<rparr>
      = Inr (- 1, s') \<and> held (calls s') \<noteq> held []
    \<and> plResetFtdiLibGpiod_v2 False (\<lambda>hs c. if c = DlOpen then 1 else 0) (\<lambda>_. []) s' = Inl AssertFailed"
  using gpiod2_second_reset_traps [of "\<lparr>lib_handle = 0, fns = \<lambda>_. 0, calls = []\<rparr>" "\<lambda>hs c. if c = DlOpen then 1 else 0" "\<lambda>_. []"]
  by simp

text \<open>What is left is the library itself.\<close>

lemma gpiod2_leaks_library:
  assumes "lib_handle s = 0" and "leaks (calls s) = []" and "A (calls s) DlOpen = h" and "h \<noteq> 0"
    and "\<forall>hs. A hs (DlSym ''gpiod_api_version'') = 0"
  shows "\<exists>s'. plLoadLibGpiod_v2 nd A s = Inr (- 1, s') \<and> leaks (calls s') = [(HLib, h)]"
  using assms by (simp add: leaks_none)
    (simp add: plLoadLibGpiod_v2_def assuming_def ask_def ret_def Let_def got_def leaks_def)

text \<open>The library refuses to set a line that is not part of the request: \<open>gpiod_line_request_set_value\<close>
  fails for an offset no settings were added for.\<close>

definition refuses_others :: "library \<Rightarrow> bool" where
  "refuses_others A \<longleftrightarrow> (\<forall>hs req offset v. (\<forall>cfg st r. (LineConfigAddSettings cfg offset st, r) \<notin> set hs) \<longrightarrow>
     A hs (RequestSetValue req offset v) \<noteq> 0)"

definition not_added :: "gpiod \<Rightarrow> bool" where
  "not_added s \<longleftrightarrow> (\<forall>cfg st r. (LineConfigAddSettings cfg 0 st, r) \<notin> set (calls s))"

lemma vhoare_UNIV: "vhoare UNIV P m Q \<longleftrightarrow> (\<forall>w r w'. P w \<longrightarrow> m w = Inr (r, w') \<longrightarrow> Q r w')"
  by (auto simp: vhoare_def split: sum.splits)

lemma not_added_calls: "not_added s \<Longrightarrow> calls s' = calls s \<Longrightarrow> not_added s'"
  by (simp add: not_added_def)

abbreviation leaves :: "gop \<Rightarrow> bool" where
  "leaves m \<equiv> vhoare UNIV not_added m (\<lambda>_. not_added)"

lemma leaves_ask:
  assumes "\<forall>cfg st. C \<noteq> LineConfigAddSettings cfg 0 st" and "\<And>r. vhoare UNIV not_added (k r) Q"
  shows "vhoare UNIV not_added (ask A C k) Q"
  unfolding vhoare_UNIV
proof (intro allI impI)
  fix w r w' assume w: "not_added w" "ask A C k w = Inr (r, w')"
  have "not_added (w\<lparr>calls := calls w @ [(C, A (calls w) C)]\<rparr>)"
    using w(1) assms(1) by (auto simp: not_added_def)
  with w(2) assms(2) show "Q r w'" by (auto simp: ask_def Let_def vhoare_UNIV)
qed

lemma leaves_via: "(\<forall>cfg st. C \<noteq> LineConfigAddSettings cfg 0 st) \<Longrightarrow> (\<And>r. vhoare UNIV not_added (k r) Q) \<Longrightarrow>
    vhoare UNIV not_added (via A fn C k) Q"
  using leaves_ask [of C k Q A] by (auto simp: vhoare_UNIV via_def)

lemma leaves_ret: "leaves (ret r)"
  by (simp add: vhoare_def ret_def)

lemma leaves_case: "(\<And>a. x = Inr a \<Longrightarrow> vhoare UNIV P (k a) Q) \<Longrightarrow> vhoare UNIV P (case x of Inl f \<Rightarrow> (\<lambda>s. Inl f) | Inr a \<Rightarrow> k a) Q"
  by (cases x) (auto simp: vhoare_def)

lemma leaves_update: "leaves k \<Longrightarrow> (\<And>s. calls (f s) = calls s) \<Longrightarrow> leaves (\<lambda>s. k (f s))"
  unfolding vhoare_UNIV using not_added_calls by blast

lemma leaves_syms: "leaves k \<Longrightarrow> leaves (dl_syms A ns k)"
proof (induction ns)
  case (Cons n ns)
  show ?case
    unfolding dl_syms.simps by (rule leaves_ask, simp, rule leaves_update [OF Cons.IH [OF Cons.prems]]) simp
qed simp

lemma leaves_unload: "leaves (unload nd A names)"
  by (auto simp: vhoare_def unload_def assuming_def ask_def ret_def Let_def not_added_def)

lemma leaves_branch: "leaves m \<Longrightarrow> leaves k \<Longrightarrow> leaves (\<lambda>s. if b s then m s else k s)"
  by (simp add: vhoare_def)

lemma leaves_if: "leaves m \<Longrightarrow> leaves k \<Longrightarrow> leaves (if b then m else k)"
  by simp

lemma leaves_loaded: "leaves (\<lambda>s. if \<exists>n\<in>set names_v2. fns s n = 0 then andop (plUnloadLibGpiod_v2 nd A) (\<lambda>_. ret (- 1)) s else ret 0 s)"
proof (rule leaves_branch)
  show "leaves (ret 0)" by (rule leaves_ret)
  show "leaves (andop (plUnloadLibGpiod_v2 nd A) (\<lambda>_. ret (- 1)))"
    unfolding plUnloadLibGpiod_v2_def
    by (rule andop_intro [where R = "\<lambda>_. not_added"], rule leaves_unload, rule leaves_ret)
qed

lemma leaves_version:
  "leaves m \<Longrightarrow> leaves (\<lambda>s. if fns s ''gpiod_api_version'' = 0 then ret (- 1) s
     else via A ''gpiod_api_version'' ApiVersion (\<lambda>_. ask A (DebugPrint t) (\<lambda>_. dl_syms A ns m)) s)"
  by (rule leaves_branch, rule leaves_ret, rule leaves_via, simp, rule leaves_ask, simp, rule leaves_syms)

lemma leaves_open:
  "leaves m \<Longrightarrow> leaves (\<lambda>s. assuming nd (b s) (ask A DlOpen (\<lambda>h s. (if h = 0 then ask A (DebugPrint t) (\<lambda>_. ret (- 1)) else m) (s\<lparr>lib_handle := h\<rparr>))) s)"
proof -
  assume m: "leaves m"
  have "leaves (if h = 0 then ask A (DebugPrint t) (\<lambda>_. ret (- 1)) else m)" for h :: int
    using m by (intro leaves_if leaves_ask leaves_ret) simp
  then have "leaves (\<lambda>s. (if h = 0 then ask A (DebugPrint t) (\<lambda>_. ret (- 1)) else m) (s\<lparr>lib_handle := h\<rparr>))" for h
    by (rule leaves_update) simp
  then have "leaves (ask A DlOpen (\<lambda>h s. (if h = 0 then ask A (DebugPrint t) (\<lambda>_. ret (- 1)) else m) (s\<lparr>lib_handle := h\<rparr>)))"
    by (intro leaves_ask) simp
  then show ?thesis by (simp add: vhoare_UNIV assuming_def)
qed

lemma leaves_load: "leaves (plLoadLibGpiod_v2 nd A)"
  unfolding plLoadLibGpiod_v2_def by (rule leaves_open, rule leaves_syms, rule leaves_version, rule leaves_loaded)

lemma leaves_find: "leaves (find_chip A str prefix i)"
proof (induction i)
  case (Suc i)
  then show ?case
    unfolding find_chip.simps
    by (intro leaves_case leaves_via leaves_if leaves_ret) simp_all
qed (simp add: leaves_ret)

lemma leaves_request: "leaves (plRequestOutputLine A chip 17 v)"
  unfolding plRequestOutputLine_def request_with_config_def request_lines_def
  by (intro leaves_via leaves_if leaves_ret andop_intro [where R = "\<lambda>_. not_added"]) simp_all

text \<open>The reset of a RaspBee through version 2 never succeeds: the line that is requested has offset 17,
  the values are set for offset 0, which the library refuses, and the \<open>Assert\<close> behind the call stops the
  program whenever a chip and its line are found.\<close>

lemma gpiod2_raspbee_never_resets:
  assumes "refuses_others A" and "not_added s"
  shows "case plResetRaspBeeLibGpiod_v2 False A str s of Inl f \<Rightarrow> True | Inr (r, s') \<Rightarrow> r = - 1 \<or> r = - 2"
proof -
  have fails: "vhoare UNIV not_added (if req = 0 then ret (- 1) else
      set_values False A req [0, 1] (via A ''gpiod_line_request_release'' (RequestRelease req) (\<lambda>_. ret 0)))
      (\<lambda>r s. r = - 1 \<and> not_added s)" for req
    using assms(1) by (auto simp: vhoare_def ret_def via_def ask_def assuming_def Let_def refuses_others_def not_added_def)
  have result: "vhoare UNIV P m (\<lambda>_. R) \<Longrightarrow> vhoare UNIV P (andop m (\<lambda>_. ret r)) (\<lambda>r' _. r' = r)" for P R m r
    by (rule andop_intro [where R = "\<lambda>_. R"]) (auto simp: vhoare_def ret_def)
  have unload: "vhoare UNIV not_added (andop (plUnloadLibGpiod_v2 False A) (\<lambda>_. ret r)) (\<lambda>r' _. r' = r)" for r
    unfolding plUnloadLibGpiod_v2_def by (rule result [OF leaves_unload])
  have weak: "vhoare UNIV P m (\<lambda>r' _. r' = c) \<Longrightarrow> c = - 1 \<or> c = - 2 \<Longrightarrow> vhoare UNIV P m (\<lambda>r _. r = - 1 \<or> r = - 2)" for P m c
    by (auto simp: vhoare_def split: sum.splits)
  have stop: "vhoare UNIV (\<lambda>s. r = - 1 \<and> not_added s) (via A ''gpiod_chip_close'' (ChipClose chip) (\<lambda>_.
      andop (plUnloadLibGpiod_v2 False A) (\<lambda>_. ret r))) (\<lambda>r _. r = - 1 \<or> r = - 2)" for r chip
  proof (cases "r = - 1")
    case True
    have "vhoare UNIV not_added (via A ''gpiod_chip_close'' (ChipClose chip) (\<lambda>_.
      andop (plUnloadLibGpiod_v2 False A) (\<lambda>_. ret r))) (\<lambda>r _. r = - 1 \<or> r = - 2)"
      by (rule leaves_via) (simp, rule weak [OF unload], use True in simp)
    then show ?thesis using True by (simp add: vhoare_UNIV)
  qed (simp add: vhoare_UNIV)
  have "vhoare UNIV not_added (plResetRaspBeeLibGpiod_v2 False A str) (\<lambda>r _. r = - 1 \<or> r = - 2)"
    unfolding plResetRaspBeeLibGpiod_v2_def reset_v2_def plGetGpiodChip_def
    apply (rule andop_intro [OF leaves_load])
    apply (rule gif_intro, simp add: vhoare_def ret_def)
    apply (rule andop_intro [OF leaves_find])
    apply (rule gif_intro, rule weak [OF unload], simp)
    apply (rule andop_intro [OF leaves_request])
    apply (rule andop_intro [OF fails stop])
    done
  then show ?thesis using assms(2) by (auto simp: vhoare_UNIV split: sum.splits)
qed

text \<open>A library that knows one line, at offset 17.\<close>

definition pinctrl_v2 :: library where
  "pinctrl_v2 hs c = (case c of RequestSetValue r l v \<Rightarrow> (if \<exists>x\<in>set hs. case x of (LineConfigAddSettings cfg l' st, _) \<Rightarrow> l' = l | _ \<Rightarrow> False then 0 else - 1)
     | LineConfigAddSettings cfg l st \<Rightarrow> 0 | _ \<Rightarrow> 1)"

lemma pinctrl_v2_refuses: "refuses_others pinctrl_v2"
  by (fastforce simp: refuses_others_def pinctrl_v2_def split: gpio_call.splits)

theorem gpiod2_raspbee_never_resets_witness:
  "case plResetRaspBeeLibGpiod_v2 False pinctrl_v2 (\<lambda>_. bytes ''pinctrl-bcm2711'') \<lparr>lib_handle = 0, fns = \<lambda>_. 0, calls = []\<rparr> of
     Inl f \<Rightarrow> True | Inr (r, s') \<Rightarrow> r = - 1 \<or> r = - 2"
  by (rule gpiod2_raspbee_never_resets [OF pinctrl_v2_refuses]) (simp add: not_added_def)

end
