(* ===== verification/Libftdi.thy ===== *)
theory Libftdi
  imports Prelude
begin

text \<open>
  The reset of a ConBee I through libftdi, \<open>posix_libftdi_reset.c\<close>. The library is a parameter
  as in \<open>Gpiod\<close>: \<open>A h c\<close> is what call \<open>c\<close> returns after the history \<open>h\<close>; \<open>ftdi_new\<close>
  returns a pointer, the others an error code below 0 or a result. Error messages are calls too.
\<close>

datatype ftdi_call =
    FtdiNew | FtdiUsbOpen int nat nat | FtdiDeinit int | FtdiSetBitmode int byte | FtdiReadPins int
  | FtdiDisableBitbang int | FtdiUsbClose int | FtdiFree int | FtdiSleep nat | FtdiMessage string

type_synonym ftdi_history = "(ftdi_call \<times> int) list"
type_synonym ftdi_library = "ftdi_history \<Rightarrow> ftdi_call \<Rightarrow> int"

text \<open>A computation is the history it extends; the result is returned with it.\<close>

definition fcall :: "ftdi_library \<Rightarrow> ftdi_call \<Rightarrow> (int \<Rightarrow> ftdi_history \<Rightarrow> int \<times> ftdi_history) \<Rightarrow> ftdi_history \<Rightarrow> int \<times> ftdi_history" where
  "fcall A c k h = (let r = A h c in k r (h @ [(c, r)]))"

text \<open>The loop over \<open>bitmask\<close>: a failed \<open>set_bitmode\<close> ends it, a failed \<open>read_pins\<close> does not.\<close>

fun toggle_cbus :: "ftdi_library \<Rightarrow> int \<Rightarrow> byte list \<Rightarrow> (ftdi_history \<Rightarrow> int \<times> ftdi_history) \<Rightarrow> ftdi_history \<Rightarrow> int \<times> ftdi_history" where
  "toggle_cbus A ftdi [] k = k"
| "toggle_cbus A ftdi (b # bs) k =
     fcall A (FtdiSetBitmode ftdi b) (\<lambda>r. if r < 0 then fcall A (FtdiMessage ''set_bitmode failed'') (\<lambda>_. k)
     else fcall A (FtdiSleep 10) (\<lambda>_. fcall A (FtdiReadPins ftdi) (\<lambda>r.
       if r < 0 then fcall A (FtdiMessage ''read_pins failed'') (\<lambda>_. toggle_cbus A ftdi bs k)
       else fcall A (FtdiMessage ''read returned'') (\<lambda>_. toggle_cbus A ftdi bs k))))"

definition ftdi_close :: "ftdi_library \<Rightarrow> int \<Rightarrow> ftdi_history \<Rightarrow> int \<times> ftdi_history" where
  "ftdi_close A ftdi =
     fcall A (FtdiMessage ''disabling bitbang mode'') (\<lambda>_.
     fcall A (FtdiDisableBitbang ftdi) (\<lambda>_.
     fcall A (FtdiUsbClose ftdi) (\<lambda>_.
     fcall A (FtdiFree ftdi) (\<lambda>_ h. (0, h)))))"

definition plResetLibFtdi :: "ftdi_library \<Rightarrow> ftdi_history \<Rightarrow> int \<times> ftdi_history" where
  "plResetLibFtdi A = fcall A FtdiNew (\<lambda>ftdi. if ftdi = 0
     then fcall A (FtdiMessage ''ftdi_new failed'') (\<lambda>_ h. (- 1, h))
     else fcall A (FtdiUsbOpen ftdi 0x0403 0x6015) (\<lambda>r. if r < 0 \<and> r \<noteq> - 5
       then fcall A (FtdiMessage ''unable to open ftdi device'') (\<lambda>_. fcall A (FtdiDeinit ftdi) (\<lambda>_ h. (- 2, h)))
       else toggle_cbus A ftdi [0xF1, 0xF0, 0xF1] (ftdi_close A ftdi)))"

text \<open>The loop ends with what follows it; only the history grows.\<close>

lemma toggle_cbus_ends: "\<exists>t. toggle_cbus A ftdi bs k h = k (h @ t)"
proof (induction bs arbitrary: h)
  case (Cons b bs)
  have "\<exists>t. toggle_cbus A ftdi bs k (h @ s) = k (h @ t)" for s
    using Cons.IH [of "h @ s"] by auto
  then show ?case by (auto simp: fcall_def Let_def)
qed (auto intro: exI [of _ "[]"])

lemma ftdi_close_result: "fst (ftdi_close A ftdi h) = 0"
  by (simp add: ftdi_close_def fcall_def Let_def)

text \<open>The reset returns 0 whenever a device was opened, or is claimed by another program (-5), whatever the
  other calls answer: also when no pin could be switched and the reset line was never toggled.\<close>

lemma ftdi_reset_claims_success:
  assumes "\<forall>h. A h FtdiNew \<noteq> 0" and "\<forall>h d. A h (FtdiUsbOpen d 0x0403 0x6015) \<ge> 0 \<or> A h (FtdiUsbOpen d 0x0403 0x6015) = - 5"
  shows "fst (plResetLibFtdi A h) = 0"
proof -
  define d where "d = A h FtdiNew"
  define r where "r = A (h @ [(FtdiNew, d)]) (FtdiUsbOpen d 0x0403 0x6015)"
  have "\<not> (r < 0 \<and> r \<noteq> - 5)" using assms(2) unfolding r_def by (metis linorder_not_less)
  moreover have "d \<noteq> 0" using assms(1) by (simp add: d_def)
  ultimately have "plResetLibFtdi A h = toggle_cbus A d [0xF1, 0xF0, 0xF1] (ftdi_close A d) ((h @ [(FtdiNew, d)]) @ [(FtdiUsbOpen d 0x0403 0x6015, r)])"
    by (simp only: plResetLibFtdi_def fcall_def [of A FtdiNew] fcall_def [of A "FtdiUsbOpen a b c" for a b c] Let_def
        d_def [symmetric] r_def [symmetric] if_False)
  then show ?thesis
    using toggle_cbus_ends [of A d] ftdi_close_result by metis
qed

end
