(* ===== verification/Net_Sock.thy ===== *)
theory Net_Sock
  imports C_Memory
begin

text \<open>
  UDP sockets and the network server: \<open>net_sock.c\<close>, \<open>net_udp_posix.c\<close> and \<open>net.c\<close> with
  \<open>USE_NET\<close> defined. The socket calls are a parameter: \<open>call N h c\<close> is the result of call
  \<open>c\<close> after the history \<open>h\<close>; \<open>datagram\<close> is what \<open>recvfrom\<close> delivers, \<open>pton4\<close> and
  \<open>pton6\<close> are \<open>inet_pton\<close>. The host is little-endian, as all hosts of the program are.
\<close>

section \<open>Addresses and sockets\<close>

abbreviation (input) S_AF_UNKNOWN :: nat where "S_AF_UNKNOWN \<equiv> 0"
abbreviation (input) S_AF_IPV4 :: nat where "S_AF_IPV4 \<equiv> 4"
abbreviation (input) S_AF_IPV6 :: nat where "S_AF_IPV6 \<equiv> 6"

datatype S_UdpState = S_UDP_STATE_INIT | S_UDP_STATE_OPEN | S_UDP_STATE_ERROR

record S_Addr =
  addr_data :: "byte list"
  addr_af :: nat

record S_Udp =
  addr :: S_Addr
  peer_addr :: S_Addr
  peer_port :: "16 word"
  sock_handle :: int
  sock_state :: S_UdpState
  sock_port :: "16 word"

text \<open>\<open>U_bzero(udp, sizeof(*udp))\<close>\<close>

definition zero_udp :: S_Udp where
  "zero_udp = \<lparr>addr = \<lparr>addr_data = replicate 16 0, addr_af = 0\<rparr>, peer_addr = \<lparr>addr_data = replicate 16 0, addr_af = 0\<rparr>,
     peer_port = 0, sock_handle = 0, sock_state = S_UDP_STATE_INIT, sock_port = 0\<rparr>"

text \<open>\<open>htons\<close> and \<open>ntohs\<close> on a little-endian host\<close>

definition htons :: "16 word \<Rightarrow> 16 word" where
  "htons w = push_bit 8 w OR drop_bit 8 w"

datatype family = INET | INET6

datatype sock_call =
    Socket family | ReuseAddr int | Bind int family "16 word" | JoinGroup int family "byte list"
  | SendTo int family "byte list" "16 word" "byte list" | SelectRead int | RecvFrom int nat | CloseSocket int
  | StdErr string | WSAStartup

type_synonym sock_history = "(sock_call \<times> int) list"

text \<open>The sender of a datagram: its family (\<open>None\<close>: neither), the bytes of its address and the port as
  they are in the socket address, that is in network byte order.\<close>

record datagram =
  dg_result :: int
  dg_bytes :: "byte list"
  dg_family :: "family option"
  dg_addr :: "byte list"
  dg_port :: "16 word"

record net_sys =
  call :: "sock_history \<Rightarrow> sock_call \<Rightarrow> int"
  received :: "sock_history \<Rightarrow> datagram"
  pton4 :: "byte list \<Rightarrow> byte list option"
  pton6 :: "byte list \<Rightarrow> byte list option"

text \<open>A socket operation works on the socket and on the history of calls and returns an \<open>int\<close>.\<close>

type_synonym 'a sop = "S_Udp \<times> sock_history \<Rightarrow> fault + ('a \<times> S_Udp \<times> sock_history)"

definition sock :: "net_sys \<Rightarrow> sock_call \<Rightarrow> (int \<Rightarrow> 'a sop) \<Rightarrow> 'a sop" where
  "sock N c k = (\<lambda>(u, h). let r = call N h c in k r (u, h @ [(c, r)]))"

definition done_with :: "'a \<Rightarrow> 'a sop" where
  "done_with r = (\<lambda>(u, h). Inr (r, u, h))"

definition set_udp :: "(S_Udp \<Rightarrow> S_Udp) \<Rightarrow> 'a sop \<Rightarrow> 'a sop" where
  "set_udp f k = (\<lambda>(u, h). k (f u, h))"

definition with_udp :: "(S_Udp \<Rightarrow> 'a sop) \<Rightarrow> 'a sop" where
  "with_udp k = (\<lambda>(u, h). k u (u, h))"

text \<open>\<open>U_memcpy(udp->peer_addr.data, bytes, n)\<close>\<close>

definition set_peer_data :: "byte list \<Rightarrow> nat \<Rightarrow> 'a sop \<Rightarrow> 'a sop" where
  "set_peer_data d n k = (\<lambda>(u, h). case U_memcpy 0 d 0 n (addr_data (peer_addr u)) of Inl f \<Rightarrow> Inl f
     | Inr b \<Rightarrow> k (u\<lparr>peer_addr := (peer_addr u)\<lparr>addr_data := b\<rparr>\<rparr>, h))"

definition set_peer_af :: "nat \<Rightarrow> 'a sop \<Rightarrow> 'a sop" where
  "set_peer_af f k = set_udp (\<lambda>u. u\<lparr>peer_addr := (peer_addr u)\<lparr>addr_af := f\<rparr>\<rparr>) k"

section \<open>\<open>net_sock.c\<close> and \<open>net_udp_posix.c\<close>\<close>

definition SOCK_Init :: int where
  "SOCK_Init = 0"

fun SOCK_GetHostAF :: "byte list \<Rightarrow> nat" where
  "SOCK_GetHostAF [] = S_AF_UNKNOWN"
| "SOCK_GetHostAF (c # cs) = (if c = 0x3A then S_AF_IPV6 else if c = 0x2E then S_AF_IPV4 else SOCK_GetHostAF cs)"

definition SOCK_UdpInit :: "net_sys \<Rightarrow> nat \<Rightarrow> int sop" where
  "SOCK_UdpInit N af = set_udp (\<lambda>u. zero_udp\<lparr>addr := (addr zero_udp)\<lparr>addr_af := af\<rparr>\<rparr>) (
     if af = S_AF_IPV4 \<or> af = S_AF_IPV6
     then sock N (Socket (if af = S_AF_IPV4 then INET else INET6)) (\<lambda>fd.
       set_udp (\<lambda>u. u\<lparr>sock_handle := fd\<rparr>) (
       if fd = - 1 then done_with 0
       else set_udp (\<lambda>u. u\<lparr>sock_state := S_UDP_STATE_OPEN\<rparr>) (done_with 1)))
     else set_udp (\<lambda>u. u\<lparr>addr := (addr u)\<lparr>addr_af := S_AF_UNKNOWN\<rparr>\<rparr>) (done_with 0))"

definition SOCK_UdpSetPeer :: "net_sys \<Rightarrow> byte list \<Rightarrow> 16 word \<Rightarrow> int sop" where
  "SOCK_UdpSetPeer N peer port = (case pton4 N peer of
     Some d \<Rightarrow> set_peer_af S_AF_IPV4 (set_udp (\<lambda>u. u\<lparr>peer_port := port\<rparr>) (set_peer_data d 4 (done_with 0)))
   | None \<Rightarrow> (case pton6 N peer of
       Some d \<Rightarrow> set_peer_af S_AF_IPV6 (set_udp (\<lambda>u. u\<lparr>peer_port := port\<rparr>) (set_peer_data d 16 (done_with 0)))
     | None \<Rightarrow> done_with (- 1)))"

text \<open>The label \<open>err\<close>; the message depends on \<open>errno\<close>, which a failed call sets.\<close>

definition bind_failed :: "net_sys \<Rightarrow> bool \<Rightarrow> int sop" where
  "bind_failed N failed = set_udp (\<lambda>u. u\<lparr>sock_state := S_UDP_STATE_ERROR\<rparr>) (
     if failed then sock N (StdErr ''udp bind port'') (\<lambda>_. done_with 0) else done_with 0)"

definition SOCK_UdpBind :: "net_sys \<Rightarrow> 16 word \<Rightarrow> int sop" where
  "SOCK_UdpBind N port = with_udp (\<lambda>u.
     if sock_state u \<noteq> S_UDP_STATE_OPEN then done_with 0
     else sock N (ReuseAddr (sock_handle u)) (\<lambda>r. if r < 0 then bind_failed N True
     else if addr_af (addr u) = S_AF_IPV4 \<or> addr_af (addr u) = S_AF_IPV6
     then sock N (Bind (sock_handle u) (if addr_af (addr u) = S_AF_IPV4 then INET else INET6) (htons port)) (\<lambda>r.
       if r = - 1 then bind_failed N True
       else set_udp (\<lambda>u. u\<lparr>sock_port := port\<rparr>) (done_with 1))
     else bind_failed N False))"

definition SOCK_UdpJoinMulticast :: "net_sys \<Rightarrow> byte list \<Rightarrow> int sop" where
  "SOCK_UdpJoinMulticast N maddr = with_udp (\<lambda>u.
     if sock_state u \<noteq> S_UDP_STATE_OPEN then done_with (- 1)
     else if addr_af (addr u) = S_AF_IPV4 \<or> addr_af (addr u) = S_AF_IPV6
     then sock N (JoinGroup (sock_handle u) (if addr_af (addr u) = S_AF_IPV4 then INET else INET6) maddr) (\<lambda>r.
       if r < 0 then set_udp (\<lambda>u. u\<lparr>sock_state := S_UDP_STATE_ERROR\<rparr>) (done_with (- 1)) else done_with 0)
     else set_udp (\<lambda>u. u\<lparr>sock_state := S_UDP_STATE_ERROR\<rparr>) (done_with (- 1)))"

definition SOCK_UdpSend :: "net_sys \<Rightarrow> byte list \<Rightarrow> int sop" where
  "SOCK_UdpSend N buf = with_udp (\<lambda>u.
     let n = (if addr_af (peer_addr u) = S_AF_IPV4 then 4 else 16) in
     if addr_af (peer_addr u) = S_AF_IPV4 \<or> addr_af (peer_addr u) = S_AF_IPV6
     then if n > length (addr_data (peer_addr u)) then (\<lambda>_. Inl OutOfBounds)
       else sock N (SendTo (sock_handle u) (if n = 4 then INET else INET6) (take n (addr_data (peer_addr u)))
           (htons (peer_port u)) buf) (\<lambda>r. done_with (if r < 0 then - 1 else r))
     else done_with (- 1))"

text \<open>
  The result with the bytes that were stored in \<open>buf\<close>; \<open>select\<close> waits 5 ms and leaves the
  descriptor set only when it times out. The address
  and the port of the sender are copied before the size of the datagram is looked at.
\<close>

definition recv_finish :: "net_sys \<Rightarrow> nat \<Rightarrow> datagram \<Rightarrow> (int \<times> byte list) sop" where
  "recv_finish N bufsize d = sock N (StdErr ''UDP peer'') (\<lambda>_.
     if dg_result d > 0 \<and> dg_result d < int bufsize then done_with (dg_result d, dg_bytes d)
     else if dg_result d < 0 then sock N (StdErr ''UDP error'') (\<lambda>_. done_with (- 1, []))
     else done_with (0, dg_bytes d))"

definition SOCK_UdpRecv :: "net_sys \<Rightarrow> nat \<Rightarrow> (int \<times> byte list) sop" where
  "SOCK_UdpRecv N bufsize = with_udp (\<lambda>u.
     if sock_state u \<noteq> S_UDP_STATE_OPEN then done_with (- 1, [])
     else sock N (SelectRead (sock_handle u)) (\<lambda>ready. if ready = 0 then done_with (0, [])
     else (\<lambda>(u, h). let d = received N h in
       sock N (RecvFrom (sock_handle u) bufsize) (\<lambda>_. case dg_family d of
         Some INET6 \<Rightarrow> set_peer_af S_AF_IPV6 (set_udp (\<lambda>u. u\<lparr>peer_port := dg_port d\<rparr>)
           (set_peer_data (dg_addr d) 16 (recv_finish N bufsize d)))
       | Some INET \<Rightarrow> set_peer_af S_AF_IPV4 (set_udp (\<lambda>u. u\<lparr>peer_port := dg_port d\<rparr>)
           (set_peer_data (dg_addr d) 4 (recv_finish N bufsize d)))
       | None \<Rightarrow> done_with (- 1, dg_bytes d)) (u, h))))"

definition SOCK_UdpFree :: "net_sys \<Rightarrow> unit sop" where
  "SOCK_UdpFree N = with_udp (\<lambda>u.
     (if sock_handle u \<noteq> 0 then sock N (CloseSocket (sock_handle u)) else (\<lambda>k. k 0)) (\<lambda>_.
     set_udp (\<lambda>u. zero_udp) (done_with ())))"

section \<open>\<open>net.c\<close>\<close>

record NET_Client =
  client_addr :: S_Addr
  client_port :: "16 word"

record NET_State =
  udp_main :: "S_Udp"
  rx_buf :: "byte list"
  n_clients :: nat
  clients :: "NET_Client list"

abbreviation (input) MAX_NET_CLIENTS :: nat where "MAX_NET_CLIENTS \<equiv> 4"

text \<open>The comparison of port, family and the 4 or 16 bytes of the address.\<close>

definition same_client :: "S_Udp \<Rightarrow> NET_Client \<Rightarrow> bool" where
  "same_client u c \<longleftrightarrow> peer_port u = client_port c \<and> addr_af (peer_addr u) = addr_af (client_addr c)
     \<and> (let n = (if addr_af (client_addr c) = S_AF_IPV4 then 4 else 16) in
         take n (addr_data (peer_addr u)) = take n (addr_data (client_addr c)))"

fun find_client :: "S_Udp \<Rightarrow> nat \<Rightarrow> nat \<Rightarrow> NET_Client list \<Rightarrow> nat option" where
  "find_client u i 0 cs = None"
| "find_client u i (Suc n) [] = None"
| "find_client u i (Suc n) (c # cs) = (if same_client u c then Some i else find_client u (i + 1) n cs)"

definition netCheckNewClient :: "NET_State \<Rightarrow> fault + (int \<times> NET_State)" where
  "netCheckNewClient s = (case find_client (udp_main s) 0 (n_clients s) (clients s) of
     Some i \<Rightarrow> Inr (int i, s)
   | None \<Rightarrow>
       if n_clients s < MAX_NET_CLIENTS
       then (case poke (n_clients s) \<lparr>client_addr = peer_addr (udp_main s), client_port = peer_port (udp_main s)\<rparr> (clients s) of
           Inl f \<Rightarrow> Inl f
         | Inr cs \<Rightarrow> Inr (int (n_clients s + 1) - 1, s\<lparr>clients := cs, n_clients := n_clients s + 1\<rparr>))
       else Inr (- 1, s))"

definition NET_Init :: "net_sys \<Rightarrow> 16 word \<Rightarrow> NET_State \<times> sock_history \<Rightarrow> fault + (int \<times> NET_State \<times> sock_history)" where
  "NET_Init N port = (\<lambda>(s, h).
     case SOCK_UdpInit N S_AF_IPV4 (udp_main s, h) of Inl f \<Rightarrow> Inl f
     | Inr (r, u, h) \<Rightarrow> let s = s\<lparr>n_clients := 0, udp_main := u\<rparr> in
         if r \<noteq> 1 then Inr (0, s, h)
         else (case SOCK_UdpBind N port (u, h) of Inl f \<Rightarrow> Inl f
           | Inr (r, u, h) \<Rightarrow> Inr (if r \<noteq> 1 then 0 else 1, s\<lparr>udp_main := u\<rparr>, h)))"

text \<open>\<open>NET_Step\<close>; what \<open>NET_Received\<close> is called with is returned.\<close>

definition NET_Step :: "net_sys \<Rightarrow> NET_State \<times> sock_history \<Rightarrow> fault + ((int \<times> byte list) option \<times> NET_State \<times> sock_history)" where
  "NET_Step N = (\<lambda>(s, h). case SOCK_UdpRecv N (length (rx_buf s) - 1) (udp_main s, h) of Inl f \<Rightarrow> Inl f
     | Inr ((n, bs), u, h) \<Rightarrow>
         (case U_memcpy 0 bs 0 (length bs) (rx_buf s) of Inl f \<Rightarrow> Inl f
          | Inr buf \<Rightarrow> let s = s\<lparr>udp_main := u, rx_buf := buf\<rparr> in
            if n > 0
            then (case netCheckNewClient s of Inl f \<Rightarrow> Inl f
              | Inr (client_id, s) \<Rightarrow> (case poke (nat n) 0 (rx_buf s) of Inl f \<Rightarrow> Inl f
                  | Inr buf \<Rightarrow> Inr (Some (client_id, take (nat n) buf), s\<lparr>rx_buf := buf\<rparr>, h)))
            else Inr (None, s, h)))"

definition NET_Exit :: "net_sys \<Rightarrow> NET_State \<times> sock_history \<Rightarrow> fault + (unit \<times> NET_State \<times> sock_history)" where
  "NET_Exit N = (\<lambda>(s, h). case SOCK_UdpFree N (udp_main s, h) of Inl f \<Rightarrow> Inl f
     | Inr (_, u, h) \<Rightarrow> Inr ((), s\<lparr>n_clients := 0, udp_main := u\<rparr>, h))"

end
