(* ===== verification/Gcf_Net.thy ===== *)
theory Gcf_Net
  imports Net_Sock
begin

text \<open>
  The network server: its table of clients gives every peer one number that stays the same, a
  datagram is delivered with the number of its sender, and every array is kept. A reply through
  the same socket would be sent to the wrong port.
\<close>

section \<open>The table of clients\<close>

definition addr_ok :: "S_Addr \<Rightarrow> bool" where
  "addr_ok a \<longleftrightarrow> length (addr_data a) = 16"

text \<open>What identifies a peer: port, family and the bytes of the address that count.\<close>

definition peer_key :: "S_Addr \<Rightarrow> 16 word \<Rightarrow> 16 word \<times> nat \<times> byte list" where
  "peer_key a p = (p, addr_af a, take (if addr_af a = 4 then 4 else 16) (addr_data a))"

definition client_key :: "NET_Client \<Rightarrow> 16 word \<times> nat \<times> byte list" where
  "client_key c = peer_key (client_addr c) (client_port c)"

abbreviation sender :: "NET_State \<Rightarrow> 16 word \<times> nat \<times> byte list" where
  "sender s \<equiv> peer_key (peer_addr (udp_main s)) (peer_port (udp_main s))"

text \<open>The abstract table: the list of the keys in the order of their numbers.\<close>

definition table :: "NET_State \<Rightarrow> (16 word \<times> nat \<times> byte list) list" where
  "table s = map client_key (take (n_clients s) (clients s))"

definition clients_ok :: "NET_State \<Rightarrow> bool" where
  "clients_ok s \<longleftrightarrow> n_clients s \<le> 4 \<and> length (clients s) = 4 \<and> distinct (table s) \<and> length (rx_buf s) = 1281
     \<and> addr_ok (peer_addr (udp_main s)) \<and> addr_ok (addr (udp_main s))"

lemma same_client_key: "same_client u c \<longleftrightarrow> peer_key (peer_addr u) (peer_port u) = client_key c"
  by (auto simp: same_client_def peer_key_def client_key_def Let_def)

lemma find_client_spec:
  "n \<le> length cs \<Longrightarrow> case find_client u i n cs of
     None \<Rightarrow> peer_key (peer_addr u) (peer_port u) \<notin> set (map client_key (take n cs))
   | Some j \<Rightarrow> i \<le> j \<and> j < i + n \<and> client_key (cs ! (j - i)) = peer_key (peer_addr u) (peer_port u)"
proof (induction u i n cs rule: find_client.induct)
  case (3 u i n c cs)
  show ?case
  proof (cases "same_client u c")
    case True
    then show ?thesis by (simp add: same_client_key)
  next
    case False
    with 3 have IH: "case find_client u (i + 1) n cs of
       None \<Rightarrow> peer_key (peer_addr u) (peer_port u) \<notin> set (map client_key (take n cs))
     | Some j \<Rightarrow> i + 1 \<le> j \<and> j < i + 1 + n \<and> client_key (cs ! (j - (i + 1))) = peer_key (peer_addr u) (peer_port u)" by simp
    with False show ?thesis
      by (auto simp: same_client_key nth_Cons' split: option.splits)
  qed
qed simp_all

lemma check_client:
  assumes "clients_ok s"
  shows "\<exists>i s'. netCheckNewClient s = Inr (i, s') \<and> clients_ok s' \<and> udp_main s' = udp_main s \<and> rx_buf s' = rx_buf s
    \<and> (if sender s \<in> set (table s) then 0 \<le> i \<and> i < int (length (table s)) \<and> table s ! nat i = sender s \<and> table s' = table s
       else if length (table s) < 4 then i = int (length (table s)) \<and> table s' = table s @ [sender s]
       else i = - 1 \<and> s' = s)"
proof -
  define n where "n = n_clients s"
  have len: "n \<le> 4" "length (clients s) = 4" "length (table s) = n"
    using assms by (simp_all add: clients_ok_def table_def n_def)
  show ?thesis
  proof (cases "find_client (udp_main s) 0 n (clients s)")
    case (Some j)
    with find_client_spec [of n "clients s" "udp_main s" 0] len
    have j: "j < n" "client_key (clients s ! j) = sender s" by auto
    then have "table s ! j = sender s" using len by (simp add: table_def n_def)
    moreover from this have "sender s \<in> set (table s)" using j(1) len(3) by (metis nth_mem)
    ultimately show ?thesis
      using assms Some j(1) len(3) by (simp add: netCheckNewClient_def n_def [symmetric])
  next
    case None
    with find_client_spec [of n "clients s" "udp_main s" 0] len
    have new: "sender s \<notin> set (table s)" by (simp add: table_def n_def)
    show ?thesis
    proof (cases "n < 4")
      case True
      define c where "c = \<lparr>client_addr = peer_addr (udp_main s), client_port = peer_port (udp_main s)\<rparr>"
      define s' where "s' = s\<lparr>clients := (clients s)[n := c], n_clients := n + 1\<rparr>"
      have "netCheckNewClient s = Inr (int n, s')"
        using None True len by (simp add: netCheckNewClient_def n_def [symmetric] c_def s'_def)
      moreover have t: "table s' = table s @ [sender s]"
        using True len by (simp add: table_def s'_def n_def [symmetric] take_update_snoc client_key_def c_def)
      moreover have "clients_ok s'"
        using assms t new True by (simp add: clients_ok_def s'_def n_def [symmetric])
      moreover have "udp_main s' = udp_main s" "rx_buf s' = rx_buf s" by (simp_all add: s'_def)
      ultimately show ?thesis using new True len by simp
    next
      case False
      then show ?thesis
        using None assms new len by (simp add: netCheckNewClient_def n_def [symmetric])
    qed
  qed
qed

text \<open>C26: The table of clients is a map from peers to numbers that only grows: a known peer keeps its number, a
  new one gets the next, the fifth is refused with -1; no two clients are the same peer.\<close>

theorem clients_numbered:
  assumes "clients_ok s"
  shows "\<exists>i s'. netCheckNewClient s = Inr (i, s') \<and> clients_ok s' \<and> udp_main s' = udp_main s \<and> rx_buf s' = rx_buf s
    \<and> (if sender s \<in> set (table s) then 0 \<le> i \<and> i < int (length (table s)) \<and> table s ! nat i = sender s \<and> table s' = table s
       else if length (table s) < 4 then i = int (length (table s)) \<and> table s' = table s @ [sender s]
       else i = - 1 \<and> s' = s)"
  by (rule check_client [OF assms])

text \<open>A server with one client, that sends again.\<close>

definition one_client :: NET_State where
  "one_client = \<lparr>udp_main = zero_udp\<lparr>peer_addr := \<lparr>addr_data = [127, 0, 0, 1] @ replicate 12 0, addr_af = 4\<rparr>, peer_port := 0x3412\<rparr>,
     rx_buf = replicate 1281 0, n_clients = 1,
     clients = \<lparr>client_addr = \<lparr>addr_data = [127, 0, 0, 1] @ replicate 12 9, addr_af = 4\<rparr>, client_port = 0x3412\<rparr>
       # replicate 3 \<lparr>client_addr = addr zero_udp, client_port = 0\<rparr>\<rparr>"

lemma one_client_ok: "clients_ok one_client"
  by (simp add: clients_ok_def one_client_def table_def zero_udp_def addr_ok_def)

theorem clients_numbered_witness: "\<exists>s'. netCheckNewClient one_client = Inr (0, s')"
proof -
  have "sender one_client \<in> set (table one_client)" and "length (table one_client) = 1"
    by (simp_all add: one_client_def table_def client_key_def peer_key_def)
  with clients_numbered [OF one_client_ok] show ?thesis by auto
qed

section \<open>Datagrams\<close>

text \<open>What \<open>recvfrom\<close> guarantees.\<close>

definition datagram_ok :: "nat \<Rightarrow> datagram \<Rightarrow> bool" where
  "datagram_ok bufsize d \<longleftrightarrow> dg_result d \<le> int bufsize \<and> length (dg_bytes d) = nat (dg_result d)
     \<and> (dg_family d = Some INET \<longrightarrow> length (dg_addr d) = 4) \<and> (dg_family d = Some INET6 \<longrightarrow> length (dg_addr d) = 16)"

text \<open>The socket behind a datagram: address and port of the sender.\<close>

definition peer_of :: "datagram \<Rightarrow> S_Udp \<Rightarrow> S_Udp" where
  "peer_of d u = (case dg_family d of None \<Rightarrow> u
     | Some f \<Rightarrow> u\<lparr>peer_addr := \<lparr>addr_data = overwrite 0 (dg_addr d) (addr_data (peer_addr u)),
         addr_af = (case f of INET \<Rightarrow> 4 | INET6 \<Rightarrow> 6)\<rparr>, peer_port := dg_port d\<rparr>)"

lemma recv_eq:
  assumes "sock_state u = S_UDP_STATE_OPEN" and "length (addr_data (peer_addr u)) = 16"
    and "r = call N h (SelectRead (sock_handle u))" and "r \<noteq> 0" and "d = received N (h @ [(SelectRead (sock_handle u), r)])"
    and "datagram_ok bufsize d"
  shows "\<exists>h'. SOCK_UdpRecv N bufsize (u, h) = Inr (
    (if dg_family d = None then (- 1, dg_bytes d) else if dg_result d < 0 then (- 1, [])
     else if 0 < dg_result d \<and> dg_result d < int bufsize then (dg_result d, dg_bytes d) else (0, dg_bytes d)), peer_of d u, h')"
proof -
  have copy4: "length (dg_addr d) = 4 \<Longrightarrow> U_memcpy 0 (dg_addr d) 0 4 (addr_data (peer_addr u)) = Inr (overwrite 0 (dg_addr d) (addr_data (peer_addr u)))"
    and copy16: "length (dg_addr d) = 16 \<Longrightarrow> U_memcpy 0 (dg_addr d) 0 16 (addr_data (peer_addr u)) = Inr (overwrite 0 (dg_addr d) (addr_data (peer_addr u)))"
    using assms(2) by (simp_all add: U_memcpy_eq)
  have pa: "(peer_addr u)\<lparr>addr_af := f, addr_data := b\<rparr> = \<lparr>addr_data = b, addr_af = f\<rparr>" for f b
    by simp
  show ?thesis
    using assms(1,4,6)
    by (auto simp: SOCK_UdpRecv_def with_udp_def sock_def Let_def assms(3,5) [symmetric] done_with_def set_peer_af_def set_udp_def
        set_peer_data_def recv_finish_def peer_of_def datagram_ok_def copy4 copy16 split: option.splits family.splits)
qed

lemma peer_of_ok: "datagram_ok n d \<Longrightarrow> addr_ok (peer_addr u) \<Longrightarrow> addr_ok (peer_addr (peer_of d u)) \<and> addr (peer_of d u) = addr u"
  by (cases "dg_family d"; cases "the (dg_family d)") (auto simp: peer_of_def addr_ok_def datagram_ok_def)

text \<open>The key of the sender of a datagram, from the datagram alone.\<close>

definition datagram_key :: "datagram \<Rightarrow> 16 word \<times> nat \<times> byte list" where
  "datagram_key d = (dg_port d, if dg_family d = Some INET then 4 else 6, dg_addr d)"

lemma peer_of_key:
  assumes "datagram_ok n d" and "addr_ok (peer_addr u)" and "dg_family d \<noteq> None"
  shows "peer_key (peer_addr (peer_of d u)) (peer_port (peer_of d u)) = datagram_key d"
  using assms
  by (cases "the (dg_family d)")
    (auto simp: peer_of_def peer_key_def datagram_key_def datagram_ok_def addr_ok_def overwrite_def)

text \<open>What \<open>NET_Step\<close> does behind \<open>SOCK_UdpRecv\<close> with a datagram: it looks for the client and ends the bytes.\<close>

lemma deliver:
  assumes "clients_ok s" and "length buf = 1281" and "rx_buf s = overwrite 0 bs buf" and "length bs < 1280"
  shows "\<exists>i s'. (case netCheckNewClient s of Inl f \<Rightarrow> Inl f
      | Inr (client_id, s) \<Rightarrow> (case poke (length bs) 0 (rx_buf s) of Inl f \<Rightarrow> Inl f
          | Inr buf \<Rightarrow> Inr (Some (client_id, take (length bs) buf), s\<lparr>rx_buf := buf\<rparr>, h))) = Inr (Some (i, bs), s', h)
    \<and> clients_ok s'
    \<and> (if sender s \<in> set (table s) then 0 \<le> i \<and> i < int (length (table s)) \<and> table s ! nat i = sender s \<and> table s' = table s
       else if length (table s) < 4 then i = int (length (table s)) \<and> table s' = table s @ [sender s]
       else i = - 1 \<and> table s' = table s)"
proof -
  obtain i s2 where c: "netCheckNewClient s = Inr (i, s2)" "clients_ok s2"
    "if sender s \<in> set (table s) then 0 \<le> i \<and> i < int (length (table s)) \<and> table s ! nat i = sender s \<and> table s2 = table s
     else if length (table s) < 4 then i = int (length (table s)) \<and> table s2 = table s @ [sender s]
     else i = - 1 \<and> s2 = s"
    "rx_buf s2 = overwrite 0 bs buf"
    using check_client [OF assms(1)] assms(3) by auto
  define s3 where "s3 = s2\<lparr>rx_buf := (rx_buf s2)[length bs := 0]\<rparr>"
  have "take (length bs) ((overwrite 0 bs buf)[length bs := 0]) = bs"
    using assms(2,4) by (simp add: overwrite_def)
  then have "(case netCheckNewClient s of Inl f \<Rightarrow> Inl f
      | Inr (client_id, s) \<Rightarrow> (case poke (length bs) 0 (rx_buf s) of Inl f \<Rightarrow> Inl f
          | Inr buf \<Rightarrow> Inr (Some (client_id, take (length bs) buf), s\<lparr>rx_buf := buf\<rparr>, h))) = Inr (Some (i, bs), s3, h)"
    using c(1,4) assms(2,4) by (simp add: s3_def)
  moreover have "clients_ok s3" "table s3 = table s2"
    using c(2) by (simp_all add: s3_def clients_ok_def table_def)
  ultimately show ?thesis using c(3) by (intro exI [of _ i] exI [of _ s3]) (simp split: if_splits)
qed

text \<open>C27: A datagram of less than 1280 bytes is delivered whole with the number of the peer that sent it: the
  number under which address and port of the datagram are in the table of clients, or the next one if the
  peer is new, or -1 when the table is full. A longer datagram and an error are dropped and leave the
  table alone; in every case the table and the buffer stay well-formed.\<close>

theorem datagram_delivered:
  assumes "clients_ok s" and "sock_state (udp_main s) = S_UDP_STATE_OPEN"
    and "r = call N h (SelectRead (sock_handle (udp_main s)))" and "r \<noteq> 0"
    and "d = received N (h @ [(SelectRead (sock_handle (udp_main s)), r)])" and "datagram_ok 1280 d"
  shows "\<exists>got s' h'. NET_Step N (s, h) = Inr (got, s', h') \<and> clients_ok s'
    \<and> (if dg_family d \<noteq> None \<and> 0 < dg_result d \<and> dg_result d < 1280
       then \<exists>i. got = Some (i, dg_bytes d)
         \<and> (if datagram_key d \<in> set (table s)
            then 0 \<le> i \<and> i < int (length (table s)) \<and> table s ! nat i = datagram_key d \<and> table s' = table s
            else if length (table s) < 4 then i = int (length (table s)) \<and> table s' = table s @ [datagram_key d]
            else i = - 1 \<and> table s' = table s)
       else got = None \<and> table s' = table s)"
proof -
  define u where "u = peer_of d (udp_main s)"
  have buf: "length (rx_buf s) = 1281" using assms(1) by (simp add: clients_ok_def)
  obtain n bs where n: "(n, bs) = (if dg_family d = None then (- 1, dg_bytes d) else if dg_result d < 0 then (- 1, [])
     else if 0 < dg_result d \<and> dg_result d < 1280 then (dg_result d, dg_bytes d) else (0, dg_bytes d))"
    by (metis surj_pair)
  obtain h1 where r: "SOCK_UdpRecv N 1280 (udp_main s, h) = Inr ((n, bs), u, h1)"
    using recv_eq [OF assms(2) _ assms(3,4,5,6)] assms(1) unfolding n u_def by (auto simp: clients_ok_def addr_ok_def)
  have bs: "length bs \<le> 1280" "0 < n \<Longrightarrow> n = int (length bs) \<and> n < 1280"
    using n assms(6) by (auto simp: datagram_ok_def split: if_splits)
  define s1 where "s1 = s\<lparr>udp_main := u, rx_buf := overwrite 0 bs (rx_buf s)\<rparr>"
  have copy: "U_memcpy 0 bs 0 (length bs) (rx_buf s) = Inr (rx_buf s1)"
    using bs(1) buf by (simp add: U_memcpy_eq s1_def)
  have s1: "clients_ok s1" "table s1 = table s"
    using assms(1) bs(1) buf peer_of_ok [OF assms(6)] by (simp_all add: clients_ok_def s1_def u_def table_def)
  have step: "NET_Step N (s, h) = (if n > 0
            then (case netCheckNewClient s1 of Inl f \<Rightarrow> Inl f
              | Inr (client_id, s) \<Rightarrow> (case poke (nat n) 0 (rx_buf s) of Inl f \<Rightarrow> Inl f
                  | Inr buf \<Rightarrow> Inr (Some (client_id, take (nat n) buf), s\<lparr>rx_buf := buf\<rparr>, h1)))
            else Inr (None, s1, h1))"
    using r copy buf by (simp add: NET_Step_def s1_def)
  show ?thesis
  proof (cases "n > 0")
    case False
    then have "\<not> (dg_family d \<noteq> None \<and> 0 < dg_result d \<and> dg_result d < 1280)" using n by (auto split: if_splits)
    with False step s1 show ?thesis by auto
  next
    case True
    have d: "dg_family d \<noteq> None \<and> 0 < dg_result d \<and> dg_result d < 1280" "bs = dg_bytes d"
      using n True by (auto split: if_splits)
    have m: "nat n = length bs" "length bs < 1280" using bs(2) True by auto
    have "addr_ok (peer_addr (udp_main s))" using assms(1) by (simp add: clients_ok_def)
    from peer_of_key [OF assms(6) this] d(1) have key: "sender s1 = datagram_key d" by (simp add: s1_def u_def)
    obtain i s' where i: "NET_Step N (s, h) = Inr (Some (i, bs), s', h1)" "clients_ok s'"
      "if datagram_key d \<in> set (table s)
       then 0 \<le> i \<and> i < int (length (table s)) \<and> table s ! nat i = datagram_key d \<and> table s' = table s
       else if length (table s) < 4 then i = int (length (table s)) \<and> table s' = table s @ [datagram_key d]
       else i = - 1 \<and> table s' = table s"
      using deliver [OF s1(1) buf _ m(2), of h1] step True unfolding m(1) key s1(2) by (auto simp: s1_def)
    show ?thesis unfolding i(1) using d i(2,3) by simp
  qed
qed

text \<open>A system that delivers a datagram of three bytes.\<close>

definition one_datagram :: net_sys where
  "one_datagram = \<lparr>call = \<lambda>_ _. 1, received = \<lambda>_. \<lparr>dg_result = 3, dg_bytes = [1, 2, 3], dg_family = Some INET, dg_addr = [127, 0, 0, 1], dg_port = 0x3412\<rparr>,
     pton4 = \<lambda>_. None, pton6 = \<lambda>_. None\<rparr>"

theorem datagram_delivered_witness:
  "\<exists>s' h'. NET_Step one_datagram (one_client\<lparr>udp_main := zero_udp\<lparr>sock_state := S_UDP_STATE_OPEN\<rparr>\<rparr>, []) = Inr (Some (0, [1, 2, 3]), s', h')
    \<and> clients_ok s'"
proof -
  define s where "s = one_client\<lparr>udp_main := zero_udp\<lparr>sock_state := S_UDP_STATE_OPEN\<rparr>\<rparr>"
  define d where "d = received one_datagram []"
  have ok: "clients_ok s" "sock_state (udp_main s) = S_UDP_STATE_OPEN"
    using one_client_ok by (simp_all add: s_def clients_ok_def table_def zero_udp_def addr_ok_def)
  have t: "table s = [datagram_key d]"
    by (simp add: s_def d_def one_client_def one_datagram_def table_def client_key_def peer_key_def datagram_key_def)
  have d: "datagram_ok 1280 d" "dg_family d = Some INET" "dg_result d = 3" "dg_bytes d = [1, 2, 3]"
    by (simp_all add: d_def one_datagram_def datagram_ok_def)
  have "\<exists>got s' h'. NET_Step one_datagram (s, []) = Inr (got, s', h') \<and> clients_ok s' \<and> got = Some (0, [1, 2, 3])"
    using datagram_delivered [OF ok, of 1 one_datagram "[]" d] d t by (fastforce simp: one_datagram_def d_def)
  then show ?thesis by (auto simp: s_def)
qed

text \<open>C28: The port of a received datagram is kept in network byte order but sent as if it were in host byte
  order: an answer through the socket that received a datagram goes to the port with its bytes swapped.\<close>

theorem reply_port_swapped:
  assumes "sock_state u = S_UDP_STATE_OPEN" and "length (addr_data (peer_addr u)) = 16"
    and "r = call N h (SelectRead (sock_handle u))" and "r \<noteq> 0" and "d = received N (h @ [(SelectRead (sock_handle u), r)])"
    and "datagram_ok bufsize d" and "dg_family d \<noteq> None"
  shows "\<exists>got u' h' a f r'. SOCK_UdpRecv N bufsize (u, h) = Inr (got, u', h')
    \<and> SOCK_UdpSend N buf (u', h') = Inr (if r' < 0 then - 1 else r', u', h' @ [(SendTo (sock_handle u) f a (htons (dg_port d)) buf, r')])"
proof -
  obtain got h' where "SOCK_UdpRecv N bufsize (u, h) = Inr (got, peer_of d u, h')"
    using recv_eq [OF assms(1-6)] by blast
  moreover have "addr_ok (peer_addr (peer_of d u))"
    using peer_of_ok [OF assms(6)] assms(2) by (simp add: addr_ok_def)
  then have "\<exists>a f r'. SOCK_UdpSend N buf (peer_of d u, h')
      = Inr (if r' < 0 then - 1 else r', peer_of d u, h' @ [(SendTo (sock_handle u) f a (htons (dg_port d)) buf, r')])"
    using assms(7) by (cases "the (dg_family d)")
      (auto simp: SOCK_UdpSend_def with_udp_def sock_def done_with_def peer_of_def Let_def addr_ok_def)
  ultimately show ?thesis by blast
qed

theorem reply_port_swapped_witness:
  "\<exists>got u' h' a f r'. SOCK_UdpRecv one_datagram 1280 (zero_udp\<lparr>sock_state := S_UDP_STATE_OPEN\<rparr>, []) = Inr (got, u', h')
    \<and> SOCK_UdpSend one_datagram [7] (u', h') = Inr (if r' < 0 then - 1 else r', u', h' @ [(SendTo 0 f a 0x1234 [7], r')])"
proof -
  have p: "htons 0x3412 = 0x1234" by (simp add: htons_def)
  show ?thesis
    using reply_port_swapped [of "zero_udp\<lparr>sock_state := S_UDP_STATE_OPEN\<rparr>" 1 one_datagram "[]" "received one_datagram []" 1280 "[7]"]
    by (simp add: one_datagram_def datagram_ok_def zero_udp_def p)
qed

end
