(* ===== verification/Net_Program.thy ===== *)
theory Net_Program
  imports Gcf_Cmdline
begin

text \<open>
  What \<open>gcf.c\<close> adds with \<open>USE_NET\<close>: the option \<open>-p\<close>, which starts the server of \<open>net.c\<close> (here the
  operation \<open>net_init\<close>, called with the port), and the callback for a datagram; and \<open>GCF_Exit\<close>.
\<close>

definition option_p :: "(16 word \<Rightarrow> (world, int) op) \<Rightarrow> (gcf_status \<Rightarrow> action) \<Rightarrow> byte list \<Rightarrow> action \<Rightarrow> action" where
  "option_p net_init ret a k = option_number ret ''invalid argument, %s, for parameter -p'' (\<lambda>v. 0 \<le> v \<and> v \<le> 65535) a (\<lambda>v.
     callv (net_init (word_of_int v)) (\<lambda>r.
       if r \<noteq> 1 then block [PL_Printf DBG_INFO ''failed to start network server'' [], ret GCF_FAILED] else k))"

text \<open>The option with the arguments behind it, as the other options with an argument.\<close>

definition options_p :: "(16 word \<Rightarrow> (world, int) op) \<Rightarrow> (gcf_status \<Rightarrow> action) \<Rightarrow> byte list list \<Rightarrow> (byte list list \<Rightarrow> action) \<Rightarrow> action" where
  "options_p net_init ret as k = with_arg ret ''missing argument for parameter -p'' as (\<lambda>b. option_p net_init ret b (k (tl as)))"

definition NET_Received :: "int \<Rightarrow> byte list \<Rightarrow> nat \<Rightarrow> action" where
  "NET_Received client_id buf bufsize = PL_Printf DBG_DEBUG ''NET received from client %d: %d bytes'' [ANum client_id, ANum (int bufsize)]"

definition GCF_Exit :: action where
  "GCF_Exit = skip"

text \<open>The server is started with exactly the port that is given; any other argument ends the command line.\<close>

lemma option_p_starts:
  assumes "arg_long (long_bits (env w)) a = Inr (Some v)" and "0 \<le> v" and "v \<le> 65535" and "net_init (word_of_int v) w = Inr (1, w')"
  shows "option_p net_init ret a k w = k w'" and "uint (word_of_int v :: 16 word) = v"
  using assms by (simp_all add: option_p_def option_number_def reads_def callv_def uint_word_of_int)

lemma option_p_refused:
  assumes "arg_long (long_bits (env w)) a = Inr r" and "\<forall>v. r = Some v \<longrightarrow> v < 0 \<or> 65535 < v"
  shows "option_p net_init ret a k w = invalid_arg ret ''invalid argument, %s, for parameter -p'' a w"
  using assms by (auto simp: option_p_def option_number_def reads_def split: option.splits)

end
