(* ===== verification/Net_Win32.thy ===== *)
theory Net_Win32
  imports Net_Sock
begin

text \<open>
  The UDP sockets of Windows, \<open>net_udp_win32.c\<close>, over the state and the calls of \<open>Net_Sock\<close>; -1
  as a handle stands for \<open>INVALID_SOCKET\<close>. The functions for a peer, for sending and for closing are
  those of \<open>net_udp_posix.c\<close>; binding, multicast and receiving are compiled out (\<open>#if 0\<close>) and fail.
  So the network server never starts on Windows, and the sniffer, which only sends, behaves as on POSIX.
\<close>

text \<open>The result with the next value of \<open>wsa_init\<close>.\<close>

definition win_SOCK_UdpInit :: "net_sys \<Rightarrow> nat \<Rightarrow> bool \<Rightarrow> (int \<times> bool) sop" where
  "win_SOCK_UdpInit N af wsa_init =
     (let start = set_udp (\<lambda>u. zero_udp\<lparr>addr := (addr zero_udp)\<lparr>addr_af := af\<rparr>\<rparr>) (
        if af = S_AF_IPV4 \<or> af = S_AF_IPV6
        then sock N (Socket (if af = S_AF_IPV4 then INET else INET6)) (\<lambda>s.
          set_udp (\<lambda>u. u\<lparr>sock_handle := s\<rparr>) (
          if s = - 1 then done_with (0, True)
          else set_udp (\<lambda>u. u\<lparr>sock_state := S_UDP_STATE_OPEN\<rparr>) (done_with (1, True))))
        else set_udp (\<lambda>u. u\<lparr>addr := (addr u)\<lparr>addr_af := S_AF_UNKNOWN\<rparr>\<rparr>) (done_with (0, True)))
      in if \<not> wsa_init then sock N WSAStartup (\<lambda>r. if r \<noteq> 0 then done_with (- 1, False) else start) else start)"

definition win_SOCK_UdpSetPeer :: "net_sys \<Rightarrow> byte list \<Rightarrow> 16 word \<Rightarrow> int sop" where
  "win_SOCK_UdpSetPeer N peer port = SOCK_UdpSetPeer N peer port"

definition win_SOCK_UdpBind :: "16 word \<Rightarrow> int sop" where
  "win_SOCK_UdpBind port = done_with (- 1)"

definition win_SOCK_UdpJoinMulticast :: "byte list \<Rightarrow> int sop" where
  "win_SOCK_UdpJoinMulticast maddr = with_udp (\<lambda>u. if sock_state u \<noteq> S_UDP_STATE_OPEN then done_with (- 1) else done_with (- 1))"

definition win_SOCK_UdpRecv :: "nat \<Rightarrow> (int \<times> byte list) sop" where
  "win_SOCK_UdpRecv bufsize = done_with (- 1, [])"

definition win_SOCK_UdpSend :: "net_sys \<Rightarrow> byte list \<Rightarrow> int sop" where
  "win_SOCK_UdpSend N buf = SOCK_UdpSend N buf"

definition win_SOCK_UdpFree :: "net_sys \<Rightarrow> unit sop" where
  "win_SOCK_UdpFree N = SOCK_UdpFree N"

text \<open>\<open>NET_Init\<close> of \<open>net.c\<close> over these functions.\<close>

definition win_NET_Init :: "net_sys \<Rightarrow> 16 word \<Rightarrow> bool \<Rightarrow> NET_State \<times> sock_history \<Rightarrow> fault + (int \<times> NET_State \<times> sock_history)" where
  "win_NET_Init N port wsa_init = (\<lambda>(s, h).
     case win_SOCK_UdpInit N S_AF_IPV4 wsa_init (udp_main s, h) of Inl f \<Rightarrow> Inl f
     | Inr ((r, wsa), u, h) \<Rightarrow> let s = s\<lparr>n_clients := 0, udp_main := u\<rparr> in
         if r \<noteq> 1 then Inr (0, s, h)
         else (case win_SOCK_UdpBind port (u, h) of Inl f \<Rightarrow> Inl f
           | Inr (r, u, h) \<Rightarrow> Inr (if r \<noteq> 1 then 0 else 1, s\<lparr>udp_main := u\<rparr>, h)))"

lemmas sop_defs = sock_def done_with_def set_udp_def with_udp_def Let_def

text \<open>After the first start of Winsock a socket is created as on POSIX.\<close>

lemma win_udp_init_posix:
  "win_SOCK_UdpInit N af True s = (case SOCK_UdpInit N af s of Inl f \<Rightarrow> Inl f | Inr (r, s') \<Rightarrow> Inr ((r, True), s'))"
  by (cases s) (simp add: win_SOCK_UdpInit_def SOCK_UdpInit_def sop_defs)

lemma win_net_never_starts: "\<exists>s' h'. win_NET_Init N port wsa_init (s, h) = Inr (0, s', h')"
  by (simp add: win_NET_Init_def win_SOCK_UdpInit_def win_SOCK_UdpBind_def sop_defs)

end
