(* ===== verification/Posix_Terminal.thy ===== *)
theory Posix_Terminal
  imports Prelude
begin

text \<open>
  The terminal mode of \<open>main_posix.c\<close>: \<open>PL_InitKeyboard\<close>, which \<open>PL_Loop\<close> calls first, and
  \<open>PL_AtExit\<close>, which \<open>exit\<close> and the handler of \<open>SIGINT\<close> and \<open>SIGTERM\<close> call. A signal may come between any
  two statements, so both functions are the lists of their statements. Of the attributes of a terminal
  only \<open>c_lflag\<close> is changed; the others are left out.
\<close>

record terminal =
  tty :: "32 word"
  attr :: "32 word"
  restore_attr :: "32 word"
  keyboard_initialized :: bool

definition ICANON :: "32 word" where "ICANON = 0x02"
definition ECHO :: "32 word" where "ECHO = 0x08"

definition init_keyboard :: "(terminal \<Rightarrow> terminal) list" where
  "init_keyboard = [
     \<lambda>t. t\<lparr>attr := tty t\<rparr>,
     \<lambda>t. t\<lparr>restore_attr := tty t\<rparr>,
     \<lambda>t. t\<lparr>keyboard_initialized := True\<rparr>,
     \<lambda>t. t\<lparr>attr := attr t AND NOT (ICANON OR ECHO)\<rparr>,
     \<lambda>t. t\<lparr>tty := attr t\<rparr>]"

definition at_exit :: "(terminal \<Rightarrow> terminal) list" where
  "at_exit = [
     \<lambda>t. t\<lparr>keyboard_initialized := False\<rparr>,
     \<lambda>t. t\<lparr>restore_attr := restore_attr t OR (ICANON OR ECHO)\<rparr>,
     \<lambda>t. t\<lparr>tty := restore_attr t\<rparr>]"

definition PL_InitKeyboard :: "terminal \<Rightarrow> terminal" where
  "PL_InitKeyboard t = fold (\<lambda>s. s) init_keyboard t"

definition PL_AtExit :: "terminal \<Rightarrow> terminal" where
  "PL_AtExit t = (if keyboard_initialized t then fold (\<lambda>s. s) at_exit t else t)"

text \<open>The exit status and the terminal that is left.\<close>

definition PL_SignalHandler :: "terminal \<Rightarrow> nat \<times> terminal" where
  "PL_SignalHandler t = (1, PL_AtExit t)"

lemmas terminal_defs = PL_InitKeyboard_def PL_AtExit_def PL_SignalHandler_def init_keyboard_def at_exit_def

text \<open>While the program runs the terminal delivers single keys and does not echo them.\<close>

lemma keyboard_raw: "tty (PL_InitKeyboard t) AND (ICANON OR ECHO) = 0"
  by (simp add: terminal_defs) (auto simp: bit_eq_iff bit_simps)

text \<open>Normal exit, and a second call of \<open>PL_AtExit\<close>.\<close>

lemma exit_restores: "tty (PL_AtExit (PL_InitKeyboard t)) = tty t OR (ICANON OR ECHO)"
  by (simp add: terminal_defs)

lemma exit_twice: "PL_AtExit (PL_AtExit t) = PL_AtExit t"
  by (simp add: terminal_defs)

text \<open>A signal after any statement of \<open>PL_InitKeyboard\<close> leaves the terminal as it was.\<close>

lemma signal_restores:
  assumes "tty t OR (ICANON OR ECHO) = tty t" and "\<not> keyboard_initialized t"
  shows "tty (snd (PL_SignalHandler (fold (\<lambda>s. s) (take k init_keyboard) t))) = tty t"
proof -
  have "k = 0 \<or> k = 1 \<or> k = 2 \<or> k = 3 \<or> k = 4 \<or> 5 \<le> k" by arith
  with assms show ?thesis by (elim disjE) (simp_all add: terminal_defs)
qed

text \<open>A signal inside \<open>PL_AtExit\<close> does not: the flag is cleared before the terminal is set.\<close>

lemma signal_in_exit:
  "tty (snd (PL_SignalHandler (fold (\<lambda>s. s) (take 1 at_exit) (PL_InitKeyboard t)))) = tty t AND NOT (ICANON OR ECHO)"
  by (simp add: terminal_defs)

end
