(* ===== verification/IEEE_Double.thy ===== *)
theory IEEE_Double
  imports Prelude
begin

text \<open>
  The C type \<open>double\<close> as IEEE 754 binary64, which the source itself takes it to be when it looks at its
  bits (\<open>union u64f\<close>): a double is its 64-bit pattern, and the operations round to the nearest value,
  ties to even. A finite value is a sign, a mantissa and an exponent, \<open>m * 2 ^ e\<close>; every
  operation is exact on those and is rounded once. The payload of a NaN is not kept.
\<close>

type_synonym double = "64 word"

datatype fp_value = NaN | Inf bool | Num bool nat int

definition decode :: "double \<Rightarrow> fp_value" where
  "decode w = (let n = unat w; s = (2 ^ 63 \<le> n); e = n div 2 ^ 52 mod 2 ^ 11; f = n mod 2 ^ 52 in
     if e = 2047 then (if f = 0 then Inf s else NaN)
     else if e = 0 then Num s f (- 1074)
     else Num s (2 ^ 52 + f) (int e - 1075))"

section \<open>Rounding\<close>

fun bitlen :: "nat \<Rightarrow> nat" where
  "bitlen n = (if n = 0 then 0 else Suc (bitlen (n div 2)))"

declare bitlen.simps [simp del]

definition round_half_even :: "nat \<Rightarrow> nat \<Rightarrow> nat" where
  "round_half_even m k = (let q = m div 2 ^ k; r = m mod 2 ^ k; h = 2 ^ (k - 1) in
     if r > h \<or> (r = h \<and> odd q) then q + 1 else q)"

text \<open>The pattern of a sign and the other 63 bits.\<close>

definition pattern :: "bool \<Rightarrow> nat \<Rightarrow> double" where
  "pattern s b = word_of_nat ((if s then 2 ^ 63 else 0) + b)"

text \<open>
  The double nearest to \<open>m * 2 ^ e\<close>. \<open>k\<close> is the number of bits to drop, so that 53 are left or the
  exponent is the least one; a carry out of the mantissa runs into the exponent of the pattern.
\<close>

definition round_fp :: "bool \<Rightarrow> nat \<Rightarrow> int \<Rightarrow> double" where
  "round_fp s m e = (if m = 0 then pattern s 0
     else let k = max (int (bitlen m) - 53) (- 1074 - e);
              r = (if k \<le> 0 then m * 2 ^ nat (- k) else round_half_even m (nat k));
              b = nat (e + k + 1074) * 2 ^ 52 + r
          in pattern s (if b \<ge> 2047 * 2 ^ 52 then 2047 * 2 ^ 52 else b))"

definition encode :: "fp_value \<Rightarrow> double" where
  "encode v = (case v of NaN \<Rightarrow> pattern False (2047 * 2 ^ 52 + 2 ^ 51) | Inf s \<Rightarrow> pattern s (2047 * 2 ^ 52) | Num s m e \<Rightarrow> round_fp s m e)"

section \<open>Operations\<close>

definition fp_of_int :: "int \<Rightarrow> double" where
  "fp_of_int n = round_fp (n < 0) (nat \<bar>n\<bar>) 0"

text \<open>The sign is the highest bit.\<close>

definition fp_neg :: "double \<Rightarrow> double" where
  "fp_neg w = w + 2 ^ 63"

definition fp_mul :: "double \<Rightarrow> double \<Rightarrow> double" where
  "fp_mul v w = encode (case (decode v, decode w) of
     (Num s m e, Num t n f) \<Rightarrow> Num (s \<noteq> t) (m * n) (e + f)
   | (Inf s, Inf t) \<Rightarrow> Inf (s \<noteq> t)
   | (Inf s, Num t n f) \<Rightarrow> if n = 0 then NaN else Inf (s \<noteq> t)
   | (Num s m e, Inf t) \<Rightarrow> if m = 0 then NaN else Inf (s \<noteq> t)
   | _ \<Rightarrow> NaN)"

text \<open>The quotient to at least 56 bits with a last bit for the remainder.\<close>

definition quotient :: "nat \<Rightarrow> nat \<Rightarrow> nat \<times> nat" where
  "quotient m n = (let l = 56 + bitlen n; q = m * 2 ^ l div n; r = m * 2 ^ l mod n in (2 * q + (if r = 0 then 0 else 1), l + 1))"

definition fp_div :: "double \<Rightarrow> double \<Rightarrow> double" where
  "fp_div v w = encode (case (decode v, decode w) of
     (Num s m e, Num t n f) \<Rightarrow> if n = 0 then (if m = 0 then NaN else Inf (s \<noteq> t))
       else (let (q, l) = quotient m n in Num (s \<noteq> t) q (e - f - int l))
   | (Inf s, Num t n f) \<Rightarrow> Inf (s \<noteq> t)
   | (Num s m e, Inf t) \<Rightarrow> Num (s \<noteq> t) 0 0
   | _ \<Rightarrow> NaN)"

definition signed :: "bool \<Rightarrow> nat \<Rightarrow> int" where
  "signed s m = (if s then - int m else int m)"

definition fp_add :: "double \<Rightarrow> double \<Rightarrow> double" where
  "fp_add v w = encode (case (decode v, decode w) of
     (Num s m e, Num t n f) \<Rightarrow> let g = min e f; sum = signed s m * 2 ^ nat (e - g) + signed t n * 2 ^ nat (f - g)
       in Num (if sum = 0 then s \<and> t else sum < 0) (nat \<bar>sum\<bar>) g
   | (Inf s, Inf t) \<Rightarrow> if s = t then Inf s else NaN
   | (Inf s, Num _ _ _) \<Rightarrow> Inf s
   | (Num _ _ _, Inf t) \<Rightarrow> Inf t
   | _ \<Rightarrow> NaN)"

definition fp_sub :: "double \<Rightarrow> double \<Rightarrow> double" where
  "fp_sub v w = fp_add v (fp_neg w)"

definition fp_less :: "double \<Rightarrow> double \<Rightarrow> bool" where
  "fp_less v w = (case (decode v, decode w) of
     (Num s m e, Num t n f) \<Rightarrow> signed s m * 2 ^ nat (e - min e f) < signed t n * 2 ^ nat (f - min e f)
   | (Inf s, Inf t) \<Rightarrow> s \<and> \<not> t
   | (Inf s, Num _ _ _) \<Rightarrow> s
   | (Num _ _ _, Inf t) \<Rightarrow> \<not> t
   | _ \<Rightarrow> False)"

text \<open>The conversion to \<open>long long\<close>, which is undefined outside its range.\<close>

definition fp_to_longlong :: "double \<Rightarrow> fault + int" where
  "fp_to_longlong w = (case decode w of
     Num s m e \<Rightarrow> let v = signed s (if e \<ge> 0 then m * 2 ^ nat e else m div 2 ^ nat (- e))
       in if - (2 ^ 63) \<le> v \<and> v < 2 ^ 63 then Inr v else Inl OutOfBounds
   | _ \<Rightarrow> Inl OutOfBounds)"

section \<open>Integers are exact\<close>

lemma bitlen_0 [simp]: "bitlen 0 = 0"
  by (simp add: bitlen.simps)

lemma bitlen_bounds: "0 < n \<Longrightarrow> 0 < bitlen n \<and> 2 ^ (bitlen n - 1) \<le> n \<and> n < 2 ^ bitlen n"
proof (induction n rule: bitlen.induct)
  case (1 n)
  have b: "bitlen n = Suc (bitlen (n div 2))" using 1(2) by (subst bitlen.simps) simp
  show ?case
  proof (cases "n div 2 = 0")
    case True
    then have "n = 1" using 1(2) by auto
    then show ?thesis by (simp add: bitlen.simps)
  next
    case False
    with 1 have ih: "0 < bitlen (n div 2)" "2 ^ (bitlen (n div 2) - 1) \<le> n div 2" "n div 2 < 2 ^ bitlen (n div 2)" by simp_all
    have "(2 :: nat) ^ (bitlen n - 1) = 2 * 2 ^ (bitlen (n div 2) - 1)" using ih(1) b by (cases "bitlen (n div 2)") simp_all
    moreover have "2 * (n div 2) \<le> n" by simp
    ultimately have "2 ^ (bitlen n - 1) \<le> n" using ih(2) by linarith
    moreover have "n < 2 ^ bitlen n" using ih(3) b by simp
    ultimately show ?thesis using b by simp
  qed
qed

lemma bitlen_unique: "2 ^ k \<le> n \<Longrightarrow> n < 2 ^ Suc k \<Longrightarrow> bitlen n = Suc k"
proof -
  assume n: "2 ^ k \<le> n" "n < 2 ^ Suc k"
  then have "0 < n" using less_le_trans [of 0 "2 ^ k" n] by simp
  from bitlen_bounds [OF this] have b: "0 < bitlen n" "2 ^ (bitlen n - 1) \<le> n" "n < 2 ^ bitlen n" by auto
  have "(2 :: nat) ^ k < 2 ^ bitlen n" using n(1) b(3) by (rule le_less_trans)
  moreover have "(2 :: nat) ^ (bitlen n - 1) < 2 ^ Suc k" using b(2) n(2) by (rule le_less_trans)
  ultimately have "k < bitlen n" "bitlen n - 1 < Suc k" by (simp_all only: power_strict_increasing_iff one_less_numeral_iff semiring_norm)
  then show ?thesis using b(1) by linarith
qed

lemma bitlen_shift: "0 < m \<Longrightarrow> bitlen (m * 2 ^ j) = bitlen m + j"
proof -
  assume m: "0 < m"
  from bitlen_bounds [OF m] obtain k where k: "bitlen m = Suc k" "2 ^ k \<le> m" "m < 2 ^ Suc k" by (cases "bitlen m") auto
  have "2 ^ (k + j) \<le> m * 2 ^ j" using k(2) by (simp add: power_add)
  moreover have "m * 2 ^ j < 2 ^ Suc (k + j)" using k(3) by (simp add: power_add)
  ultimately show ?thesis using k(1) bitlen_unique [of "k + j"] by simp
qed

lemma round_half_even_shift: "0 < k \<Longrightarrow> round_half_even (m * 2 ^ j) (k + j) = round_half_even m k"
proof -
  assume k: "0 < k"
  have q: "m * 2 ^ j div 2 ^ (k + j) = m div 2 ^ k" by (simp add: power_add)
  have r: "m * 2 ^ j mod 2 ^ (k + j) = (m mod 2 ^ k) * 2 ^ j" by (simp add: power_add mod_mult_mult2)
  have h: "(2 :: nat) ^ (k + j - 1) = 2 ^ (k - 1) * 2 ^ j" using k by (cases k) (simp_all add: power_add)
  show ?thesis unfolding round_half_even_def Let_def q r h by simp
qed

lemma round_half_even_exact: "0 < k \<Longrightarrow> k \<le> j \<Longrightarrow> round_half_even (m * 2 ^ j) k = m * 2 ^ (j - k)"
proof -
  assume k: "0 < k" "k \<le> j"
  then have m: "m * 2 ^ j = (m * 2 ^ (j - k)) * 2 ^ k" by (simp add: power_add [symmetric])
  have "m * 2 ^ j div 2 ^ k = m * 2 ^ (j - k)" "m * 2 ^ j mod 2 ^ k = 0" unfolding m by simp_all
  then show ?thesis by (simp add: round_half_even_def)
qed

text \<open>Rounding depends on the value only.\<close>

lemma round_fp_shift: "round_fp s (m * 2 ^ j) e = round_fp s m (e + int j)"
proof (cases "m = 0")
  case False
  define k where "k = max (int (bitlen m) - 53) (- 1074 - (e + int j))"
  have k': "max (int (bitlen (m * 2 ^ j)) - 53) (- 1074 - e) = k + int j"
    using False by (simp add: k_def bitlen_shift max_def)
  have r: "(if k + int j \<le> 0 then m * 2 ^ j * 2 ^ nat (- (k + int j)) else round_half_even (m * 2 ^ j) (nat (k + int j)))
      = (if k \<le> 0 then m * 2 ^ nat (- k) else round_half_even m (nat k))"
  proof -
    consider "k + int j \<le> 0" | "0 < k + int j" "k \<le> 0" | "0 < k" by linarith
    then show ?thesis
    proof cases
      case 1
      then have "nat (- k) = j + nat (- (k + int j))" by linarith
      with 1 show ?thesis by (simp add: power_add)
    next
      case 2
      then have "nat (k + int j) \<le> j" "0 < nat (k + int j)" "j - nat (k + int j) = nat (- k)" by linarith+
      with 2 show ?thesis using round_half_even_exact [of "nat (k + int j)" j m] by simp
    next
      case 3
      then have "nat (k + int j) = nat k + j" by linarith
      with 3 show ?thesis using round_half_even_shift [of "nat k" m j] by simp
    qed
  qed
  have e: "e + (k + int j) + 1074 = e + int j + k + 1074" by simp
  have "m * 2 ^ j \<noteq> 0" using False by simp
  then show ?thesis
    using False unfolding round_fp_def k' k_def [symmetric] r e Let_def by simp
qed (simp add: round_fp_def)

lemma unat_pattern: "b < 2 ^ 63 \<Longrightarrow> unat (pattern s b) = (if s then 2 ^ 63 else 0) + b"
  unfolding pattern_def by (subst unat_of_nat) (cases s; simp)

lemma pattern_fields:
  assumes "b < 2 ^ 63" and "k \<le> 63"
  shows "unat (pattern s b) div 2 ^ 52 mod 2 ^ 11 = b div 2 ^ 52" and "unat (pattern s b) mod 2 ^ k = b mod 2 ^ k"
proof -
  have "b div 2 ^ 52 < 2 ^ 11" using assms(1) by (simp add: less_mult_imp_div_less)
  moreover have "(b + 2 ^ 11 * 2 ^ 52) div 2 ^ 52 = 2 ^ 11 + b div 2 ^ 52" by (subst div_mult_self1) simp_all
  ultimately show "unat (pattern s b) div 2 ^ 52 mod 2 ^ 11 = b div 2 ^ 52"
    unfolding unat_pattern [OF assms(1)] by (cases s) (simp_all add: add.commute)
  obtain j where "63 = k + j" using assms(2) le_Suc_ex by blast
  then have "(2 :: nat) ^ 63 = 2 ^ k * 2 ^ j" by (simp only: power_add)
  then show "unat (pattern s b) mod 2 ^ k = b mod 2 ^ k"
    unfolding unat_pattern [OF assms(1)] by (cases s) (simp_all only: if_True if_False add_0 mod_mult_self4 mod_mult_self3 mod_mult_self2 mod_mult_self1 add.commute)
qed

lemma decode_pattern:
  assumes "b < 2 ^ 63"
  shows "decode (pattern s b) = (let e = b div 2 ^ 52; f = b mod 2 ^ 52 in
     if e = 2047 then (if f = 0 then Inf s else NaN) else if e = 0 then Num s f (- 1074) else Num s (2 ^ 52 + f) (int e - 1075))"
proof -
  have "(2 ^ 63 \<le> unat (pattern s b)) = s" unfolding unat_pattern [OF assms] using assms by simp
  then show ?thesis
    unfolding decode_def Let_def using pattern_fields [OF assms, of 52 s] by simp
qed

lemma decode_zero: "decode (round_fp s 0 e) = Num s 0 (- 1074)"
  by (simp add: round_fp_def decode_pattern)

lemma bitlen_53: "m < 2 ^ 53 \<Longrightarrow> bitlen m \<le> 53"
proof (cases "m = 0")
  case False
  assume m: "m < 2 ^ 53"
  from bitlen_bounds [of m] False have "2 ^ (bitlen m - 1) \<le> m" by simp
  then have "(2 :: nat) ^ (bitlen m - 1) < 2 ^ 53" using m by (rule le_less_trans)
  then have "bitlen m - 1 < 53" by (simp only: power_strict_increasing_iff one_less_numeral_iff semiring_norm)
  then show ?thesis by linarith
qed simp

lemma normal_fields:
  fixes r x :: nat
  assumes "2 ^ 52 \<le> r" and "r < 2 ^ 53"
  shows "(x * 2 ^ 52 + r) div 2 ^ 52 = x + 1" and "(x * 2 ^ 52 + r) mod 2 ^ 52 = r - 2 ^ 52"
proof -
  have "x * 2 ^ 52 + r = (r - 2 ^ 52) + (x + 1) * 2 ^ 52" using assms(1) by simp
  moreover have "r - 2 ^ 52 < 2 ^ 52" using assms by simp
  ultimately show "(x * 2 ^ 52 + r) div 2 ^ 52 = x + 1" and "(x * 2 ^ 52 + r) mod 2 ^ 52 = r - 2 ^ 52"
    by (simp_all only: div_mult_self1 mod_mult_self1 div_less mod_less)
qed

lemma decode_normal:
  fixes e :: nat
  assumes "0 < m" and "m < 2 ^ 53" and "bitlen m + e \<le> 1024"
  shows "round_fp s m (int e) = pattern s ((bitlen m + e + 1021) * 2 ^ 52 + m * 2 ^ (53 - bitlen m))"
    and "2 ^ 52 \<le> m * 2 ^ (53 - bitlen m)" and "m * 2 ^ (53 - bitlen m) < 2 ^ 53"
    and "decode (round_fp s m (int e)) = Num s (m * 2 ^ (53 - bitlen m)) (int e - int (53 - bitlen m))"
proof -
  from bitlen_bounds [OF assms(1)] have b: "0 < bitlen m" "2 ^ (bitlen m - 1) \<le> m" "m < 2 ^ bitlen m" by auto
  have len: "bitlen m \<le> 53" by (rule bitlen_53 [OF assms(2)])
  have "2 ^ (bitlen m - 1) * 2 ^ (53 - bitlen m) \<le> m * 2 ^ (53 - bitlen m)" using b(2) by simp
  moreover have "bitlen m - 1 + (53 - bitlen m) = 52" using b(1) len by linarith
  ultimately show lo: "2 ^ 52 \<le> m * 2 ^ (53 - bitlen m)" by (simp add: power_add [symmetric])
  have "m * 2 ^ (53 - bitlen m) < 2 ^ bitlen m * 2 ^ (53 - bitlen m)" using b(3) by simp
  then show hi: "m * 2 ^ (53 - bitlen m) < 2 ^ 53" using len by (simp add: power_add [symmetric])
  define r where "r = m * 2 ^ (53 - bitlen m)"
  define x where "x = bitlen m + e + 1021"
  have b': "x * 2 ^ 52 + r < 2047 * 2 ^ 52"
  proof -
    have "x \<le> 2045" using assms(3) by (simp add: x_def)
    then have "x * 2 ^ 52 \<le> 2045 * 2 ^ 52" by simp
    with hi show ?thesis by (simp add: r_def)
  qed
  show eq: "round_fp s m (int e) = pattern s ((bitlen m + e + 1021) * 2 ^ 52 + m * 2 ^ (53 - bitlen m))"
  proof -
    have k: "max (int (bitlen m) - 53) (- 1074 - int e) = int (bitlen m) - 53" by simp
    have "nat (int e + (int (bitlen m) - 53) + 1074) = x" "nat (- (int (bitlen m) - 53)) = 53 - bitlen m"
      "int (bitlen m) - 53 \<le> 0" using len by (simp_all add: x_def)
    then show ?thesis
      unfolding round_fp_def k Let_def r_def [symmetric] x_def [symmetric] using assms(1) b' by (simp add: r_def)
  qed
  have fields: "(x * 2 ^ 52 + r) div 2 ^ 52 = x + 1" "(x * 2 ^ 52 + r) mod 2 ^ 52 = r - 2 ^ 52"
    using normal_fields lo hi r_def by blast+
  have "x * 2 ^ 52 + r < 2 ^ 63" using b' by simp
  from decode_pattern [OF this, of s] show "decode (round_fp s m (int e)) = Num s (m * 2 ^ (53 - bitlen m)) (int e - int (53 - bitlen m))"
    unfolding eq r_def [symmetric] x_def [symmetric] fields Let_def using len lo r_def assms(3) by (simp add: of_nat_diff x_def)
qed

text \<open>Values \<open>m * 2 ^ e\<close> with a mantissa below \<open>2 ^ 53\<close> are kept, and so are their products.\<close>

lemma decode_exact:
  fixes e :: nat
  assumes "m < 2 ^ 53" and "e \<le> 971"
  shows "\<exists>j. decode (round_fp s m (int e)) = Num s (m * 2 ^ j) (int e - int j)"
proof (cases "m = 0")
  case True
  then show ?thesis by (intro exI [of _ "e + 1074"]) (simp add: decode_zero)
next
  case False
  have "bitlen m + e \<le> 1024" using bitlen_53 [OF assms(1)] assms(2) by simp
  from decode_normal(4) [OF _ assms(1) this] False show ?thesis by auto
qed

lemma fp_mul_exact:
  fixes e f :: nat
  assumes "m < 2 ^ 53" and "e \<le> 971" and "n < 2 ^ 53" and "f \<le> 971"
  shows "fp_mul (round_fp s m (int e)) (round_fp t n (int f)) = round_fp (s \<noteq> t) (m * n) (int (e + f))"
proof -
  obtain i j where d: "decode (round_fp s m (int e)) = Num s (m * 2 ^ i) (int e - int i)" "decode (round_fp t n (int f)) = Num t (n * 2 ^ j) (int f - int j)"
    using decode_exact [OF assms(1,2)] decode_exact [OF assms(3,4)] by blast
  have x: "m * 2 ^ i * (n * 2 ^ j) = m * n * 2 ^ (i + j)" "int e - int i + (int f - int j) = int (e + f) - int (i + j)" by (simp_all add: power_add)
  show ?thesis
    unfolding fp_mul_def d prod.case fp_value.case encode_def x by (simp add: round_fp_shift)
qed

lemma fp_mul_int: "m < 2 ^ 53 \<Longrightarrow> n < 2 ^ 53 \<Longrightarrow> fp_mul (round_fp s m 0) (round_fp t n 0) = round_fp (s \<noteq> t) (m * n) 0"
  using fp_mul_exact [of m 0 n 0 s t] by simp

text \<open>Two integers over a common exponent.\<close>

lemma decode_common:
  assumes "m < 2 ^ 53" and "n < 2 ^ 53"
  obtains p q m' n' r where "decode (round_fp s m 0) = Num s m' p" and "decode (round_fp t n 0) = Num t n' q" and "min p q = - int r"
    and "signed s m' * 2 ^ nat (p - min p q) = signed s m * 2 ^ r" and "signed t n' * 2 ^ nat (q - min p q) = signed t n * 2 ^ r"
proof -
  obtain i j where d: "decode (round_fp s m 0) = Num s (m * 2 ^ i) (- int i)" "decode (round_fp t n 0) = Num t (n * 2 ^ j) (- int j)"
    using decode_exact [OF assms(1), of 0 s] decode_exact [OF assms(2), of 0 t] by auto
  define r where "r = max i j"
  have g: "min (- int i) (- int j) = - int r" by (simp add: r_def)
  obtain i' j' where r: "r = i + i'" "r = j + j'" by (metis le_Suc_ex max.cobounded1 max.cobounded2 r_def)
  then have x: "nat (- int i - - int r) = i'" "nat (- int j - - int r) = j'" by simp_all
  have y: "signed u (k * 2 ^ a) * 2 ^ b = signed u k * 2 ^ (a + b)" for u k a b
    by (simp add: signed_def power_add)
  show ?thesis
    by (rule that [OF d g]) (simp_all only: g x y r [symmetric])
qed

lemma fp_add_int:
  assumes "m < 2 ^ 53" and "n < 2 ^ 53"
  shows "fp_add (round_fp False m 0) (round_fp False n 0) = round_fp False (m + n) 0"
proof -
  obtain p q m' n' r where d: "decode (round_fp False m 0) = Num False m' p" "decode (round_fp False n 0) = Num False n' q" "min p q = - int r"
    "signed False m' * 2 ^ nat (p - min p q) = signed False m * 2 ^ r" "signed False n' * 2 ^ nat (q - min p q) = signed False n * 2 ^ r"
    by (rule decode_common [OF assms])
  have "signed False m * 2 ^ r + signed False n * 2 ^ r = int ((m + n) * 2 ^ r)" by (simp add: signed_def distrib_right)
  moreover have "(int x < 0) = False" "nat \<bar>int x\<bar> = x" for x by simp_all
  ultimately have "fp_add (round_fp False m 0) (round_fp False n 0) = encode (Num False ((m + n) * 2 ^ r) (- int r))"
    unfolding fp_add_def d(1,2) prod.case fp_value.case Let_def d(4,5) unfolding d(3) by (simp only: simp_thms if_cancel)
  then show ?thesis
    using round_fp_shift [of False "m + n" r "- int r"] by (simp add: encode_def)
qed

lemma fp_less_int:
  assumes "m < 2 ^ 53" and "n < 2 ^ 53"
  shows "fp_less (round_fp s m 0) (round_fp t n 0) \<longleftrightarrow> signed s m < signed t n"
proof -
  obtain p q m' n' r where d: "decode (round_fp s m 0) = Num s m' p" "decode (round_fp t n 0) = Num t n' q" "min p q = - int r"
    "signed s m' * 2 ^ nat (p - min p q) = signed s m * 2 ^ r" "signed t n' * 2 ^ nat (q - min p q) = signed t n * 2 ^ r"
    by (rule decode_common [OF assms])
  show ?thesis
    unfolding fp_less_def d(1,2) prod.case fp_value.case d(4,5) by simp
qed

lemma fp_to_longlong_int:
  fixes e :: nat
  assumes "m < 2 ^ 53" and "e \<le> 971" and "m * 2 ^ e < 2 ^ 63"
  shows "fp_to_longlong (round_fp s m (int e)) = Inr (signed s (m * 2 ^ e))"
proof -
  obtain j where d: "decode (round_fp s m (int e)) = Num s (m * 2 ^ j) (int e - int j)" using decode_exact [OF assms(1,2)] by blast
  have v: "(if int e - int j \<ge> 0 then m * 2 ^ j * 2 ^ nat (int e - int j) else m * 2 ^ j div 2 ^ nat (- (int e - int j))) = m * 2 ^ e"
  proof (cases "j \<le> e")
    case True
    then obtain k where "e = j + k" using le_Suc_ex by blast
    then show ?thesis by (simp add: power_add)
  next
    case False
    then obtain k where k: "j = e + k" by (metis le_Suc_ex nat_le_linear)
    with False show ?thesis by (simp add: power_add)
  qed
  have "- (2 ^ 63) \<le> signed s k \<and> signed s k < 2 ^ 63" if "k < 2 ^ 63" for k
    using that by (cases s) (simp_all add: signed_def)
  from this [OF assms(3)] show ?thesis
    unfolding fp_to_longlong_def d fp_value.case v Let_def by simp
qed

lemma fp_div_one:
  assumes "m < 2 ^ 53"
  shows "fp_div (round_fp s m 0) (round_fp False 1 0) = round_fp s m 0"
proof -
  obtain p where d: "decode (round_fp s m 0) = Num s (m * 2 ^ p) (- int p)" using decode_exact [OF assms, of 0] by auto
  have b: "bitlen 1 = 1" by (simp add: bitlen.simps)
  have one: "decode (round_fp False 1 0) = Num False (2 ^ 52) (- 52)"
    using decode_normal(4) [of 1 0 False] b by simp
  have l: "bitlen (2 ^ 52) = 53" using bitlen_shift [of 1 52] b by simp
  have x: "m * 2 ^ p * 2 ^ (56 + bitlen (2 ^ 52)) = m * 2 ^ (p + 57) * 2 ^ 52" unfolding l by (simp add: power_add)
  have "quotient (m * 2 ^ p) (2 ^ 52) = (2 * (m * 2 ^ (p + 57)), 110)"
    unfolding quotient_def Let_def x unfolding l by simp
  moreover have "2 * (m * 2 ^ (p + 57)) = m * 2 ^ (p + 58)" by (simp add: power_add)
  ultimately show ?thesis
    using round_fp_shift [of s m "p + 58" "- 58 - int p"] unfolding fp_div_def d one by (simp add: encode_def)
qed

section \<open>The sign bit\<close>

lemma fp_neg_pattern: "fp_neg (pattern s b) = pattern (\<not> s) b"
proof -
  have "(of_nat (2 ^ 63) :: double) + of_nat (2 ^ 63) = 0" by simp
  then show ?thesis by (cases s) (simp_all add: fp_neg_def pattern_def add.commute add.left_commute)
qed

lemma and_push_bit_1: "w AND push_bit k 1 = (if bit w k then push_bit k 1 else 0)" for w :: "'a :: len word"
  by (rule bit_word_eqI) (auto simp: bit_simps)

lemma sign_bit:
  assumes "b < 2 ^ 63"
  shows "pattern s b AND push_bit 63 1 = pattern s 0"
proof -
  have "unat (pattern s b) div 2 ^ 63 = (if s then 1 else 0)"
    unfolding unat_pattern [OF assms] using assms by (cases s) simp_all
  then have "bit (unat (pattern s b)) 63 = s" by (simp only: bit_iff_odd) simp
  then have top: "bit (pattern s b) 63 = s" by (simp add: bit_unsigned_iff)
  have "pattern s b AND push_bit 63 1 = (if s then push_bit 63 1 else 0)"
    by (simp only: and_push_bit_1 top)
  then show ?thesis by (simp add: pattern_def push_bit_eq_mult)
qed

lemma fp_neg_round: "fp_neg (round_fp s m e) = round_fp (\<not> s) m e"
  by (simp add: round_fp_def Let_def fp_neg_pattern)

lemma exponent_field: "unat (drop_bit 52 w AND 0x7FF) = unat w div 2 ^ 52 mod 2 ^ 11" for w :: double
proof -
  have "drop_bit 52 w AND mask 11 = take_bit 11 (drop_bit 52 w)" by (simp only: take_bit_eq_mask)
  moreover have "mask 11 = (0x7FF :: double)" by (simp add: mask_eq_exp_minus_1)
  ultimately have "unat (drop_bit 52 w AND 0x7FF) = take_bit 11 (drop_bit 52 (unat w))"
    by (metis unsigned_take_bit_eq unat_drop_bit_eq)
  then show ?thesis by (simp only: take_bit_eq_mod drop_bit_eq_div)
qed

lemma and_low_bits: "unat (w AND mask k) = unat w mod 2 ^ k" for w :: double
  unfolding take_bit_eq_mask [symmetric] unsigned_take_bit_eq by (simp only: take_bit_eq_mod)

lemma exponent_pattern: "b < 2 ^ 63 \<Longrightarrow> unat (drop_bit 52 (pattern s b) AND 0x7FF) = b div 2 ^ 52"
  unfolding exponent_field by (rule pattern_fields(1) [of _ 0]) simp_all

lemma low_bits_pattern: "b < 2 ^ 63 \<Longrightarrow> k \<le> 63 \<Longrightarrow> unat (pattern s b AND mask k) = b mod 2 ^ k"
  unfolding and_low_bits by (rule pattern_fields(2))

lemma drop_bit_mask: "k \<le> n \<Longrightarrow> n \<le> 64 \<Longrightarrow> drop_bit k (mask n) = (mask (n - k) :: double)"
  by (rule bit_word_eqI) (auto simp: bit_simps)

end
