(* ===== verification/SStream_Double.thy ===== *)
theory SStream_Double
  imports SStream IEEE_Double
begin

text \<open>
  The conversions between text and \<open>double\<close> of \<open>u_sstream.c\<close>, which nothing in the program calls, over
  the binary64 arithmetic of \<open>IEEE_Double\<close>. A conversion to \<open>long long\<close> out of its range and the
  overflow of an \<open>int\<close> have no next state (\<open>OutOfBounds\<close>).

  Integers below \<open>2 ^ 53\<close> are printed as their decimal digits and read back bit for bit. The
  sign of a number between -1 and 0 is lost.
\<close>

section \<open>Bits of a double\<close>

definition uss_is_nan :: "double \<Rightarrow> bool" where
  "uss_is_nan x \<longleftrightarrow> (drop_bit 52 x AND 0x7FF) XOR 0x7FF = 0 \<and> push_bit 12 x \<noteq> 0"

text \<open>1 for negative and 2 for positive infinity.\<close>

definition uss_is_infinity :: "double \<Rightarrow> nat" where
  "uss_is_infinity x = (if (drop_bit 52 x AND 0x7FF) XOR 0x7FF = 0 \<and> push_bit 12 x = 0
     then (if drop_bit 63 x \<noteq> 0 then 1 else 2) else 0)"

text \<open>The result and \<open>*iptr\<close>.\<close>

definition uss_modf :: "double \<Rightarrow> double \<times> double" where
  "uss_modf x = (let e = int (unat (drop_bit 52 x AND 0x7FF)) - 1023; sign = x AND push_bit 63 1 in
     if e \<ge> 52 then (if e = 1024 \<and> push_bit 12 x \<noteq> 0 then x else sign, x)
     else if e < 0 then (x, sign)
     else let mask = drop_bit (nat e) (drop_bit 12 0xFFFFFFFFFFFFFFFF) in
       if x AND mask = 0 then (sign, x)
       else let u = x AND NOT mask in (fp_sub x u, u))"

section \<open>Printing\<close>

text \<open>The loop that fills \<open>buf\<close> from \<open>i\<close> on; \<open>n\<close> is \<open>precision\<close>.\<close>

primrec frac_digits :: "nat \<Rightarrow> nat \<Rightarrow> double \<Rightarrow> double \<Rightarrow> fault + byte list" where
  "frac_digits 0 i frac prec = Inr []"
| "frac_digits (Suc n) i frac prec = (if i < 31
     then andthen (fp_to_longlong (fp_mul frac prec)) (\<lambda>b.
       andthen (frac_digits n (i + 1) frac (fp_mul prec (fp_of_int 10))) (\<lambda>ds. Inr (word_of_int (cmod b 10 + 0x30) # ds)))
     else Inr [])"

text \<open>The array without trailing zeros and dot.\<close>

definition frac_text :: "nat \<Rightarrow> double \<Rightarrow> fault + byte list" where
  "frac_text n frac = andthen (frac_digits n 1 frac (fp_of_int 10)) (\<lambda>ds.
     Inr (rev (dropWhile (\<lambda>c. c = 0x30 \<or> c = 0x2E) (rev (0x2E # ds)))))"

definition U_sstream_put_double :: "double \<Rightarrow> int \<Rightarrow> U_SStream stmt" where
  "U_sstream_put_double num precision =
     (if uss_is_nan num then U_sstream_put_str (bytes ''null'')
      else if uss_is_infinity num \<noteq> 0
      then block [if uss_is_infinity num = 1 then U_sstream_put_str (bytes ''-'') else skip, U_sstream_put_str (bytes ''1e99999'')]
      else let p = nat (if precision < 1 then 1 else if precision > 18 then 18 else precision); (frac, ipart) = uss_modf num in
        if fp_less (fp_of_int 9007199254740991) ipart \<or> fp_less ipart (fp_of_int (- 9007199254740991))
        then upd (\<lambda>ss. ss\<lparr>ss_status := U_SSTREAM_ERR_RANGE\<rparr>)
        else let minus = fp_less ipart (fp_of_int 0); ipart = (if minus then fp_neg ipart else ipart); frac = (if minus then fp_neg frac else frac) in
          block [
            if minus then U_sstream_put_str (bytes ''-'') else skip,
            (case fp_to_longlong ipart of Inl f \<Rightarrow> fails f | Inr b \<Rightarrow> U_sstream_put_longlong b),
            (case frac_text p frac of Inl f \<Rightarrow> fails f | Inr s \<Rightarrow> if s \<noteq> [] then U_sstream_put_str s else skip)])"

section \<open>Reading\<close>

primrec pow_loop :: "nat \<Rightarrow> double \<Rightarrow> double \<Rightarrow> double" where
  "pow_loop 0 base result = result"
| "pow_loop (Suc n) base result = pow_loop n base (fp_mul result base)"

definition pow_helper :: "double \<Rightarrow> int \<Rightarrow> double" where
  "pow_helper base exponent =
     pow_loop (nat \<bar>exponent\<bar>) (if exponent < 0 then fp_div (fp_of_int 1) base else base) (fp_of_int 1)"

text \<open>\<open>len && *str\<close>: the character, 0 at the end.\<close>

definition first :: "byte list \<Rightarrow> nat \<Rightarrow> fault + byte" where
  "first s len = (if len = 0 then Inr 0 else peek s 0)"

definition read_sign :: "byte list \<Rightarrow> nat \<Rightarrow> fault + (int \<times> byte list \<times> nat)" where
  "read_sign s len = andthen (first s len) (\<lambda>c. if c = 0x2D then Inr (- 1, tl s, len - 1)
     else if c = 0x2B then Inr (1, tl s, len - 1) else Inr (1, s, len))"

text \<open>The loops over the digits of the mantissa, with their number, and of the exponent.\<close>

fun dec_digits :: "byte list \<Rightarrow> nat \<Rightarrow> double \<Rightarrow> nat \<Rightarrow> fault + (byte list \<times> nat \<times> double \<times> nat)" where
  "dec_digits s 0 num n = Inr (s, 0, num, n)"
| "dec_digits s (Suc len) num n = (case s of [] \<Rightarrow> Inl OutOfBounds
     | c # cs \<Rightarrow> if 0x30 \<le> c \<and> c \<le> 0x39
         then dec_digits cs len (fp_add (fp_mul num (fp_of_int 10)) (fp_of_int (int (unat c) - 48))) (n + 1)
         else Inr (s, Suc len, num, n))"

fun exp_digits :: "byte list \<Rightarrow> nat \<Rightarrow> int \<Rightarrow> fault + (byte list \<times> nat \<times> int)" where
  "exp_digits s 0 num = Inr (s, 0, num)"
| "exp_digits s (Suc len) num = (case s of [] \<Rightarrow> Inl OutOfBounds
     | c # cs \<Rightarrow> if 0x30 \<le> c \<and> c \<le> 0x39
         then let v = num * 10 + (int (unat c) - 48) in if v \<ge> 2 ^ 31 then Inl OutOfBounds else exp_digits cs len v
         else Inr (s, Suc len, num))"

text \<open>The value, the number of bytes up to \<open>*endp\<close>, and \<open>*err\<close>.\<close>

definition U_strtod :: "byte list \<Rightarrow> nat \<Rightarrow> fault + (double \<times> nat \<times> nat)" where
  "U_strtod str len =
     andthen (skip_blanks str len) (\<lambda>(s, n).
     andthen (read_sign s n) (\<lambda>(sign, s, n).
     andthen (dec_digits s n (fp_of_int 0) 0) (\<lambda>(s, n, num, digits).
     andthen (first s n) (\<lambda>c.
     andthen (if c = 0x2E then dec_digits (tl s) (n - 1) num 0 else Inr (s, n, num, 0)) (\<lambda>(s, n, num, decimal_places).
     andthen (first s n) (\<lambda>c.
     andthen (if c = 0x65 \<or> c = 0x45
       then andthen (read_sign (tl s) (n - 1)) (\<lambda>(exp_sign, s, n).
         andthen (exp_digits s n 0) (\<lambda>(s, n, exp_num). Inr (s, n, exp_sign * exp_num)))
       else Inr (s, n, 0)) (\<lambda>(s, n, exponent).
       let num = fp_div (fp_mul num (pow_helper (fp_of_int 10) exponent)) (pow_helper (fp_of_int 10) (int decimal_places))
       in Inr (fp_mul (fp_of_int sign) num, len - n, if digits = 0 \<and> decimal_places = 0 then 1 else 0))))))))"

definition U_sstream_get_double :: "(U_SStream, double) op" where
  "U_sstream_get_double ss =
     (if ss_pos ss < ss_len ss
      then andthen (U_strtod (drop (ss_pos ss) (ss_str ss)) (ss_len ss - ss_pos ss)) (\<lambda>(r, out_len, err).
        let ss1 = (if err \<noteq> 0 then ss\<lparr>ss_status := U_SSTREAM_ERR_INVALID\<rparr> else ss)
        in Inr (if err \<noteq> 0 then fp_of_int 0 else r,
          if ss_pos ss + out_len \<le> ss_len ss then ss1\<lparr>ss_pos := ss_pos ss + out_len\<rparr> else ss1))
      else Inr (fp_of_int 0, ss))"

section \<open>Integers\<close>

text \<open>The pattern of an integer: its exponent, and no bits behind the binary point.\<close>

lemma integer_pattern:
  assumes "0 < m" and "m < 2 ^ 53"
  obtains b where "round_fp s m 0 = pattern s b" and "b < 2 ^ 63" and "b div 2 ^ 52 = bitlen m + 1022" and "b mod 2 ^ (53 - bitlen m) = 0"
proof -
  define r where "r = m * 2 ^ (53 - bitlen m)"
  define b where "b = (bitlen m + 1021) * 2 ^ 52 + r"
  have len: "bitlen m \<le> 53" "0 < bitlen m" using bitlen_53 [OF assms(2)] bitlen_bounds [OF assms(1)] by simp_all
  then have "bitlen m + 0 \<le> 1024" by simp
  note n = decode_normal(1) [OF assms this, of s, folded r_def] decode_normal(2,3) [OF assms this, folded r_def]
  show ?thesis
  proof (rule that)
    show "round_fp s m 0 = pattern s b" using n(1) by (simp add: b_def)
    have "(bitlen m + 1021) * 2 ^ 52 \<le> 1074 * 2 ^ 52" by (rule mult_le_mono1) (use len in simp)
    then have "b < 1074 * 2 ^ 52 + 2 ^ 53" unfolding b_def using n(3) by (rule add_le_less_mono)
    then show "b < 2 ^ 63" by simp
    show "b div 2 ^ 52 = bitlen m + 1022"
      unfolding b_def using normal_fields(1) [OF n(2,3), of "bitlen m + 1021"] by simp
    have "53 - bitlen m + (bitlen m - 1) = 52" using len by simp
    then have "(2 :: nat) ^ 52 = 2 ^ (bitlen m - 1) * 2 ^ (53 - bitlen m)" by (metis power_add mult.commute)
    then have "b = ((bitlen m + 1021) * 2 ^ (bitlen m - 1) + m) * 2 ^ (53 - bitlen m)"
      unfolding b_def r_def by (simp only: distrib_right mult.assoc)
    then show "b mod 2 ^ (53 - bitlen m) = 0" by (simp only: mod_mult_self2_is_0)
  qed
qed

lemma xor_zero: "v XOR w = 0 \<longleftrightarrow> v = w" for v w :: "'a :: len word"
  by (auto simp: bit_eq_iff bit_simps)

lemma integer_finite:
  assumes "m < 2 ^ 53"
  shows "\<not> uss_is_nan (round_fp s m 0)" and "uss_is_infinity (round_fp s m 0) = 0"
proof -
  have "unat (drop_bit 52 (round_fp s m 0) AND 0x7FF) \<noteq> 2047"
  proof (cases "m = 0")
    case True
    then show ?thesis by (simp add: round_fp_def exponent_pattern)
  next
    case False
    then obtain b where "round_fp s m 0 = pattern s b" "b < 2 ^ 63" "b div 2 ^ 52 = bitlen m + 1022"
      using integer_pattern [OF _ assms] by blast
    then show ?thesis using bitlen_53 [OF assms] by (simp add: exponent_pattern)
  qed
  then have "drop_bit 52 (round_fp s m 0) AND 0x7FF \<noteq> 0x7FF" by fastforce
  then have "(drop_bit 52 (round_fp s m 0) AND 0x7FF) XOR 0x7FF \<noteq> 0" by (simp add: xor_zero)
  then show "\<not> uss_is_nan (round_fp s m 0)" and "uss_is_infinity (round_fp s m 0) = 0"
    by (simp_all add: uss_is_nan_def uss_is_infinity_def)
qed

lemma modf_integer:
  assumes "m < 2 ^ 53"
  shows "uss_modf (round_fp s m 0) = (pattern s 0, round_fp s m 0)"
proof (cases "m = 0")
  case True
  have "unat (drop_bit 52 (pattern s 0) AND 0x7FF) = 0" by (simp add: exponent_pattern)
  then have "uss_modf (pattern s 0) = (pattern s 0, pattern s 0)"
    unfolding uss_modf_def Let_def sign_bit [OF zero_less_power [OF zero_less_numeral]] by simp
  with True show ?thesis by (simp add: round_fp_def)
next
  case False
  then obtain b where b: "round_fp s m 0 = pattern s b" "b < 2 ^ 63" "b div 2 ^ 52 = bitlen m + 1022" "b mod 2 ^ (53 - bitlen m) = 0"
    using integer_pattern [OF _ assms] by blast
  have len: "bitlen m \<le> 53" "0 < bitlen m" using bitlen_53 bitlen_bounds assms False by blast+
  have e: "int (unat (drop_bit 52 (pattern s b) AND 0x7FF)) - 1023 = int (bitlen m - 1)"
    using b len by (simp add: exponent_pattern)
  have mask: "drop_bit (bitlen m - 1) (drop_bit 12 0xFFFFFFFFFFFFFFFF) = (mask (53 - bitlen m) :: double)"
  proof -
    have "drop_bit 12 0xFFFFFFFFFFFFFFFF = (mask 52 :: double)" by (simp add: mask_eq_exp_minus_1)
    then show ?thesis using drop_bit_mask [of "bitlen m - 1" 52] len by simp
  qed
  have "unat (pattern s b AND mask (53 - bitlen m)) = 0"
    using b len by (simp add: low_bits_pattern)
  then have low: "pattern s b AND mask (53 - bitlen m) = 0" by (simp add: unat_eq_zero)
  show ?thesis
    unfolding b(1) uss_modf_def e Let_def nat_int mask low sign_bit [OF b(2)] using len by auto
qed

lemma to_longlong_integer: "m < 2 ^ 53 \<Longrightarrow> fp_to_longlong (round_fp s m 0) = Inr (signed s m)"
proof -
  assume m: "m < 2 ^ 53"
  then have "m * 2 ^ 0 < 2 ^ 63" by simp
  from fp_to_longlong_int [OF m _ this, of s] show ?thesis by simp
qed

text \<open>Without a fraction every digit is 0, and nothing is printed behind the number.\<close>

lemma ten: "fp_of_int 10 = round_fp False 5 1"
  using round_fp_shift [of False 5 1 0] by (simp add: fp_of_int_def)

lemma frac_digits_zero: "k + n \<le> 22 \<Longrightarrow>
  frac_digits n i (round_fp False 0 0) (round_fp False (5 ^ k) (int k)) = Inr (replicate (min n (31 - i)) 0x30)"
proof (induction n arbitrary: i k)
  case (Suc n)
  have five: "(5 :: nat) ^ k < 2 ^ 53" using Suc.prems power_increasing [of k 22 "5 :: nat"] by simp
  have "fp_mul (round_fp False (5 ^ k) (int k)) (round_fp False 5 1) = round_fp False (5 ^ Suc k) (int (Suc k))"
    using fp_mul_exact [OF five _ , of k 5 1 False False] Suc.prems by (simp add: mult.commute add.commute)
  moreover have "fp_mul (round_fp False 0 0) (round_fp False (5 ^ k) (int k)) = round_fp False 0 0"
    using fp_mul_exact [OF _ _ five, of 0 0 k False False] Suc.prems by (simp add: round_fp_def)
  moreover have "fp_to_longlong (round_fp False 0 0) = Inr 0" using to_longlong_integer [of 0 False] by (simp add: signed_def)
  moreover have "31 - i = Suc (31 - (i + 1))" if "i < 31" using that by simp
  ultimately show ?case
    using Suc.IH [of "Suc k" "i + 1"] Suc.prems by (simp add: ten cmod_def cdiv_def)
qed simp

lemma frac_text_zero: "n \<le> 18 \<Longrightarrow> frac_text n (round_fp False 0 0) = Inr []"
  using frac_digits_zero [of 1 n 1] by (simp add: frac_text_def ten dropWhile_append)

lemma ss_write_write:
  assumes "ss_pos ss + length s + length t < length (ss_str ss)"
  shows "ss_write t (ss_write s ss) = ss_write (s @ t) ss"
  using assms by (simp add: ss_write_def overwrite_def min_def add_ac)

lemma long_digits_neg: "long_digits (- n) = long_digits n"
proof (induction n rule: long_digits.induct)
  case (1 n)
  have "cmod (- n) 10 = - cmod n 10" "cdiv (- n) 10 = - cdiv n 10"
    by (simp_all add: cmod_def cdiv_def)
  with 1 [OF refl refl] show ?case by (subst (1 2) long_digits.simps) (simp add: Let_def)
qed

lemma put_longlong_eq:
  assumes "ss_ok ss" and "ss_status ss = U_SSTREAM_OK" and "n < 2 ^ 64" and "ss_pos ss + length (decimal n) < ss_len ss"
  shows "U_sstream_put_longlong (int n) ss = Inr (ss_write (decimal n) ss)"
  using put_long_nat_eq [OF assms(1,3)] assms(2,4) by (simp add: U_sstream_put_longlong_def U_sstream_put_long_def)

text \<open>The printer on an integer: the digits, and a sign in front of them.\<close>

lemma put_double_integer:
  assumes "ss_ok ss" and "ss_status ss = U_SSTREAM_OK" and "ss_pos ss + 21 < ss_len ss" and "\<bar>n\<bar> < 2 ^ 53"
  shows "U_sstream_put_double (fp_of_int n) precision ss = Inr (ss_write (long_text n) ss)"
proof -
  define m s where "m = nat \<bar>n\<bar>" and "s = (n < 0)"
  have m: "m < 2 ^ 53" "n = signed s m" "signed s 0 = 0" using assms(4) by (auto simp: m_def s_def signed_def nat_less_iff)
  have x: "fp_of_int n = round_fp s m 0" by (simp add: fp_of_int_def m_def s_def)
  have big: "fp_of_int 9007199254740991 = round_fp False 9007199254740991 0" "fp_of_int (- 9007199254740991) = round_fp True 9007199254740991 0"
    "fp_of_int 0 = round_fp False 0 0" by (simp_all add: fp_of_int_def)
  have range: "\<not> (fp_less (fp_of_int 9007199254740991) (round_fp s m 0) \<or> fp_less (round_fp s m 0) (fp_of_int (- 9007199254740991)))"
    using m(1) by (cases s) (simp_all add: big fp_less_int signed_def)
  have minus: "fp_less (round_fp s m 0) (fp_of_int 0) = s"
    using m by (simp add: big fp_less_int) (auto simp: s_def signed_def)
  define p where "p = nat (if precision < 1 then 1 else if precision > 18 then 18 else precision)"
  have zero: "pattern False 0 = round_fp False 0 0" by (simp add: round_fp_def)
  have "p \<le> 18" by (simp add: p_def nat_le_iff)
  then have frac: "frac_text p (if s then fp_neg (pattern s 0) else pattern s 0) = Inr []"
    using frac_text_zero by (cases s) (simp_all add: fp_neg_pattern zero)
  have abs: "(if s then fp_neg (round_fp s m 0) else round_fp s m 0) = round_fp False m 0"
    by (simp add: fp_neg_round)
  have len: "length (decimal m) \<le> 20" using long_digits_24 [of "int m"] m(1) by (simp add: decimal_def)
  define ss1 where "ss1 = (if s then ss_write [0x2D] ss else ss)"
  have sign: "(if s then U_sstream_put_str (bytes ''-'') else skip) ss = Inr ss1"
    using put_str_eq [OF assms(1), of "bytes ''-''"] assms(2,3) by (simp add: ss1_def skip_def bytes_def)
  have ok1: "ss_ok ss1" "ss_status ss1 = U_SSTREAM_OK" "ss_pos ss1 + length (decimal m) < ss_len ss1"
    using assms(1-3) len ss_write_ok [of ss "[0x2D]"] by (auto simp: ss1_def)
  have "U_sstream_put_longlong (int m) ss1 = Inr (ss_write (decimal m) ss1)"
    using m(1) by (intro put_longlong_eq ok1) simp
  moreover have "ss_write (decimal m) ss1 = ss_write (long_text n) ss"
    using ss_write_write [of ss "[0x2D]" "decimal m"] assms(1,3) len long_digits_neg [of n]
    by (auto simp: ss1_def s_def m_def long_text_def decimal_def ss_ok_def)
  ultimately show ?thesis
    unfolding U_sstream_put_double_def x modf_integer [OF m(1)] prod.case Let_def minus abs p_def [symmetric]
    using integer_finite [OF m(1), of s] range sign frac by (simp add: to_longlong_integer [OF m(1)] signed_def skip_def)
qed

section \<open>Reading an integer\<close>

lemma digit_range: "0x30 \<le> c \<and> c \<le> 0x39 \<longleftrightarrow> is_digit c"
  by (simp add: is_digit_def word_le_nat_alt)

lemma dec_digits_step:
  assumes "is_digit c" and "digit_step r c < 2 ^ 53"
  shows "dec_digits (c # cs) (Suc k) (round_fp False r 0) i = dec_digits cs k (round_fp False (digit_step r c) 0) (i + 1)"
proof -
  define d where "d = unat c - 48"
  have d: "int (unat c) - 48 = int d" "d < 2 ^ 53" "r * 10 < 2 ^ 53" "r < 2 ^ 53" "digit_step r c = r * 10 + d"
    using assms by (simp_all add: is_digit_def d_def digit_step_def of_nat_diff, linarith+)
  have "fp_add (fp_mul (round_fp False r 0) (fp_of_int 10)) (fp_of_int (int d)) = round_fp False (r * 10 + d) 0"
    using fp_mul_int [OF d(4), of 10 False False] fp_add_int [OF d(3,2)] by (simp add: fp_of_int_def)
  then show ?thesis
    unfolding d(5) dec_digits.simps list.case digit_range d(1) using assms(1) by simp
qed

lemma dec_digits_run:
  assumes "\<forall>c\<in>set ds. is_digit c" and "foldl digit_step r ds < 2 ^ 53"
  shows "dec_digits (ds @ rest) (length ds + k) (round_fp False r 0) i
    = dec_digits rest k (round_fp False (foldl digit_step r ds) 0) (i + length ds)"
  using assms
proof (induction ds arbitrary: i r)
  case (Cons c ds)
  have "digit_step r c < 2 ^ 53"
    using digit_step_mono [of "digit_step r c" ds] Cons.prems(2) by simp
  with Cons show ?case by (simp add: dec_digits_step del: dec_digits.simps)
qed simp

lemma strtod_integer:
  assumes "\<bar>n\<bar> < 2 ^ 53" and "k = 0 \<or> rest \<noteq> [] \<and> \<not> is_digit (hd rest) \<and> hd rest \<notin> {0x2E, 0x65, 0x45}"
  shows "U_strtod (long_text n @ rest) (length (long_text n) + k) = Inr (fp_of_int n, length (long_text n), 0)"
proof -
  define ds m s where "ds = rev (long_digits n)" and "m = nat \<bar>n\<bar>" and "s = (n < 0)"
  have m: "m < 2 ^ 53" using assms(1) by (simp add: m_def nat_less_iff)
  have dig: "\<forall>c\<in>set ds. is_digit c" "foldl digit_step 0 ds = m" "ds \<noteq> []"
    using long_digits_value [of n] by (simp_all add: ds_def m_def)
  obtain c cs where head: "long_text n = c # cs" "c \<noteq> 0x20" "c \<noteq> 0x09" "c = 0x2D \<longleftrightarrow> n < 0" by (rule long_text_head)
  then have blanks: "skip_blanks (long_text n @ rest) (length (long_text n) + k) = Inr (long_text n @ rest, length (long_text n) + k)"
    by (simp add: skip_blanks_none)
  have sign: "read_sign (long_text n @ rest) (length (long_text n) + k) = Inr (if s then - 1 else 1, ds @ rest, length ds + k)"
  proof (cases s)
    case False
    then have t: "long_text n = ds" by (simp add: long_text_def s_def ds_def)
    with head have "c \<in> set ds" "c \<noteq> 0x2D" using False by (auto simp: s_def)
    with dig(1) have "c \<noteq> 0x2B" by (auto simp: is_digit_def)
    with head False show ?thesis unfolding t [symmetric] by (simp add: read_sign_def first_def s_def)
  qed (simp add: long_text_def s_def ds_def read_sign_def first_def)
  have stop: "dec_digits rest k x i = Inr (rest, k, x, i)" for x i
    using assms(2) by (cases k; cases rest) (auto simp: digit_range)
  have digits: "dec_digits (ds @ rest) (length ds + k) (fp_of_int 0) 0 = Inr (rest, k, round_fp False m 0, length ds)"
    using dec_digits_run [of ds 0 rest k 0] dig m stop by (simp add: fp_of_int_def)
  obtain c' where c': "first rest k = Inr c'" "c' \<noteq> 0x2E" "c' \<noteq> 0x65" "c' \<noteq> 0x45"
    using assms(2) by (cases k; cases rest) (auto simp: first_def)
  have one: "pow_helper b 0 = round_fp False 1 0" for b by (simp add: pow_helper_def fp_of_int_def)
  have "fp_mul (round_fp False m 0) (round_fp False 1 0) = round_fp False m 0"
    "fp_mul (fp_of_int (if s then - 1 else 1)) (round_fp False m 0) = round_fp s m 0"
    using fp_mul_int [OF m, of 1 False False] fp_mul_int [OF _ m, of 1 s False] by (cases s; simp add: fp_of_int_def)+
  moreover have "fp_of_int n = round_fp s m 0" by (simp add: fp_of_int_def m_def s_def)
  ultimately show ?thesis
    unfolding U_strtod_def blanks andthen_simps prod.case sign digits c'(1)
    using c' dig(3) fp_div_one [OF m, of False] by (simp add: one)
qed

text \<open>Every integer below \<open>2 ^ 53\<close> is read back bit for bit, and the stream stands behind it again.\<close>

lemma double_round_trip:
  assumes "ss_ok ss" and "ss_status ss = U_SSTREAM_OK" and "ss_pos ss + 21 < ss_len ss" and "\<bar>n\<bar> < 2 ^ 53"
  shows "\<exists>ss'. U_sstream_put_double (fp_of_int n) precision ss = Inr ss'
    \<and> U_sstream_get_double (ss'\<lparr>ss_pos := ss_pos ss\<rparr>) = Inr (fp_of_int n, ss')"
proof -
  define t where "t = long_text n"
  have t: "length t \<le> 21" using length_long_text [of n] assms(4) by (simp add: t_def)
  have "drop (ss_pos ss) (ss_str (ss_write t ss)) = t @ 0 # drop (ss_pos ss + length t + 1) (ss_str ss)"
    using assms(1,3) t by (simp add: ss_write_def overwrite_def ss_ok_def)
  moreover define k where "k = ss_len ss - ss_pos ss - length t"
  then have "ss_len ss - ss_pos ss = length t + k" using assms(3) t by simp
  ultimately have "U_strtod (drop (ss_pos ss) (ss_str (ss_write t ss))) (ss_len ss - ss_pos ss) = Inr (fp_of_int n, length t, 0)"
    using strtod_integer [OF assms(4), of k "0 # drop (ss_pos ss + length t + 1) (ss_str ss)"] by (simp add: t_def is_digit_def)
  moreover have "(ss_write t ss)\<lparr>ss_pos := ss_pos ss + length t\<rparr> = ss_write t ss" by (simp add: ss_write_def)
  ultimately show ?thesis
    using put_double_integer [OF assms, of precision] assms(3) t by (auto simp: U_sstream_get_double_def t_def [symmetric])
qed

section \<open>The sign of a fraction\<close>

lemma mul_half:
  fixes e :: nat
  assumes "n < 2 ^ 53" and "e \<le> 971"
  shows "fp_mul 0xBFE0000000000000 (round_fp False n (int e)) = round_fp True n (int e - 1)"
proof -
  obtain j where d: "decode (round_fp False n (int e)) = Num False (n * 2 ^ j) (int e - int j)"
    using decode_exact [OF assms] by blast
  have "decode 0xBFE0000000000000 = Num True (2 ^ 52) (- 53)" by (simp add: decode_def)
  moreover have "2 ^ 52 * (n * 2 ^ j) = n * 2 ^ (52 + j)" by (simp add: power_add)
  ultimately show ?thesis
    using round_fp_shift [of True n "52 + j" "int e - int j - 53"] unfolding fp_mul_def d
    by (simp only: prod.case fp_value.case encode_def simp_thms) (simp add: algebra_simps)
qed

lemma put_half_loses_sign:
  assumes "ss_ok ss" and "ss_status ss = U_SSTREAM_OK" and "ss_pos ss + 4 < ss_len ss"
  shows "U_sstream_put_double 0xBFE0000000000000 1 ss = Inr (ss_write (bytes ''0.+'') ss)"
proof -
  have m: "uss_modf 0xBFE0000000000000 = (0xBFE0000000000000, round_fp True 0 0)"
    unfolding uss_modf_def Let_def exponent_field by (simp add: round_fp_def pattern_def)
  have range: "\<not> fp_less (fp_of_int 9007199254740991) (round_fp True 0 0)" "\<not> fp_less (round_fp True 0 0) (fp_of_int (- 9007199254740991))"
    "\<not> fp_less (round_fp True 0 0) (fp_of_int 0)"
    by (simp_all add: fp_of_int_def fp_less_int signed_def)
  have finite: "\<not> uss_is_nan 0xBFE0000000000000" "uss_is_infinity 0xBFE0000000000000 = 0"
    by (simp_all add: uss_is_nan_def uss_is_infinity_def)
  have "fp_mul 0xBFE0000000000000 (fp_of_int 10) = round_fp True 5 0" using mul_half [of 5 1] by (simp add: ten)
  then have digit: "frac_text 1 0xBFE0000000000000 = Inr (bytes ''.+'')"
    using to_longlong_integer [of 5 True] by (simp add: frac_text_def signed_def cmod_def cdiv_def bytes_def)
  have zero: "fp_to_longlong (round_fp True 0 0) = Inr 0" using to_longlong_integer [of 0 True] by (simp add: signed_def)
  have d: "decimal 0 = [0x30]" by (simp add: decimal_def long_digits.simps cmod_def cdiv_def)
  have "U_sstream_put_longlong 0 ss = Inr (ss_write [0x30] ss)"
    using put_longlong_eq [of ss 0] assms d by simp
  moreover have "U_sstream_put_str (bytes ''.+'') (ss_write [0x30] ss) = Inr (ss_write (bytes ''0.+'') ss)"
    using put_str_eq [OF ss_write_ok [of ss "[0x30]"], of "bytes ''.+''"] assms ss_write_write [of ss "[0x30]" "bytes ''.+''"]
    by (simp add: bytes_def ss_ok_def)
  ultimately show ?thesis
    unfolding U_sstream_put_double_def m prod.case Let_def using finite range digit zero by (simp add: skip_def bytes_def)
qed

end
