(* ===== verification/Dos.thy ===== *)
theory Dos
  imports Gcf_State
begin

text \<open>
  The DOS platform, \<open>main_dos.c\<close>: a UART driven by port accesses and an interrupt routine
  that stores received bytes in a ring, a timer interrupt, a transmit buffer and the main loop.

  The program core is compiled against these functions; its callbacks \<open>GCF_HandleEvent\<close> and
  \<open>GCF_Received\<close> are parameters. They work on any record that extends the platform. Port
  accesses, interrupt vectors, delays and prints are recorded in \<open>io\<close>. Interrupts are inputs
  of the main loop: each iteration is given those served before and after the ring is read,
  with the bytes the UART holds when its interrupt is served.
\<close>

section \<open>The platform\<close>

datatype dos_io = Outp nat nat | GetVect nat | SetVect nat string | ChainInt | DosDelay nat | DosPrint string "int list"

record dos =
  dos_timer :: nat
  dos_time :: nat
  dos_running :: bool
  dos_rx_buf :: "byte list"
  dos_txbuf :: "byte list"
  dos_txpos :: nat
  rx_head :: nat
  rx_tail :: nat
  rx_count :: nat
  com_port :: nat
  com_int :: nat
  com_int_vect :: nat
  pic_mask :: byte
  io :: "dos_io list"

type_synonym 'a dos_action = "'a dos_scheme stmt"

definition log :: "dos_io \<Rightarrow> 'a dos_action" where
  "log e = upd (\<lambda>s. s\<lparr>io := io s @ [e]\<rparr>)"

definition outp :: "('a dos_scheme \<Rightarrow> nat) \<Rightarrow> nat \<Rightarrow> 'a dos_action" where
  "outp port v = reads port (\<lambda>p. log (Outp p v))"

definition COM1_BASE_ADDR :: nat where "COM1_BASE_ADDR = 0x3F8"
definition COM3_BASE_ADDR :: nat where "COM3_BASE_ADDR = 0x3E8"
definition COM4_BASE_ADDR :: nat where "COM4_BASE_ADDR = 0x2E8"

definition dos_PL_Time :: "'a dos_scheme \<Rightarrow> nat" where
  "dos_PL_Time s = dos_time s"

definition dos_PL_MSleep :: "nat \<Rightarrow> 'a dos_action" where
  "dos_PL_MSleep ms = log (DosDelay ms)"

definition dos_PL_SetTimeout :: "nat \<Rightarrow> 'a dos_action" where
  "dos_PL_SetTimeout ms = upd (\<lambda>s. s\<lparr>dos_timer := uadd 32 (dos_PL_Time s) ms\<rparr>)"

definition dos_PL_ClearTimeout :: "'a dos_action" where
  "dos_PL_ClearTimeout = upd (\<lambda>s. s\<lparr>dos_timer := 0\<rparr>)"

definition dos_PL_ShutDown :: "'a dos_action" where
  "dos_PL_ShutDown = upd (\<lambda>s. s\<lparr>dos_running := False\<rparr>)"

text \<open>One device, whatever there is; its name, serial number and path are set, nothing else.\<close>

definition set_chars :: "byte list \<Rightarrow> byte list \<Rightarrow> fault + byte list" where
  "set_chars s buf = block (map (\<lambda>(i, c). poke i c) (enumerate 0 (s @ [0]))) buf"

definition dos_PL_GetDevices :: "Device list \<Rightarrow> fault + (int \<times> Device list)" where
  "dos_PL_GetDevices devs = (case peek devs 0 of Inl f \<Rightarrow> Inl f
     | Inr d \<Rightarrow> (case (set_chars (bytes ''COM1'') (dev_name d), set_chars (bytes ''1'') (dev_serial d), set_chars (bytes ''COM1'') (dev_path d)) of
         (Inr n, Inr s, Inr p) \<Rightarrow> Inr (1, devs[0 := d\<lparr>dev_name := n, dev_serial := s, dev_baudrate := PL_BAUDRATE_115200, dev_path := p\<rparr>])
       | _ \<Rightarrow> Inl OutOfBounds))"

section \<open>Interrupts\<close>

text \<open>One pass of the \<open>do\<close> loop with a byte in the UART.\<close>

definition isr_byte :: "byte \<Rightarrow> 'a dos_action" where
  "isr_byte b = block [
     reads rx_tail (\<lambda>t s. case poke t b (dos_rx_buf s) of Inl f \<Rightarrow> Inl f | Inr buf \<Rightarrow> Inr (s\<lparr>dos_rx_buf := buf\<rparr>)),
     upd (\<lambda>s. s\<lparr>rx_tail := (rx_tail s + 1) mod 1024\<rparr>),
     upd (\<lambda>s. s\<lparr>rx_count := rx_count s + 1\<rparr>)]"

definition port_isr :: "byte list \<Rightarrow> 'a dos_action" where
  "port_isr bs = block [
     cond (\<lambda>s. rx_tail s = rx_head s) (upd (\<lambda>s. s\<lparr>rx_head := 0, rx_tail := 0\<rparr>)) skip,
     block (map isr_byte bs),
     log (Outp 0x20 0x20)]"

definition timer_rtn :: "'a dos_action" where
  "timer_rtn = block [upd (\<lambda>s. s\<lparr>dos_time := uadd 32 (dos_time s) (1000 div 18)\<rparr>), log ChainInt]"

section \<open>The serial port\<close>

definition pic :: "(byte \<Rightarrow> byte) \<Rightarrow> 'a dos_action" where
  "pic f = block [upd (\<lambda>s. s\<lparr>pic_mask := f (pic_mask s)\<rparr>), reads (\<lambda>s. unat (pic_mask s)) (\<lambda>m. log (Outp 0x21 m))]"

definition dos_PL_Connect :: "byte list \<Rightarrow> ('a dos_scheme, gcf_status) op" where
  "dos_PL_Connect path = returns (block [
     log (DosPrint ''PL_Connect: %s'' (map uint path)),
     upd (\<lambda>s. s\<lparr>com_port := COM4_BASE_ADDR, com_int := 3, com_int_vect := 0x0B\<rparr>),
     outp (\<lambda>s. com_port s + 1) 0,
     reads com_int_vect (\<lambda>v. block [log (GetVect v), log (SetVect v ''port_isr'')]),
     outp (\<lambda>s. com_port s + 3) 0x80,
     outp (\<lambda>s. com_port s + 0) 0x01,
     outp (\<lambda>s. com_port s + 1) 0x00,
     outp (\<lambda>s. com_port s + 3) 0x03,
     outp (\<lambda>s. com_port s + 2) 0xC7,
     outp (\<lambda>s. com_port s + 4) 0x0B,
     cond (\<lambda>s. com_port s = COM1_BASE_ADDR \<or> com_port s = COM3_BASE_ADDR) (pic (\<lambda>m. m AND 0xEF)) (pic (\<lambda>m. m AND 0xF7)),
     outp (\<lambda>s. com_port s + 1) 0x01]) GCF_SUCCESS"

definition dos_PL_Disconnect :: "(event \<Rightarrow> 'a dos_action) \<Rightarrow> 'a dos_action" where
  "dos_PL_Disconnect he = block [
     log (DosPrint ''PL_Disconnect'' []),
     upd (\<lambda>s. s\<lparr>dos_txpos := 0\<rparr>),
     cond (\<lambda>s. com_port s \<noteq> 0) (block [
       outp (\<lambda>s. com_port s + 1) 0,
       cond (\<lambda>s. com_port s = COM1_BASE_ADDR \<or> com_port s = COM3_BASE_ADDR) (pic (\<lambda>m. m OR 0x10)) (pic (\<lambda>m. m OR 0x08)),
       upd (\<lambda>s. s\<lparr>com_port := 0, com_int_vect := 0, com_int := 0\<rparr>)]) skip,
     he EV_DISCONNECTED]"

definition dos_PL_ResetFTDI :: int where "dos_PL_ResetFTDI = - 1"
definition dos_PL_ResetRaspBee :: int where "dos_PL_ResetRaspBee = - 1"
definition dos_PL_ReadFile :: "byte list \<Rightarrow> int" where "dos_PL_ReadFile path = - 1"

definition dos_UI_GetWinSize :: "nat \<times> nat" where "dos_UI_GetWinSize = (80, 60)"

definition dos_PROT_Write :: "byte list \<Rightarrow> ('a dos_scheme, nat) op" where
  "dos_PROT_Write data s = (if com_port s = 0 then Inr (0, s)
     else returns (block [log (DosPrint ''send'' (map uint data)),
       block (map (\<lambda>b. outp com_port (unat b)) data)]) (length data) s)"

definition dos_PROT_Putc :: "bool \<Rightarrow> byte \<Rightarrow> ('a dos_scheme, nat) op" where
  "dos_PROT_Putc nd ch s =
     (if \<not> nd \<and> \<not> dos_txpos s + 1 < 2048 then Inl AssertFailed
      else if dos_txpos s + 1 < 2048
      then (case poke (dos_txpos s) ch (dos_txbuf s) of Inl f \<Rightarrow> Inl f
        | Inr b \<Rightarrow> Inr (1, s\<lparr>dos_txbuf := b, dos_txpos := dos_txpos s + 1\<rparr>))
      else Inr (0, s))"

definition dos_PROT_Flush :: "bool \<Rightarrow> ('a dos_scheme, nat) op" where
  "dos_PROT_Flush nd s =
     (if dos_txpos s \<noteq> 0 \<and> dos_txpos s < 2048
      then (if dos_txpos s > length (dos_txbuf s) then Inl OutOfBounds
        else case dos_PROT_Write (take (dos_txpos s) (dos_txbuf s)) s of Inl f \<Rightarrow> Inl f
        | Inr (r, s') \<Rightarrow> if \<not> nd \<and> r \<noteq> dos_txpos s' then Inl AssertFailed else Inr (r, s'\<lparr>dos_txpos := 0\<rparr>))
      else Inr (0, s))"

section \<open>The main loop\<close>

text \<open>\<open>for (pos = 0; head != tail && pos < n; pos++)\<close>: the bytes moved to \<open>buf\<close>.\<close>

primrec drain :: "nat \<Rightarrow> ('a dos_scheme, byte list) op" where
  "drain 0 s = Inr ([], s)"
| "drain (Suc n) s = (if rx_head s \<noteq> rx_tail s
     then (case peek (dos_rx_buf s) (rx_head s) of Inl f \<Rightarrow> Inl f
       | Inr b \<Rightarrow> (case drain n (s\<lparr>rx_head := (rx_head s + 1) mod 1024\<rparr>) of Inl f \<Rightarrow> Inl f
         | Inr (bs, s') \<Rightarrow> Inr (b # bs, s')))
     else Inr ([], s))"

datatype irq = RxIrq "byte list" | TickIrq

fun serve :: "irq \<Rightarrow> 'a dos_action" where
  "serve (RxIrq bs) = port_isr bs"
| "serve TickIrq = timer_rtn"

definition loop_pass :: "(event \<Rightarrow> 'a dos_action) \<Rightarrow> (byte list \<Rightarrow> 'a dos_action) \<Rightarrow> irq list \<Rightarrow> irq list \<Rightarrow> 'a dos_action" where
  "loop_pass he received before after = block [
     he EV_PL_LOOP,
     block (map serve before),
     outp (\<lambda>s. com_port s + 1) 0,
     cond (\<lambda>s. rx_count s \<noteq> 0) (block [
       reads rx_count (\<lambda>n. log (DosPrint ''rx count: %d'' [int n])),
       upd (\<lambda>s. s\<lparr>rx_count := 0\<rparr>)]) skip,
     callv (drain 128) (\<lambda>bs. block [
       outp (\<lambda>s. com_port s + 1) 1,
       if bs \<noteq> [] then received bs else skip]),
     cond (\<lambda>s. dos_timer s \<noteq> 0)
       (cond (\<lambda>s. dos_timer s < dos_PL_Time s) (block [upd (\<lambda>s. s\<lparr>dos_timer := 0\<rparr>), he EV_TIMEOUT]) skip) skip,
     block (map serve after),
     log (DosDelay 5),
     cond (\<lambda>s. dos_time s > 30000) (upd (\<lambda>s. s\<lparr>dos_running := False\<rparr>)) skip]"

text \<open>\<open>while (platform.running)\<close>, as long as interrupts are given.\<close>

fun dos_loop :: "(event \<Rightarrow> 'a dos_action) \<Rightarrow> (byte list \<Rightarrow> 'a dos_action) \<Rightarrow> (irq list \<times> irq list) list \<Rightarrow> 'a dos_action" where
  "dos_loop he received [] = cond dos_running (fails NoFuel) skip"
| "dos_loop he received ((b, a) # irqs) = cond dos_running (block [loop_pass he received b a, dos_loop he received irqs]) skip"

definition dos_PL_Loop :: "(event \<Rightarrow> 'a dos_action) \<Rightarrow> (byte list \<Rightarrow> 'a dos_action) \<Rightarrow> (irq list \<times> irq list) list \<Rightarrow> 'a dos_action" where
  "dos_PL_Loop he received irqs = block [
     upd (\<lambda>s. s\<lparr>dos_running := True\<rparr>),
     log (GetVect 0x1C), log (SetVect 0x1C ''timer_rtn''),
     he EV_PL_STARTED,
     dos_loop he received irqs,
     dos_PL_Disconnect he,
     log (SetVect 0x1C ''prev_int_1c'')]"

text \<open>\<open>main\<close>; \<open>init\<close> and \<open>finish\<close> are \<open>GCF_Init\<close>, whether it returns a program, and \<open>GCF_Exit\<close>.\<close>

definition dos_main :: "(event \<Rightarrow> 'a dos_action) \<Rightarrow> (byte list \<Rightarrow> 'a dos_action) \<Rightarrow>
    (byte list list \<Rightarrow> ('a dos_scheme, bool) op) \<Rightarrow> 'a dos_action \<Rightarrow> (irq list \<times> irq list) list \<Rightarrow> byte list list \<Rightarrow> ('a dos_scheme, int) op" where
  "dos_main he received init finish irqs av w = andthen (init av w) (\<lambda>(made, w). if \<not> made then Inr (2, w)
     else andthen (block [dos_PL_Loop he received irqs, finish] w) (\<lambda>w. Inr (0, w)))"

end
