(* ===== verification/Gcf_Dos.thy ===== *)
theory Gcf_Dos
  imports Dos
begin

text \<open>
  The receive ring of the DOS platform is a queue of at most 1023 bytes between the interrupt
  routine and the main loop: nothing is lost or reordered as long as it is not overfull, and one
  byte too many empties it. Its laws are those of \<open>byte_queue\<close>, which gives the statement about
  any sequence of interrupts and passes of the loop.
\<close>

section \<open>Queues of bytes\<close>

text \<open>Arrivals (\<open>Some\<close>) and removals (\<open>None\<close>) in their order; the result is all that was removed.\<close>

fun traffic :: "(byte list \<Rightarrow> 's stmt) \<Rightarrow> ('s, byte list) op \<Rightarrow> byte list option list \<Rightarrow> ('s, byte list) op" where
  "traffic put get [] s = Inr ([], s)"
| "traffic put get (Some bs # xs) s = (case put bs s of Inl f \<Rightarrow> Inl f | Inr s' \<Rightarrow> traffic put get xs s')"
| "traffic put get (None # xs) s = (case get s of Inl f \<Rightarrow> Inl f
     | Inr (bs, s') \<Rightarrow> (case traffic put get xs s' of Inl f \<Rightarrow> Inl f | Inr (cs, s'') \<Rightarrow> Inr (bs @ cs, s'')))"

text \<open>With \<open>n\<close> bytes in the queue it never holds more than \<open>room\<close>; a removal takes up to \<open>k\<close> bytes.\<close>

fun fits :: "nat \<Rightarrow> nat \<Rightarrow> nat \<Rightarrow> byte list option list \<Rightarrow> bool" where
  "fits k room n [] \<longleftrightarrow> True"
| "fits k room n (Some bs # xs) \<longleftrightarrow> n + length bs \<le> room \<and> fits k room (n + length bs) xs"
| "fits k room n (None # xs) \<longleftrightarrow> fits k room (n - k) xs"

definition arrivals :: "byte list option list \<Rightarrow> byte list" where
  "arrivals xs = concat (map (\<lambda>x. case x of None \<Rightarrow> [] | Some bs \<Rightarrow> bs) xs)"

locale byte_queue =
  fixes put :: "byte list \<Rightarrow> 's stmt" and get :: "('s, byte list) op" and content :: "'s \<Rightarrow> byte list"
    and good :: "'s \<Rightarrow> bool" and room :: nat and k :: nat
  assumes put_law: "good s \<Longrightarrow> length (content s) + length bs \<le> room \<Longrightarrow>
      \<exists>s'. put bs s = Inr s' \<and> good s' \<and> content s' = content s @ bs"
    and get_law: "good s \<Longrightarrow> \<exists>s'. get s = Inr (take k (content s), s') \<and> good s' \<and> content s' = drop k (content s)"
begin

lemma in_order:
  "good s \<Longrightarrow> fits k room (length (content s)) xs \<Longrightarrow>
   \<exists>out s'. traffic put get xs s = Inr (out, s') \<and> good s' \<and> out @ content s' = content s @ arrivals xs"
proof (induction xs arbitrary: s)
  case Nil
  then show ?case by (simp add: arrivals_def)
next
  case (Cons x xs)
  show ?case
  proof (cases x)
    case None
    from get_law [OF Cons.prems(1)] obtain s1 where s1: "get s = Inr (take k (content s), s1)" "good s1" "content s1 = drop k (content s)"
      by blast
    with Cons.prems(2) None have "fits k room (length (content s1)) xs" by simp
    from Cons.IH [OF s1(2) this] s1 None show ?thesis
      by (auto simp: arrivals_def)
  next
    case (Some bs)
    with Cons.prems put_law obtain s1 where "put bs s = Inr s1" "good s1" "content s1 = content s @ bs" by fastforce
    with Cons.IH [of s1] Cons.prems(2) Some show ?thesis by (auto simp: arrivals_def)
  qed
qed

end

section \<open>The ring\<close>

definition ring_length :: "'a dos_scheme \<Rightarrow> nat" where
  "ring_length s = (rx_tail s + 1024 - rx_head s) mod 1024"

definition ring :: "'a dos_scheme \<Rightarrow> byte list" where
  "ring s = map (\<lambda>i. dos_rx_buf s ! ((rx_head s + i) mod 1024)) [0..<ring_length s]"

definition ring_good :: "'a dos_scheme \<Rightarrow> bool" where
  "ring_good s \<longleftrightarrow> length (dos_rx_buf s) = 1024 \<and> rx_head s < 1024 \<and> rx_tail s < 1024"

lemma length_ring [simp]: "length (ring s) = ring_length s"
  by (simp add: ring_def)

lemma ring_length_cases:
  "ring_good s \<Longrightarrow> ring_length s = (if rx_head s \<le> rx_tail s then rx_tail s - rx_head s else rx_tail s + 1024 - rx_head s)"
  by (auto simp: ring_length_def ring_good_def mod_if)

lemma ring_tail: "ring_good s \<Longrightarrow> (rx_head s + ring_length s) mod 1024 = rx_tail s"
  by (auto simp: ring_length_cases) (auto simp: ring_good_def)

text \<open>What one byte of the interrupt routine does to the ring.\<close>

lemma isr_byte_ring:
  assumes "ring_good s"
  shows "\<exists>s'. isr_byte b s = Inr s' \<and> ring_good s' \<and> ring s' = (if ring_length s < 1023 then ring s @ [b] else [])"
proof -
  define s' where "s' = s\<lparr>dos_rx_buf := (dos_rx_buf s)[rx_tail s := b], rx_tail := (rx_tail s + 1) mod 1024, rx_count := rx_count s + 1\<rparr>"
  have g: "ring_good s'" using assms by (simp add: ring_good_def s'_def)
  have n: "ring_length s < 1024" by (simp add: ring_length_def)
  have l: "ring_length s' = (if ring_length s < 1023 then ring_length s + 1 else 0)"
    using assms g by (auto simp: ring_length_cases) (auto simp: ring_good_def s'_def mod_Suc split: if_splits)
  have "(rx_head s + i) mod 1024 \<noteq> rx_tail s" if "i < ring_length s" for i
    using that n ring_tail [OF assms] assms by (auto simp: ring_good_def mod_if split: if_splits)
  then have "dos_rx_buf s' ! ((rx_head s' + i) mod 1024) = dos_rx_buf s ! ((rx_head s + i) mod 1024)" if "i < ring_length s" for i
    using that by (simp add: s'_def) (metis nth_list_update_neq)
  then have "ring s' = ring s @ [b]" if "ring_length s < 1023"
    using that ring_tail [OF assms] assms by (simp add: ring_def l) (simp add: s'_def ring_good_def)
  moreover have "ring s' = []" if "\<not> ring_length s < 1023" using that by (simp add: ring_def l)
  moreover have "isr_byte b s = Inr s'"
    using assms by (simp add: isr_byte_def reads_def upd_def s'_def ring_good_def)
  ultimately show ?thesis using g by auto
qed

lemma isr_bytes_ring:
  "ring_good s \<Longrightarrow> ring_length s + length bs \<le> 1023 \<Longrightarrow>
   \<exists>s'. block (map isr_byte bs) s = Inr s' \<and> ring_good s' \<and> ring s' = ring s @ bs"
proof (induction bs arbitrary: s)
  case Nil
  then show ?case by simp
next
  case (Cons b bs)
  from isr_byte_ring [OF Cons.prems(1), of b] Cons.prems(2) obtain s1
    where s1: "isr_byte b s = Inr s1" "ring_good s1" "ring s1 = ring s @ [b]" by auto
  then have "ring_length s1 = ring_length s + 1" by (metis length_append_singleton length_ring Suc_eq_plus1)
  with Cons.IH [OF s1(2)] Cons.prems(2) s1 show ?case by auto
qed

lemma dos_ring_empty: "ring_good s \<Longrightarrow> rx_tail s = rx_head s \<Longrightarrow> ring s = []"
  by (simp add: ring_def ring_length_def)

lemma ring_io [simp]:
  "ring (s\<lparr>io := e\<rparr>) = ring s" "ring_good (s\<lparr>io := e\<rparr>) = ring_good s"
  by (simp_all add: ring_def ring_length_def ring_good_def)

lemma port_isr_ring:
  assumes "ring_good s" "ring_length s + length bs \<le> 1023"
  shows "\<exists>s'. port_isr bs s = Inr s' \<and> ring_good s' \<and> ring s' = ring s @ bs"
proof -
  define s0 where "s0 = (if rx_tail s = rx_head s then s\<lparr>rx_head := 0, rx_tail := 0\<rparr> else s)"
  have s0: "ring_good s0" "ring s0 = ring s"
    using assms(1) by (auto simp: s0_def ring_good_def ring_def ring_length_def)
  from arg_cong [OF s0(2), of length] have "ring_length s0 = ring_length s" by simp
  with isr_bytes_ring [OF s0(1), of bs] s0 assms(2) obtain s1
    where "block (map isr_byte bs) s0 = Inr s1" "ring_good s1" "ring s1 = ring s @ bs" by auto
  then show ?thesis
    by (simp add: port_isr_def cond_def upd_def skip_def log_def s0_def split: if_splits)
qed

text \<open>What one pass of the loop takes out.\<close>

lemma ring_nonempty:
  assumes "ring_good s" "rx_head s \<noteq> rx_tail s"
  shows "ring s = dos_rx_buf s ! rx_head s # ring (s\<lparr>rx_head := (rx_head s + 1) mod 1024\<rparr>)"
proof -
  define s' where "s' = s\<lparr>rx_head := (rx_head s + 1) mod 1024\<rparr>"
  have g: "ring_good s'" using assms(1) by (simp add: ring_good_def s'_def)
  have "ring_length s = Suc (ring_length s')"
    using assms ring_length_cases [OF assms(1)] ring_length_cases [OF g]
    by (auto simp: s'_def ring_good_def mod_Suc split: if_splits)
  moreover have "(rx_head s + Suc i) mod 1024 = ((rx_head s + 1) mod 1024 + i) mod 1024" for i
    by (simp add: mod_simps)
  ultimately show ?thesis
    using assms(1) unfolding s'_def [symmetric]
    by (simp add: ring_def upt_conv_Cons map_Suc_upt [symmetric] ring_good_def del: upt_Suc) (simp add: s'_def)
qed

lemma drain_ring:
  "ring_good s \<Longrightarrow> \<exists>s'. drain n s = Inr (take n (ring s), s') \<and> ring_good s' \<and> ring s' = drop n (ring s)"
proof (induction n arbitrary: s)
  case 0
  then show ?case by simp
next
  case (Suc n)
  show ?case
  proof (cases "rx_head s = rx_tail s")
    case True
    with Suc.prems show ?thesis by (simp add: dos_ring_empty)
  next
    case False
    have "ring_good (s\<lparr>rx_head := (rx_head s + 1) mod 1024\<rparr>)" using Suc.prems by (simp add: ring_good_def)
    from Suc.IH [OF this] show ?thesis
      using False Suc.prems ring_nonempty [OF Suc.prems False]
      by (auto simp: ring_good_def)
  qed
qed

lemma drain_empty:
  assumes "ring_good s" "ring s = []"
  shows "drain n s = Inr ([], s)"
proof -
  from assms have "ring_length s = 0" by (metis length_ring list.size(3))
  with assms(1) have "rx_head s = rx_tail s"
    by (auto simp: ring_length_cases split: if_splits) (auto simp: ring_good_def)
  then show ?thesis by (cases n) simp_all
qed

interpretation dos_rx: byte_queue port_isr "drain 128" ring ring_good 1023 128
  by unfold_locales (use port_isr_ring drain_ring in auto)

text \<open>C29: As long as at most 1023 bytes are ever waiting, the DOS platform hands the received bytes
  to the program complete and in order: whatever the sequence of receive interrupts and of
  passes of the main loop (each taking at most 128 bytes), what the loop took and what is still
  in the ring are what was in it before, followed by what arrived.
\<close>

theorem dos_receives_in_order:
  fixes s :: "'a dos_scheme"
  assumes "ring_good s" and "fits 128 1023 (length (ring s)) xs"
  shows "\<exists>out s'. traffic port_isr (drain 128) xs s = Inr (out, s') \<and> ring_good s' \<and>
    out @ ring s' = ring s @ arrivals xs"
  using assms by (rule dos_rx.in_order)

definition dos0 :: dos where
  "dos0 = \<lparr>dos_timer = 0, dos_time = 0, dos_running = True, dos_rx_buf = replicate 1024 0, dos_txbuf = replicate 2048 0,
     dos_txpos = 0, rx_head = 1000, rx_tail = 1000, rx_count = 0, com_port = COM4_BASE_ADDR, com_int = 3, com_int_vect = 0x0B,
     pic_mask = 0, io = []\<rparr>"

lemma dos_receives_in_order_witness:
  "\<exists>out s'. traffic port_isr (drain 128) [Some [1, 2], None, Some [3]] dos0 = Inr (out, s') \<and> ring_good s' \<and>
    out @ ring s' = [1, 2, 3]"
proof -
  have "ring_good dos0" "ring dos0 = []" by (simp_all add: ring_good_def dos0_def ring_def ring_length_def)
  with dos_receives_in_order [of dos0 "[Some [1, 2], None, Some [3]]"] show ?thesis by (simp add: arrivals_def)
qed

text \<open>The ring holds 1023 bytes. When a byte arrives with 1023 waiting, the tail catches up with
  the head, which means empty: the routine reports nothing and all 1024 bytes are lost, the next
  pass of the loop takes none.
\<close>

lemma dos_ring_overflow:
  fixes s :: "'a dos_scheme"
  assumes "ring_good s" and "ring s \<noteq> []" and "length (ring s) + length bs = 1023"
  shows "\<exists>s'. port_isr (bs @ [b]) s = Inr s' \<and> ring s' = [] \<and> drain 128 s' = Inr ([], s') \<and>
    rx_count s' = rx_count s + length bs + 1"
proof -
  have ne: "rx_tail s \<noteq> rx_head s" using assms(1,2) dos_ring_empty by metis
  from isr_bytes_ring [OF assms(1), of bs] assms(3) obtain s1
    where s1: "block (map isr_byte bs) s = Inr s1" "ring_good s1" "ring s1 = ring s @ bs" by auto
  from arg_cong [OF s1(3), of length] assms(3) have "ring_length s1 = 1023" by simp
  with isr_byte_ring [OF s1(2), of b] obtain s2 where s2: "isr_byte b s1 = Inr s2" "ring_good s2" "ring s2 = []" by auto
  have c: "block (map isr_byte cs) t = Inr t' \<Longrightarrow> rx_count t' = rx_count t + length cs" for cs and t t' :: "'a dos_scheme"
    by (induction cs arbitrary: t) (auto simp: isr_byte_def reads_def upd_def split: sum.splits)
  have b: "block (map isr_byte (bs @ [b])) s = Inr s2" using s1(1) s2(1) by (simp add: block_append)
  with c [OF b] s2 ne show ?thesis
    using drain_empty [of "s2\<lparr>io := io s2 @ [Outp 0x20 0x20]\<rparr>" 128]
    by (auto simp: port_isr_def cond_def skip_def log_def upd_def)
qed

lemma dos_ring_overflow_witness:
  "\<exists>s'. port_isr (replicate 1022 0 @ [2]) (dos0\<lparr>rx_tail := 1001\<rparr>) = Inr s' \<and> ring s' = []"
proof -
  have "ring_good (dos0\<lparr>rx_tail := 1001\<rparr>)" "ring (dos0\<lparr>rx_tail := 1001\<rparr>) \<noteq> []" "length (ring (dos0\<lparr>rx_tail := 1001\<rparr>)) = 1"
    by (simp_all add: ring_good_def dos0_def ring_def ring_length_def)
  with dos_ring_overflow [of "dos0\<lparr>rx_tail := 1001\<rparr>" "replicate 1022 0" 2] show ?thesis by auto
qed

text \<open>
  The main loop has a time limit of its own, whatever the core is doing: a pass that begins with
  the clock past 30000 ms is the last one, unless the callbacks write the platform's clock.
\<close>

lemma dos_loop_ends:
  fixes he :: "event \<Rightarrow> 'a dos_action"
  assumes "\<And>e s s'. he e s = Inr s' \<Longrightarrow> dos_time s' = dos_time s" "\<And>bs s s'. received bs s = Inr s' \<Longrightarrow> dos_time s' = dos_time s"
    and "dos_time s > 30000" and "loop_pass he received [] [] s = Inr s'"
  shows "\<not> dos_running s'"
proof -
  have d: "drain n t = Inr (bs, t') \<Longrightarrow> dos_time t' = dos_time t" for n bs and t t' :: "'a dos_scheme"
    by (induction n arbitrary: t bs) (auto split: if_splits sum.splits prod.splits)
  show ?thesis
    using assms(3,4)
    by (auto simp: loop_pass_def cond_def outp_def reads_def log_def upd_def callv_def skip_def
        split: sum.splits prod.splits if_splits dest!: assms(1,2) d)
qed

end
