(* ===== verification/Windows.thy ===== *)
theory Windows
  imports Gcf_Ui
begin

text \<open>
  The Windows platform, \<open>main_windows.c\<close>, without its device enumeration (\<open>Windows_Devices\<close>):
  the C runtime it replaces, the console with its own \<open>printf\<close>, the serial port, the reset
  over FTD2XX, the main loop and the splitting of the command line.

  As in \<open>Dos\<close> the operations work on any record that extends the platform, and the callbacks
  of the core (\<open>GCF_HandleEvent\<close>, \<open>GCF_Received\<close>, \<open>gcfDebugHex\<close>) are parameters. The Win32 and
  FTD2XX functions are the parameter \<open>A\<close>: \<open>A h c\<close> is the answer to call \<open>c\<close> after the history
  \<open>h\<close> of calls. \<open>long\<close> has 32 bits.
\<close>

section \<open>The C runtime\<close>

text \<open>\<open>*p++ = (char)c\<close>; \<open>memcpy\<close> is \<open>U_memcpy\<close>.\<close>

definition win_memset :: "nat \<Rightarrow> int \<Rightarrow> nat \<Rightarrow> byte list stmt" where
  "win_memset p c count = memset_loop p (word_of_int c) count"

definition win_memcpy :: "nat \<Rightarrow> byte list \<Rightarrow> nat \<Rightarrow> nat \<Rightarrow> byte list stmt" where
  "win_memcpy d src s n = U_memcpy d src s n"

text \<open>The division of mingw32 on i686; a signed overflow of \<open>n\<close> has no next state.\<close>

function divdi3_loop :: "int \<Rightarrow> int \<Rightarrow> int \<Rightarrow> fault + int" where
  "divdi3_loop q n d =
     (if n \<ge> d then if d = 0 \<or> n - d \<ge> 2 ^ 31 then Inl Diverges else divdi3_loop (q + 1) (n - d) d
      else Inr q)"
  by pat_completeness auto
termination by (relation "measure (\<lambda>(q, n, d). if d > 0 then nat (n - d + 1) else nat (2 ^ 31 - n))") auto

declare divdi3_loop.simps [simp del]

definition divdi3 :: "int \<Rightarrow> int \<Rightarrow> fault + int" where
  "divdi3 n d = (if n = 0 \<or> d = 0 then Inr 0 else divdi3_loop 0 n d)"

section \<open>Calls of the system\<close>

datatype win_call =
    QueryPerformanceFrequency | QueryPerformanceCounter | GetTickCount | Sleep nat
  | GetStdHandle | GetConsoleMode int | WriteConsole int "byte list"
  | CreateFile "byte list" bool | CloseHandle int | ReadFile int nat | WriteFile int "byte list" | GetLastError
  | GetCommState int | SetCommState int nat | SetCommTimeouts int | SetCommMask int
  | GetCommandLine | ExitProcess int
  | FtInitialise | FtListDevices | FtOpen nat | FtGetDeviceInfo int | FtSetBitMode int nat nat | FtClose int

text \<open>The value a call returns, the number and the bytes it stores through its pointers.\<close>

record win_answer =
  ok :: int
  num :: int
  got :: "byte list"

type_synonym win_history = "(win_call \<times> win_answer) list"
type_synonym win_api = "win_history \<Rightarrow> win_call \<Rightarrow> win_answer"

record win =
  win_timer :: nat
  win_fd :: int
  win_out :: int
  win_running :: bool
  win_rxbuf :: "byte list"
  win_txbuf :: "byte list"
  win_txpos :: nat
  win_frequency :: int
  win_frequency_valid :: bool
  printf_buf :: "byte list"
  win_calls :: win_history

type_synonym 'a win_action = "'a win_scheme stmt"

abbreviation (input) INVALID_HANDLE :: int where "INVALID_HANDLE \<equiv> - 1"

text \<open>A call and what follows, in a statement or in a function with a result.\<close>

definition thenv :: "('s, 'a) op \<Rightarrow> ('a \<Rightarrow> 's \<Rightarrow> fault + 'b) \<Rightarrow> 's \<Rightarrow> fault + 'b" where
  "thenv m k w = (case m w of Inl f \<Rightarrow> Inl f | Inr (a, w') \<Rightarrow> k a w')"

definition after :: "'s stmt \<Rightarrow> ('s \<Rightarrow> fault + 'b) \<Rightarrow> 's \<Rightarrow> fault + 'b" where
  "after s k w = (case s w of Inl f \<Rightarrow> Inl f | Inr w' \<Rightarrow> k w')"

definition give :: "'a \<Rightarrow> ('s, 'a) op" where
  "give a w = Inr (a, w)"

definition win32 :: "win_api \<Rightarrow> win_call \<Rightarrow> ('a win_scheme, win_answer) op" where
  "win32 A c w = (let r = A (win_calls w) c in Inr (r, w\<lparr>win_calls := win_calls w @ [(c, r)]\<rparr>))"

definition run32 :: "win_api \<Rightarrow> win_call \<Rightarrow> 'a win_action" where
  "run32 A c = thenv (win32 A c) (\<lambda>_. skip)"

section \<open>The console\<close>

definition win_PL_Print :: "win_api \<Rightarrow> byte list \<Rightarrow> 'a win_action" where
  "win_PL_Print A line = cond (\<lambda>w. win_out w = INVALID_HANDLE) skip
     (reads win_out (\<lambda>out. if line \<noteq> [] then run32 A (WriteConsole out line) else skip))"

text \<open>
  The conversion of \<open>PL_Printf\<close> for the character \<open>c\<close> and the arguments left after it. An
  \<open>int\<close> and a \<open>long\<close> are both 32 bits wide, so the \<open>l\<close> before \<open>c\<close> makes no difference.
\<close>

definition conversion :: "byte \<Rightarrow> printf_arg list \<Rightarrow> U_SStream stmt \<times> printf_arg list" where
  "conversion c args =
     (if c = 0x73 then (case args of AStr s # as \<Rightarrow> (U_sstream_put_str s, as) | _ \<Rightarrow> (fails OutOfBounds, args))
      else if c = 0x78 \<or> c = 0x58 then (case args of ANum n # as \<Rightarrow> (U_sstream_put_u32hex (nat (n mod 2 ^ 32)), as)
        | _ \<Rightarrow> (fails OutOfBounds, args))
      else if c = 0x64 \<or> c = 0x75 then (case args of ANum n # as \<Rightarrow> (U_sstream_put_long (to_long 32 (nat (n mod 2 ^ 32))), as)
        | _ \<Rightarrow> (fails OutOfBounds, args))
      else if c = 0x25 then (U_sstream_put_str [0x25], args)
      else (U_sstream_put_str [0x3F, 0x3F], args))"

text \<open>The loop over the format; \<open>xx\<close> is set behind a \<open>%\<close>, and skips digits and \<open>l\<close>.\<close>

fun format_loop :: "bool \<Rightarrow> byte list \<Rightarrow> printf_arg list \<Rightarrow> U_SStream stmt" where
  "format_loop xx [] args = skip"
| "format_loop xx (c # cs) args = cond (\<lambda>ss. ss_pos ss + 1 < ss_len ss)
     (if xx then
        if 0x30 \<le> c \<and> c \<le> 0x39 \<or> c = 0x6C then format_loop True cs args
        else (let (s, as) = conversion c args in block [s, format_loop False cs as])
      else if c = 0x25 then format_loop True cs args
      else block [ss_putc c, format_loop False cs args])
     skip"

definition win_PL_Printf :: "bool \<Rightarrow> win_api \<Rightarrow> debug_level \<Rightarrow> byte list \<Rightarrow> printf_arg list \<Rightarrow> 'a win_action" where
  "win_PL_Printf nd A level fmt args w =
     (if nd \<and> level = DBG_DEBUG then Inr w
      else case block [format_loop False fmt args, ss_close] (U_sstream_init (Some (printf_buf w)) 1024) of Inl f \<Rightarrow> Inl f
        | Inr ss \<Rightarrow> (let w' = w\<lparr>printf_buf := ss_str ss\<rparr> in
            if ss_pos ss \<noteq> 0
            then (case c_string (ss_str ss) of Inl f \<Rightarrow> Inl f | Inr text \<Rightarrow> win_PL_Print A text w')
            else Inr w'))"

definition win_UI_GetWinSize :: "nat \<times> nat" where
  "win_UI_GetWinSize = (80, 60)"

definition plInitOutput :: "win_api \<Rightarrow> 'a win_action" where
  "plInitOutput A = thenv (win32 A GetStdHandle) (\<lambda>r. block [
     upd (\<lambda>w. w\<lparr>win_out := ok r\<rparr>),
     if ok r = INVALID_HANDLE then skip else run32 A (GetConsoleMode (ok r))])"

section \<open>Time\<close>

text \<open>A frequency of 0 would be a division by zero.\<close>

definition win_PL_Time :: "win_api \<Rightarrow> ('a win_scheme, nat) op" where
  "win_PL_Time A w = (if win_frequency_valid w
     then thenv (win32 A QueryPerformanceCounter) (\<lambda>r w. if win_frequency w = 0 then Inl OutOfBounds
       else Inr (nat (cdiv (1000 * num r) (win_frequency w) mod 2 ^ 64), w)) w
     else thenv (win32 A GetTickCount) (\<lambda>r. give (nat (num r))) w)"

definition win_PL_MSleep :: "win_api \<Rightarrow> nat \<Rightarrow> 'a win_action" where
  "win_PL_MSleep A ms = run32 A (Sleep ms)"

definition win_PL_SetTimeout :: "win_api \<Rightarrow> nat \<Rightarrow> 'a win_action" where
  "win_PL_SetTimeout A ms = thenv (win_PL_Time A) (\<lambda>t. upd (\<lambda>w. w\<lparr>win_timer := uadd 64 t ms\<rparr>))"

definition win_PL_ClearTimeout :: "'a win_action" where
  "win_PL_ClearTimeout = upd (\<lambda>w. w\<lparr>win_timer := 0\<rparr>)"

definition win_PL_ShutDown :: "'a win_action" where
  "win_PL_ShutDown = upd (\<lambda>w. w\<lparr>win_running := False\<rparr>)"

section \<open>The serial port\<close>

definition win_PL_Disconnect :: "bool \<Rightarrow> win_api \<Rightarrow> (event \<Rightarrow> 'a win_action) \<Rightarrow> 'a win_action" where
  "win_PL_Disconnect nd A he = block [
     win_PL_Printf nd A DBG_DEBUG (bytes ''PL_Disconnect'' @ [0x0A]) [],
     cond (\<lambda>w. win_fd w \<noteq> INVALID_HANDLE) (block [
       upd (\<lambda>w. w\<lparr>win_txpos := 0\<rparr>),
       reads win_fd (\<lambda>h. run32 A (CloseHandle h)),
       upd (\<lambda>w. w\<lparr>win_fd := INVALID_HANDLE\<rparr>)]) skip,
     he EV_DISCONNECTED]"

text \<open>The settings of the port, call by call; the label \<open>Exit1\<close> is \<open>fail\<close> with the message in front of it.\<close>

definition port_settings :: "win_api \<Rightarrow> nat \<Rightarrow> int \<Rightarrow> (byte list \<Rightarrow> 's win_scheme \<Rightarrow> fault + 'b) \<Rightarrow> ('s win_scheme \<Rightarrow> fault + 'b) \<Rightarrow> 's win_scheme \<Rightarrow> fault + 'b" where
  "port_settings A baud h fail k =
     thenv (win32 A (GetCommState h)) (\<lambda>r. if ok r = 0 then fail (0x0A # bytes ''Error to Get the Com state'' @ [0x0A, 0x0A]) else
     thenv (win32 A (SetCommState h baud)) (\<lambda>r. if ok r = 0 then fail (0x0A # bytes ''Error to Setting DCB Structure'' @ [0x0A, 0x0A]) else
     thenv (win32 A (SetCommTimeouts h)) (\<lambda>r. if ok r = 0 then fail (0x0A # bytes ''Error to Setting Time outs'') else
     thenv (win32 A (SetCommMask h)) (\<lambda>r. if ok r = 0 then fail (0x0A # bytes ''Error to in Setting CommMask'' @ [0x0A, 0x0A]) else k))))"

text \<open>The name for \<open>CreateFile\<close>: \<open>None\<close> where the path is refused.\<close>

definition port_name_of :: "byte list \<Rightarrow> fault + byte list option" where
  "port_name_of path =
     (if length path > 7 then Inr None
      else (let ss = U_sstream_init (Some (replicate 32 0)) 32;
                put = (\<lambda>ops. case block ops ss of Inl f \<Rightarrow> Inl f | Inr ss \<Rightarrow>
                  (case c_string (ss_str ss) of Inl f \<Rightarrow> Inl f | Inr s \<Rightarrow> Inr (Some s)))
            in if path \<noteq> [] \<and> hd path = 0x43 then put [U_sstream_put_str [0x5C, 0x5C, 0x2E, 0x5C], U_sstream_put_str path]
               else if path \<noteq> [] \<and> hd path = 0x5C then put [U_sstream_put_str path]
               else Inr None))"

text \<open>The value of the enumerator, and what follows \<open>CreateFile\<close>.\<close>

definition baud_value :: "baudrate \<Rightarrow> nat" where
  "baud_value baud = (case baud of PL_BAUDRATE_UNKNOWN \<Rightarrow> 0 | PL_BAUDRATE_38400 \<Rightarrow> 38400 | PL_BAUDRATE_115200 \<Rightarrow> 115200)"

definition connect_opened :: "bool \<Rightarrow> win_api \<Rightarrow> (event \<Rightarrow> 'a win_action) \<Rightarrow> byte list \<Rightarrow> baudrate \<Rightarrow> win_answer \<Rightarrow> ('a win_scheme, gcf_status) op" where
  "connect_opened nd A he buf baud r = (if ok r = INVALID_HANDLE
     then returns (win_PL_Printf nd A DBG_DEBUG (bytes ''failed to open %s'' @ [0x0A]) [AStr buf]) GCF_FAILED
     else port_settings A (if baud = PL_BAUDRATE_38400 then 38400 else 115200) (ok r)
       (\<lambda>msg. returns (block [win_PL_Printf nd A DBG_DEBUG msg [], win_PL_Disconnect nd A he]) GCF_FAILED)
       (returns (win_PL_Printf nd A DBG_DEBUG (bytes ''connected com port %s, %lu'' @ [0x0A])
         [AStr buf, ANum (int (baud_value baud))]) GCF_SUCCESS))"

definition win_PL_Connect :: "bool \<Rightarrow> win_api \<Rightarrow> (event \<Rightarrow> 'a win_action) \<Rightarrow> byte list \<Rightarrow> baudrate \<Rightarrow> ('a win_scheme, gcf_status) op" where
  "win_PL_Connect nd A he path baud w =
     (if win_fd w \<noteq> INVALID_HANDLE
      then returns (win_PL_Printf nd A DBG_DEBUG (bytes ''device already connected %s'' @ [0x0A]) [AStr path]) GCF_SUCCESS w
      else case port_name_of path of Inl f \<Rightarrow> Inl f
      | Inr None \<Rightarrow> Inr (GCF_FAILED, w)
      | Inr (Some buf) \<Rightarrow>
          after (block [
            win_PL_Printf nd A DBG_INFO (bytes ''connect %s, baudrate %d'' @ [0x0A]) [AStr buf, ANum (int (baud_value baud))],
            upd (\<lambda>w. w\<lparr>win_txpos := 0\<rparr>)])
          (thenv (win32 A (CreateFile buf True)) (\<lambda>r. after (upd (\<lambda>w. w\<lparr>win_fd := ok r\<rparr>)) (connect_opened nd A he buf baud r))) w)"

text \<open>The bytes a \<open>ReadFile\<close> delivers are in \<open>got\<close>, their number in \<open>num\<close>.\<close>

definition win_PL_ReadFile :: "win_api \<Rightarrow> byte list \<Rightarrow> nat \<Rightarrow> ('a win_scheme, int \<times> byte list) op" where
  "win_PL_ReadFile A path buflen =
     thenv (win32 A (CreateFile path False)) (\<lambda>f. if ok f = INVALID_HANDLE then give (- 1, []) else
     thenv (win32 A (ReadFile (ok f) buflen)) (\<lambda>r. after (run32 A (CloseHandle (ok f)))
       (give (if ok r \<noteq> 0 \<and> num r > 0 then (num r, got r) else (- 1, got r)))))"

definition win_PROT_Write :: "bool \<Rightarrow> win_api \<Rightarrow> (byte list \<Rightarrow> 'a win_action) \<Rightarrow> byte list \<Rightarrow> ('a win_scheme, int) op" where
  "win_PROT_Write nd A dbg data w =
     (if data = [] then Inr (0, w)
      else if \<not> nd \<and> win_fd w = INVALID_HANDLE then Inl AssertFailed
      else thenv (win32 A (WriteFile (win_fd w) data)) (\<lambda>r. if ok r = 0
        then thenv (win32 A GetLastError) (\<lambda>e.
          returns (win_PL_Printf nd A DBG_DEBUG (bytes ''failed write com port, error: 0%08X'' @ [0x0A]) [ANum (ok e)]) 0)
        else returns (if num r \<noteq> int (length data)
          then win_PL_Printf nd A DBG_DEBUG (bytes ''failed write of %u bytes (%d written)'' @ [0x0A]) [ANum (int (length data)), ANum (num r)]
          else dbg data) (num r)) w)"

definition win_PROT_Putc :: "bool \<Rightarrow> byte \<Rightarrow> ('a win_scheme, nat) op" where
  "win_PROT_Putc nd ch w =
     (if \<not> nd \<and> \<not> win_txpos w + 1 < 2048 then Inl AssertFailed
      else if win_txpos w + 1 < 2048
      then (case poke (win_txpos w) ch (win_txbuf w) of Inl f \<Rightarrow> Inl f
        | Inr b \<Rightarrow> Inr (1, w\<lparr>win_txbuf := b, win_txpos := win_txpos w + 1\<rparr>))
      else Inr (0, w))"

definition win_PROT_Flush :: "bool \<Rightarrow> win_api \<Rightarrow> (byte list \<Rightarrow> 'a win_action) \<Rightarrow> ('a win_scheme, int) op" where
  "win_PROT_Flush nd A dbg w =
     (if win_txpos w \<noteq> 0 \<and> win_txpos w < 2048
      then (if win_txpos w > length (win_txbuf w) then Inl OutOfBounds
        else thenv (win_PROT_Write nd A dbg (take (win_txpos w) (win_txbuf w))) (\<lambda>r w'.
          if \<not> nd \<and> r \<noteq> int (win_txpos w') then Inl AssertFailed else Inr (r, w'\<lparr>win_txpos := 0\<rparr>)) w)
      else Inr (0, w))"

section \<open>Resets\<close>

definition win_PL_ResetRaspBee :: int where
  "win_PL_ResetRaspBee = - 1"

text \<open>The sequence of \<open>FT_SetBitMode\<close> calls up to the first that fails (0 is \<open>FT_OK\<close>).\<close>

fun ft_bits :: "win_api \<Rightarrow> int \<Rightarrow> (nat \<times> nat) list \<Rightarrow> ('a win_scheme, bool) op" where
  "ft_bits A h [] = give True"
| "ft_bits A h ((bits, mode) # ms) = thenv (win32 A (FtSetBitMode h bits mode)) (\<lambda>r. if ok r \<noteq> 0 then give False else ft_bits A h ms)"

text \<open>The loop over the devices from \<open>dev\<close> on, with the number of those that are left.\<close>

primrec ft_devices :: "win_api \<Rightarrow> byte list \<Rightarrow> nat \<Rightarrow> nat \<Rightarrow> ('a win_scheme, int) op" where
  "ft_devices A serialnum dev 0 = give (- 1)"
| "ft_devices A serialnum dev (Suc n) = thenv (win32 A (FtOpen dev)) (\<lambda>r. if ok r \<noteq> 0 then ft_devices A serialnum (dev + 1) n
     else thenv (win32 A (FtGetDeviceInfo (num r))) (\<lambda>i w. case if ok i = 0
         then U_sstream_starts_with (got i) (U_sstream_init (Some (serialnum @ [0])) (length serialnum)) else Inr False of Inl f \<Rightarrow> Inl f
       | Inr found \<Rightarrow> thenv (if found then ft_bits A (num r) [(0xF1, 0x20), (0xF0, 0x20), (0xF1, 0x20), (0, 0)] else give False) (\<lambda>done.
           after (run32 A (FtClose (num r))) (if done then give 0 else ft_devices A serialnum (dev + 1) n)) w))"

definition win_PL_ResetFTDI :: "win_api \<Rightarrow> byte list \<Rightarrow> ('a win_scheme, int) op" where
  "win_PL_ResetFTDI A serialnum = (if serialnum = [] then give (- 1)
     else thenv (win32 A FtInitialise) (\<lambda>r. if ok r \<noteq> 0 then give (- 1) else
       thenv (win32 A FtListDevices) (\<lambda>r. if ok r \<noteq> 0 \<or> num r = 0 then give (- 1)
         else ft_devices A serialnum 0 (nat (num r)))))"

section \<open>The main loop\<close>

definition win_check_timer :: "win_api \<Rightarrow> (event \<Rightarrow> 'a win_action) \<Rightarrow> 'a win_action" where
  "win_check_timer A he = thenv (win_PL_Time A) (\<lambda>t.
     cond (\<lambda>w. win_timer w < t) (block [upd (\<lambda>w. w\<lparr>win_timer := 0\<rparr>), he EV_TIMEOUT]) skip)"

text \<open>One pass of \<open>while (platform.running)\<close>.\<close>

definition win_pass :: "bool \<Rightarrow> win_api \<Rightarrow> (event \<Rightarrow> 'a win_action) \<Rightarrow> (byte list \<Rightarrow> 'a win_action) \<Rightarrow> 'a win_action" where
  "win_pass nd A he received = block [
     he EV_PL_LOOP,
     cond (\<lambda>w. win_fd w = INVALID_HANDLE)
       (block [run32 A (Sleep 20), cond (\<lambda>w. win_timer w \<noteq> 0) (win_check_timer A he) skip])
       (reads win_fd (\<lambda>fd. thenv (win32 A (ReadFile fd 1024)) (\<lambda>r.
         if ok r = 0 then win_PL_Disconnect nd A he
         else if num r > 0 then block [
           zoom win_rxbuf (\<lambda>b w. w\<lparr>win_rxbuf := b\<rparr>) (U_memcpy 0 (got r) 0 (nat (num r))),
           reads (\<lambda>w. take (nat (num r)) (win_rxbuf w)) received]
         else cond (\<lambda>w. win_timer w \<noteq> 0) (win_check_timer A he) (run32 A (Sleep 4)))))]"

text \<open>At most \<open>n\<close> passes.\<close>

primrec win_loop :: "bool \<Rightarrow> win_api \<Rightarrow> (event \<Rightarrow> 'a win_action) \<Rightarrow> (byte list \<Rightarrow> 'a win_action) \<Rightarrow> nat \<Rightarrow> 'a win_action" where
  "win_loop nd A he received 0 = cond win_running (fails NoFuel) skip"
| "win_loop nd A he received (Suc n) = cond win_running (block [win_pass nd A he received, win_loop nd A he received n]) skip"

definition win_PL_Loop :: "bool \<Rightarrow> win_api \<Rightarrow> (event \<Rightarrow> 'a win_action) \<Rightarrow> (byte list \<Rightarrow> 'a win_action) \<Rightarrow> nat \<Rightarrow> 'a win_action" where
  "win_PL_Loop nd A he received n = block [
     upd (\<lambda>w. w\<lparr>win_timer := 0, win_fd := INVALID_HANDLE, win_out := 0, win_running := False, win_rxbuf := replicate 1024 0,
       win_txbuf := replicate 2048 0, win_txpos := 0, win_frequency := 0, win_frequency_valid := False\<rparr>),
     plInitOutput A,
     upd (\<lambda>w. w\<lparr>win_running := True\<rparr>),
     thenv (win32 A QueryPerformanceFrequency) (\<lambda>r. upd (\<lambda>w. w\<lparr>win_frequency := num r, win_frequency_valid := (ok r \<noteq> 0)\<rparr>)),
     he EV_PL_STARTED,
     win_loop nd A he received n]"

section \<open>The command line\<close>

text \<open>The copy into \<open>cmdlbuf\<close> of 512 bytes.\<close>

definition cmdline_copy :: "byte list \<Rightarrow> byte list" where
  "cmdline_copy pcmd = take 511 pcmd"

text \<open>The inner loop: the argument, what is behind the space that ended it, and \<open>quote\<close>.\<close>

fun next_arg :: "bool \<Rightarrow> byte list \<Rightarrow> byte list \<times> byte list \<times> bool" where
  "next_arg quote [] = ([], [], quote)"
| "next_arg quote (c # cs) = (let q = (if c = 0x22 then \<not> quote else quote) in
     if c = 0x20 \<and> \<not> q then ([], cs, q)
     else (let (a, r, q') = next_arg q cs in (c # a, r, q')))"

primrec split_args :: "nat \<Rightarrow> bool \<Rightarrow> byte list \<Rightarrow> byte list list" where
  "split_args 0 quote s = []"
| "split_args (Suc n) quote s = (if s = [] then [] else (let (a, r, q) = next_arg quote s in a # split_args n q r))"

definition win_argv :: "byte list \<Rightarrow> byte list list" where
  "win_argv pcmd = split_args 16 False (cmdline_copy pcmd)"

text \<open>\<open>PL_Main\<close> and \<open>mainCRTStartup\<close>; \<open>init\<close> and \<open>finish\<close> are \<open>GCF_Init\<close>, whether it returns a program, and \<open>GCF_Exit\<close>.\<close>

definition PL_Main :: "bool \<Rightarrow> win_api \<Rightarrow> (event \<Rightarrow> 'a win_action) \<Rightarrow> (byte list \<Rightarrow> 'a win_action) \<Rightarrow>
    (byte list list \<Rightarrow> ('a win_scheme, bool) op) \<Rightarrow> 'a win_action \<Rightarrow> nat \<Rightarrow> byte list list \<Rightarrow> ('a win_scheme, int) op" where
  "PL_Main nd A he received init finish n av = thenv (init av) (\<lambda>made. if \<not> made then give 2
     else returns (block [win_PL_Loop nd A he received n, finish]) 0)"

definition mainCRTStartup :: "bool \<Rightarrow> win_api \<Rightarrow> (event \<Rightarrow> 'a win_action) \<Rightarrow> (byte list \<Rightarrow> 'a win_action) \<Rightarrow>
    (byte list list \<Rightarrow> ('a win_scheme, bool) op) \<Rightarrow> 'a win_action \<Rightarrow> nat \<Rightarrow> 'a win_action" where
  "mainCRTStartup nd A he received init finish n = thenv (win32 A GetCommandLine) (\<lambda>r.
     thenv (PL_Main nd A he received init finish n (if ok r = 0 then [] else win_argv (got r))) (\<lambda>ret. run32 A (ExitProcess ret)))"

end
