(* ===== verification/Gcf_Windows.thy ===== *)
theory Gcf_Windows
  imports Windows
begin

text \<open>
  The Windows platform: its \<open>printf\<close> keeps its line and prints what the format says, the
  command line is split at the spaces, a frame of the protocol is written with one call, and
  the port is either open or given back.
\<close>

section \<open>Division\<close>

lemma divdi3_loop_pos: "0 < d \<Longrightarrow> 0 \<le> n \<Longrightarrow> n < 2 ^ 31 \<Longrightarrow> divdi3_loop q n d = Inr (q + n div d)"
proof (induction q n d rule: divdi3_loop.induct)
  case (1 q n d)
  show ?case
  proof (cases "n \<ge> d")
    case False
    then show ?thesis using 1(3) by (simp add: divdi3_loop.simps div_pos_pos_trivial)
  next
    case True
    moreover have "n div d = 1 + (n - d) div d"
      using div_add_self2 [of d "n - d"] 1(2) by simp
    ultimately show ?thesis using 1 by (simp add: divdi3_loop.simps [of q n d])
  qed
qed

text \<open>For numbers of 32 bits that are not negative this is the quotient; negative ones give 0, which is wrong.\<close>

lemma divdi3_eq: "0 < d \<Longrightarrow> - (2 ^ 31) \<le> n \<Longrightarrow> n < 2 ^ 31 \<Longrightarrow> divdi3 n d = Inr (if 0 \<le> n then n div d else 0)"
  by (auto simp: divdi3_def divdi3_loop_pos) (simp add: divdi3_loop.simps)

section \<open>\<open>printf\<close>\<close>

text \<open>A stream over the line of 1024 bytes into which \<open>t\<close> was printed.\<close>

definition shows_text :: "byte list \<Rightarrow> U_SStream \<Rightarrow> bool" where
  "shows_text t ss \<longleftrightarrow> ss_status ss = U_SSTREAM_OK \<and> ss_len ss = 1024 \<and> length (ss_str ss) = 1024
     \<and> ss_pos ss = length t \<and> take (length t) (ss_str ss) = t"

definition inside :: "U_SStream \<Rightarrow> bool" where
  "inside ss \<longleftrightarrow> ss_len ss = 1024 \<and> length (ss_str ss) = 1024 \<and> ss_pos ss < 1024"

lemma shows_text_write: "shows_text t ss \<Longrightarrow> length t + length x < 1024 \<Longrightarrow> shows_text (t @ x) (ss_write x ss)"
  by (auto simp: shows_text_def ss_write_def overwrite_def)

lemma inside_write: "inside ss \<Longrightarrow> ss_pos ss + length x < 1024 \<Longrightarrow> inside (ss_write x ss)"
  by (auto simp: inside_def) (simp add: ss_write_def)

lemma inside_full: "inside (ss_full ss) = inside ss"
  by (simp add: inside_def)

lemma put_str_inside:
  assumes "inside ss"
  shows "U_sstream_put_str s ss = Inr (if ss_status ss \<noteq> U_SSTREAM_OK then ss
    else if ss_pos ss + length s + 1 < 1024 then ss_write s ss else ss_full ss)"
  using assms puts_close_eq [of ss s]
  by (auto simp: U_sstream_put_str_def cond_def skip_def upd_def ss_full_def inside_def)

lemma put_digits_inside:
  assumes "inside ss" "length ds \<le> 24"
  shows "put_digits ds ss = Inr (if ss_pos ss + length ds < 1024 then ss_write (rev ds) ss else ss_full ss)"
proof -
  have "u32_sub (ss_len ss) (ss_pos ss) = 1024 - ss_pos ss"
    using assms by (simp add: inside_def c_arith)
  with assms puts_close_eq [of ss "rev ds"] show ?thesis
    by (auto simp: put_digits_def cond_def upd_def ss_full_def inside_def)
qed

lemma put_u32hex_inside:
  assumes "inside ss"
  shows "U_sstream_put_u32hex v ss = Inr (if ss_pos ss + 8 < 1024 then ss_write (hex32 v) ss else ss_full ss)"
proof -
  have "u32_sub (ss_len ss) (ss_pos ss) = 1024 - ss_pos ss"
    using assms by (simp add: inside_def c_arith)
  moreover have "block [put_u32hex_loop 4 v, ss_close] ss = Inr (ss_write (hex32 v) ss)" if "ss_pos ss + 8 < 1024"
    using puts_close_eq [of ss "hex32 v"] assms that
    by (simp add: put_u32hex_loop_eq ss_puts_eq inside_def hex32_def [symmetric])
  ultimately show ?thesis
    using assms by (auto simp: U_sstream_put_u32hex_def cond_def upd_def ss_full_def inside_def simp del: block.simps)
qed

lemma putc_inside: "inside ss \<Longrightarrow> ss_putc c ss = Inr (ss\<lparr>ss_str := (ss_str ss)[ss_pos ss := c], ss_pos := ss_pos ss + 1\<rparr>)"
  by (simp add: ss_putc_def reads_def ss_poke_def upd_def inside_def)

lemma long_digits_32: "\<bar>n\<bar> < 2 ^ 32 \<Longrightarrow> length (long_digits n) \<le> 24"
  using long_digits_24 [of n] by simp

lemma put_long_inside:
  assumes "inside ss" "ss_pos ss + 1 < 1024" "\<bar>n\<bar> < 2 ^ 32"
  shows "\<exists>ss'. U_sstream_put_long n ss = Inr ss' \<and> inside ss'"
    and "shows_text t ss \<Longrightarrow> length t + length (long_text n) < 1024 \<Longrightarrow> \<exists>ss'. U_sstream_put_long n ss = Inr ss' \<and> shows_text (t @ long_text n) ss'"
proof -
  define s1 where "s1 = (if n < 0 then ss\<lparr>ss_str := (ss_str ss)[ss_pos ss := 0x2D], ss_pos := ss_pos ss + 1\<rparr> else ss)"
  have s1: "inside s1" using assms(1,2) by (simp add: s1_def inside_def)
  have "U_sstream_put_long n ss = (if ss_status ss \<noteq> U_SSTREAM_OK then Inr ss else put_digits (long_digits n) s1)"
    using putc_inside [OF assms(1), where c = "0x2D"] by (simp add: U_sstream_put_long_def cond_def skip_def s1_def)
  then have eq: "U_sstream_put_long n ss = Inr (if ss_status ss \<noteq> U_SSTREAM_OK then ss
      else if ss_pos s1 + length (long_digits n) < 1024 then ss_write (rev (long_digits n)) s1 else ss_full s1)"
    using put_digits_inside [OF s1 long_digits_32 [OF assms(3)]] by simp
  then show "\<exists>ss'. U_sstream_put_long n ss = Inr ss' \<and> inside ss'"
    using assms(1) s1 inside_write [OF s1, where x = "rev (long_digits n)"] by (auto simp: inside_full)
  assume t: "shows_text t ss" "length t + length (long_text n) < 1024"
  have "shows_text (t @ (if n < 0 then [0x2D] else [])) s1"
    using t assms(1,2) by (auto simp: shows_text_def s1_def inside_def take_update_snoc)
  then have "shows_text (t @ long_text n) (ss_write (rev (long_digits n)) s1)"
    using shows_text_write [where t = "t @ (if n < 0 then [0x2D] else [])" and ss = s1 and x = "rev (long_digits n)"] t(2)
    by (simp add: long_text_def split: if_splits)
  moreover have "ss_status ss = U_SSTREAM_OK" "ss_pos s1 + length (long_digits n) < 1024"
    using t by (auto simp: shows_text_def s1_def long_text_def split: if_splits)
  ultimately show "\<exists>ss'. U_sstream_put_long n ss = Inr ss' \<and> shows_text (t @ long_text n) ss'" using eq by auto
qed

text \<open>The arguments a format takes: strings without NUL for \<open>%s\<close>, numbers for the others.\<close>

fun args_match :: "bool \<Rightarrow> byte list \<Rightarrow> printf_arg list \<Rightarrow> bool" where
  "args_match xx [] args \<longleftrightarrow> True"
| "args_match xx (c # cs) args \<longleftrightarrow>
     (if xx then
        if 0x30 \<le> c \<and> c \<le> 0x39 \<or> c = 0x6C then args_match True cs args
        else if c = 0x73 then (case args of AStr s # as \<Rightarrow> args_match False cs as | _ \<Rightarrow> False)
        else if c \<in> {0x78, 0x58, 0x64, 0x75} then (case args of ANum n # as \<Rightarrow> args_match False cs as | _ \<Rightarrow> False)
        else args_match False cs args
      else args_match (c = 0x25) cs args)"

lemma to_long_32: "\<bar>to_long 32 (nat (n mod 2 ^ 32))\<bar> < 2 ^ 32"
proof -
  have "0 \<le> n mod 2 ^ 32" "n mod 2 ^ 32 < 2 ^ 32" by simp_all
  then show ?thesis by (auto simp: to_long_def abs_less_iff nat_less_iff)
qed

lemma conversion_inside:
  assumes "args_match True (c # cs) args" "\<not> (0x30 \<le> c \<and> c \<le> 0x39 \<or> c = 0x6C)" "inside ss" "ss_pos ss + 1 < 1024"
  shows "\<exists>ss'. fst (conversion c args) ss = Inr ss' \<and> inside ss' \<and> args_match False cs (snd (conversion c args))"
proof -
  note long = put_long_inside(1) [OF assms(3,4) to_long_32]
  have str: "\<exists>ss'. U_sstream_put_str s ss = Inr ss' \<and> inside ss'" for s
    using put_str_inside [OF assms(3), of s] inside_write [OF assms(3), of s] assms(3) by (auto simp: inside_full)
  have hex: "\<exists>ss'. U_sstream_put_u32hex v ss = Inr ss' \<and> inside ss'" for v
    using put_u32hex_inside [OF assms(3), of v] inside_write [OF assms(3), of "hex32 v"] assms(3) by (auto simp: inside_full)
  show ?thesis
    using assms(1,2) str hex long by (auto simp: conversion_def split: list.splits printf_arg.splits if_splits)
qed

lemma format_loop_inside:
  "args_match xx fmt args \<Longrightarrow> inside ss \<Longrightarrow> \<exists>ss'. format_loop xx fmt args ss = Inr ss' \<and> inside ss'"
proof (induction fmt arbitrary: xx args ss)
  case Nil
  then show ?case by (simp add: skip_def)
next
  case (Cons c cs)
  show ?case
  proof (cases "ss_pos ss + 1 < 1024")
    case False
    with Cons.prems show ?thesis by (simp add: cond_def skip_def inside_def)
  next
    case room: True
    then have "ss_pos ss + 1 < ss_len ss" using Cons.prems by (simp add: inside_def)
    note go = this
    consider "xx" "0x30 \<le> c \<and> c \<le> 0x39 \<or> c = 0x6C" | "xx" "\<not> (0x30 \<le> c \<and> c \<le> 0x39 \<or> c = 0x6C)"
      | "\<not> xx" "c = 0x25" | "\<not> xx" "c \<noteq> 0x25" by blast
    then show ?thesis
    proof cases
      case 1
      with Cons go show ?thesis by (simp add: cond_def)
    next
      case 2
      with conversion_inside [of c cs args ss] Cons.prems room obtain ss1 where
        "fst (conversion c args) ss = Inr ss1" "inside ss1" "args_match False cs (snd (conversion c args))" by auto
      with Cons.IH [of False "snd (conversion c args)" ss1] 2 go show ?thesis
        by (auto simp: cond_def split_def Let_def)
    next
      case 3
      with Cons go show ?thesis by (simp add: cond_def)
    next
      case 4
      have "inside (ss\<lparr>ss_str := (ss_str ss)[ss_pos ss := c], ss_pos := ss_pos ss + 1\<rparr>)"
        using Cons.prems room by (simp add: inside_def)
      from Cons.IH [OF _ this, of False args] Cons.prems 4 go show ?thesis
        by (simp add: cond_def putc_inside)
    qed
  qed
qed

lemma printf_inside:
  assumes "args_match False fmt args" "length (printf_buf w) = 1024"
  shows "\<exists>ss. block [format_loop False fmt args, ss_close] (U_sstream_init (Some (printf_buf w)) 1024) = Inr ss
    \<and> inside ss \<and> ss_str ss ! ss_pos ss = 0"
proof -
  have "inside (U_sstream_init (Some (printf_buf w)) 1024)" using assms(2) by (simp add: inside_def U_sstream_init_def)
  from format_loop_inside [OF assms(1) this] obtain ss where
    ss: "format_loop False fmt args (U_sstream_init (Some (printf_buf w)) 1024) = Inr ss" "inside ss" by blast
  define ss' where "ss' = ss\<lparr>ss_str := (ss_str ss)[ss_pos ss := 0]\<rparr>"
  have "ss_close ss = Inr ss'" "inside ss'" "ss_str ss' ! ss_pos ss' = 0"
    using ss(2) by (auto simp: ss_close_def reads_def ss_poke_def inside_def ss'_def)
  with ss(1) show ?thesis by simp
qed

lemma c_string_at: "i < length buf \<Longrightarrow> buf ! i = 0 \<Longrightarrow> \<exists>s. c_string buf = Inr s"
  by (auto simp: c_string_def in_set_conv_nth)

lemma printf_total:
  assumes "args_match False fmt args" "length (printf_buf w) = 1024"
  shows "\<exists>w'. win_PL_Printf nd A level fmt args w = Inr w' \<and> length (printf_buf w') = 1024
    \<and> (\<exists>h b. w' = w\<lparr>win_calls := h, printf_buf := b\<rparr>)"
proof -
  from printf_inside [OF assms] obtain ss where ss: "block [format_loop False fmt args, ss_close] (U_sstream_init (Some (printf_buf w)) 1024) = Inr ss"
    "inside ss" "ss_str ss ! ss_pos ss = 0" by blast
  from ss(2,3) c_string_at [of "ss_pos ss" "ss_str ss"] obtain s where "c_string (ss_str ss) = Inr s" by (auto simp: inside_def)
  with ss assms(2) show ?thesis
    by (cases w) (auto simp: win_PL_Printf_def Let_def win_PL_Print_def cond_def skip_def reads_def run32_def thenv_def win32_def inside_def simp del: block.simps)
qed

text \<open>What a format is made of, the format, the arguments and the text.\<close>

datatype piece = Lit byte | PStr "byte list" | PDec int | PUns nat | PHex nat | Percent

fun piece_format :: "piece \<Rightarrow> byte list" where
  "piece_format (Lit c) = [c]"
| "piece_format (PStr s) = [0x25, 0x73]"
| "piece_format (PDec n) = [0x25, 0x64]"
| "piece_format (PUns n) = [0x25, 0x6C, 0x75]"
| "piece_format (PHex n) = [0x25, 0x30, 0x38, 0x58]"
| "piece_format Percent = [0x25, 0x25]"

fun piece_args :: "piece \<Rightarrow> printf_arg list" where
  "piece_args (PStr s) = [AStr s]"
| "piece_args (PDec n) = [ANum n]"
| "piece_args (PUns n) = [ANum (int n)]"
| "piece_args (PHex n) = [ANum (int n)]"
| "piece_args _ = []"

fun piece_text :: "piece \<Rightarrow> byte list" where
  "piece_text (Lit c) = [c]"
| "piece_text (PStr s) = s"
| "piece_text (PDec n) = long_text n"
| "piece_text (PUns n) = long_text (int n)"
| "piece_text (PHex n) = hex32 n"
| "piece_text Percent = [0x25]"

fun piece_ok :: "piece \<Rightarrow> bool" where
  "piece_ok (Lit c) \<longleftrightarrow> c \<noteq> 0x25"
| "piece_ok (PDec n) \<longleftrightarrow> - (2 ^ 31) \<le> n \<and> n < 2 ^ 31"
| "piece_ok (PUns n) \<longleftrightarrow> n < 2 ^ 31"
| "piece_ok (PHex n) \<longleftrightarrow> n < 2 ^ 32"
| "piece_ok _ \<longleftrightarrow> True"

abbreviation formats :: "piece list \<Rightarrow> byte list" where "formats ps \<equiv> concat (map piece_format ps)"
abbreviation arguments :: "piece list \<Rightarrow> printf_arg list" where "arguments ps \<equiv> concat (map piece_args ps)"
abbreviation texts :: "piece list \<Rightarrow> byte list" where "texts ps \<equiv> concat (map piece_text ps)"

lemma to_long_id:
  assumes "- (2 ^ 31) \<le> n" "n < 2 ^ 31"
  shows "to_long 32 (nat (n mod 2 ^ 32)) = n"
proof (cases "n < 0")
  case True
  have "n mod 2 ^ 32 = (n + 2 ^ 32) mod 2 ^ 32" by simp
  also have "\<dots> = n + 2 ^ 32" using True assms(1) by (intro mod_pos_pos_trivial) auto
  finally show ?thesis using True assms(1) by (simp add: to_long_def nat_less_iff)
next
  case False
  with assms(2) have "n mod 2 ^ 32 = n" by (intro mod_pos_pos_trivial) auto
  with False assms(2) show ?thesis by (simp add: to_long_def nat_less_iff)
qed

lemma conversion_text:
  assumes t: "shows_text t ss"
  shows "length t + length s + 1 < 1024 \<Longrightarrow> \<exists>ss'. U_sstream_put_str s ss = Inr ss' \<and> shows_text (t @ s) ss'"
    and "length t + 8 < 1024 \<Longrightarrow> \<exists>ss'. U_sstream_put_u32hex v ss = Inr ss' \<and> shows_text (t @ hex32 v) ss'"
    and "\<bar>n\<bar> < 2 ^ 32 \<Longrightarrow> length t + length (long_text n) + 1 < 1024 \<Longrightarrow> \<exists>ss'. U_sstream_put_long n ss = Inr ss' \<and> shows_text (t @ long_text n) ss'"
proof -
  have st: "ss_pos ss = length t" "ss_status ss = U_SSTREAM_OK" using t by (simp_all add: shows_text_def)
  have i: "length t < 1024 \<Longrightarrow> inside ss" using t by (simp add: shows_text_def inside_def)
  show "length t + length s + 1 < 1024 \<Longrightarrow> \<exists>ss'. U_sstream_put_str s ss = Inr ss' \<and> shows_text (t @ s) ss'"
    using put_str_inside [OF i, of s] shows_text_write [OF t, of s] st by simp
  show "length t + 8 < 1024 \<Longrightarrow> \<exists>ss'. U_sstream_put_u32hex v ss = Inr ss' \<and> shows_text (t @ hex32 v) ss'"
    using put_u32hex_inside [OF i, of v] shows_text_write [OF t, of "hex32 v"] st by simp
  show "\<bar>n\<bar> < 2 ^ 32 \<Longrightarrow> length t + length (long_text n) + 1 < 1024 \<Longrightarrow> \<exists>ss'. U_sstream_put_long n ss = Inr ss' \<and> shows_text (t @ long_text n) ss'"
    using put_long_inside(2) [OF i _ _ t, of n] st by simp
qed

lemma format_step: "shows_text t ss \<Longrightarrow> length t + 1 < 1024 \<Longrightarrow> format_loop xx (c # cs) args ss =
    (if xx then
        if 0x30 \<le> c \<and> c \<le> 0x39 \<or> c = 0x6C then format_loop True cs args ss
        else block [fst (conversion c args), format_loop False cs (snd (conversion c args))] ss
      else if c = 0x25 then format_loop True cs args ss
      else block [ss_putc c, format_loop False cs args] ss)"
  by (simp add: cond_def shows_text_def Let_def split_def)

declare format_loop.simps(2) [simp del]

lemma piece_printed:
  assumes "piece_ok p" "shows_text t ss" "length t + length (piece_text p) + 1 < 1024"
  shows "\<exists>ss'. format_loop False (piece_format p @ cs) (piece_args p @ as) ss = format_loop False cs as ss' \<and> shows_text (t @ piece_text p) ss'"
proof -
  have room: "length t + 1 < 1024" using assms(3) by simp
  note step = format_step [OF assms(2) room]
  show ?thesis
  proof (cases p)
    case (Lit c)
    define ss' where "ss' = ss\<lparr>ss_str := (ss_str ss)[ss_pos ss := c], ss_pos := ss_pos ss + 1\<rparr>"
    have "inside ss" using assms(2) room by (simp add: shows_text_def inside_def)
    then have "ss_putc c ss = Inr ss'" by (simp add: putc_inside ss'_def)
    moreover have "shows_text (t @ [c]) ss'"
      using assms(2) room by (simp add: shows_text_def ss'_def take_update_snoc)
    ultimately show ?thesis using Lit assms(1) by (auto simp: step intro!: exI [of _ ss'])
  next
    case (PStr s)
    with conversion_text(1) [OF assms(2), of s] assms(3) show ?thesis by (auto simp: step conversion_def)
  next
    case (PDec n)
    moreover from this assms(1) have "\<bar>n\<bar> < 2 ^ 32" by (simp add: abs_less_iff)
    ultimately show ?thesis
      using conversion_text(3) [OF assms(2), of n] assms(1,3) to_long_id [of n] by (auto simp: step conversion_def)
  next
    case (PUns n)
    with conversion_text(3) [OF assms(2), of "int n"] assms(1,3) to_long_id [of "int n"] show ?thesis by (auto simp: step conversion_def)
  next
    case (PHex n)
    with conversion_text(2) [OF assms(2), of n] assms(1,3) show ?thesis by (auto simp: step conversion_def)
  next
    case Percent
    with conversion_text(1) [OF assms(2), of "[0x25]"] assms(3) show ?thesis by (auto simp: step conversion_def)
  qed
qed

lemma pieces_printed:
  "\<forall>p\<in>set ps. piece_ok p \<Longrightarrow> shows_text t ss \<Longrightarrow> length t + length (texts ps) + 1 < 1024 \<Longrightarrow>
   \<exists>ss'. format_loop False (formats ps) (arguments ps) ss = Inr ss' \<and> shows_text (t @ texts ps) ss'"
proof (induction ps arbitrary: t ss)
  case Nil
  then show ?case by (simp add: skip_def)
next
  case (Cons p ps)
  from piece_printed [of p t ss "formats ps" "arguments ps"] Cons.prems obtain ss1 where
    "format_loop False (formats (p # ps)) (arguments (p # ps)) ss = format_loop False (formats ps) (arguments ps) ss1"
    "shows_text (t @ piece_text p) ss1" by auto
  with Cons.IH [of "t @ piece_text p" ss1] Cons.prems show ?case by simp
qed

lemma shown_c_string: "shows_text t ss \<Longrightarrow> length t < 1024 \<Longrightarrow> 0 \<notin> set t \<Longrightarrow> c_string ((ss_str ss)[length t := 0]) = Inr t"
proof -
  assume t: "shows_text t ss" "length t < 1024" "0 \<notin> set t"
  then have "(ss_str ss)[length t := 0] = t @ 0 # drop (Suc (length t)) (ss_str ss)"
    using upd_conv_take_nth_drop [of "length t" "ss_str ss" 0] by (simp add: shows_text_def)
  moreover have "takeWhile (\<lambda>b. b \<noteq> 0) (t @ 0 # xs) = t" for xs
    using t(3) by (metis (mono_tags, lifting) takeWhile_append2 takeWhile.simps(2) append_Nil2)
  ultimately show ?thesis by (simp add: c_string_def)
qed

lemma printf_text:
  assumes "\<forall>p\<in>set ps. piece_ok p" "0 \<notin> set (texts ps)" "texts ps \<noteq> []" "length (texts ps) \<le> 1022"
    and "length (printf_buf w) = 1024" "win_out w \<noteq> INVALID_HANDLE"
  shows "\<exists>b. win_PL_Printf nd A DBG_INFO (formats ps) (arguments ps) w = run32 A (WriteConsole (win_out w) (texts ps)) (w\<lparr>printf_buf := b\<rparr>)"
proof -
  have "shows_text [] (U_sstream_init (Some (printf_buf w)) 1024)" using assms(5) by (simp add: shows_text_def U_sstream_init_def)
  from pieces_printed [OF assms(1) this] assms(4) obtain ss where
    ss: "format_loop False (formats ps) (arguments ps) (U_sstream_init (Some (printf_buf w)) 1024) = Inr ss" "shows_text (texts ps) ss" by auto
  have "ss_close ss = Inr (ss\<lparr>ss_str := (ss_str ss)[length (texts ps) := 0]\<rparr>)" "ss_pos ss \<noteq> 0"
    using ss(2) assms(3,4) by (auto simp: ss_close_def reads_def ss_poke_def shows_text_def)
  with ss shown_c_string [OF ss(2) _ assms(2)] assms(3,4,6) show ?thesis
    by (auto simp: win_PL_Printf_def Let_def win_PL_Print_def cond_def reads_def)
qed

text \<open>C32: What \<open>PL_Printf\<close> of Windows prints is what its format says: for text up to 1022 characters without NUL,
  made of characters, \<open>%s\<close>, \<open>%d\<close>, \<open>%lu\<close>, \<open>%08X\<close> and \<open>%%\<close> (numbers of 31 bits, \<open>%lu\<close> without the
  sign), one call writes exactly the text of the pieces to the console.\<close>

theorem win_printf_prints:
  fixes w :: "'a win_scheme"
  assumes "\<forall>p\<in>set ps. piece_ok p" and "0 \<notin> set (texts ps)" and "texts ps \<noteq> []" and "length (texts ps) \<le> 1022"
    and "length (printf_buf w) = 1024" and "win_out w \<noteq> - 1"
  shows "\<exists>b. win_PL_Printf nd A DBG_INFO (formats ps) (arguments ps) w
    = run32 A (WriteConsole (win_out w) (texts ps)) (w\<lparr>printf_buf := b\<rparr>)"
  using assms by (rule printf_text)

definition win0 :: win where
  "win0 = \<lparr>win_timer = 0, win_fd = - 1, win_out = 7, win_running = True, win_rxbuf = replicate 1024 0, win_txbuf = replicate 2048 0,
     win_txpos = 0, win_frequency = 1000, win_frequency_valid = True, printf_buf = replicate 1024 0, win_calls = []\<rparr>"

lemma win_printf_prints_witness:
  "\<exists>w. win_PL_Printf False (\<lambda>_ _. \<lparr>ok = 1, num = 0, got = []\<rparr>) DBG_INFO ([0x41] @ [0x25, 0x73]) [AStr [0x42, 0x43]] win0 = Inr w
    \<and> map fst (win_calls w) = [WriteConsole 7 [0x41, 0x42, 0x43]]"
  using win_printf_prints [of "[Lit 0x41, PStr [0x42, 0x43]]" win0 False "\<lambda>_ _. \<lparr>ok = 1, num = 0, got = []\<rparr>"]
  by (auto simp: win0_def run32_def thenv_def win32_def skip_def Let_def)

text \<open>Whatever the format and the length of what it prints, \<open>PL_Printf\<close> of Windows keeps to its line of 1024
  characters when the arguments are those the format asks for; longer text is cut.\<close>

lemma win_printf_in_bounds:
  fixes w :: "'a win_scheme"
  assumes "args_match False fmt args" and "length (printf_buf w) = 1024"
  shows "\<exists>w'. win_PL_Printf nd A level fmt args w = Inr w' \<and> length (printf_buf w') = 1024"
  using printf_total [OF assms] by blast

section \<open>The command line\<close>

fun join_args :: "byte list list \<Rightarrow> byte list" where
  "join_args [] = []"
| "join_args [a] = a"
| "join_args (a # as) = a @ 0x20 # join_args as"

lemma next_arg_end: "0x20 \<notin> set a \<Longrightarrow> 0x22 \<notin> set a \<Longrightarrow> next_arg False a = (a, [], False)"
  by (induction a) auto

lemma next_arg_space: "0x20 \<notin> set a \<Longrightarrow> 0x22 \<notin> set a \<Longrightarrow> next_arg False (a @ 0x20 # r) = (a, r, False)"
  by (induction a) auto

lemma join_args_Nil: "join_args as = [] \<Longrightarrow> as = [] \<or> as = [[]]"
  by (cases as rule: join_args.cases) auto

lemma split_join:
  "\<forall>a\<in>set as. 0x20 \<notin> set a \<and> 0x22 \<notin> set a \<Longrightarrow> as = [] \<or> last as \<noteq> [] \<Longrightarrow> length as \<le> n \<Longrightarrow>
   split_args n False (join_args as) = as"
proof (induction as arbitrary: n rule: join_args.induct)
  case 1
  then show ?case by (cases n) auto
next
  case (2 a)
  then show ?case by (cases n) (auto simp: next_arg_end Let_def, cases "n - 1", auto)
next
  case (3 a b as)
  then show ?case by (cases n) (auto simp: next_arg_space Let_def)
qed

text \<open>C33: The command line of Windows is split into the arguments it was joined from with single spaces, up to 16
  arguments and 511 characters, when no argument holds a space or a quote and the last is not empty.\<close>

theorem win_args_round_trip:
  assumes "\<forall>a\<in>set as. 0x20 \<notin> set a \<and> 0x22 \<notin> set a" and "as = [] \<or> last as \<noteq> []"
    and "length as \<le> 16" and "length (join_args as) \<le> 511"
  shows "win_argv (join_args as) = as"
  using split_join [OF assms(1-3)] assms(4) by (simp add: win_argv_def cmdline_copy_def)

lemma win_args_round_trip_witness: "win_argv ([0x67, 0x63, 0x66] @ 0x20 # [0x2D, 0x6C]) = [[0x67, 0x63, 0x66], [0x2D, 0x6C]]"
  using win_args_round_trip [of "[[0x67, 0x63, 0x66], [0x2D, 0x6C]]"] by simp

lemma next_arg_inside: "0x22 \<notin> set s \<Longrightarrow> next_arg True (s @ 0x22 # r) = (let (a, r', q) = next_arg False r in (s @ 0x22 # a, r', q))"
  by (induction s) (auto simp: Let_def split: prod.splits)

text \<open>An argument in quotes is one argument, but the quotes stay part of it: a file name with a space can be given
  but then begins and ends with a quote, and \<open>CreateFile\<close> does not find it.\<close>

lemma win_quotes_kept:
  assumes "0x20 \<notin> set prog" and "0x22 \<notin> set prog" and "prog \<noteq> []" and "0x22 \<notin> set name"
    and "length prog + length name + 3 \<le> 511"
  shows "win_argv (prog @ 0x20 # 0x22 # name @ [0x22]) = [prog, 0x22 # name @ [0x22]]"
  using assms next_arg_space [OF assms(1,2), of "0x22 # name @ [0x22]"] next_arg_inside [OF assms(4), of "[]"]
  by (simp add: win_argv_def cmdline_copy_def numeral_eq_Suc Let_def)

section \<open>Frames\<close>

definition tx_ok :: "'a win_scheme \<Rightarrow> bool" where
  "tx_ok w \<longleftrightarrow> length (win_txbuf w) = 2048 \<and> win_txpos w < 2048"

definition tx_bytes :: "'a win_scheme \<Rightarrow> byte list" where
  "tx_bytes w = take (win_txpos w) (win_txbuf w)"

text \<open>Worlds that differ in the transmit buffer only.\<close>

definition same_but_tx :: "'a win_scheme \<Rightarrow> 'a win_scheme \<Rightarrow> bool" where
  "same_but_tx v w \<longleftrightarrow> (\<exists>b p. w = v\<lparr>win_txbuf := b, win_txpos := p\<rparr>)"

lemma same_but_tx_refl: "same_but_tx w w"
  unfolding same_but_tx_def by (rule exI [of _ "win_txbuf w"], rule exI [of _ "win_txpos w"]) simp

lemma same_but_tx_step: "same_but_tx v w \<Longrightarrow> same_but_tx v (w\<lparr>win_txbuf := b, win_txpos := p\<rparr>)"
proof -
  assume "same_but_tx v w"
  then have "w\<lparr>win_txbuf := b, win_txpos := p\<rparr> = v\<lparr>win_txbuf := b, win_txpos := p\<rparr>" by (auto simp: same_but_tx_def)
  then show ?thesis unfolding same_but_tx_def by metis
qed

interpretation win_tx: byte_sink "\<lambda>c. call (win_PROT_Putc nd c)" tx_bytes "\<lambda>w. tx_ok w \<and> same_but_tx v w" 2047 for nd and v :: "'a win_scheme"
proof unfold_locales
  fix w :: "'a win_scheme" and c
  assume w: "tx_ok w \<and> same_but_tx v w" "length (tx_bytes w) < 2047"
  define w' where "w' = w\<lparr>win_txbuf := (win_txbuf w)[win_txpos w := c], win_txpos := win_txpos w + 1\<rparr>"
  have room: "win_txpos w + 1 < 2048" using w by (simp add: tx_ok_def tx_bytes_def)
  then have "call (win_PROT_Putc nd c) w = Inr w'"
    using w(1) by (simp add: call_def callv_def win_PROT_Putc_def skip_def tx_ok_def w'_def)
  moreover have "tx_ok w'" "tx_bytes w' = tx_bytes w @ [c]"
    using w(1) room by (auto simp: tx_ok_def tx_bytes_def w'_def take_update_snoc)
  moreover have "same_but_tx v w'" using w(1) by (simp add: w'_def same_but_tx_step)
  ultimately show "\<exists>s'. call (win_PROT_Putc nd c) w = Inr s' \<and> (tx_ok s' \<and> same_but_tx v s') \<and> tx_bytes s' = tx_bytes w @ [c]" by blast
qed

text \<open>C31: On Windows a message is handed to the serial port as one \<open>WriteFile\<close> of its whole frame, after which the
  transmit buffer is empty again, when it was empty before, the frame has at most 2047 bytes and the port takes it.\<close>

theorem win_frame_written:
  fixes w :: "'a win_scheme"
  assumes "length (win_txbuf w) = 2048" and "win_txpos w = 0" and "win_fd w \<noteq> - 1" and "length (frame d) \<le> 2047"
    and "r = A (win_calls w) (WriteFile (win_fd w) (frame d))" and "ok r \<noteq> 0" and "num r = int (length (frame d))"
  shows "\<exists>w'. PROT_SendFlagged (\<lambda>c. call (win_PROT_Putc nd c)) (call (win_PROT_Flush nd A (\<lambda>_. skip))) d w = Inr w'
    \<and> win_calls w' = win_calls w @ [(WriteFile (win_fd w) (frame d), r)] \<and> win_txpos w' = 0 \<and> win_fd w' = win_fd w"
proof -
  have "tx_ok w \<and> same_but_tx w w" "tx_bytes w = []" using assms(1,2) by (simp_all add: tx_ok_def tx_bytes_def same_but_tx_refl)
  with win_tx.send_frame [of w w d nd "call (win_PROT_Flush nd A (\<lambda>_. skip))"] assms(4) obtain w1 where
    w1: "PROT_SendFlagged (\<lambda>c. call (win_PROT_Putc nd c)) (call (win_PROT_Flush nd A (\<lambda>_. skip))) d w
      = call (win_PROT_Flush nd A (\<lambda>_. skip)) w1" "tx_ok w1" "same_but_tx w w1" "tx_bytes w1 = frame d" by auto
  have len: "win_txpos w1 = length (frame d)" using arg_cong [OF w1(4), of length] w1(2) by (simp add: tx_ok_def tx_bytes_def)
  have same: "win_calls w1 = win_calls w" "win_fd w1 = win_fd w" using w1(3) by (auto simp: same_but_tx_def)
  have ne: "frame d \<noteq> []" by (simp add: frame_def)
  have "call (win_PROT_Flush nd A (\<lambda>_. skip)) w1 = Inr (w1\<lparr>win_calls := win_calls w1 @ [(WriteFile (win_fd w) (frame d), r)], win_txpos := 0\<rparr>)"
    using w1(2,4) len ne assms(3,5,6,7) same
    by (simp add: call_def callv_def win_PROT_Flush_def win_PROT_Write_def thenv_def win32_def Let_def tx_ok_def tx_bytes_def returns_def skip_def)
  with w1(1) same show ?thesis by simp
qed

lemma win_frame_written_witness:
  "\<exists>w'. PROT_SendFlagged (\<lambda>c. call (win_PROT_Putc False c)) (call (win_PROT_Flush False (\<lambda>_ c. \<lparr>ok = 1, num = 7, got = []\<rparr>) (\<lambda>_. skip))) [1, 2, 3]
      (win0\<lparr>win_fd := 5\<rparr>) = Inr w'"
proof -
  have "length (frame [1, 2, 3]) = 7" by code_simp
  then show ?thesis
    using win_frame_written [of "win0\<lparr>win_fd := 5\<rparr>" "[1, 2, 3]" "\<lparr>ok = 1, num = 7, got = []\<rparr>" "\<lambda>_ c. \<lparr>ok = 1, num = 7, got = []\<rparr>" False]
    by (auto simp: win0_def)
qed

section \<open>Opening the port\<close>

text \<open>A path in the form of a Windows device, which the code has a branch for, is never opened: with \<open>\\.\COM\<close> and
  a number it is longer than the 7 characters that are let through.\<close>

lemma win_device_path_refused:
  fixes w :: "'a win_scheme"
  assumes "win_fd w = - 1" and "take 7 path = [0x5C, 0x5C, 0x2E, 0x5C, 0x43, 0x4F, 0x4D]" and "length path > 7"
  shows "win_PL_Connect nd A he path baud w = Inr (GCF_FAILED, w)"
  using assms by (simp add: win_PL_Connect_def port_name_of_def)

text \<open>The ports that were opened and not closed, over a history.\<close>

fun port_effect :: "win_call \<times> win_answer \<Rightarrow> int list \<Rightarrow> int list" where
  "port_effect (CreateFile path True, r) hs = (if ok r = - 1 then hs else ok r # hs)"
| "port_effect (CloseHandle h, r) hs = remove1 h hs"
| "port_effect _ hs = hs"

definition open_ports :: "win_history \<Rightarrow> int list" where
  "open_ports h = fold port_effect h []"

lemma open_ports_snoc [simp]: "open_ports (h @ [c]) = port_effect c (open_ports h)"
  by (simp add: open_ports_def)

definition serving :: "int \<Rightarrow> int list \<Rightarrow> 'a win_scheme \<Rightarrow> bool" where
  "serving p hs w \<longleftrightarrow> length (printf_buf w) = 1024 \<and> win_fd w = p \<and> open_ports (win_calls w) = hs"

lemma print_serving: "serving p hs w \<Longrightarrow> \<exists>w'. win_PL_Print A line w = Inr w' \<and> serving p hs w'"
  by (auto simp: win_PL_Print_def cond_def skip_def reads_def run32_def thenv_def win32_def serving_def Let_def)

lemma printf_serving:
  assumes "args_match False fmt args" "serving p hs w"
  shows "\<exists>w'. win_PL_Printf nd A level fmt args w = Inr w' \<and> serving p hs w'"
proof -
  have len: "length (printf_buf w) = 1024" using assms(2) by (simp add: serving_def)
  from printf_inside [OF assms(1) len] obtain ss where ss: "block [format_loop False fmt args, ss_close] (U_sstream_init (Some (printf_buf w)) 1024) = Inr ss"
    "inside ss" "ss_str ss ! ss_pos ss = 0" by blast
  from ss(2,3) c_string_at [of "ss_pos ss" "ss_str ss"] obtain s where s: "c_string (ss_str ss) = Inr s" by (auto simp: inside_def)
  have "serving p hs (w\<lparr>printf_buf := ss_str ss\<rparr>)" using assms(2) ss(2) by (simp add: serving_def inside_def)
  from print_serving [OF this, of A s] show ?thesis
    using ss s assms(2) \<open>serving p hs (w\<lparr>printf_buf := ss_str ss\<rparr>)\<close> by (auto simp: win_PL_Printf_def Let_def simp del: block.simps)
qed

text \<open>\<open>PL_Disconnect\<close> closes the port before it lets the core know, with whatever handler.\<close>

lemma disconnect_serving:
  assumes "serving p hs w" "p \<noteq> - 1"
  shows "\<exists>w'. serving (- 1) (remove1 p hs) w' \<and> win_PL_Disconnect nd A he w = he EV_DISCONNECTED w'"
proof -
  have "args_match False (bytes ''PL_Disconnect'' @ [0x0A]) []" by code_simp
  from printf_serving [OF this assms(1), of nd A DBG_DEBUG] obtain w1 where
    w1: "win_PL_Printf nd A DBG_DEBUG (bytes ''PL_Disconnect'' @ [0x0A]) [] w = Inr w1" "serving p hs w1" by blast
  define w2 where "w2 = w1\<lparr>win_txpos := 0, win_calls := win_calls w1 @ [(CloseHandle p, A (win_calls w1) (CloseHandle p))], win_fd := - 1\<rparr>"
  have "serving (- 1) (remove1 p hs) w2" using w1(2) by (simp add: serving_def w2_def)
  moreover have "win_PL_Disconnect nd A he w = he EV_DISCONNECTED w2"
    using w1 assms(2) by (simp add: win_PL_Disconnect_def cond_def upd_def reads_def run32_def thenv_def win32_def Let_def skip_def serving_def w2_def)
  ultimately show ?thesis by auto
qed

text \<open>The settings of a port that is open: the continuation, or the label \<open>Exit1\<close>, which closes it.\<close>

definition port_messages :: "byte list list" where
  "port_messages = [0x0A # bytes ''Error to Get the Com state'' @ [0x0A, 0x0A], 0x0A # bytes ''Error to Setting DCB Structure'' @ [0x0A, 0x0A],
     0x0A # bytes ''Error to Setting Time outs'', 0x0A # bytes ''Error to in Setting CommMask'' @ [0x0A, 0x0A]]"

lemma port_messages_plain: "\<forall>msg\<in>set port_messages. args_match False msg []"
  by code_simp

lemma settings_serving:
  assumes k: "\<And>w. serving p hs w \<Longrightarrow> P (k w)"
    and fail: "\<And>msg w. msg \<in> set port_messages \<Longrightarrow> serving p hs w \<Longrightarrow> P (fail msg w)"
    and "serving p hs w"
  shows "P (port_settings A baud h fail k w)"
proof -
  have call: "serving p hs v \<Longrightarrow> \<exists>r w'. win32 A c v = Inr (r, w') \<and> serving p hs w'"
    if "c \<in> {GetCommState h, SetCommState h baud, SetCommTimeouts h, SetCommMask h}" for c v
    using that by (auto simp: win32_def Let_def serving_def)
  have step: "P (thenv (win32 A c) (\<lambda>r. if ok r = 0 then fail msg else m) v)"
    if "c \<in> {GetCommState h, SetCommState h baud, SetCommTimeouts h, SetCommMask h}"
      and "\<And>v. serving p hs v \<Longrightarrow> P (m v)"
      and "msg \<in> set port_messages"
      and "serving p hs v" for c msg m v
  proof -
    from call [OF that(1,4)] obtain r v' where "win32 A c v = Inr (r, v')" "serving p hs v'" by blast
    with that(2) [of v'] fail [OF that(3), of v'] show ?thesis by (simp add: thenv_def)
  qed
  show ?thesis
    unfolding port_settings_def by (intro step k assms(3)) (simp_all add: port_messages_def)
qed

lemma port_name_total: "0 \<notin> set path \<Longrightarrow> \<exists>buf. port_name_of path = Inr buf"
proof -
  have ok: "ss_ok (U_sstream_init (Some (replicate 32 0)) 32)" by (simp add: ss_ok_def U_sstream_init_def)
  have put: "\<exists>ss'. U_sstream_put_str s ss = Inr ss' \<and> ss_ok ss'" if "ss_ok ss" for s ss
    using that by (auto simp: put_str_eq ss_write_ok)
  from put [OF ok] obtain s1 where s1: "U_sstream_put_str path (U_sstream_init (Some (replicate 32 0)) 32) = Inr s1" "ss_ok s1" by blast
  from put [OF ok] obtain s2 where s2: "U_sstream_put_str [0x5C, 0x5C, 0x2E, 0x5C] (U_sstream_init (Some (replicate 32 0)) 32) = Inr s2" "ss_ok s2" by blast
  from put [OF s2(2)] obtain s3 where s3: "U_sstream_put_str path s2 = Inr s3" "ss_ok s3" by blast
  from ss_ok_c_string [OF s1(2)] ss_ok_c_string [OF s3(2)] s1(1) s2(1) s3(1) show ?thesis
    by (auto simp: port_name_of_def Let_def)
qed

text \<open>
  What a call of \<open>PL_Connect\<close> owes to the ports \<open>hs\<close> that were open before: it succeeds with its port
  open, fails with none, or closes the port and leaves the rest to the handler of \<open>EV_DISCONNECTED\<close>.
\<close>

definition connect_done :: "int list \<Rightarrow> (event \<Rightarrow> 'a win_action) \<Rightarrow> fault + (gcf_status \<times> 'a win_scheme) \<Rightarrow> bool" where
  "connect_done hs he r \<longleftrightarrow>
     (\<exists>w'. r = Inr (GCF_SUCCESS, w') \<and> win_fd w' \<noteq> - 1 \<and> open_ports (win_calls w') = win_fd w' # hs)
   \<or> (\<exists>w'. r = Inr (GCF_FAILED, w') \<and> win_fd w' = - 1 \<and> open_ports (win_calls w') = hs)
   \<or> (\<exists>w1. win_fd w1 = - 1 \<and> open_ports (win_calls w1) = hs \<and> r = returns (he EV_DISCONNECTED) GCF_FAILED w1)"

lemma done_closed: "serving (- 1) hs w \<Longrightarrow> connect_done hs he (Inr (GCF_FAILED, w))"
  by (simp add: connect_done_def serving_def)

lemma done_opened: "serving p (p # hs) w \<Longrightarrow> p \<noteq> - 1 \<Longrightarrow> connect_done hs he (Inr (GCF_SUCCESS, w))"
  by (simp add: connect_done_def serving_def)

lemma done_left: "serving (- 1) hs w \<Longrightarrow> connect_done hs he (returns (he EV_DISCONNECTED) GCF_FAILED w)"
  by (auto simp: connect_done_def serving_def)

lemma exit1_closes:
  assumes "p \<noteq> - 1" and "msg \<in> set port_messages" and "serving p (p # hs) w"
  shows "connect_done hs he (returns (block [win_PL_Printf nd A DBG_DEBUG msg [], win_PL_Disconnect nd A he]) GCF_FAILED w)"
proof -
  have "args_match False msg []" using assms(2) port_messages_plain by blast
  from printf_serving [OF this assms(3), of nd A DBG_DEBUG] obtain w1 where
    w1: "win_PL_Printf nd A DBG_DEBUG msg [] w = Inr w1" "serving p (p # hs) w1" by blast
  from disconnect_serving [OF w1(2) assms(1), of nd A he] obtain w2 where
    w2: "serving (- 1) hs w2" "win_PL_Disconnect nd A he w1 = he EV_DISCONNECTED w2" by auto
  have "returns (block [win_PL_Printf nd A DBG_DEBUG msg [], win_PL_Disconnect nd A he]) GCF_FAILED w
      = returns (he EV_DISCONNECTED) GCF_FAILED w2"
    using w1(1) w2(2) by (simp add: returns_def split: sum.splits)
  then show ?thesis using done_left [OF w2(1), of he] by simp
qed

lemma connect_opened_serving:
  assumes "serving (ok r) (if ok r = - 1 then hs else ok r # hs) w"
  shows "connect_done hs he (connect_opened nd A he buf baud r w)"
proof (cases "ok r = - 1")
  case True
  with assms have "serving (- 1) hs w" by simp
  moreover have "args_match False (bytes ''failed to open %s'' @ [0x0A]) [AStr buf]" by code_simp
  ultimately obtain w2 where "win_PL_Printf nd A DBG_DEBUG (bytes ''failed to open %s'' @ [0x0A]) [AStr buf] w = Inr w2" "serving (- 1) hs w2"
    using printf_serving by metis
  with True done_closed show ?thesis by (simp add: connect_opened_def returns_def)
next
  case False
  have s: "serving (ok r) (ok r # hs) w" using assms False by simp
  have "args_match False (bytes ''connected com port %s, %lu'' @ [0x0A]) [AStr buf, ANum n]" for n by code_simp
  then have k: "connect_done hs he (returns (win_PL_Printf nd A DBG_DEBUG (bytes ''connected com port %s, %lu'' @ [0x0A]) [AStr buf, ANum n]) GCF_SUCCESS v)"
    if "serving (ok r) (ok r # hs) v" for v n
    using printf_serving [OF _ that] done_opened [OF _ False] unfolding returns_def by (metis (no_types, lifting) sum.simps(6))
  show ?thesis
    unfolding connect_opened_def if_not_P [OF False]
    by (rule settings_serving [OF k exit1_closes [OF False] s])
qed

lemma create_serving:
  assumes "serving (- 1) hs w"
  shows "connect_done hs he (thenv (win32 A (CreateFile buf True))
    (\<lambda>r. after (upd (\<lambda>w. w\<lparr>win_fd := ok r\<rparr>)) (connect_opened nd A he buf baud r)) w)"
proof -
  define r where "r = A (win_calls w) (CreateFile buf True)"
  have "serving (ok r) (if ok r = - 1 then hs else ok r # hs) (w\<lparr>win_calls := win_calls w @ [(CreateFile buf True, r)], win_fd := ok r\<rparr>)"
    using assms by (simp add: serving_def)
  from connect_opened_serving [OF this, of he] show ?thesis
    by (simp add: thenv_def win32_def Let_def r_def [symmetric] after_def upd_def)
qed

lemma connect_serving:
  assumes "serving (- 1) hs w" "0 \<notin> set path"
  shows "connect_done hs he (win_PL_Connect nd A he path baud w)"
proof -
  have announced: "connect_done hs he (after (block [win_PL_Printf nd A DBG_INFO (bytes ''connect %s, baudrate %d'' @ [0x0A]) [AStr buf, ANum n], upd (\<lambda>w. w\<lparr>win_txpos := 0\<rparr>)])
      (thenv (win32 A (CreateFile buf True)) (\<lambda>r. after (upd (\<lambda>w. w\<lparr>win_fd := ok r\<rparr>)) (connect_opened nd A he buf baud r))) w)" for buf n
  proof -
    have "args_match False (bytes ''connect %s, baudrate %d'' @ [0x0A]) [AStr buf, ANum n]" by code_simp
    from printf_serving [OF this assms(1), of nd A DBG_INFO] obtain w1 where
      w1: "win_PL_Printf nd A DBG_INFO (bytes ''connect %s, baudrate %d'' @ [0x0A]) [AStr buf, ANum n] w = Inr w1" "serving (- 1) hs w1" by blast
    then have "serving (- 1) hs (w1\<lparr>win_txpos := 0\<rparr>)" by (simp add: serving_def)
    from create_serving [OF this, of he] w1(1) show ?thesis by (simp add: after_def upd_def)
  qed
  obtain buf where buf: "port_name_of path = Inr buf" using port_name_total [OF assms(2)] by blast
  have "win_fd w = - 1" using assms(1) by (simp add: serving_def)
  with announced done_closed [OF assms(1)] buf show ?thesis by (cases buf) (auto simp: win_PL_Connect_def)
qed

text \<open>C30: Opening a port on Windows, when none is connected and whatever the system answers, ends in one of three ways:
  it succeeds with the new port open besides those open before, it fails with exactly those open, or it
  has closed the port it got and ends with the core's handler of \<open>EV_DISCONNECTED\<close>, entered with no port
  connected; when that handler returns, whatever it does, the result is a failure too.\<close>

theorem win_connect_gives_back:
  fixes w :: "'a win_scheme"
  assumes "length (printf_buf w) = 1024" and "win_fd w = - 1" and "0 \<notin> set path"
  shows "(\<exists>w'. win_PL_Connect nd A he path baud w = Inr (GCF_SUCCESS, w')
        \<and> win_fd w' \<noteq> - 1 \<and> open_ports (win_calls w') = win_fd w' # open_ports (win_calls w))
    \<or> (\<exists>w'. win_PL_Connect nd A he path baud w = Inr (GCF_FAILED, w')
        \<and> win_fd w' = - 1 \<and> open_ports (win_calls w') = open_ports (win_calls w))
    \<or> (\<exists>w1. win_PL_Connect nd A he path baud w = returns (he EV_DISCONNECTED) GCF_FAILED w1
        \<and> win_fd w1 = - 1 \<and> open_ports (win_calls w1) = open_ports (win_calls w))"
  using connect_serving [OF _ assms(3), of "open_ports (win_calls w)" w he nd A baud] assms(1,2)
  by (auto simp: connect_done_def serving_def)

text \<open>A system that opens the port and refuses its settings.\<close>

lemma win_connect_gives_back_witness:
  "\<exists>st w'. win_PL_Connect False (\<lambda>_ c. \<lparr>ok = (case c of CreateFile _ _ \<Rightarrow> 7 | _ \<Rightarrow> 0), num = 0, got = []\<rparr>) (\<lambda>_. skip)
      [0x43, 0x4F, 0x4D, 0x33] PL_BAUDRATE_38400 win0 = Inr (st, w')
    \<and> open_ports (win_calls w') = (if st = GCF_SUCCESS then [win_fd w'] else [])"
  using win_connect_gives_back [of win0 "[0x43, 0x4F, 0x4D, 0x33]" False
      "\<lambda>_ c. \<lparr>ok = (case c of CreateFile _ _ \<Rightarrow> 7 | _ \<Rightarrow> 0), num = 0, got = []\<rparr>" "\<lambda>_. skip" PL_BAUDRATE_38400]
  by (fastforce simp: win0_def open_ports_def returns_def skip_def)

section \<open>The reset over FTD2XX\<close>

text \<open>In contrast to the reset with libftdi (\<open>ftdi_reset_claims_success\<close>) a success means that the line was toggled: the
  last calls but the closing are the four of \<open>FT_SetBitMode\<close> and none failed.\<close>

lemma ft_bits_done:
  "ft_bits A h ms w = Inr (True, w') \<Longrightarrow> \<exists>rs. map fst rs = map (\<lambda>(b, m). FtSetBitMode h b m) ms \<and> (\<forall>r\<in>set rs. ok (snd r) = 0) \<and> win_calls w' = win_calls w @ rs"
proof (induction ms arbitrary: w)
  case Nil
  then show ?case by (simp add: give_def)
next
  case (Cons m ms)
  obtain b md where m: "m = (b, md)" by force
  define r where "r = A (win_calls w) (FtSetBitMode h b md)"
  from Cons.prems have "ok r = 0" "ft_bits A h ms (w\<lparr>win_calls := win_calls w @ [(FtSetBitMode h b md, r)]\<rparr>) = Inr (True, w')"
    by (auto simp: m thenv_def win32_def Let_def r_def give_def split: if_splits)
  from Cons.IH [OF this(2)] obtain rs where "map fst rs = map (\<lambda>(b, m). FtSetBitMode h b m) ms" "\<forall>r\<in>set rs. ok (snd r) = 0"
      "win_calls w' = win_calls w @ (FtSetBitMode h b md, r) # rs" by auto
  with \<open>ok r = 0\<close> m show ?case by (intro exI [of _ "(FtSetBitMode h b md, r) # rs"]) simp
qed

lemma thenv_Inr: "thenv m k w = Inr x \<longleftrightarrow> (\<exists>a w'. m w = Inr (a, w') \<and> k a w' = Inr x)"
  by (auto simp: thenv_def split: sum.splits)

lemma thenv_win32: "thenv (win32 A c) k w = k (A (win_calls w) c) (w\<lparr>win_calls := win_calls w @ [(c, A (win_calls w) c)]\<rparr>)"
  by (simp add: thenv_def win32_def Let_def)

lemma case_sum_Inr:
  assumes "(case x of Inl f \<Rightarrow> Inl f | Inr y \<Rightarrow> g y) = Inr z" and "\<And>y. g y = Inr z \<Longrightarrow> P"
  shows P
  using assms by (cases x) simp_all

lemma ft_devices_done:
  "ft_devices A s dev n w = Inr (0, w') \<Longrightarrow> \<exists>h cs rs c. win_calls w' = cs @ rs @ [c] \<and> fst c = FtClose h
    \<and> map fst rs = [FtSetBitMode h 0xF1 0x20, FtSetBitMode h 0xF0 0x20, FtSetBitMode h 0xF1 0x20, FtSetBitMode h 0 0] \<and> (\<forall>r\<in>set rs. ok (snd r) = 0)"
proof (induction n arbitrary: dev w)
  case 0
  then show ?case by (simp add: give_def)
next
  case (Suc n)
  define r1 w1 where "r1 = A (win_calls w) (FtOpen dev)" and "w1 = w\<lparr>win_calls := win_calls w @ [(FtOpen dev, r1)]\<rparr>"
  define r2 w2 where "r2 = A (win_calls w1) (FtGetDeviceInfo (num r1))" and "w2 = w1\<lparr>win_calls := win_calls w1 @ [(FtGetDeviceInfo (num r1), r2)]\<rparr>"
  define close where "close v = (FtClose (num r1), A (win_calls v) (FtClose (num r1)))" for v :: "'a win_scheme"
  show ?case
  proof (cases "ok r1 = 0")
    case False
    with Suc.prems have "ft_devices A s (dev + 1) n w1 = Inr (0, w')"
      by (simp add: thenv_def win32_def Let_def r1_def [symmetric] w1_def [symmetric])
    then show ?thesis by (rule Suc.IH)
  next
    case True
    with Suc.prems have "thenv (win32 A (FtGetDeviceInfo (num r1))) (\<lambda>i w. case if ok i = 0
         then U_sstream_starts_with (got i) (U_sstream_init (Some (s @ [0])) (length s)) else Inr False of Inl f \<Rightarrow> Inl f
       | Inr found \<Rightarrow> thenv (if found then ft_bits A (num r1) [(0xF1, 0x20), (0xF0, 0x20), (0xF1, 0x20), (0, 0)] else give False) (\<lambda>done.
           after (run32 A (FtClose (num r1))) (if done then give 0 else ft_devices A s (dev + 1) n)) w) w1 = Inr (0, w')"
      by (simp only: ft_devices.simps thenv_win32 r1_def [symmetric] w1_def [symmetric] simp_thms if_False)
    then obtain found where *: "thenv (if found then ft_bits A (num r1) [(0xF1, 0x20), (0xF0, 0x20), (0xF1, 0x20), (0, 0)] else give False) (\<lambda>done.
           after (run32 A (FtClose (num r1))) (if done then give 0 else ft_devices A s (dev + 1) n)) w2 = Inr (0, w')"
      unfolding thenv_win32 r2_def [symmetric] w2_def [symmetric] by (rule case_sum_Inr)
    then obtain d w3 where w3: "(if found then ft_bits A (num r1) [(0xF1, 0x20), (0xF0, 0x20), (0xF1, 0x20), (0, 0)] else give False) w2 = Inr (d, w3)"
      and rest: "after (run32 A (FtClose (num r1))) (if d then give 0 else ft_devices A s (dev + 1) n) w3 = Inr (0, w')"
      unfolding thenv_Inr by blast
    have "run32 A (FtClose (num r1)) w3 = Inr (w3\<lparr>win_calls := win_calls w3 @ [close w3]\<rparr>)"
      by (simp add: run32_def thenv_def win32_def Let_def skip_def close_def)
    with rest have close: "(if d then give 0 else ft_devices A s (dev + 1) n) (w3\<lparr>win_calls := win_calls w3 @ [close w3]\<rparr>) = Inr (0, w')"
      by (simp add: after_def)
    show ?thesis
    proof (cases d)
      case False
      with close have "ft_devices A s (dev + 1) n (w3\<lparr>win_calls := win_calls w3 @ [close w3]\<rparr>) = Inr (0, w')" by simp
      then show ?thesis by (rule Suc.IH)
    next
      case True
      with w3 have "ft_bits A (num r1) [(0xF1, 0x20), (0xF0, 0x20), (0xF1, 0x20), (0, 0)] w2 = Inr (True, w3)"
        by (simp add: give_def split: if_splits)
      from ft_bits_done [OF this] obtain rs where rs: "map fst rs = map (\<lambda>(b, m). FtSetBitMode (num r1) b m) [(0xF1, 0x20), (0xF0, 0x20), (0xF1, 0x20), (0, 0)]"
        "\<forall>r\<in>set rs. ok (snd r) = 0" "win_calls w3 = win_calls w2 @ rs" by blast
      have "map fst rs = [FtSetBitMode (num r1) 0xF1 0x20, FtSetBitMode (num r1) 0xF0 0x20, FtSetBitMode (num r1) 0xF1 0x20, FtSetBitMode (num r1) 0 0]"
        using rs(1) by simp
      moreover note rs(2,3)
      moreover from close True have "win_calls w' = win_calls w3 @ [close w3]" by (auto simp: give_def)
      moreover have "fst (close w3) = FtClose (num r1)" by (simp add: close_def)
      ultimately show ?thesis
        by (intro exI [of _ "num r1"] exI [of _ "win_calls w2"] exI [of _ rs] exI [of _ "close w3"]) simp
    qed
  qed
qed

text \<open>What a first call reports is whether \<open>ft_devices\<close> was reached.\<close>

lemma ft_reset_done:
  assumes "win_PL_ResetFTDI A s w = Inr (0, w')"
  shows "\<exists>h cs rs c. win_calls w' = cs @ rs @ [c] \<and> fst c = FtClose h
    \<and> map fst rs = [FtSetBitMode h 0xF1 0x20, FtSetBitMode h 0xF0 0x20, FtSetBitMode h 0xF1 0x20, FtSetBitMode h 0 0] \<and> (\<forall>r\<in>set rs. ok (snd r) = 0)"
proof -
  from assms obtain n w1 where "ft_devices A s 0 n w1 = Inr (0, w')"
    by (auto simp: win_PL_ResetFTDI_def thenv_def win32_def Let_def give_def split: if_splits)
  then show ?thesis by (rule ft_devices_done)
qed

end
